(* ===== verification/Prelude.thy ===== *)
theory Prelude
  imports Main "HOL-Library.Word" "HOL-Library.Multiset"
begin

unbundle bit_operations_syntax

text \<open>
  Shared vocabulary of the development: the types the C++ code uses (addresses, the widths of
  its integers), the ways a call can end, and the generic lemmas on functions, lists and
  multisets that several components need.

  A pointer is a natural number, \<open>NULL\<close> is 0.  A call that can end the process is a value of
  the sum type \<open>abort + 'a\<close>: \<open>Inl\<close> of the way it ends, \<open>Inr\<close> of what it returns.  A loop over a
  pointer chain may run forever on a cyclic chain; it is a partial function whose result is
  \<open>None\<close> when it does not return, so its type is \<open>'a run\<close>.
\<close>

type_synonym addr = nat
type_synonym u8 = "8 word"
type_synonym u16 = "16 word"
type_synonym u32 = "32 word"
type_synonym u64 = "64 word"

abbreviation (input) NULL :: addr where "NULL \<equiv> 0"

text \<open>
  How a C++ call of the simulator can end other than by returning: a failed \<open>assert\<close>, a call of
  \<open>exit\<close> with a status, the use of a null or freed pointer, a division by zero, or an access outside of
  an array.
\<close>

datatype abort = AssertFailed | Exit int | NullDeref | FreedDeref | DivByZero | OutOfBounds

type_synonym 'a run = "(abort + 'a) option"

text \<open>Going on with the result of a call that returned.\<close>

definition run_bind :: "'a run \<Rightarrow> ('a \<Rightarrow> 'b run) \<Rightarrow> 'b run" where
  "run_bind r f = (case r of None \<Rightarrow> None | Some (Inl a) \<Rightarrow> Some (Inl a) | Some (Inr x) \<Rightarrow> f x)"

lemma run_bind_Inr: "run_bind r f = Some (Inr y) \<longleftrightarrow> (\<exists>x. r = Some (Inr x) \<and> f x = Some (Inr y))"
  by (auto simp: run_bind_def split: option.splits sum.splits)

lemma map_sum_Inr_iff [simp]: "map_sum id f r = Inr y \<longleftrightarrow> (\<exists>x. r = Inr x \<and> y = f x)"
  by (cases r) auto

text \<open>The same for calls that always come back, and a loop of such calls.\<close>

fun sum_bind :: "'e + 'a \<Rightarrow> ('a \<Rightarrow> 'e + 'b) \<Rightarrow> 'e + 'b" where
  "sum_bind (Inl a) f = Inl a"
| "sum_bind (Inr x) f = f x"

primrec sum_fold :: "('b \<Rightarrow> 'a \<Rightarrow> 'e + 'a) \<Rightarrow> 'b list \<Rightarrow> 'a \<Rightarrow> 'e + 'a" where
  "sum_fold f [] s = Inr s"
| "sum_fold f (x # xs) s = sum_bind (f x s) (sum_fold f xs)"

lemma sum_fold_append: "sum_fold f (xs @ ys) s = sum_bind (sum_fold f xs s) (sum_fold f ys)"
proof (induction xs arbitrary: s)
  case (Cons x xs)
  then show ?case by (cases "f x s") simp_all
qed simp

named_theorems queue_simps \<open>equations of the queue operations\<close>
named_theorems frame_simps \<open>what an operation leaves unchanged\<close>

subsection \<open>Lists\<close>

lemma takeWhile_dropWhile_insert_mset:
  "mset (takeWhile P xs @ [x] @ dropWhile P xs) = add_mset x (mset xs)"
proof -
  have "mset (takeWhile P xs) + mset (dropWhile P xs) = mset xs"
    by (metis mset_append takeWhile_dropWhile_id)
  then show ?thesis by simp
qed

lemma find_Some_in_set: "List.find P xs = Some x \<Longrightarrow> x \<in> set xs \<and> P x"
  by (auto simp: find_Some_iff)

lemma not_in_image: "f x \<notin> f ` A \<Longrightarrow> y \<in> A \<Longrightarrow> f y \<noteq> f x"
  by (metis imageI)

lemma distinct_map_append:
  "distinct (map f (xs @ [x])) \<longleftrightarrow> distinct (map f xs) \<and> f x \<notin> f ` set xs"
  by auto

lemma sorted_wrt_filter_imp: "sorted_wrt R xs \<Longrightarrow> sorted_wrt R (filter P xs)"
  by (induction xs) auto

subsection \<open>Bytes\<close>

lemma bit_times_2: "bit (w * 2 :: u8) n \<longleftrightarrow> 0 < n \<and> n < 8 \<and> bit w (n - 1)"
  using bit_double_iff [of w n] bit_imp_le_length [of w "n - 1"] by (auto simp: mult.commute dest: bit_imp_le_length)

lemma div_8_less: "n < 8 * k \<Longrightarrow> n div 8 < (k :: nat)"
  by (rule less_mult_imp_div_less) (simp add: mult.commute)

subsection \<open>Swapping two entries of an array\<close>

text \<open>
  An array is a function from indices.  Exchanging the entries of two indices of a finite index
  set does not change the multiset of the entries.
\<close>

lemma image_mset_swap:
  assumes "finite A" "i \<in> A" "j \<in> A"
  shows "image_mset (f(i := f j, j := f i)) (mset_set A) = image_mset f (mset_set A)"
proof (cases "i = j")
  case True
  then show ?thesis by simp
next
  case False
  define B where "B = A - {i, j}"
  have A: "A = insert i (insert j B)" and fin: "finite B" and ni: "i \<notin> insert j B" and nj: "j \<notin> B"
    using assms False by (auto simp: B_def)
  have "image_mset (f(i := f j, j := f i)) (mset_set B) = image_mset f (mset_set B)"
    using fin ni nj by (intro image_mset_cong) auto
  with A fin ni nj False show ?thesis by simp
qed

lemma image_mset_upd_other:
  assumes "finite A" "i \<notin> A"
  shows "image_mset (f(i := x)) (mset_set A) = image_mset f (mset_set A)"
  using assms by (intro image_mset_cong) auto

end
