(* ===== verification/EventStore.thy ===== *)
theory EventStore
  imports Prelude
begin

text \<open>
  The event structure of \<open>event.h\<close>, the store of events the engine's pointers point into, the
  event functions of \<open>nctuns_api.cc\<close> that only write an event, and singly linked chains through
  \<open>next_ep\<close>.  A chain is the list of the addresses met from a head pointer to \<open>NULL\<close>; the lemmas
  say when a write keeps a chain.
\<close>

record event =
  ev_flag :: u32
  ev_optval :: u32
  ev_pid :: u32
  ev_socket_fd :: u32
  timeStamp :: u64
  perio :: u64
  calloutObj :: addr
  memfun :: addr
  func :: addr
  DataInfo :: addr
  priority :: u8
  next_ep :: addr
  created_nid :: u32
  created_ts :: u64

type_synonym mem = "addr \<Rightarrow> event"

abbreviation ts :: "mem \<Rightarrow> addr \<Rightarrow> u64" where "ts m p \<equiv> timeStamp (m p)"
abbreviation prio :: "mem \<Rightarrow> addr \<Rightarrow> u8" where "prio m p \<equiv> priority (m p)"
abbreviation nxt :: "mem \<Rightarrow> addr \<Rightarrow> addr" where "nxt m \<equiv> \<lambda>p. next_ep (m p)"

text \<open>The values of \<open>flag\<close>.\<close>

definition DEFAULT :: u32 where "DEFAULT = 1"
definition KTIMEOUT :: u32 where "KTIMEOUT = 2"
definition CHKTUN :: u32 where "CHKTUN = 4"
definition CMD_SERVER :: u32 where "CMD_SERVER = 8"

lemmas event_flags = DEFAULT_def KTIMEOUT_def CHKTUN_def CMD_SERVER_def

subsection \<open>Writing events\<close>

text \<open>
  The body of \<open>createEvent\<close> on the block \<open>malloc\<close> returned: it leaves \<open>pid\<close> and \<open>socket_fd\<close> as
  they were in that block.  The macro \<open>CREATE_EVENT\<close> leaves \<open>memfun\<close> and \<open>created_nid\<close> as well.
\<close>

definition createEvent :: "event \<Rightarrow> event" where
  "createEvent e = e\<lparr>created_nid := 10000, created_ts := 0, timeStamp := 0, perio := 0,
     priority := 0x40 AND 0x3f, calloutObj := NULL, memfun := NULL, func := NULL,
     DataInfo := NULL, next_ep := NULL, ev_flag := DEFAULT, ev_optval := 0\<rparr>"

definition CREATE_EVENT :: "event \<Rightarrow> event" where
  "CREATE_EVENT e = e\<lparr>created_ts := 0, timeStamp := 0, perio := 0,
     priority := 0x40 AND 0x3f, calloutObj := NULL, func := NULL,
     DataInfo := NULL, next_ep := NULL, ev_flag := DEFAULT, ev_optval := 0\<rparr>"

definition SET_EVENT_TIMESTAMP :: "addr \<Rightarrow> u64 \<Rightarrow> u64 \<Rightarrow> mem \<Rightarrow> mem" where
  "SET_EVENT_TIMESTAMP ep t p m = m(ep := (m ep)\<lparr>timeStamp := t, perio := p\<rparr>)"

definition setEventTimeStamp :: "addr \<Rightarrow> u64 \<Rightarrow> u64 \<Rightarrow> mem \<Rightarrow> int \<times> mem" where
  "setEventTimeStamp ep t p m =
     (if ep \<noteq> NULL then (1, m(ep := (m ep)\<lparr>timeStamp := t, perio := p\<rparr>)) else (-1, m))"

definition setEventCallOutFunc :: "addr \<Rightarrow> addr \<Rightarrow> addr \<Rightarrow> mem \<Rightarrow> int \<times> mem" where
  "setEventCallOutFunc ep fun data m =
     (if ep \<noteq> NULL \<and> fun \<noteq> NULL
      then (1, m(ep := (m ep)\<lparr>func := fun, DataInfo := data, calloutObj := NULL\<rparr>))
      else (-1, m))"

definition setEventCallOutObj :: "addr \<Rightarrow> addr \<Rightarrow> addr \<Rightarrow> addr \<Rightarrow> mem \<Rightarrow> int \<times> mem" where
  "setEventCallOutObj ep obj memf data m =
     (if ep \<noteq> NULL \<and> obj \<noteq> NULL \<and> memf \<noteq> NULL
      then (1, m(ep := (m ep)\<lparr>calloutObj := obj, memfun := memf, DataInfo := data,
                              func := NULL\<rparr>))
      else (-1, m))"

definition set_next :: "addr \<Rightarrow> addr \<Rightarrow> mem \<Rightarrow> mem" where
  "set_next p q m = m(p := (m p)\<lparr>next_ep := q\<rparr>)"

lemma nxt_set_next [simp]: "nxt (set_next p q m) = (nxt m)(p := q)"
  by (auto simp: set_next_def)

lemma ts_set_next [simp]: "timeStamp (set_next p q m a) = timeStamp (m a)"
  by (simp add: set_next_def)

lemma prio_set_next [simp]: "priority (set_next p q m a) = priority (m a)"
  by (simp add: set_next_def)

lemma next_set_next: "next_ep (set_next p q m a) = (if a = p then q else next_ep (m a))"
  by (simp add: set_next_def)

lemma next_set_next_same [simp]: "next_ep (set_next p q m p) = q"
  by (simp add: set_next_def)

lemma set_next_other [simp]: "a \<noteq> p \<Longrightarrow> set_next p q m a = m a"
  by (simp add: set_next_def)

lemma nxt_set_timestamp [simp]: "next_ep (SET_EVENT_TIMESTAMP ep t p m a) = next_ep (m a)"
  by (simp add: SET_EVENT_TIMESTAMP_def)

lemma set_timestamp_same [simp]:
  "timeStamp (SET_EVENT_TIMESTAMP ep t p m ep) = t"
  by (simp add: SET_EVENT_TIMESTAMP_def)

lemma set_timestamp_other [simp]:
  "a \<noteq> ep \<Longrightarrow> SET_EVENT_TIMESTAMP ep t p m a = m a"
  by (simp add: SET_EVENT_TIMESTAMP_def)

subsection \<open>Chains\<close>

text \<open>\<open>seg nx p xs q\<close>: following \<open>nx\<close> from \<open>p\<close> meets the addresses \<open>xs\<close> and arrives at \<open>q\<close>.\<close>

primrec seg :: "(addr \<Rightarrow> addr) \<Rightarrow> addr \<Rightarrow> addr list \<Rightarrow> addr \<Rightarrow> bool" where
  "seg nx p [] q \<longleftrightarrow> p = q"
| "seg nx p (x # xs) q \<longleftrightarrow> p = x \<and> x \<noteq> NULL \<and> seg nx (nx x) xs q"

abbreviation chain :: "(addr \<Rightarrow> addr) \<Rightarrow> addr \<Rightarrow> addr list \<Rightarrow> bool" where
  "chain nx p xs \<equiv> seg nx p xs NULL"

lemma seg_append [simp]: "seg nx p (xs @ ys) q \<longleftrightarrow> (\<exists>r. seg nx p xs r \<and> seg nx r ys q)"
  by (induction xs arbitrary: p) auto

lemma seg_upd [simp]: "a \<notin> set xs \<Longrightarrow> seg (nx(a := b)) p xs q = seg nx p xs q"
  by (induction xs arbitrary: p) auto

lemma seg_cong: "(\<And>a. a \<in> set xs \<Longrightarrow> nx a = nx' a) \<Longrightarrow> seg nx p xs q = seg nx' p xs q"
  by (induction xs arbitrary: p) auto

lemma chain_NULL [simp]: "chain nx NULL xs \<longleftrightarrow> xs = []"
  by (cases xs) auto

lemma chain_Cons_iff: "p \<noteq> NULL \<Longrightarrow> chain nx p xs \<longleftrightarrow> (\<exists>ys. xs = p # ys \<and> chain nx (nx p) ys)"
  by (cases xs) auto

lemma chain_unique: "chain nx p xs \<Longrightarrow> chain nx p ys \<Longrightarrow> xs = ys"
proof (induction xs arbitrary: p ys)
  case (Cons x xs)
  then show ?case by (cases ys) auto
qed simp

lemma chain_not_NULL: "chain nx p xs \<Longrightarrow> NULL \<notin> set xs"
  by (induction xs arbitrary: p) auto

lemma chain_head_notin_tail: "chain nx (nx x) xs \<Longrightarrow> x \<noteq> NULL \<Longrightarrow> x \<notin> set xs"
proof
  assume c: "chain nx (nx x) xs" and x: "x \<noteq> NULL" "x \<in> set xs"
  from x obtain ys zs where xs: "xs = ys @ x # zs"
    by (meson split_list)
  from c xs have "chain nx (nx x) zs" by auto
  with c have "xs = zs" by (rule chain_unique)
  with xs show False by simp
qed

lemma chain_distinct: "chain nx p xs \<Longrightarrow> distinct xs"
  by (induction xs arbitrary: p) (auto dest: chain_head_notin_tail)

lemma seg_last: "seg nx p (xs @ [x]) q \<Longrightarrow> nx x = q \<and> x \<noteq> NULL"
  by auto

lemma chain_head_NULL: "chain nx p xs \<Longrightarrow> p = NULL \<longleftrightarrow> xs = []"
  by (cases xs) auto

text \<open>Linking \<open>t\<close> between \<open>x\<close> and its successor.\<close>

lemma chain_insert_after:
  assumes "chain nx p (xs @ [x] @ ys)" "t \<notin> set (xs @ [x] @ ys)" "t \<noteq> NULL"
    and "nx' = nx(t := nx x, x := t)"
  shows "chain nx' p (xs @ [x] @ [t] @ ys)"
proof -
  have d: "distinct (xs @ [x] @ ys)" using assms(1) by (rule chain_distinct)
  obtain r where r: "seg nx p xs r" "r = x" "x \<noteq> NULL" "chain nx (nx x) ys"
    using assms(1) by auto
  have "seg nx' p xs x" using r(1,2) d assms(2,4) by simp
  moreover have "chain nx' (nx x) ys" using r(4) d assms(2,4) by simp
  ultimately show ?thesis using assms(2-4) r(3) by auto
qed

text \<open>Linking \<open>t\<close>, whose link is null, behind the last node.\<close>

lemma chain_append:
  assumes "chain nx p (xs @ [x])" "t \<notin> set (xs @ [x])" "t \<noteq> NULL" "nx t = NULL"
  shows "chain (nx(x := t)) p (xs @ [x, t])"
proof -
  have "nx(x := t) = nx(t := nx x, x := t)" using assms by (auto simp: fun_eq_iff)
  then show ?thesis using chain_insert_after [of nx p xs x "[]" t] assms by simp
qed

text \<open>Unlinking the successor \<open>y\<close> of \<open>x\<close>.\<close>

lemma chain_unlink_after:
  assumes "chain nx p (xs @ [x, y] @ ys)" and "nx' = nx(x := nx y, y := q)"
  shows "chain nx' p (xs @ [x] @ ys)"
proof -
  have d: "distinct (xs @ [x, y] @ ys)" using assms(1) by (rule chain_distinct)
  have "seg nx p xs x" "x \<noteq> NULL" "chain nx (nx y) ys" using assms(1) by auto
  then show ?thesis using d assms(2) by auto
qed

end
