(* ===== verification/QueueSpecs.thy ===== *)
theory QueueSpecs
  imports Prelude
begin

text \<open>
  The two queue interfaces of the simulator, as locales with the laws a provider promises.
  \<open>event_queue\<close> is what the scheduler needs from the event heap and from the timer list: removal
  gives an event of least key.  \<open>fifo_queue\<close> is what the packet schedulers need from an interface
  queue: packets leave in the order they came.  Both relate a concrete state to the abstract one
  by a predicate, because the providers are pointer structures.  The functions \<open>drain\<close> and
  \<open>fifo_run\<close> are the clients whose correctness is proved once here.
\<close>

subsection \<open>Queues of timed events\<close>

fun drain :: "('s \<Rightarrow> ('e \<times> 's) option) \<Rightarrow> nat \<Rightarrow> 's \<Rightarrow> 'e list" where
  "drain del 0 s = []"
| "drain del (Suc n) s = (case del s of None \<Rightarrow> [] | Some (e, s') \<Rightarrow> e # drain del n s')"

text \<open>
  \<open>may s e\<close>: what the caller must ensure before it inserts \<open>e\<close>, beside \<open>e\<close> not being queued.
\<close>

locale event_queue =
  fixes rep :: "'s \<Rightarrow> 'e multiset \<Rightarrow> bool"
    and key :: "'s \<Rightarrow> 'e \<Rightarrow> 'k::linorder"
    and may :: "'s \<Rightarrow> 'e \<Rightarrow> bool"
    and ins :: "'e \<Rightarrow> 's \<Rightarrow> 's option"
    and del :: "'s \<Rightarrow> ('e \<times> 's) option"
  assumes ins_rep: "rep s M \<Longrightarrow> e \<notin># M \<Longrightarrow> may s e \<Longrightarrow> ins e s = Some s' \<Longrightarrow> rep s' (add_mset e M) \<and> key s' = key s"
    and del_None: "rep s M \<Longrightarrow> del s = None \<longleftrightarrow> M = {#}"
    and del_Some: "rep s M \<Longrightarrow> del s = Some (e, s') \<Longrightarrow>
      e \<in># M \<and> rep s' (M - {#e#}) \<and> key s' = key s \<and> (\<forall>x\<in>#M. key s e \<le> key s x)"
begin

lemma drain_subset: "rep s M \<Longrightarrow> mset (drain del n s) \<subseteq># M"
proof (induction n arbitrary: s M)
  case (Suc n)
  show ?case
  proof (cases "del s")
    case (Some p)
    obtain e s' where p: "p = (e, s')" by fastforce
    with del_Some Suc.prems Some have "e \<in># M" "rep s' (M - {#e#})" by blast+
    moreover from Suc.IH [OF this(2)] have "mset (drain del n s') \<subseteq># M - {#e#}" .
    ultimately show ?thesis using Some p
      by (simp add: insert_subset_eq_iff)
  qed simp
qed simp

lemma drain_complete: "rep s M \<Longrightarrow> size M \<le> n \<Longrightarrow> mset (drain del n s) = M"
proof (induction n arbitrary: s M)
  case 0
  then show ?case by simp
next
  case (Suc n)
  show ?case
  proof (cases "del s")
    case None
    with del_None Suc.prems(1) have "M = {#}" by blast
    with None show ?thesis by simp
  next
    case (Some p)
    obtain e s' where p: "p = (e, s')" by fastforce
    with del_Some Suc.prems(1) Some have e: "e \<in># M" "rep s' (M - {#e#})" by blast+
    with Suc.prems(2) have "size (M - {#e#}) \<le> n" by (simp add: size_Diff_singleton)
    with Suc.IH e(2) have "mset (drain del n s') = M - {#e#}" by blast
    with Some p e(1) show ?thesis by simp
  qed
qed

lemma drain_sorted: "rep s M \<Longrightarrow> sorted (map (key s) (drain del n s))"
proof (induction n arbitrary: s M)
  case (Suc n)
  show ?case
  proof (cases "del s")
    case (Some p)
    obtain e s' where p: "p = (e, s')" by fastforce
    with del_Some Suc.prems Some have
      s': "rep s' (M - {#e#})" "key s' = key s" and least: "\<forall>x\<in>#M. key s e \<le> key s x" by blast+
    have "set (drain del n s') \<subseteq> set_mset (M - {#e#})"
      using drain_subset [OF s'(1)] by (metis set_mset_mono set_mset_mset)
    then have "\<forall>x\<in>set (drain del n s'). key s e \<le> key s x"
      using least in_diffD by fastforce
    with Suc.IH [OF s'(1)] s'(2) Some p show ?thesis by simp
  qed simp
qed simp

lemma ins_drain:
  assumes "rep s M" "e \<notin># M" "may s e" "ins e s = Some s'" "size M < n"
  shows "mset (drain del n s') = add_mset e M \<and> sorted (map (key s) (drain del n s'))"
proof -
  from ins_rep [OF assms(1-4)] have r: "rep s' (add_mset e M)" "key s' = key s" by auto
  then have "mset (drain del n s') = add_mset e M"
    using assms(5) by (intro drain_complete) simp_all
  with drain_sorted [OF r(1), of n] r(2) show ?thesis by simp
qed

lemma least_first:
  assumes "rep s M" "del s = Some (e, s')" "x \<in># M"
  shows "key s e \<le> key s x"
  using del_Some assms by blast

end

subsection \<open>First in, first out\<close>

datatype 'a fifo_op = Put 'a | Take

text \<open>Running operations on a queue and recording what was taken out.\<close>

fun fifo_run :: "('a \<Rightarrow> 's \<Rightarrow> 's) \<Rightarrow> ('s \<Rightarrow> 'a option \<times> 's) \<Rightarrow> 'a fifo_op list \<Rightarrow> 's \<Rightarrow> 'a list \<times> 's" where
  "fifo_run enq deq [] s = ([], s)"
| "fifo_run enq deq (Put x # ops) s = fifo_run enq deq ops (enq x s)"
| "fifo_run enq deq (Take # ops) s =
     (case deq s of
        (None, s') \<Rightarrow> fifo_run enq deq ops s'
      | (Some x, s') \<Rightarrow> (let (ys, s'') = fifo_run enq deq ops s' in (x # ys, s'')))"

fun puts :: "'a fifo_op list \<Rightarrow> 'a list" where
  "puts [] = []"
| "puts (Put x # ops) = x # puts ops"
| "puts (Take # ops) = puts ops"

text \<open>
  \<open>rep s xs\<close>: state \<open>s\<close> holds the packets \<open>xs\<close>, oldest first.  \<open>val s x\<close>: \<open>x\<close> is a packet that is
  not queued and may be put.
\<close>

locale fifo_queue =
  fixes rep :: "'s \<Rightarrow> 'a list \<Rightarrow> bool"
    and val :: "'s \<Rightarrow> 'a \<Rightarrow> bool"
    and enq :: "'a \<Rightarrow> 's \<Rightarrow> 's"
    and deq :: "'s \<Rightarrow> 'a option \<times> 's"
  assumes enq_rep: "rep s xs \<Longrightarrow> val s x \<Longrightarrow> x \<notin> set xs \<Longrightarrow> rep (enq x s) (xs @ [x])"
    and enq_val: "rep s xs \<Longrightarrow> val s x \<Longrightarrow> y \<noteq> x \<Longrightarrow> y \<notin> set xs \<Longrightarrow> val s y \<Longrightarrow> val (enq x s) y"
    and deq_Nil: "rep s [] \<Longrightarrow> fst (deq s) = None \<and> rep (snd (deq s)) []"
    and deq_Cons: "rep s (x # xs) \<Longrightarrow> fst (deq s) = Some x \<and> rep (snd (deq s)) xs"
    and deq_val: "rep s xs \<Longrightarrow> y \<notin> set xs \<Longrightarrow> val s y \<Longrightarrow> val (snd (deq s)) y"
begin

lemma fifo_order:
  assumes "rep s xs" and "distinct (xs @ puts ops)" and "\<forall>x\<in>set (puts ops). val s x"
    and "fifo_run enq deq ops s = (ys, s')"
  shows "\<exists>zs. rep s' zs \<and> ys @ zs = xs @ puts ops"
  using assms
proof (induction ops arbitrary: s xs ys s')
  case Nil
  then show ?case by simp
next
  case (Cons op ops)
  show ?case
  proof (cases op)
    case (Put x)
    with Cons.prems have x: "val s x" "x \<notin> set xs" by auto
    with Cons.prems(1) have "rep (enq x s) (xs @ [x])" by (rule enq_rep)
    moreover have "val (enq x s) y" if y: "y \<in> set (puts ops)" for y
    proof -
      have "y \<noteq> x" "y \<notin> set xs" "val s y" using Cons.prems(2,3) Put y by auto
      then show ?thesis by (rule enq_val [OF Cons.prems(1) x(1)])
    qed
    ultimately show ?thesis using Cons.IH [of "enq x s" "xs @ [x]" ys s'] Cons.prems Put by auto
  next
    case Take
    have v: "\<forall>y\<in>set (puts ops). val (snd (deq s)) y"
      using deq_val [OF Cons.prems(1)] Cons.prems(2,3) Take by auto
    show ?thesis
    proof (cases xs)
      case Nil
      obtain d where d: "deq s = (None, d)" "rep d []"
        using deq_Nil Cons.prems(1) Nil by (metis prod.collapse)
      then show ?thesis using Cons.IH [OF d(2), of ys s'] v Cons.prems Take Nil by simp
    next
      case (Cons x xs')
      obtain d where d: "deq s = (Some x, d)" "rep d xs'"
        using deq_Cons Cons.prems(1) Cons by (metis prod.collapse)
      obtain ys' where ys: "fifo_run enq deq ops d = (ys', s')" "ys = x # ys'"
        using Cons.prems(4) Take d(1) by (auto split: prod.splits)
      have "\<exists>zs. rep s' zs \<and> ys' @ zs = xs' @ puts ops"
        by (rule Cons.IH [OF d(2) _ _ ys(1)]) (use Cons.prems(2) v d(1) Take Cons in auto)
      then show ?thesis using ys(2) Take Cons by auto
    qed
  qed
qed

end

end
