(* ===== verification/EventHeap.thy ===== *)
theory EventHeap
  imports EventStore QueueSpecs
begin

text \<open>
  The event heap of \<open>heap.cc\<close>: a binary heap of event pointers in the array \<open>eventHeap\<close>, whose
  root is entry 1 and where the parent of entry \<open>i\<close> is entry \<open>i/2\<close>.  The array is a function from
  indices, \<open>NULL\<close> everywhere when the object is made; entries 1 to \<open>numEvent\<close> are the events in the
  heap, and only those are read.  \<open>up_loop\<close> and \<open>down_loop\<close> are the two while loops, \<open>heap_ok\<close>
  the invariant the simulator relies on (the root has a least timestamp) and \<open>heap_events\<close> the
  multiset of events the heap holds.
\<close>

record heapobj =
  maxEvent :: nat
  numEvent :: nat
  numInsertEvent :: u64
  numDequeueEvent :: u64
  eventHeap :: "nat \<Rightarrow> addr"

definition HeapObject :: "nat \<Rightarrow> heapobj" where
  "HeapObject max_heap = \<lparr>maxEvent = max_heap, numEvent = 0, numInsertEvent = 0,
     numDequeueEvent = 0, eventHeap = (\<lambda>_. NULL)\<rparr>"

text \<open>
  The loop of \<open>insertEvent\<close>: from the new last entry \<open>i\<close> towards the root, moving parents down.
  It is called with \<open>i \<ge> 1\<close>, where \<open>i \<le> 1\<close> is the code's test \<open>i == 1\<close>.
\<close>

fun up_loop :: "mem \<Rightarrow> addr \<Rightarrow> (nat \<Rightarrow> addr) \<Rightarrow> nat \<Rightarrow> (nat \<Rightarrow> addr) \<times> nat" where
  "up_loop m ep a i =
     (if i \<le> 1 then (a, i)
      else if ts m ep > ts m (a (i div 2)) then (a, i)
      else if ts m ep = ts m (a (i div 2)) \<and> prio m ep \<le> prio m (a (i div 2)) then (a, i)
      else if ts m ep = ts m (a (i div 2)) \<and> prio m ep > prio m (a (i div 2))
        then up_loop m ep (a(i := a (i div 2))) (i div 2)
      else up_loop m ep (a(i := a (i div 2))) (i div 2))"

declare up_loop.simps [simp del]

definition insertEvent :: "mem \<Rightarrow> u64 \<Rightarrow> u64 \<Rightarrow> addr \<Rightarrow> heapobj \<Rightarrow> abort + (int \<times> heapobj)" where
  "insertEvent m now maxsimtime ep h =
     (if ep = NULL then Inr (-1, h)
      else if int (numEvent h) \<ge> int (maxEvent h) - 1 then Inl (Exit (-1))
      else if ts m ep < now then Inl (Exit 0)
      else if maxsimtime > 0 \<and> ts m ep > maxsimtime then Inr (0, h)
      else let n = numEvent h + 1;
               (a, i) = up_loop m ep (eventHeap h) n
           in Inr (1, h\<lparr>numEvent := n, numInsertEvent := numInsertEvent h + 1,
                        eventHeap := a(i := ep)\<rparr>))"

text \<open>The smaller child, as \<open>dequeueEvent\<close> picks it: \<open>j\<close> or \<open>j+1\<close>.\<close>

definition pick_child :: "mem \<Rightarrow> (nat \<Rightarrow> addr) \<Rightarrow> nat \<Rightarrow> nat \<Rightarrow> nat" where
  "pick_child m a n j =
     (if j < n then
        (if ts m (a j) \<ge> ts m (a (j + 1)) then j + 1
         else if ts m (a j) = ts m (a (j + 1)) \<and> prio m (a j) < prio m (a (j + 1)) then j + 1
         else j)
      else j)"

text \<open>
  The loop of \<open>dequeueEvent\<close>: from the root towards the leaves, moving children up, until \<open>epLast\<close>
  fits.  It is called with \<open>j = 2\<close>, and \<open>j\<close> only grows, so \<open>0 < j\<close> always holds.
\<close>

lemma pick_child_cases: "pick_child m a n j = j \<or> (pick_child m a n j = j + 1 \<and> j < n)"
  by (simp add: pick_child_def)

function down_loop :: "mem \<Rightarrow> addr \<Rightarrow> nat \<Rightarrow> (nat \<Rightarrow> addr) \<Rightarrow> nat \<Rightarrow> nat \<Rightarrow> (nat \<Rightarrow> addr) \<times> nat" where
  "down_loop m epLast n a i j =
     (if 0 < j \<and> j \<le> n then
        (let c = pick_child m a n j in
         if ts m epLast < ts m (a c) then (a, i)
         else if ts m epLast = ts m (a c) \<and> prio m epLast > prio m (a c) then (a, i)
         else down_loop m epLast n (a(i := a c)) c (2 * c))
      else (a, i))"
  by pat_completeness auto
termination
proof (relation "measure (\<lambda>(m, l, n, a, i, j). Suc n - j)", goal_cases)
  case (2 m l n a i j c)
  then show ?case using pick_child_cases [of m a n j] by auto
qed simp

declare down_loop.simps [simp del]

definition dequeueEvent :: "mem \<Rightarrow> u64 \<Rightarrow> heapobj \<Rightarrow> addr \<times> heapobj" where
  "dequeueEvent m curtime h =
     (if numEvent h = 0 then (NULL, h)
      else let ep = eventHeap h 1;
               epLast = eventHeap h (numEvent h);
               n = numEvent h - 1;
               (a, i) = down_loop m epLast n (eventHeap h) 1 2
           in (ep, h\<lparr>numEvent := n, numDequeueEvent := numDequeueEvent h + 1,
                     eventHeap := a(i := epLast)\<rparr>))"

definition DumpNumEvent :: "heapobj \<Rightarrow> nat" where
  "DumpNumEvent h = numEvent h"

definition DumpNumInsertEvent :: "heapobj \<Rightarrow> u64 \<times> heapobj" where
  "DumpNumInsertEvent h = (numInsertEvent h, h\<lparr>numInsertEvent := 0\<rparr>)"

definition DumpNumDequeueEvent :: "heapobj \<Rightarrow> u64 \<times> heapobj" where
  "DumpNumDequeueEvent h = (numDequeueEvent h, h\<lparr>numDequeueEvent := 0\<rparr>)"

subsection \<open>The invariant and the contents\<close>

definition ts_heap :: "mem \<Rightarrow> (nat \<Rightarrow> addr) \<Rightarrow> nat \<Rightarrow> bool" where
  "ts_heap m a n \<longleftrightarrow> (\<forall>k\<in>{2..n}. ts m (a (k div 2)) \<le> ts m (a k))"

definition heap_ok :: "mem \<Rightarrow> heapobj \<Rightarrow> bool" where
  "heap_ok m h \<longleftrightarrow> numEvent h < maxEvent h \<and> ts_heap m (eventHeap h) (numEvent h)"

definition entries :: "(nat \<Rightarrow> addr) \<Rightarrow> nat \<Rightarrow> addr multiset" where
  "entries a n = image_mset a (mset_set {1..n})"

definition heap_events :: "heapobj \<Rightarrow> addr multiset" where
  "heap_events h = entries (eventHeap h) (numEvent h)"

lemma entries_swap:
  "i \<in> {1..n} \<Longrightarrow> j \<in> {1..n} \<Longrightarrow> entries (f(i := f j, j := f i)) n = entries f n"
  unfolding entries_def by (rule image_mset_swap) auto

lemma entries_upd_other: "i \<notin> {1..n} \<Longrightarrow> entries (f(i := x)) n = entries f n"
  unfolding entries_def by (rule image_mset_upd_other) auto

lemma entries_Suc: "entries f (Suc n) = add_mset (f (Suc n)) (entries f n)"
proof -
  have "{1..Suc n} = insert (Suc n) {1..n}" by auto
  then show ?thesis by (simp add: entries_def)
qed

lemma entries_first:
  assumes "1 \<le> n"
  shows "entries f n = add_mset (f 1) (image_mset f (mset_set {2..n}))"
proof -
  have "{1..n} = insert 1 {2..n}" using assms by auto
  then show ?thesis by (simp add: entries_def)
qed

lemma entries_replace_root:
  assumes "1 \<le> n"
  shows "add_mset (f 1) (entries (f(1 := x)) n) = add_mset x (entries f n)"
proof -
  have "image_mset (f(1 := x)) (mset_set {2..n}) = image_mset f (mset_set {2..n})"
    by (rule image_mset_upd_other) auto
  then show ?thesis by (simp add: entries_first [OF assms] del: One_nat_def)
qed

lemma heap_ok_HeapObject: "0 < k \<Longrightarrow> heap_ok m (HeapObject k)"
  by (simp add: heap_ok_def HeapObject_def ts_heap_def)

lemma heap_events_HeapObject [simp]: "heap_events (HeapObject k) = {#}"
  by (simp add: heap_events_def entries_def HeapObject_def)

lemma ts_heap_root:
  assumes "ts_heap m a n" "k \<in> {1..n}"
  shows "ts m (a 1) \<le> ts m (a k)"
  using assms(2)
proof (induction k rule: less_induct)
  case (less k)
  show ?case
  proof (cases "k = 1")
    case False
    with less.prems have k: "k \<in> {2..n}" "k div 2 < k" "k div 2 \<in> {1..n}" by auto
    then have "ts m (a 1) \<le> ts m (a (k div 2))" by (intro less.IH)
    also have "\<dots> \<le> ts m (a k)" using assms(1) k(1) by (auto simp: ts_heap_def)
    finally show ?thesis .
  qed simp
qed

lemma heap_events_root_least:
  assumes "heap_ok m h" "e \<in># heap_events h"
  shows "ts m (eventHeap h 1) \<le> ts m e"
  using assms ts_heap_root by (auto simp: heap_ok_def heap_events_def entries_def)

lemma size_heap_events [simp]: "size (heap_events h) = numEvent h"
  by (simp add: heap_events_def entries_def)

lemma entry_in_heap_events: "k \<in> {1..numEvent h} \<Longrightarrow> eventHeap h k \<in># heap_events h"
  by (auto simp: heap_events_def entries_def)

text \<open>Whether an object is a heap depends on the timestamps of the events it holds only.\<close>

lemma heap_ok_cong:
  assumes "\<And>e. e \<in># heap_events h \<Longrightarrow> ts m' e = ts m e"
  shows "heap_ok m' h = heap_ok m h"
proof -
  have "ts m' (eventHeap h k) = ts m (eventHeap h k)
      \<and> ts m' (eventHeap h (k div 2)) = ts m (eventHeap h (k div 2))" if "k \<in> {2..numEvent h}" for k
    using that by (intro conjI assms entry_in_heap_events) auto
  then show ?thesis by (simp add: heap_ok_def ts_heap_def)
qed

lemma heap_events_empty_iff: "heap_events h = {#} \<longleftrightarrow> numEvent h = 0"
  by (metis size_eq_0_iff_empty size_heap_events)

lemma root_in_heap_events: "numEvent h \<noteq> 0 \<Longrightarrow> eventHeap h 1 \<in># heap_events h"
  by (auto simp: heap_events_def entries_def)

subsection \<open>Insertion\<close>

text \<open>
  The array with the new event written at the hole \<open>i\<close> is a heap except between \<open>i\<close> and its parent;
  the loop keeps this and the multiset of entries, and stops where the hole fits.
\<close>

definition heap_by :: "(addr \<Rightarrow> addr \<Rightarrow> bool) \<Rightarrow> (nat \<Rightarrow> addr) \<Rightarrow> nat \<Rightarrow> bool" where
  "heap_by R a n \<longleftrightarrow> (\<forall>k\<in>{2..n}. R (a (k div 2)) (a k))"

text \<open>
  The two orders in which the array is a heap after insertions: by timestamp alone, and by
  timestamp with the higher priority first among equal timestamps.
\<close>

definition no_later :: "mem \<Rightarrow> addr \<Rightarrow> addr \<Rightarrow> bool" where
  "no_later m x y \<longleftrightarrow> ts m x \<le> ts m y"

definition served_first :: "mem \<Rightarrow> addr \<Rightarrow> addr \<Rightarrow> bool" where
  "served_first m x y \<longleftrightarrow> ts m x < ts m y \<or> (ts m x = ts m y \<and> prio m x \<ge> prio m y)"

definition stops_at :: "mem \<Rightarrow> addr \<Rightarrow> addr \<Rightarrow> bool" where
  "stops_at m ep p \<longleftrightarrow> ts m ep > ts m p \<or> (ts m ep = ts m p \<and> prio m ep \<le> prio m p)"

text \<open>What an order must satisfy for the insertion loop to keep it.\<close>

definition up_order :: "mem \<Rightarrow> addr \<Rightarrow> (addr \<Rightarrow> addr \<Rightarrow> bool) \<Rightarrow> bool" where
  "up_order m ep R \<longleftrightarrow> transp R \<and> (\<forall>p. if stops_at m ep p then R p ep else R ep p)"

lemma up_order_no_later: "up_order m ep (no_later m)"
  by (auto simp: up_order_def no_later_def stops_at_def transp_def)

lemma up_order_served_first: "up_order m ep (served_first m)"
  by (auto simp: up_order_def served_first_def stops_at_def transp_def)

lemma ts_heap_by: "ts_heap m = heap_by (no_later m)"
  by (intro ext) (simp add: ts_heap_def heap_by_def no_later_def)

lemma up_loop_stop:
  "i \<le> 1 \<or> stops_at m ep (a (i div 2)) \<Longrightarrow> up_loop m ep a i = (a, i)"
  by (auto simp: up_loop.simps [of m ep a i] stops_at_def)

lemma up_loop_go:
  "\<not> (i \<le> 1 \<or> stops_at m ep (a (i div 2))) \<Longrightarrow>
   up_loop m ep a i = up_loop m ep (a(i := a (i div 2))) (i div 2)"
  by (auto simp: up_loop.simps [of m ep a i] stops_at_def)

definition up_inv :: "(addr \<Rightarrow> addr \<Rightarrow> bool) \<Rightarrow> (nat \<Rightarrow> addr) \<Rightarrow> nat \<Rightarrow> nat \<Rightarrow> bool" where
  "up_inv R f n i \<longleftrightarrow> i \<in> {1..n}
     \<and> (\<forall>k\<in>{2..n}. k \<noteq> i \<longrightarrow> R (f (k div 2)) (f k))
     \<and> (\<forall>k\<in>{2..n}. k div 2 = i \<longrightarrow> 2 \<le> i \<longrightarrow> R (f (i div 2)) (f k))"

lemma up_inv_step:
  assumes inv: "up_inv R (a(i := ep)) n i" and i: "1 < i" and le: "R ep (a (i div 2))"
    and tr: "\<And>x y z. R x y \<Longrightarrow> R y z \<Longrightarrow> R x z"
  shows "up_inv R (a(i := a (i div 2), i div 2 := ep)) n (i div 2)"
proof -
  let ?p = "i div 2"
  let ?f = "a(i := ep)" and ?g = "a(i := a ?p, ?p := ep)"
  have p: "?p \<noteq> i" "i \<noteq> ?p" "1 \<le> ?p" "?p < i" "?p div 2 \<noteq> i" using i by auto
  have heap: "\<And>k. k \<in> {2..n} \<Longrightarrow> k \<noteq> i \<Longrightarrow> R (?f (k div 2)) (?f k)"
    and kids: "\<And>k. k \<in> {2..n} \<Longrightarrow> k div 2 = i \<Longrightarrow> R (?f ?p) (?f k)"
    using inv i by (auto simp: up_inv_def)
  have "R (?g (k div 2)) (?g k)" if k: "k \<in> {2..n}" "k \<noteq> ?p" for k
  proof -
    consider (eq) "k = i" | (child) "k div 2 = i" | (sib) "k div 2 = ?p" "k \<noteq> i"
      | (other) "k \<noteq> i" "k div 2 \<noteq> i" "k div 2 \<noteq> ?p" by blast
    then show ?thesis
    proof cases
      case eq then show ?thesis by (simp add: p(1,2) le)
    next
      case child
      then have "k \<noteq> i" using k(1) by auto
      with child kids [OF k(1) child] k(2) p(1,2) show ?thesis by auto
    next
      case sib
      with heap [of k] k p(1) have "R (a ?p) (a k)" by simp
      with sib k p(1) le show ?thesis by (auto intro: tr)
    next
      case other then show ?thesis using heap [of k] k by simp
    qed
  qed
  moreover have "R (?g (?p div 2)) (?g k)"
    if k: "k \<in> {2..n}" "k div 2 = ?p" and p2: "2 \<le> ?p" for k
  proof -
    have pn: "?p \<in> {2..n}" using p2 p(4) inv by (auto simp: up_inv_def)
    have 1: "R (a (?p div 2)) (a ?p)" using heap [OF pn p(1)] p(1,5) by simp
    have kp: "k \<noteq> ?p" "?p div 2 \<noteq> ?p" using k(2) p2 by auto
    show ?thesis
    proof (cases "k = i")
      case True then show ?thesis using 1 p(1,5) kp by simp
    next
      case False
      then have "R (a ?p) (a k)" using heap [OF k(1)] k(2) p(1) by simp
      then show ?thesis using 1 False kp p(5) by (auto intro: tr)
    qed
  qed
  ultimately show ?thesis using p inv by (auto simp: up_inv_def)
qed

lemma up_loop_spec:
  assumes "up_inv R (a(i := ep)) n i" and "up_order m ep R" and "up_loop m ep a i = (a', i')"
  shows "i' \<in> {1..n} \<and> heap_by R (a'(i' := ep)) n
    \<and> entries (a'(i' := ep)) n = entries (a(i := ep)) n"
  using assms
proof (induction i arbitrary: a rule: less_induct)
  case (less i)
  let ?p = "i div 2"
  have tr: "\<And>x y z. R x y \<Longrightarrow> R y z \<Longrightarrow> R x z"
    using less.prems(2) by (auto simp: up_order_def dest: transpD)
  show ?case
  proof (cases "i \<le> 1 \<or> stops_at m ep (a ?p)")
    case True
    then have r: "a' = a" "i' = i" using less.prems(3) by (auto simp: up_loop_stop)
    have "R ((a(i := ep)) (k div 2)) ((a(i := ep)) k)" if "k \<in> {2..n}" for k
    proof (cases "k = i")
      case True
      with that \<open>i \<le> 1 \<or> _\<close> less.prems(2) have "k div 2 \<noteq> i" "R (a ?p) ep"
        by (auto simp: up_order_def split: if_splits)
      with True show ?thesis by simp
    next
      case False then show ?thesis using less.prems(1) that by (auto simp: up_inv_def)
    qed
    then show ?thesis using r less.prems(1) by (auto simp: heap_by_def up_inv_def)
  next
    case False
    then have i: "1 < i" and le: "R ep (a ?p)"
      using less.prems(2) by (auto simp: up_order_def split: if_splits)
    let ?b = "a(i := a ?p)"
    have inv': "up_inv R (?b(?p := ep)) n ?p"
      using up_inv_step [OF less.prems(1) i le tr] by simp
    have rec: "up_loop m ep ?b ?p = (a', i')"
      using up_loop_go [of i m ep a] False less.prems(3) by simp
    have IH: "i' \<in> {1..n} \<and> heap_by R (a'(i' := ep)) n
      \<and> entries (a'(i' := ep)) n = entries (?b(?p := ep)) n"
      by (rule less.IH [OF _ inv' less.prems(2) rec]) (use i in simp)
    have "?b(?p := ep) = (a(i := ep))(i := (a(i := ep)) ?p, ?p := (a(i := ep)) i)"
      using i by auto
    moreover have "i \<in> {1..n}" "?p \<in> {1..n}" using less.prems(1) i by (auto simp: up_inv_def)
    ultimately have "entries (?b(?p := ep)) n = entries (a(i := ep)) n"
      using entries_swap [of i n ?p "a(i := ep)"] by (simp only:)
    with IH show ?thesis by (simp only: simp_thms)
  qed
qed

lemma up_inv_initial:
  assumes "heap_by R a n"
  shows "up_inv R (a(Suc n := ep)) (Suc n) (Suc n)"
proof -
  have "k div 2 \<noteq> Suc n" if "k \<in> {2..Suc n}" for k using that by auto
  then show ?thesis using assms by (auto simp: up_inv_def heap_by_def)
qed

lemma insertEvent_heap_by:
  assumes heap: "heap_by R (eventHeap h) (numEvent h)" and R: "up_order m ep R"
    and ins: "insertEvent m now mx ep h = Inr (1, h')"
  shows "heap_by R (eventHeap h') (numEvent h') \<and> heap_events h' = add_mset ep (heap_events h)
    \<and> numEvent h' = Suc (numEvent h) \<and> maxEvent h' = maxEvent h \<and> numEvent h' < maxEvent h'
    \<and> now \<le> ts m ep \<and> ep \<noteq> NULL \<and> (mx = 0 \<or> ts m ep \<le> mx)"
proof -
  let ?n = "Suc (numEvent h)"
  obtain a i where ai: "up_loop m ep (eventHeap h) ?n = (a, i)" by fastforce
  have h': "h' = h\<lparr>numEvent := ?n, numInsertEvent := numInsertEvent h + 1, eventHeap := a(i := ep)\<rparr>"
    and g: "ep \<noteq> NULL" "\<not> int (numEvent h) \<ge> int (maxEvent h) - 1" "now \<le> ts m ep"
      "mx = 0 \<or> ts m ep \<le> mx"
    using ins ai by (auto simp: insertEvent_def Let_def word_gt_0 split: if_splits)
  from up_loop_spec [OF up_inv_initial [OF heap] R ai] have
    heap': "heap_by R (a(i := ep)) ?n" and
    ms: "entries (a(i := ep)) ?n = entries ((eventHeap h)(?n := ep)) ?n" by auto
  have "entries ((eventHeap h)(?n := ep)) ?n = add_mset ep (heap_events h)"
    by (simp add: entries_Suc entries_upd_other heap_events_def)
  with ms have "heap_events h' = add_mset ep (heap_events h)"
    by (simp add: h' heap_events_def)
  then show ?thesis using h' g heap' by auto
qed

lemma insertEvent_ok:
  assumes "heap_ok m h" "insertEvent m now mx ep h = Inr (1, h')"
  shows "heap_ok m h' \<and> heap_events h' = add_mset ep (heap_events h)
    \<and> numEvent h' = Suc (numEvent h) \<and> maxEvent h' = maxEvent h
    \<and> now \<le> ts m ep \<and> ep \<noteq> NULL \<and> (mx = 0 \<or> ts m ep \<le> mx)"
  using insertEvent_heap_by [OF _ up_order_no_later assms(2)] assms(1)
  by (auto simp: heap_ok_def ts_heap_by)

lemma insertEvent_succeeds:
  assumes "ep \<noteq> NULL" "Suc (numEvent h) < maxEvent h" "now \<le> ts m ep" "mx = 0 \<or> ts m ep \<le> mx"
  shows "\<exists>h'. insertEvent m now mx ep h = Inr (1, h')"
  using assms by (auto simp: insertEvent_def Let_def word_gt_0 split: prod.splits)

lemma insertEvent_Inr_cases:
  assumes "insertEvent m now mx ep h = Inr (r, h')"
  shows "r = 1 \<or> (r \<le> 0 \<and> h' = h)"
  using assms by (auto simp: insertEvent_def Let_def split: if_splits prod.splits)

subsection \<open>Removal\<close>

text \<open>
  The array with \<open>epLast\<close> written at the hole \<open>i\<close> is a heap except between \<open>i\<close> and its children.
\<close>

definition down_inv :: "mem \<Rightarrow> (nat \<Rightarrow> addr) \<Rightarrow> nat \<Rightarrow> nat \<Rightarrow> bool" where
  "down_inv m f n i \<longleftrightarrow> 1 \<le> i
     \<and> (\<forall>k\<in>{2..n}. k div 2 \<noteq> i \<longrightarrow> ts m (f (k div 2)) \<le> ts m (f k))
     \<and> (\<forall>k\<in>{2..n}. k div 2 = i \<longrightarrow> 2 \<le> i \<longrightarrow> ts m (f (i div 2)) \<le> ts m (f k))"

lemma pick_child_least:
  assumes "2 * i \<le> n" "k \<in> {2..n}" "k div 2 = i" "1 \<le> i"
  shows "ts m (a (pick_child m a n (2 * i))) \<le> ts m (a k)"
proof -
  have "k = 2 * i \<or> (k = 2 * i + 1 \<and> 2 * i < n)" using assms by auto
  then show ?thesis by (auto simp: pick_child_def)
qed

lemma down_inv_step:
  assumes inv: "down_inv m (a(i := l)) n i" and n: "2 * i \<le> n"
    and c: "c = pick_child m a n (2 * i)" and ge: "ts m (a c) \<le> ts m l"
  shows "down_inv m (a(i := a c, c := l)) n c"
proof -
  let ?f = "a(i := l)" and ?g = "a(i := a c, c := l)"
  have i: "1 \<le> i" using inv by (simp add: down_inv_def)
  have cd: "c = 2 * i \<or> c = 2 * i + 1" "c div 2 = i" "c \<noteq> i" "c \<in> {2..n}"
    using pick_child_cases [of m a n "2 * i"] n c i by auto
  have heap: "\<And>k. k \<in> {2..n} \<Longrightarrow> k div 2 \<noteq> i \<Longrightarrow> ts m (?f (k div 2)) \<le> ts m (?f k)"
    and kids: "\<And>k. k \<in> {2..n} \<Longrightarrow> k div 2 = i \<Longrightarrow> 2 \<le> i \<Longrightarrow> ts m (?f (i div 2)) \<le> ts m (?f k)"
    using inv by (auto simp: down_inv_def)
  have "ts m (?g (k div 2)) \<le> ts m (?g k)" if k: "k \<in> {2..n}" "k div 2 \<noteq> c" for k
  proof -
    consider (par) "k div 2 = i" | (eq) "k = i" "k div 2 \<noteq> i" | (other) "k \<noteq> i" "k div 2 \<noteq> i" by blast
    then show ?thesis
    proof cases
      case par
      have "k \<noteq> i" using par k(1) by auto
      moreover have "ts m (a c) \<le> ts m (a k)"
        using pick_child_least [OF n k(1) par i] c by simp
      ultimately show ?thesis using par cd(3) ge by simp
    next
      case eq
      then have "ts m (?f (i div 2)) \<le> ts m (?f c)" using kids [OF cd(4,2)] k by auto
      then show ?thesis using eq cd k by auto
    next
      case other
      then have "k \<noteq> c" using cd(2) by auto
      then show ?thesis using heap [OF k(1)] other k(2) by simp
    qed
  qed
  moreover have "ts m (?g (c div 2)) \<le> ts m (?g k)" if k: "k \<in> {2..n}" "k div 2 = c" for k
  proof -
    have "k \<noteq> i" "k \<noteq> c" "c \<noteq> i" using k cd i by auto
    then show ?thesis using heap [OF k(1)] k(2) cd by simp
  qed
  ultimately show ?thesis using cd i by (auto simp: down_inv_def)
qed

lemma down_loop_spec:
  assumes "down_inv m (a(i := l)) n i" "i \<le> n \<or> n = 0" "down_loop m l n a i j = (a', i')" "j = 2 * i"
  shows "(i' \<in> {1..n} \<or> n = 0) \<and> ts_heap m (a'(i' := l)) n
    \<and> entries (a'(i' := l)) n = entries (a(i := l)) n"
  using assms
proof (induction m l n a i j rule: down_loop.induct)
  case (1 m l n a i j)
  let ?c = "pick_child m a n j"
  have i: "1 \<le> i" using "1.prems"(1) by (simp add: down_inv_def)
  let ?go = "j \<le> n \<and> \<not> ts m l < ts m (a ?c) \<and> \<not> (ts m l = ts m (a ?c) \<and> prio m l > prio m (a ?c))"
  show ?case
  proof (cases ?go)
    case False
    then have r: "a' = a" "i' = i"
      using "1.prems"(3,4) i
      by (auto simp: down_loop.simps [of m l n a i "2 * i"] Let_def split: if_splits)
    have "ts m ((a(i := l)) (k div 2)) \<le> ts m ((a(i := l)) k)" if k: "k \<in> {2..n}" for k
    proof (cases "k div 2 = i")
      case True
      then have jn: "2 * i \<le> n" "k \<noteq> i" using k by auto
      with False "1.prems"(4) have "ts m l \<le> ts m (a ?c)" by auto
      also have "\<dots> \<le> ts m (a k)" using pick_child_least [OF jn(1) k True i] "1.prems"(4) by simp
      finally show ?thesis using True jn by simp
    next
      case False2: False
      then show ?thesis using "1.prems"(1) k by (auto simp: down_inv_def)
    qed
    then show ?thesis using r i "1.prems"(2) by (auto simp: ts_heap_def)
  next
    case True
    then have n: "2 * i \<le> n" using "1.prems"(4) by simp
    let ?b = "a(i := a ?c)"
    have ge: "ts m (a ?c) \<le> ts m l" using True by (simp add: not_less)
    have inv': "down_inv m (?b(?c := l)) n ?c"
      using down_inv_step [OF "1.prems"(1) n _ ge] "1.prems"(4) by simp
    have cn: "?c \<in> {1..n}" "?c \<noteq> i" using pick_child_cases [of m a n j] n i "1.prems"(4) by auto
    have rec: "down_loop m l n ?b ?c (2 * ?c) = (a', i')"
      using True "1.prems"(3,4) i
      by (auto simp: down_loop.simps [of m l n a i "2 * i"] Let_def split: if_splits)
    have IH: "(i' \<in> {1..n} \<or> n = 0) \<and> ts_heap m (a'(i' := l)) n
      \<and> entries (a'(i' := l)) n = entries (?b(?c := l)) n"
      by (rule "1.IH" [OF _ refl _ _ inv' _ rec]) (use True i "1.prems"(4) cn in auto)
    have "?b(?c := l) = (a(i := l))(i := (a(i := l)) ?c, ?c := (a(i := l)) i)"
      using cn by auto
    moreover have "i \<in> {1..n}" using i n by simp
    ultimately have "entries (?b(?c := l)) n = entries (a(i := l)) n"
      using cn entries_swap [of i n ?c "a(i := l)"] by (simp only:)
    with IH show ?thesis by (simp only: simp_thms)
  qed
qed

lemma dequeueEvent_spec:
  assumes ok: "heap_ok m h" and n: "numEvent h \<noteq> 0" and d: "dequeueEvent m cur h = (ep, h')"
  shows "ep = eventHeap h 1 \<and> heap_ok m h' \<and> heap_events h = add_mset ep (heap_events h')
    \<and> numEvent h' = numEvent h - 1 \<and> maxEvent h' = maxEvent h"
proof -
  let ?n = "numEvent h - 1" and ?l = "eventHeap h (numEvent h)" and ?a = "eventHeap h"
  obtain a i where ai: "down_loop m ?l ?n ?a 1 2 = (a, i)" by fastforce
  have h': "ep = ?a 1" "h' = h\<lparr>numEvent := ?n, numDequeueEvent := numDequeueEvent h + 1,
      eventHeap := a(i := ?l)\<rparr>"
    using d n ai by (auto simp: dequeueEvent_def Let_def)
  have "down_inv m (?a(1 := ?l)) ?n 1"
    using ok by (auto simp: down_inv_def heap_ok_def ts_heap_def)
  moreover have "1 \<le> ?n \<or> ?n = 0" by arith
  ultimately have dl: "(i \<in> {1..?n} \<or> ?n = 0) \<and> ts_heap m (a(i := ?l)) ?n
    \<and> entries (a(i := ?l)) ?n = entries (?a(1 := ?l)) ?n"
    using ai by (rule down_loop_spec) simp
  then have heap: "ts_heap m (a(i := ?l)) ?n" and
    ms: "entries (a(i := ?l)) ?n = entries (?a(1 := ?l)) ?n"
    by (rule conjunct1 [OF conjunct2], rule conjunct2 [OF conjunct2])
  have "heap_events h = add_mset (?a 1) (entries (?a(1 := ?l)) ?n)"
  proof (cases "?n = 0")
    case True
    with n have "numEvent h = Suc 0" by simp
    then show ?thesis by (simp add: heap_events_def entries_def)
  next
    case False
    then have "add_mset (?a 1) (entries (?a(1 := ?l)) ?n) = add_mset ?l (entries ?a ?n)"
      by (intro entries_replace_root) simp
    then show ?thesis using n entries_Suc [of ?a ?n] by (simp add: heap_events_def)
  qed
  moreover have "heap_events h' = entries (?a(1 := ?l)) ?n"
    using ms by (simp add: heap_events_def h')
  ultimately show ?thesis using h' heap ok by (auto simp: heap_ok_def)
qed

lemma dequeueEvent_least:
  assumes "heap_ok m h" "dequeueEvent m cur h = (ep, h')" "numEvent h \<noteq> 0" "e \<in># heap_events h"
  shows "ts m ep \<le> ts m e"
  using dequeueEvent_spec [OF assms(1,3,2)] heap_events_root_least [OF assms(1,4)] by simp

subsection \<open>The heap as a queue of timed events\<close>

definition heap_ins :: "mem \<Rightarrow> u64 \<Rightarrow> u64 \<Rightarrow> addr \<Rightarrow> heapobj \<Rightarrow> heapobj option" where
  "heap_ins m now mx ep h =
     (case insertEvent m now mx ep h of
        Inr (r, h') \<Rightarrow> if r = 1 then Some h' else None
      | Inl _ \<Rightarrow> None)"

definition heap_del :: "mem \<Rightarrow> u64 \<Rightarrow> heapobj \<Rightarrow> (addr \<times> heapobj) option" where
  "heap_del m cur h = (if DumpNumEvent h = 0 then None else Some (dequeueEvent m cur h))"

interpretation eh: event_queue
  "\<lambda>h M. heap_ok m h \<and> heap_events h = M" "\<lambda>_. ts m" "\<lambda>_ _. True" "heap_ins m now mx" "heap_del m cur"
  for m now mx cur
proof (unfold_locales, goal_cases)
  case (1 h M e h')
  then show ?case using insertEvent_ok [of m h now mx e h']
    by (auto simp: heap_ins_def split: sum.splits prod.splits if_splits)
next
  case (2 h M)
  then show ?case by (auto simp: heap_del_def DumpNumEvent_def heap_events_empty_iff)
next
  case (3 h M e h')
  then have d: "numEvent h \<noteq> 0" "dequeueEvent m cur h = (e, h')" "heap_ok m h"
    by (auto simp: heap_del_def DumpNumEvent_def split: if_splits)
  from dequeueEvent_spec [OF d(3,1,2)] dequeueEvent_least [OF d(3,2,1)] 3 show ?case by auto
qed

text \<open>Inserting a list of events, stopping when the process would end.\<close>

fun insert_all :: "mem \<Rightarrow> u64 \<Rightarrow> u64 \<Rightarrow> addr list \<Rightarrow> heapobj \<Rightarrow> abort + heapobj" where
  "insert_all m now mx [] h = Inr h"
| "insert_all m now mx (e # es) h =
     (case insertEvent m now mx e h of Inl x \<Rightarrow> Inl x | Inr (r, h') \<Rightarrow> insert_all m now mx es h')"

lemma insert_all_heap_by:
  assumes "insert_all m now mx es h = Inr h'" "heap_by R (eventHeap h) (numEvent h)"
    and "\<forall>e\<in>set es. up_order m e R"
  shows "heap_by R (eventHeap h') (numEvent h')"
  using assms
proof (induction es arbitrary: h)
  case (Cons e es)
  then obtain r h1 where i: "insertEvent m now mx e h = Inr (r, h1)"
    "insert_all m now mx es h1 = Inr h'" by (auto split: sum.splits)
  have "heap_by R (eventHeap h1) (numEvent h1)"
    using insertEvent_Inr_cases [OF i(1)] insertEvent_heap_by [of R h m e now mx h1] Cons.prems(2,3) i(1)
    by auto
  with Cons.IH i(2) Cons.prems(3) show ?case by auto
qed simp

lemma heap_by_root:
  assumes "heap_by R a n" "k \<in> {1..n}" "transp R" "reflp R"
  shows "R (a 1) (a k)"
  using assms(2)
proof (induction k rule: less_induct)
  case (less k)
  show ?case
  proof (cases "k = 1")
    case True
    then show ?thesis using assms(4) by (simp add: reflp_def)
  next
    case False
    with less.prems have k: "k \<in> {2..n}" "k div 2 < k" "k div 2 \<in> {1..n}" by auto
    then have "R (a 1) (a (k div 2))" by (intro less.IH)
    moreover have "R (a (k div 2)) (a k)" using assms(1) k(1) by (auto simp: heap_by_def)
    ultimately show ?thesis using assms(3) by (blast dest: transpD)
  qed
qed

subsection \<open>Properties\<close>

text \<open>A store whose events differ in the timestamp and the priority given, for the examples.\<close>

definition blank_event :: event where
  "blank_event = \<lparr>ev_flag = DEFAULT, ev_optval = 0, ev_pid = 0, ev_socket_fd = 0, timeStamp = 0,
     perio = 0, calloutObj = NULL, memfun = NULL, func = NULL, DataInfo = NULL, priority = 0,
     next_ep = NULL, created_nid = 0, created_ts = 0\<rparr>"

definition events_at :: "(addr \<Rightarrow> u64) \<Rightarrow> (addr \<Rightarrow> u8) \<Rightarrow> mem" where
  "events_at t p = (\<lambda>a. blank_event\<lparr>timeStamp := t a, priority := p a\<rparr>)"

lemma ts_events_at [simp]: "timeStamp (events_at t p a) = t a"
  by (simp add: events_at_def)

lemma prio_events_at [simp]: "priority (events_at t p a) = p a"
  by (simp add: events_at_def)

text \<open>
  C3: \<open>insertEvent\<close> on every path.  A null event gives -1 and an event after the end of the simulation
  gives 0, both without a change; a heap with one free entry left, or an event before the current
  time, ends the process; otherwise the event joins the events held, the array stays a heap and one
  insertion is counted.
\<close>

theorem insertEvent_outcome:
  assumes "heap_ok m h"
  shows "if ep = NULL then insertEvent m now mx ep h = Inr (-1, h)
    else if Suc (numEvent h) \<ge> maxEvent h then insertEvent m now mx ep h = Inl (Exit (-1))
    else if ts m ep < now then insertEvent m now mx ep h = Inl (Exit 0)
    else if 0 < mx \<and> mx < ts m ep then insertEvent m now mx ep h = Inr (0, h)
    else \<exists>h'. insertEvent m now mx ep h = Inr (1, h') \<and> heap_ok m h'
      \<and> heap_events h' = add_mset ep (heap_events h)
      \<and> numInsertEvent h' = numInsertEvent h + 1 \<and> numDequeueEvent h' = numDequeueEvent h"
proof -
  have "\<exists>h'. insertEvent m now mx ep h = Inr (1, h') \<and> heap_ok m h'
      \<and> heap_events h' = add_mset ep (heap_events h)
      \<and> numInsertEvent h' = numInsertEvent h + 1 \<and> numDequeueEvent h' = numDequeueEvent h"
    if g: "ep \<noteq> NULL" "Suc (numEvent h) < maxEvent h" "now \<le> ts m ep" "mx = 0 \<or> ts m ep \<le> mx"
  proof -
    from g have "\<exists>h'. insertEvent m now mx ep h = Inr (1, h')" by (rule insertEvent_succeeds)
    then obtain h' where h': "insertEvent m now mx ep h = Inr (1, h')" ..
    then have "numInsertEvent h' = numInsertEvent h + 1 \<and> numDequeueEvent h' = numDequeueEvent h"
      by (auto simp: insertEvent_def Let_def split: if_splits prod.splits)
    then show ?thesis using insertEvent_ok [OF assms h'] h' by blast
  qed
  then show ?thesis using assms
    by (auto simp: insertEvent_def not_less not_le word_gt_0)
qed

theorem insertEvent_outcome_witness:
  "\<exists>h'. insertEvent (events_at (\<lambda>a. of_nat a) (\<lambda>_. 0)) 3 100 7 (HeapObject 4) = Inr (1, h')
     \<and> heap_events h' = {#7#}"
proof -
  have "heap_ok (events_at (\<lambda>a. of_nat a) (\<lambda>_. 0)) (HeapObject 4)" by (simp add: heap_ok_HeapObject)
  from insertEvent_outcome [OF this, of 7 3 100] show ?thesis
    by (auto simp: HeapObject_def heap_events_def entries_def)
qed

text \<open>
  C2: taking out of the heap as often as it holds events gives exactly the events it held, in the
  order of their timestamps.
\<close>

theorem heap_drain_sorted:
  assumes "heap_ok m h" "numEvent h \<le> n"
  shows "mset (drain (heap_del m cur) n h) = heap_events h
    \<and> sorted (map (ts m) (drain (heap_del m cur) n h))"
  using eh.drain_complete [where m = m and cur = cur] eh.drain_sorted [where m = m and cur = cur] assms
  by simp

theorem heap_drain_sorted_witness:
  "\<exists>h. insert_all (events_at (\<lambda>a. if a = 1 then 30 else 20) (\<lambda>_. 0)) 0 0 [1, 2] (HeapObject 8) = Inr h
     \<and> mset (drain (heap_del (events_at (\<lambda>a. if a = 1 then 30 else 20) (\<lambda>_. 0)) 0) 2 h) = {#1, 2#}"
proof -
  let ?m = "events_at (\<lambda>a. if a = 1 then 30 else 20) (\<lambda>_. 0)"
  have "case insert_all ?m 0 0 [1, 2] (HeapObject 8) of Inl _ \<Rightarrow> False
    | Inr h \<Rightarrow> numEvent h = 2 \<and> maxEvent h = 8 \<and> eventHeap h 1 = 2 \<and> eventHeap h 2 = 1"
    by code_simp
  then obtain h where h: "insert_all ?m 0 0 [1, 2] (HeapObject 8) = Inr h" "numEvent h = 2"
    "maxEvent h = 8" "eventHeap h 1 = 2" "eventHeap h 2 = 1" by (auto split: sum.splits)
  have "heap_ok ?m h" using h by (simp add: heap_ok_def ts_heap_def)
  from heap_drain_sorted [OF this, of 2 0] h have
    "mset (drain (heap_del ?m 0) 2 h) = heap_events h" by simp
  moreover have "{1..2::nat} = {1, 2}" by auto
  ultimately show ?thesis using h by (auto simp: heap_events_def entries_def)
qed

text \<open>
  while events are only inserted, the heap also honours the priorities: the first event taken out
  is due no later than any other, and of those due at the same time none has a higher priority.
\<close>

theorem first_dequeue_by_priority:
  assumes "insert_all m now mx es (HeapObject k) = Inr h" "dequeueEvent m cur h = (ep, h')"
    and "e \<in># heap_events h"
  shows "served_first m ep e"
proof -
  have "heap_by (served_first m) (eventHeap h) (numEvent h)"
    by (rule insert_all_heap_by [OF assms(1)])
      (simp_all add: HeapObject_def heap_by_def up_order_served_first)
  moreover from assms(3) obtain i where i: "i \<in> {1..numEvent h}" "e = eventHeap h i"
    by (auto simp: heap_events_def entries_def)
  moreover have "transp (served_first m)" "reflp (served_first m)"
    by (auto simp: served_first_def transp_def reflp_def)
  ultimately have "served_first m (eventHeap h 1) e" using heap_by_root by metis
  moreover have "ep = eventHeap h 1" using assms(2) i(1)
    by (auto simp: dequeueEvent_def Let_def split: if_splits prod.splits)
  ultimately show ?thesis by simp
qed

theorem first_dequeue_by_priority_witness:
  "\<exists>h. insert_all (events_at (\<lambda>_. 9) (\<lambda>a. of_nat a)) 0 0 [1, 3, 2] (HeapObject 8) = Inr h
     \<and> fst (dequeueEvent (events_at (\<lambda>_. 9) (\<lambda>a. of_nat a)) 0 h) = 3
     \<and> served_first (events_at (\<lambda>_. 9) (\<lambda>a. of_nat a)) 3 1"
proof -
  let ?m = "events_at (\<lambda>_. 9) (\<lambda>a. of_nat a)"
  have "case insert_all ?m 0 0 [1, 3, 2] (HeapObject 8) of Inl _ \<Rightarrow> False
    | Inr h \<Rightarrow> numEvent h = 3 \<and> eventHeap h 2 = 1 \<and> fst (dequeueEvent ?m 0 h) = 3"
    by code_simp
  then obtain h where h: "insert_all ?m 0 0 [1, 3, 2] (HeapObject 8) = Inr h" "numEvent h = 3"
    "eventHeap h 2 = 1" "fst (dequeueEvent ?m 0 h) = 3" by (auto split: sum.splits)
  then have d: "dequeueEvent ?m 0 h = (3, snd (dequeueEvent ?m 0 h))" by (metis prod.collapse)
  have "1 \<in># heap_events h" using h(2,3) entry_in_heap_events [of 2 h] by simp
  from first_dequeue_by_priority [OF h(1) d this] h show ?thesis by blast
qed

text \<open>
  once events are taken out, priorities are not honoured: \<open>dequeueEvent\<close> moves up the right one of
  two children that are due at the same time, whatever their priorities.  Of four events due at the
  same time, inserted with priorities 3, 2, 1 and 0, the one with priority 1 is taken before the one
  with priority 2.
\<close>

theorem dequeue_ignores_priority:
  "(case insert_all (events_at (\<lambda>_. 9) (\<lambda>a. 4 - of_nat a)) 0 0 [1, 2, 3, 4] (HeapObject 8) of
      Inl _ \<Rightarrow> []
    | Inr h \<Rightarrow> map (prio (events_at (\<lambda>_. 9) (\<lambda>a. 4 - of_nat a)))
        (drain (heap_del (events_at (\<lambda>_. 9) (\<lambda>a. 4 - of_nat a)) 0) 4 h)) = [3, 1, 2, 0]"
  by code_simp

end
