(* ===== verification/TimerQueue.thy ===== *)
theory TimerQueue
  imports EventHeap
begin

text \<open>
  The state of the \<open>scheduler\<close> object of \<open>scheduler.cc\<close> with the globals it works on, and its timer
  list: \<open>schedule_timer\<close>, \<open>cancel_timer\<close> and \<open>dequeue_timer\<close> on the chain of events that starts at
  \<open>timerHead\<close>.  The two loops are partial functions, because a cyclic chain makes them run forever.
  \<open>timer_list s xs\<close> says that the chain is the list \<open>xs\<close>, in the order of the timestamps.
\<close>

text \<open>An event of the event tunnel, and the data of a traffic-generator event.\<close>

record tun_event =
  te_pid :: u32
  te_nid :: u32
  te_flag :: u32
  te_value :: u64
  te_socket_fd :: u32

record tgInfo =
  todo :: u8
  tg_pid :: u32
  endtime :: u64

text \<open>A timer object of \<open>timer.h\<close>.\<close>

record timerObj =
  callout_event :: addr
  busy :: u8
  paused :: u8
  rtime :: u64

text \<open>
  \<open>currentTime\<close> is \<open>currentTime_[0]\<close>, \<open>t0e\<close> the queue of the event tunnel (\<open>*t0eqlen\<close> is its
  length), \<open>tglist\<close> is \<open>g_tglist\<close>, \<open>nid\<close> the global of that name.  \<open>store\<close>, \<open>timers\<close> and \<open>tgdata\<close>
  are the heap memory by type; \<open>fresh\<close> is the next address \<open>malloc\<close> gives, \<open>freed\<close> the events
  given back and \<open>freed_data\<close> the blocks given back that a \<open>DataInfo_\<close> pointed to.
\<close>

record scheduler =
  schedHeap :: heapobj
  timerHead :: addr
  simulateTime :: u64
  currentTime :: u64
  nid :: nat
  t0e :: "tun_event list"
  tglist :: "u32 list"
  store :: mem
  timers :: "addr \<Rightarrow> timerObj"
  tgdata :: "addr \<Rightarrow> tgInfo"
  fresh :: addr
  freed :: "addr set"
  freed_data :: "addr set"

abbreviation stamp :: "scheduler \<Rightarrow> addr \<Rightarrow> u64" where "stamp s p \<equiv> timeStamp (store s p)"

partial_function (option) sched_loop ::
  "addr \<Rightarrow> scheduler \<Rightarrow> addr \<Rightarrow> addr \<Rightarrow> (int \<times> scheduler) run" where
  "sched_loop T s tptr hptr =
     (if hptr = NULL then Some (Inr (1, s\<lparr>store := set_next tptr T (store s)\<rparr>))
      else if stamp s T < stamp s hptr then
        (if tptr = NULL
         then Some (Inr (1, s\<lparr>store := set_next T (timerHead s) (store s), timerHead := T\<rparr>))
         else Some (Inr (1, s\<lparr>store := set_next tptr T (set_next T hptr (store s))\<rparr>)))
      else if T = nxt (store s) hptr then Some (Inl AssertFailed)
      else sched_loop T s hptr (nxt (store s) hptr))"

definition schedule_timer :: "addr \<Rightarrow> scheduler \<Rightarrow> (int \<times> scheduler) run" where
  "schedule_timer T s =
     (if T = NULL then Some (Inr (-1, s))
      else if stamp s T < currentTime s then Some (Inr (-1, s))
      else if timerHead s = NULL then Some (Inr (1, s\<lparr>timerHead := T\<rparr>))
      else sched_loop T s NULL (timerHead s))"

partial_function (option) cancel_loop :: "addr \<Rightarrow> scheduler \<Rightarrow> addr \<Rightarrow> scheduler option" where
  "cancel_loop T s dt =
     (if nxt (store s) dt = NULL then Some s
      else if nxt (store s) dt = T then
        Some (s\<lparr>store := set_next T NULL (set_next dt (nxt (store s) T) (store s))\<rparr>)
      else cancel_loop T s (nxt (store s) dt))"

definition cancel_timer :: "addr \<Rightarrow> scheduler \<Rightarrow> (int \<times> scheduler) option" where
  "cancel_timer T s =
     (if T = NULL then Some (-1, s)
      else if timerHead s = NULL then Some (-1, s)
      else if T = timerHead s then
        Some (1, s\<lparr>timerHead := nxt (store s) T, store := set_next T NULL (store s)\<rparr>)
      else map_option (Pair 1) (cancel_loop T s (timerHead s)))"

definition dequeue_timer :: "scheduler \<Rightarrow> addr \<times> scheduler" where
  "dequeue_timer s =
     (if timerHead s = NULL then (NULL, s)
      else let dt = timerHead s in
        (dt, s\<lparr>timerHead := nxt (store s) dt, store := set_next dt NULL (store s)\<rparr>))"

declare sched_loop.simps [code] cancel_loop.simps [code]

subsection \<open>The list the chain stands for\<close>

definition timer_list :: "scheduler \<Rightarrow> addr list \<Rightarrow> bool" where
  "timer_list s xs \<longleftrightarrow> chain (nxt (store s)) (timerHead s) xs \<and> sorted (map (stamp s) xs)"

text \<open>The specification of insertion: behind every timer that does not expire later.\<close>

definition insert_timer :: "(addr \<Rightarrow> u64) \<Rightarrow> addr \<Rightarrow> addr list \<Rightarrow> addr list" where
  "insert_timer t T xs = takeWhile (\<lambda>x. t x \<le> t T) xs @ [T] @ dropWhile (\<lambda>x. t x \<le> t T) xs"

lemma mset_insert_timer [simp]: "mset (insert_timer t T xs) = add_mset T (mset xs)"
  unfolding insert_timer_def by (rule takeWhile_dropWhile_insert_mset)

lemma set_insert_timer [simp]: "set (insert_timer t T xs) = insert T (set xs)"
  by (metis mset_insert_timer set_mset_add_mset_insert set_mset_mset)

lemma insert_timer_sorted:
  assumes "sorted (map t xs)" shows "sorted (map t (insert_timer t T xs))"
  using assms
proof (induction xs)
  case (Cons x xs)
  show ?case
  proof (cases "t x \<le> t T")
    case True
    have "set (insert_timer t T xs) = insert T (set xs)" by simp
    with Cons True show ?thesis by (simp add: insert_timer_def) auto
  next
    case False
    then show ?thesis using Cons.prems by (auto simp: insert_timer_def)
  qed
qed (simp add: insert_timer_def)

lemma insert_timer_append:
  "\<forall>x\<in>set xs. t x \<le> t T \<Longrightarrow> insert_timer t T (xs @ ys) = xs @ insert_timer t T ys"
  by (auto simp: insert_timer_def takeWhile_append dropWhile_append)

subsection \<open>schedule_timer\<close>

text \<open>
  The loop from a node \<open>hptr\<close> whose predecessors \<open>ps\<close> do not expire later than \<open>T\<close>.  The frame says
  what it changes: the links, and nothing else.
\<close>

definition same_but_links :: "scheduler \<Rightarrow> scheduler \<Rightarrow> bool" where
  "same_but_links s s' \<longleftrightarrow> s' = s\<lparr>store := store s', timerHead := timerHead s'\<rparr>
     \<and> (\<forall>p. (store s' p)\<lparr>next_ep := NULL\<rparr> = (store s p)\<lparr>next_ep := NULL\<rparr>)"

lemma same_but_links_refl [simp]: "same_but_links s s"
  by (simp add: same_but_links_def)

lemma same_but_links_stamp: "same_but_links s s' \<Longrightarrow> stamp s' = stamp s"
  unfolding same_but_links_def by (metis event.select_convs(5) event.update_convs(12) event.surjective)

lemma same_but_links_set_next [simp]:
  "same_but_links s (s\<lparr>store := set_next p q (store s)\<rparr>)"
  "same_but_links s (s\<lparr>store := set_next p q (store s), timerHead := t\<rparr>)"
  "same_but_links s (s\<lparr>timerHead := t, store := set_next p q (store s)\<rparr>)"
  "same_but_links s (s\<lparr>store := set_next p q (set_next p' q' (store s))\<rparr>)"
  by (simp_all add: same_but_links_def set_next_def)

lemma sched_loop_spec:
  assumes "chain (nxt (store s)) (timerHead s) (ps @ ys)" "chain (nxt (store s)) hptr ys"
    and "ps = [] \<longleftrightarrow> tptr = NULL" "ps \<noteq> [] \<longrightarrow> tptr = last ps" "ps @ ys \<noteq> []"
    and "\<forall>x\<in>set ps. stamp s x \<le> stamp s T"
    and "T \<noteq> NULL" "T \<notin> set (ps @ ys)" "nxt (store s) T = NULL"
  shows "\<exists>s'. sched_loop T s tptr hptr = Some (Inr (1, s')) \<and> same_but_links s s'
    \<and> chain (nxt (store s')) (timerHead s') (ps @ insert_timer (stamp s) T ys)
    \<and> (\<forall>p. p \<notin> set (T # ps @ ys) \<longrightarrow> store s' p = store s p)"
  using assms
proof (induction ys arbitrary: ps tptr hptr)
  case Nil
  then obtain ps' where ps: "ps = ps' @ [tptr]"
    by (metis append_Nil2 append_butlast_last_id)
  have h: "hptr = NULL" using Nil.prems(2) by simp
  have "chain ((nxt (store s))(tptr := T)) (timerHead s) (ps' @ [tptr, T])"
    using Nil.prems(1,8,7,9) unfolding ps append_Nil2 by (rule chain_append)
  then show ?case using h ps sched_loop.simps [of T s tptr hptr]
    by (simp add: insert_timer_def del: seg_append)
next
  case (Cons y ys)
  then have h: "hptr = y" "y \<noteq> NULL" "chain (nxt (store s)) (nxt (store s) y) ys" by auto
  show ?case
  proof (cases "stamp s T < stamp s y")
    case True
    then have ins: "insert_timer (stamp s) T (y # ys) = T # y # ys"
      by (auto simp: insert_timer_def dest: leD)
    show ?thesis
    proof (cases "tptr = NULL")
      case True2: True
      then have "ps = []" "timerHead s = y" using Cons.prems by auto
      then show ?thesis using True True2 h ins Cons.prems sched_loop.simps [of T s tptr hptr]
        by simp
    next
      case False
      then obtain ps' where ps: "ps = ps' @ [tptr]"
        using Cons.prems(3,4) by (metis append_butlast_last_id)
      then have nx: "nxt (store s) tptr = y" using Cons.prems(1) by auto
      have "chain ((nxt (store s))(T := nxt (store s) tptr, tptr := T)) (timerHead s)
          (ps' @ [tptr] @ [T] @ (y # ys))"
        using Cons.prems(1,7,8) unfolding ps append_assoc by (intro chain_insert_after [where nx = "nxt (store s)"]) simp_all
      then show ?thesis using True False h ins ps nx sched_loop.simps [of T s tptr hptr]
        by (simp del: seg_append)
    qed
  next
    case False
    have nT: "T \<noteq> nxt (store s) y" using h(3) Cons.prems(7,8) by (cases ys) auto
    have ins: "ps @ insert_timer (stamp s) T (y # ys) = (ps @ [y]) @ insert_timer (stamp s) T ys"
      using False by (auto simp: insert_timer_def dest: leI)
    have "\<exists>s'. sched_loop T s y (nxt (store s) y) = Some (Inr (1, s')) \<and> same_but_links s s'
      \<and> chain (nxt (store s')) (timerHead s') ((ps @ [y]) @ insert_timer (stamp s) T ys)
      \<and> (\<forall>p. p \<notin> set (T # (ps @ [y]) @ ys) \<longrightarrow> store s' p = store s p)"
      by (rule Cons.IH) (use Cons.prems h False in auto)
    moreover have "sched_loop T s tptr hptr = sched_loop T s y (nxt (store s) y)"
      using False nT h sched_loop.simps [of T s tptr y] by simp
    ultimately show ?thesis using ins by auto
  qed
qed

lemma schedule_timer_rejects:
  "T = NULL \<or> stamp s T < currentTime s \<Longrightarrow> schedule_timer T s = Some (Inr (-1, s))"
  by (auto simp: schedule_timer_def)

lemma schedule_timer_spec:
  assumes "timer_list s xs" "T \<noteq> NULL" "T \<notin> set xs" "nxt (store s) T = NULL"
    and "currentTime s \<le> stamp s T"
  shows "\<exists>s'. schedule_timer T s = Some (Inr (1, s')) \<and> same_but_links s s'
    \<and> timer_list s' (insert_timer (stamp s) T xs)
    \<and> (\<forall>p. p \<notin> set (T # xs) \<longrightarrow> store s' p = store s p)"
proof (cases "xs = []")
  case True
  then have "schedule_timer T s = Some (Inr (1, s\<lparr>timerHead := T\<rparr>))"
    using assms by (auto simp: schedule_timer_def timer_list_def not_less)
  then show ?thesis using True assms
    by (auto simp: timer_list_def insert_timer_def same_but_links_def)
next
  case False
  then have ne: "timerHead s \<noteq> NULL"
    using assms(1) chain_head_NULL unfolding timer_list_def by blast
  have "\<exists>s'. sched_loop T s NULL (timerHead s) = Some (Inr (1, s')) \<and> same_but_links s s'
    \<and> chain (nxt (store s')) (timerHead s') ([] @ insert_timer (stamp s) T xs)
    \<and> (\<forall>p. p \<notin> set (T # [] @ xs) \<longrightarrow> store s' p = store s p)"
    by (rule sched_loop_spec) (use assms False in \<open>auto simp: timer_list_def\<close>)
  then obtain s' where s': "sched_loop T s NULL (timerHead s) = Some (Inr (1, s'))"
    "same_but_links s s'" "chain (nxt (store s')) (timerHead s') (insert_timer (stamp s) T xs)"
    "\<forall>p. p \<notin> set (T # xs) \<longrightarrow> store s' p = store s p"
    by auto
  have "schedule_timer T s = Some (Inr (1, s'))"
    using s'(1) ne assms by (simp add: schedule_timer_def not_less)
  moreover have "timer_list s' (insert_timer (stamp s) T xs)"
    using s'(3) insert_timer_sorted [of "stamp s" xs T] assms(1) same_but_links_stamp [OF s'(2)]
    by (simp add: timer_list_def)
  ultimately show ?thesis using s' by blast
qed

subsection \<open>cancel_timer and dequeue_timer\<close>

lemma cancel_loop_spec:
  assumes "chain (nxt (store s)) (timerHead s) (ps @ [dt] @ ys)" "T \<notin> set (ps @ [dt])" "T \<noteq> NULL"
  shows "\<exists>s'. cancel_loop T s dt = Some s' \<and> same_but_links s s'
    \<and> chain (nxt (store s')) (timerHead s') (ps @ [dt] @ remove1 T ys)
    \<and> (T \<in> set ys \<longrightarrow> nxt (store s') T = NULL)
    \<and> (\<forall>p. p \<notin> set (T # ps @ [dt] @ ys) \<longrightarrow> store s' p = store s p)
    \<and> (T \<notin> set ys \<longrightarrow> s' = s)"
  using assms
proof (induction ys arbitrary: ps dt)
  case Nil
  then show ?case using cancel_loop.simps [of T s dt] by simp
next
  case (Cons y ys)
  then have nx: "nxt (store s) dt = y" "y \<noteq> NULL" by auto
  show ?case
  proof (cases "y = T")
    case True
    let ?m = "set_next T NULL (set_next dt (nxt (store s) T) (store s))"
    have "dt \<noteq> T" using Cons.prems(2) by simp
    then have "nxt ?m = (nxt (store s))(dt := nxt (store s) y, y := NULL)" using True by simp
    moreover have "chain (nxt (store s)) (timerHead s) (ps @ [dt, y] @ ys)" using Cons.prems(1) by simp
    ultimately have "chain (nxt ?m) (timerHead s) (ps @ [dt] @ ys)"
      using chain_unlink_after by blast
    then show ?thesis using True nx Cons.prems(3) cancel_loop.simps [of T s dt]
      by (simp del: seg_append)
  next
    case False
    have "cancel_loop T s dt = cancel_loop T s y"
      using False nx cancel_loop.simps [of T s dt] by simp
    moreover have "\<exists>s'. cancel_loop T s y = Some s' \<and> same_but_links s s'
      \<and> chain (nxt (store s')) (timerHead s') ((ps @ [dt]) @ [y] @ remove1 T ys)
      \<and> (T \<in> set ys \<longrightarrow> nxt (store s') T = NULL)
      \<and> (\<forall>p. p \<notin> set (T # (ps @ [dt]) @ [y] @ ys) \<longrightarrow> store s' p = store s p)
      \<and> (T \<notin> set ys \<longrightarrow> s' = s)"
      by (rule Cons.IH) (use Cons.prems False in simp_all)
    ultimately show ?thesis using False by (simp del: seg_append)
  qed
qed

lemma sorted_map_remove1: "sorted (map t xs) \<Longrightarrow> sorted (map t (remove1 x xs))"
  by (induction xs) (auto dest: set_remove1_subset [THEN subsetD])

lemma cancel_timer_spec:
  assumes "timer_list s xs" "T \<noteq> NULL"
  shows "\<exists>r s'. cancel_timer T s = Some (r, s') \<and> same_but_links s s' \<and> timer_list s' (remove1 T xs)
    \<and> (T \<in> set xs \<longrightarrow> r = 1 \<and> nxt (store s') T = NULL) \<and> (T \<notin> set xs \<longrightarrow> s' = s)
    \<and> (\<forall>p. p \<notin> set (T # xs) \<longrightarrow> store s' p = store s p)"
proof (cases xs)
  case Nil
  then show ?thesis using assms by (simp add: cancel_timer_def timer_list_def)
next
  case (Cons x ys)
  then have c: "chain (nxt (store s)) (timerHead s) (x # ys)" and so: "sorted (map (stamp s) xs)"
    and x: "timerHead s = x" "x \<noteq> NULL" using assms(1) by (auto simp: timer_list_def)
  show ?thesis
  proof (cases "T = x")
    case True
    have "x \<notin> set ys" "chain (nxt (store s)) (nxt (store s) x) ys"
      using c chain_head_notin_tail by auto
    then show ?thesis using True x assms so Cons
      by (simp add: cancel_timer_def timer_list_def)
  next
    case False
    have "\<exists>s'. cancel_loop T s x = Some s' \<and> same_but_links s s'
      \<and> chain (nxt (store s')) (timerHead s') ([] @ [x] @ remove1 T ys)
      \<and> (T \<in> set ys \<longrightarrow> nxt (store s') T = NULL)
      \<and> (\<forall>p. p \<notin> set (T # [] @ [x] @ ys) \<longrightarrow> store s' p = store s p)
      \<and> (T \<notin> set ys \<longrightarrow> s' = s)"
      by (rule cancel_loop_spec) (use c False assms(2) in simp_all)
    then obtain s' where s': "cancel_loop T s x = Some s'" "same_but_links s s'"
      "chain (nxt (store s')) (timerHead s') (x # remove1 T ys)"
      "T \<in> set ys \<longrightarrow> nxt (store s') T = NULL" "T \<notin> set ys \<longrightarrow> s' = s"
      "\<forall>p. p \<notin> set (T # x # ys) \<longrightarrow> store s' p = store s p" by auto
    have "sorted (map (stamp s) (remove1 T xs))" using so by (rule sorted_map_remove1)
    then have "timer_list s' (remove1 T xs)"
      using s'(2,3) False Cons by (simp add: timer_list_def same_but_links_stamp del: seg.simps)
    moreover have "cancel_timer T s = Some (1, s')" using s'(1) x False assms(2)
      by (simp add: cancel_timer_def)
    ultimately show ?thesis using s' False Cons by simp
  qed
qed

lemma dequeue_timer_spec:
  assumes "timer_list s (x # xs)"
  shows "\<exists>s'. dequeue_timer s = (x, s') \<and> same_but_links s s' \<and> timer_list s' xs
    \<and> x \<noteq> NULL \<and> nxt (store s') x = NULL \<and> (\<forall>p. p \<noteq> x \<longrightarrow> store s' p = store s p)"
proof -
  have x: "timerHead s = x" "x \<noteq> NULL" "chain (nxt (store s)) (nxt (store s) x) xs" "x \<notin> set xs"
    using assms chain_head_notin_tail by (auto simp: timer_list_def)
  then show ?thesis using assms
    by (simp add: dequeue_timer_def timer_list_def Let_def)
qed

lemma timer_list_head: "timer_list s xs \<Longrightarrow> timerHead s = NULL \<longleftrightarrow> xs = []"
  unfolding timer_list_def using chain_head_NULL by blast

lemma timer_list_least: "timer_list s (x # xs) \<Longrightarrow> y \<in> set (x # xs) \<Longrightarrow> stamp s x \<le> stamp s y"
  by (auto simp: timer_list_def)

subsection \<open>The timer list as a queue of timed events\<close>

definition timer_ins :: "addr \<Rightarrow> scheduler \<Rightarrow> scheduler option" where
  "timer_ins T s =
     (case schedule_timer T s of
        Some (Inr (r, s')) \<Rightarrow> if r = 1 then Some s' else None
      | _ \<Rightarrow> None)"

definition timer_del :: "scheduler \<Rightarrow> (addr \<times> scheduler) option" where
  "timer_del s = (if timerHead s = NULL then None else Some (dequeue_timer s))"

interpretation tq: event_queue
  "\<lambda>s M. \<exists>xs. timer_list s xs \<and> mset xs = M" stamp
  "\<lambda>s T. nxt (store s) T = NULL" timer_ins timer_del
proof (unfold_locales, goal_cases)
  case (1 s M e s')
  then obtain xs where xs: "timer_list s xs" "mset xs = M" by blast
  have g: "e \<noteq> NULL" "currentTime s \<le> stamp s e"
    using 1(4) schedule_timer_rejects [of e s]
    by (cases "e = NULL \<or> stamp s e < currentTime s"; auto simp: timer_ins_def)+
  have "e \<notin> set xs" using 1(2) xs(2) by auto
  from schedule_timer_spec [OF xs(1) g(1) this 1(3) g(2)] obtain s1 where
    s1: "schedule_timer e s = Some (Inr (1, s1))" "same_but_links s s1"
      "timer_list s1 (insert_timer (stamp s) e xs)" by blast
  then have "s1 = s'" using 1(4) by (simp add: timer_ins_def)
  then show ?case using s1(2,3) xs(2) by (auto simp: same_but_links_stamp intro!: exI)
next
  case (2 s M)
  then show ?case using timer_list_head [of s] by (auto simp: timer_del_def)
next
  case (3 s M e s')
  then obtain xs where xs: "timer_list s xs" "mset xs = M" by blast
  from 3(2) have h: "timerHead s \<noteq> NULL" "dequeue_timer s = (e, s')"
    by (auto simp: timer_del_def split: if_splits)
  with timer_list_head [OF xs(1)] obtain y ys where ys: "xs = y # ys" by (cases xs) auto
  from dequeue_timer_spec [OF xs(1) [unfolded ys]] h(2) have
    r: "y = e" "same_but_links s s'" "timer_list s' ys" by auto
  moreover have "\<forall>x\<in>set xs. stamp s e \<le> stamp s x"
    using timer_list_least [of s y ys] xs(1) ys r(1) by auto
  ultimately show ?case using xs(2) ys by (auto simp: same_but_links_stamp)
qed

subsection \<open>Properties\<close>

text \<open>A scheduler with an empty heap of \<open>n\<close> entries, no timer and the store \<open>m\<close>, for the examples.\<close>

definition fresh_scheduler :: "nat \<Rightarrow> mem \<Rightarrow> scheduler" where
  "fresh_scheduler n m = \<lparr>schedHeap = HeapObject n, timerHead = NULL, simulateTime = 1000,
     currentTime = 0, nid = 0, t0e = [], tglist = [], store = m,
     timers = (\<lambda>_. \<lparr>callout_event = NULL, busy = 0, paused = 0, rtime = 0\<rparr>),
     tgdata = (\<lambda>_. \<lparr>todo = 0, tg_pid = 0, endtime = 0\<rparr>), fresh = 100, freed = {}, freed_data = {}\<rparr>"

text \<open>The timers 1 (due at 10), 2 (due at 20) in the list; 3 is due at 10 as well and not queued.\<close>

definition two_timers :: scheduler where
  "two_timers = (fresh_scheduler 8 ((events_at (\<lambda>a. if a = 2 then 20 else 10) (\<lambda>_. 0))
     (1 := blank_event\<lparr>timeStamp := 10, next_ep := 2\<rparr>)))\<lparr>timerHead := 1\<rparr>"

lemma two_timers_list: "timer_list two_timers [1, 2]"
  by (simp add: timer_list_def two_timers_def fresh_scheduler_def events_at_def blank_event_def)

text \<open>
  C8: \<open>schedule_timer\<close> returns and implements insertion into the sorted list: a timer that is not
  queued goes behind every timer that expires no later and before the others, the list stays a chain
  sorted by expiry, and the cells outside the list and the timer are not written.
\<close>

theorem schedule_timer_refines:
  assumes "timer_list s xs" "T \<noteq> NULL" "T \<notin> set xs" "nxt (store s) T = NULL"
    and "currentTime s \<le> stamp s T"
  shows "\<exists>s'. schedule_timer T s = Some (Inr (1, s'))
    \<and> timer_list s' (takeWhile (\<lambda>x. stamp s x \<le> stamp s T) xs @ [T]
                       @ dropWhile (\<lambda>x. stamp s x \<le> stamp s T) xs)
    \<and> stamp s' = stamp s \<and> (\<forall>p. p \<notin> set (T # xs) \<longrightarrow> store s' p = store s p)"
  using schedule_timer_spec [OF assms] same_but_links_stamp unfolding insert_timer_def by blast

theorem schedule_timer_refines_witness:
  "\<exists>s'. schedule_timer 3 two_timers = Some (Inr (1, s')) \<and> timer_list s' [1, 3, 2]"
proof -
  have "nxt (store two_timers) 3 = NULL" "currentTime two_timers \<le> stamp two_timers 3"
    "(3 :: nat) \<noteq> NULL" "3 \<notin> set [1, 2 :: nat]"
    by (simp_all add: two_timers_def fresh_scheduler_def events_at_def blank_event_def)
  note c = schedule_timer_refines [OF two_timers_list this(3,4,1,2)]
  have "stamp two_timers 1 = 10" "stamp two_timers 2 = 20" "stamp two_timers 3 = 10"
    by (simp_all add: two_timers_def fresh_scheduler_def events_at_def blank_event_def)
  with c show ?thesis by auto
qed

text \<open>
  C9: \<open>cancel_timer\<close> returns and takes exactly the given timer out of the list: the others keep their
  order, a queued timer ends up unlinked, and a timer that is not queued leaves everything as it was.
\<close>

theorem cancel_timer_refines:
  assumes "timer_list s xs" "T \<noteq> NULL"
  shows "\<exists>r s'. cancel_timer T s = Some (r, s') \<and> timer_list s' (remove1 T xs)
    \<and> (if T \<in> set xs then r = 1 \<and> nxt (store s') T = NULL else s' = s)
    \<and> stamp s' = stamp s \<and> (\<forall>p. p \<notin> set (T # xs) \<longrightarrow> store s' p = store s p)"
proof -
  from cancel_timer_spec [OF assms] obtain r s' where
    "cancel_timer T s = Some (r, s')" "same_but_links s s'" "timer_list s' (remove1 T xs)"
    "T \<in> set xs \<longrightarrow> r = 1 \<and> nxt (store s') T = NULL" "T \<notin> set xs \<longrightarrow> s' = s"
    "\<forall>p. p \<notin> set (T # xs) \<longrightarrow> store s' p = store s p" by blast
  then show ?thesis using same_but_links_stamp by (intro exI [of _ r] exI [of _ s']) auto
qed

theorem cancel_timer_refines_witness:
  "\<exists>r s'. cancel_timer 2 two_timers = Some (r, s') \<and> timer_list s' [1]"
  using cancel_timer_refines [OF two_timers_list, of 2] by auto

text \<open>
  C25: scheduling timers and dequeuing until the list is empty gives every timer once, in the order
  of their expiry.
\<close>

theorem timer_drain_sorted:
  assumes "timer_list s xs" "T \<notin> set xs" "nxt (store s) T = NULL" "timer_ins T s = Some s'"
  shows "mset (drain timer_del (length xs + 1) s') = add_mset T (mset xs)
    \<and> sorted (map (stamp s) (drain timer_del (length xs + 1) s'))"
  by (rule tq.ins_drain) (use assms in auto)

theorem timer_drain_sorted_witness:
  "\<exists>s'. timer_ins 3 two_timers = Some s' \<and> mset (drain timer_del 3 s') = {#1, 2, 3#}"
proof -
  have "timer_ins 3 two_timers \<noteq> None" by code_simp
  then obtain s' where s': "timer_ins 3 two_timers = Some s'" by blast
  have "nxt (store two_timers) 3 = NULL"
    by (simp add: two_timers_def fresh_scheduler_def events_at_def blank_event_def)
  from timer_drain_sorted [OF two_timers_list _ this s'] s' show ?thesis
    by (auto simp: numeral_3_eq_3)
qed

lemma sched_loop_cycle:
  assumes "sched_loop T s tptr hptr = Some r"
  shows "hptr = x \<longrightarrow> x \<noteq> NULL \<longrightarrow> nxt (store s) x = x \<longrightarrow> T \<noteq> x \<longrightarrow> \<not> stamp s x \<le> stamp s T"
proof (rule sched_loop.raw_induct [where P = "\<lambda>T s tptr hptr r. hptr = x \<longrightarrow> x \<noteq> NULL \<longrightarrow>
    nxt (store s) x = x \<longrightarrow> T \<noteq> x \<longrightarrow> \<not> stamp s x \<le> stamp s T", OF _ assms])
qed (auto simp: not_le split: if_splits)

text \<open>
  C34: scheduling a timer that is already the only one in the list makes it its own successor, after
  which scheduling any timer that does not expire before it never returns.
\<close>

theorem rescheduled_timer_hangs:
  assumes "timer_list s [T]" "currentTime s \<le> stamp s T" "S \<noteq> T" "S \<noteq> NULL" "stamp s T \<le> stamp s S"
  shows "\<exists>s'. schedule_timer T s = Some (Inr (1, s')) \<and> nxt (store s') T = T
    \<and> schedule_timer S s' = None"
proof -
  have T: "timerHead s = T" "T \<noteq> NULL" "nxt (store s) T = NULL"
    using assms(1) by (auto simp: timer_list_def)
  define s' where "s' = s\<lparr>store := set_next T T (store s)\<rparr>"
  have "schedule_timer T s = Some (Inr (1, s'))"
    using T assms(2) by (simp add: schedule_timer_def not_less s'_def
        sched_loop.simps [of T s NULL T] sched_loop.simps [of T s T NULL])
  moreover have n: "nxt (store s') T = T" by (simp add: s'_def)
  moreover have "\<not> stamp s' S < currentTime s'" "stamp s' T \<le> stamp s' S"
    using assms(2,5) by (auto simp: s'_def)
  then have "schedule_timer S s' = None"
    using sched_loop_cycle [of S s' NULL T _ T] T assms(3,4) n
    by (cases "sched_loop S s' NULL T") (auto simp: schedule_timer_def s'_def)
  ultimately show ?thesis by blast
qed

definition one_timer :: scheduler where
  "one_timer = (fresh_scheduler 8 (events_at of_nat (\<lambda>_. 0)))\<lparr>timerHead := 1\<rparr>"

theorem rescheduled_timer_hangs_witness:
  "\<exists>s'. schedule_timer 1 one_timer = Some (Inr (1, s')) \<and> schedule_timer 2 s' = None"
proof -
  have "timer_list one_timer [1]" "currentTime one_timer \<le> stamp one_timer 1"
    "stamp one_timer 1 \<le> stamp one_timer 2"
    by (simp_all add: one_timer_def timer_list_def fresh_scheduler_def events_at_def blank_event_def)
  from rescheduled_timer_hangs [OF this(1,2) _ _ this(3)] show ?thesis by auto
qed

end
