(* ===== verification/Timers.thy ===== *)
theory Timers
  imports TimerQueue
begin

text \<open>
  The timer objects of \<open>timer.cc\<close>.  A \<open>timerObj\<close> at address \<open>t\<close> owns one event, \<open>callout_event\<close>,
  which is in the scheduler's timer list while the timer runs.  \<open>timer_wf s xs t\<close> is what the
  operations keep between the object and the timer list \<open>xs\<close>.
\<close>

definition upd_timer :: "addr \<Rightarrow> (timerObj \<Rightarrow> timerObj) \<Rightarrow> scheduler \<Rightarrow> scheduler" where
  "upd_timer t f s = s\<lparr>timers := (timers s)(t := f (timers s t))\<rparr>"

abbreviation tev :: "scheduler \<Rightarrow> addr \<Rightarrow> addr" where "tev s t \<equiv> callout_event (timers s t)"

definition timerObj_new :: "addr \<Rightarrow> scheduler \<Rightarrow> scheduler" where
  "timerObj_new t s =
     (let ep = fresh s in
      s\<lparr>fresh := ep + 1,
        store := (store s)(ep := (CREATE_EVENT (store s ep))\<lparr>DataInfo := t\<rparr>),
        timers := (timers s)(t := \<lparr>callout_event = ep, busy = 0, paused = 0, rtime = 0\<rparr>)\<rparr>)"

definition timerObj_delete :: "addr \<Rightarrow> scheduler \<Rightarrow> scheduler" where
  "timerObj_delete t s =
     (let ep = tev s t in
      s\<lparr>store := (store s)(ep := (store s ep)\<lparr>DataInfo := NULL\<rparr>), freed := insert ep (freed s)\<rparr>)"

definition timer_init :: "addr \<Rightarrow> scheduler \<Rightarrow> scheduler" where
  "timer_init t = upd_timer t (\<lambda>ob. ob\<lparr>busy := 0, paused := 0, rtime := 0\<rparr>)"

definition timer_cancel :: "addr \<Rightarrow> scheduler \<Rightarrow> scheduler option" where
  "timer_cancel t s = map_option snd
     (cancel_timer (tev s t) (upd_timer t (\<lambda>ob. ob\<lparr>busy := 0, paused := 0, rtime := 0\<rparr>) s))"

definition timer_start :: "u64 \<Rightarrow> u64 \<Rightarrow> addr \<Rightarrow> scheduler \<Rightarrow> scheduler run" where
  "timer_start time pero t s =
     (case (if busy (timers s t) \<noteq> 0 then map_option snd (cancel_timer (tev s t) s) else Some s) of
        None \<Rightarrow> None
      | Some s1 \<Rightarrow>
          (let s2 = upd_timer t (\<lambda>ob. ob\<lparr>busy := 1, paused := 0, rtime := 0\<rparr>) s1;
               expire = currentTime s2 + time
           in if expire < currentTime s2 then Some (Inl AssertFailed)
              else map_option (map_sum id snd)
                (schedule_timer (tev s2 t)
                   (s2\<lparr>store := SET_EVENT_TIMESTAMP (tev s2 t) expire pero (store s2)\<rparr>))))"

definition timer_pause :: "addr \<Rightarrow> scheduler \<Rightarrow> scheduler option" where
  "timer_pause t s =
     (let r = (if currentTime s > stamp s (tev s t) then 0 else stamp s (tev s t) - currentTime s)
      in map_option snd (cancel_timer (tev s t) (upd_timer t (\<lambda>ob. ob\<lparr>paused := 1, rtime := r\<rparr>) s)))"

definition set_stamp :: "addr \<Rightarrow> u64 \<Rightarrow> scheduler \<Rightarrow> scheduler" where
  "set_stamp ep v s = s\<lparr>store := (store s)(ep := (store s ep)\<lparr>timeStamp := v\<rparr>)\<rparr>"

text \<open>\<open>resume(time)\<close> and \<open>resume()\<close>.\<close>

definition timer_resume_after :: "u64 \<Rightarrow> addr \<Rightarrow> scheduler \<Rightarrow> (int \<times> scheduler) run" where
  "timer_resume_after time t s =
     schedule_timer (tev s t)
       (upd_timer t (\<lambda>ob. ob\<lparr>paused := 0, rtime := 0\<rparr>)
          (set_stamp (tev s t) (currentTime s + time + rtime (timers s t)) s))"

definition timer_resume :: "addr \<Rightarrow> scheduler \<Rightarrow> (int \<times> scheduler) run" where
  "timer_resume t s =
     schedule_timer (tev s t)
       (upd_timer t (\<lambda>ob. ob\<lparr>paused := 0\<rparr>)
          (set_stamp (tev s t) (currentTime s + rtime (timers s t)) s))"

definition timer_expire :: "addr \<Rightarrow> scheduler \<Rightarrow> u64" where
  "timer_expire t s = stamp s (tev s t)"

definition timer_setCallOutObj :: "addr \<Rightarrow> addr \<Rightarrow> addr \<Rightarrow> scheduler \<Rightarrow> int \<times> scheduler" where
  "timer_setCallOutObj t obj memf s =
     (let (r, m) = setEventCallOutObj (tev s t) obj memf t (store s) in (r, s\<lparr>store := m\<rparr>))"

definition timer_setCallOutFunc :: "addr \<Rightarrow> addr \<Rightarrow> scheduler \<Rightarrow> int \<times> scheduler" where
  "timer_setCallOutFunc t fn s =
     (let (r, m) = setEventCallOutFunc (tev s t) fn t (store s) in (r, s\<lparr>store := m\<rparr>))"

subsection \<open>The invariant between a timer and the timer list\<close>

definition timer_wf :: "scheduler \<Rightarrow> addr list \<Rightarrow> addr \<Rightarrow> bool" where
  "timer_wf s xs t \<longleftrightarrow> tev s t \<noteq> NULL
     \<and> (tev s t \<in> set xs \<longrightarrow> busy (timers s t) \<noteq> 0)
     \<and> (tev s t \<notin> set xs \<longrightarrow> nxt (store s) (tev s t) = NULL)"

lemma upd_timer_simps [simp]:
  "store (upd_timer t f s) = store s" "timerHead (upd_timer t f s) = timerHead s"
  "currentTime (upd_timer t f s) = currentTime s" "schedHeap (upd_timer t f s) = schedHeap s"
  "freed (upd_timer t f s) = freed s" "fresh (upd_timer t f s) = fresh s"
  "simulateTime (upd_timer t f s) = simulateTime s" "t0e (upd_timer t f s) = t0e s"
  "timers (upd_timer t f s) = (timers s)(t := f (timers s t))"
  by (simp_all add: upd_timer_def)

lemma set_stamp_simps [simp]:
  "timerHead (set_stamp ep v s) = timerHead s" "timers (set_stamp ep v s) = timers s"
  "currentTime (set_stamp ep v s) = currentTime s" "schedHeap (set_stamp ep v s) = schedHeap s"
  "stamp (set_stamp ep v s) = (stamp s)(ep := v)" "nxt (store (set_stamp ep v s)) = nxt (store s)"
  by (auto simp: set_stamp_def fun_eq_iff)

lemma set_stamp_fields [simp]:
  "next_ep (store (set_stamp ep v s) x) = next_ep (store s x)"
  "timeStamp (store (set_stamp ep v s) x) = (if x = ep then v else stamp s x)"
  by (simp_all add: set_stamp_def)

lemma same_but_links_timers: "same_but_links s s' \<Longrightarrow> timers s' = timers s"
  unfolding same_but_links_def by (metis scheduler.select_convs(9) scheduler.surjective
      scheduler.update_convs(2) scheduler.update_convs(8))

lemma same_but_links_time: "same_but_links s s' \<Longrightarrow> currentTime s' = currentTime s"
  unfolding same_but_links_def by (metis scheduler.select_convs(4) scheduler.surjective
      scheduler.update_convs(2) scheduler.update_convs(8))

lemma timer_list_cong:
  assumes "\<And>x. x \<in> set xs \<Longrightarrow> nxt (store s') x = nxt (store s) x \<and> stamp s' x = stamp s x"
    and "timerHead s' = timerHead s"
  shows "timer_list s' xs = timer_list s xs"
proof -
  have "map (stamp s') xs = map (stamp s) xs" using assms(1) by simp
  moreover have "chain (nxt (store s')) (timerHead s) xs = chain (nxt (store s)) (timerHead s) xs"
    by (rule seg_cong) (use assms(1) in simp)
  ultimately show ?thesis unfolding timer_list_def assms(2) by (simp only:)
qed

lemma timer_list_upd_timer [simp]: "timer_list (upd_timer t f s) xs = timer_list s xs"
  by (simp add: timer_list_def)

lemma timer_list_set_stamp [simp]:
  "ep \<notin> set xs \<Longrightarrow> timer_list (set_stamp ep v s) xs = timer_list s xs"
  by (rule timer_list_cong) (auto simp: set_stamp_def)

lemma timer_list_set_timestamp [simp]:
  "ep \<notin> set xs \<Longrightarrow> timer_list (s\<lparr>store := SET_EVENT_TIMESTAMP ep v p (store s)\<rparr>) xs = timer_list s xs"
  by (rule timer_list_cong) (auto simp: SET_EVENT_TIMESTAMP_def)

lemma insert_timer_cong:
  "(\<And>x. x \<in> insert T (set xs) \<Longrightarrow> t x = t' x) \<Longrightarrow> insert_timer t T xs = insert_timer t' T xs"
  unfolding insert_timer_def by (metis (no_types, lifting) dropWhile_cong insertCI takeWhile_cong)

subsection \<open>What the operations do\<close>

lemma timer_list_distinct: "timer_list s xs \<Longrightarrow> distinct xs"
  unfolding timer_list_def using chain_distinct by blast

lemma timer_cancel_spec:
  assumes "timer_list s xs" "timer_wf s xs t"
  shows "\<exists>s'. timer_cancel t s = Some s' \<and> timer_list s' (remove1 (tev s t) xs)
    \<and> timer_wf s' (remove1 (tev s t) xs) t \<and> tev s' t = tev s t
    \<and> busy (timers s' t) = 0 \<and> rtime (timers s' t) = 0"
proof -
  let ?u = "upd_timer t (\<lambda>ob. ob\<lparr>busy := 0, paused := 0, rtime := 0\<rparr>) s"
  have ne: "tev s t \<noteq> NULL" using assms(2) by (simp add: timer_wf_def)
  have "timer_list ?u xs" using assms(1) by simp
  from cancel_timer_spec [OF this ne] obtain r s' where
    c: "cancel_timer (tev s t) ?u = Some (r, s')" "same_but_links ?u s'"
      "timer_list s' (remove1 (tev s t) xs)" "tev s t \<in> set xs \<longrightarrow> nxt (store s') (tev s t) = NULL"
      "tev s t \<notin> set xs \<longrightarrow> s' = ?u" by blast
  have tm: "timers s' = timers ?u" using c(2) by (rule same_but_links_timers)
  have "tev s t \<notin> set (remove1 (tev s t) xs)" using timer_list_distinct [OF assms(1)] by simp
  then have "timer_wf s' (remove1 (tev s t) xs) t"
    using assms(2) c(4,5) tm by (auto simp: timer_wf_def)
  then show ?thesis using c(1,3) tm by (simp add: timer_cancel_def)
qed

lemma timer_start_spec:
  assumes "timer_list s xs" "timer_wf s xs t" "currentTime s \<le> currentTime s + time"
  shows "\<exists>s'. timer_start time pero t s = Some (Inr s') \<and> tev s' t = tev s t
    \<and> timer_list s' (insert_timer ((stamp s)(tev s t := currentTime s + time)) (tev s t)
                       (remove1 (tev s t) xs))
    \<and> stamp s' = (stamp s)(tev s t := currentTime s + time)
    \<and> currentTime s' = currentTime s
    \<and> busy (timers s' t) = 1 \<and> paused (timers s' t) = 0"
proof -
  let ?e = "tev s t" let ?ys = "remove1 ?e xs"
  have wf: "?e \<noteq> NULL" "?e \<in> set xs \<longrightarrow> busy (timers s t) \<noteq> 0"
      "?e \<notin> set xs \<longrightarrow> nxt (store s) ?e = NULL" using assms(2) by (auto simp: timer_wf_def)
  have nin: "?e \<notin> set ?ys" using timer_list_distinct [OF assms(1)] by simp
  have "\<exists>s1. (if busy (timers s t) \<noteq> 0 then map_option snd (cancel_timer ?e s) else Some s) = Some s1
    \<and> same_but_links s s1 \<and> timer_list s1 ?ys \<and> nxt (store s1) ?e = NULL"
  proof (cases "busy (timers s t) = 0")
    case True
    then show ?thesis using wf assms(1) by (auto simp: remove1_idem)
  next
    case False
    from cancel_timer_spec [OF assms(1) wf(1)] False wf(3) show ?thesis by fastforce
  qed
  then obtain s1 where s1: "(if busy (timers s t) \<noteq> 0 then map_option snd (cancel_timer ?e s) else Some s) = Some s1"
    "same_but_links s s1" "timer_list s1 ?ys" "nxt (store s1) ?e = NULL" by blast
  note fr = same_but_links_timers [OF s1(2)] same_but_links_time [OF s1(2)] same_but_links_stamp [OF s1(2)]
  define u where "u = upd_timer t (\<lambda>ob. ob\<lparr>busy := 1, paused := 0, rtime := 0\<rparr>) s1"
  define v where "v = u\<lparr>store := SET_EVENT_TIMESTAMP ?e (currentTime s + time) pero (store u)\<rparr>"
  have "timer_list (s1\<lparr>store := SET_EVENT_TIMESTAMP ?e (currentTime s + time) pero (store s1)\<rparr>) ?ys"
    using s1(3) nin by simp
  then have "timer_list v ?ys" by (simp add: v_def u_def timer_list_def)
  then have v: "timer_list v ?ys" "nxt (store v) ?e = NULL" "stamp v = (stamp s)(?e := currentTime s + time)"
    "currentTime v = currentTime s" "timers v = timers u"
    using s1(4) fr by (auto simp: v_def u_def fun_eq_iff SET_EVENT_TIMESTAMP_def)
  have "currentTime v \<le> stamp v ?e" using fun_cong [OF v(3), of ?e] v(4) assms(3) by simp
  from schedule_timer_spec [OF v(1) wf(1) nin v(2) this] obtain s' where
    s': "schedule_timer ?e v = Some (Inr (1, s'))" "same_but_links v s'"
      "timer_list s' (insert_timer (stamp v) ?e ?ys)" by blast
  have "timer_start time pero t s = Some (Inr s')"
    using s1(1) s'(1) assms(3) fr unfolding timer_start_def
    by (simp add: Let_def u_def [symmetric] v_def not_less) (simp add: u_def v_def)
  moreover have "timers s' = timers u" "currentTime s' = currentTime s" "stamp s' = stamp v"
    using same_but_links_timers [OF s'(2)] same_but_links_time [OF s'(2)]
      same_but_links_stamp [OF s'(2)] v by auto
  ultimately show ?thesis using s'(3) v fr by (auto simp: u_def)
qed


lemma timer_pause_spec:
  assumes "timer_list s xs" "timer_wf s xs t"
  shows "\<exists>s'. timer_pause t s = Some s' \<and> timer_list s' (remove1 (tev s t) xs)
    \<and> tev s' t = tev s t \<and> nxt (store s') (tev s t) = NULL \<and> stamp s' = stamp s
    \<and> rtime (timers s' t) = stamp s (tev s t) - min (currentTime s) (stamp s (tev s t))"
proof -
  let ?r = "if currentTime s > stamp s (tev s t) then 0 else stamp s (tev s t) - currentTime s"
  let ?u = "upd_timer t (\<lambda>ob. ob\<lparr>paused := 1, rtime := ?r\<rparr>) s"
  have ne: "tev s t \<noteq> NULL" using assms(2) by (simp add: timer_wf_def)
  have "timer_list ?u xs" using assms(1) by simp
  from cancel_timer_spec [OF this ne] obtain r s' where
    c: "cancel_timer (tev s t) ?u = Some (r, s')" "same_but_links ?u s'"
      "timer_list s' (remove1 (tev s t) xs)" "tev s t \<in> set xs \<longrightarrow> nxt (store s') (tev s t) = NULL"
      "tev s t \<notin> set xs \<longrightarrow> s' = ?u" by blast
  have "timers s' = timers ?u" "stamp s' = stamp s"
    using same_but_links_timers [OF c(2)] same_but_links_stamp [OF c(2)] by auto
  moreover have "nxt (store s') (tev s t) = NULL"
    using c(4,5) assms(2) by (auto simp: timer_wf_def)
  moreover have "timer_pause t s = Some s'"
    using c(1) by (simp add: timer_pause_def)
  ultimately show ?thesis using c(3) by (auto simp: min_def)
qed

lemma timer_resume_spec:
  assumes "timer_list s xs" "tev s t \<notin> set xs" "tev s t \<noteq> NULL" "nxt (store s) (tev s t) = NULL"
    and "currentTime s \<le> currentTime s + rtime (timers s t)"
  shows "\<exists>s'. timer_resume t s = Some (Inr (1, s')) \<and> tev s' t = tev s t
    \<and> timer_list s' (insert_timer ((stamp s)(tev s t := currentTime s + rtime (timers s t)))
                       (tev s t) xs)
    \<and> stamp s' (tev s t) = currentTime s + rtime (timers s t)"
proof -
  let ?e = "tev s t" let ?v = "currentTime s + rtime (timers s t)"
  let ?u = "upd_timer t (\<lambda>ob. ob\<lparr>paused := 0\<rparr>) (set_stamp ?e ?v s)"
  have u: "timer_list ?u xs" "nxt (store ?u) ?e = NULL" "stamp ?u = (stamp s)(?e := ?v)"
    "currentTime ?u \<le> stamp ?u ?e" using assms by (simp_all add: fun_eq_iff)
  from schedule_timer_spec [OF u(1) assms(3,2) u(2,4)] obtain s' where
    s': "schedule_timer ?e ?u = Some (Inr (1, s'))" "same_but_links ?u s'"
      "timer_list s' (insert_timer (stamp ?u) ?e xs)" by blast
  moreover have "timers s' = timers ?u"
    using same_but_links_timers [OF s'(2)] .
  moreover have "stamp s' ?e = ?v"
    using fun_cong [OF same_but_links_stamp [OF s'(2)], of ?e] by simp
  ultimately show ?thesis using u(3) by (simp add: timer_resume_def)
qed

subsection \<open>Properties\<close>

text \<open>The timer object 50 owns the event 1 of \<open>one_timer\<close>, which is due at 1.\<close>

definition running_timer :: scheduler where
  "running_timer = upd_timer 50 (\<lambda>_. \<lparr>callout_event = 1, busy = 1, paused = 0, rtime = 0\<rparr>) one_timer"

lemma running_timer_ok: "timer_list running_timer [1]" "timer_wf running_timer [1] 50"
  by (simp_all add: running_timer_def one_timer_def timer_list_def timer_wf_def fresh_scheduler_def
      events_at_def blank_event_def)

text \<open>
  C23: \<open>start\<close> on a timer, running or not, leaves it in the timer list exactly once, to expire \<open>time\<close>
  ticks from now, with the other timers as they were; when the sum wraps around, the process ends in
  the failed assertion.
\<close>

theorem timer_start_schedules:
  assumes "timer_list s xs" "timer_wf s xs t"
  shows "if currentTime s \<le> currentTime s + time
    then \<exists>s' ys. timer_start time pero t s = Some (Inr s') \<and> timer_list s' ys
      \<and> mset ys = add_mset (tev s t) (mset (remove1 (tev s t) xs))
      \<and> timer_expire t s' = currentTime s + time
      \<and> (\<forall>p. p \<noteq> tev s t \<longrightarrow> stamp s' p = stamp s p) \<and> timer_wf s' ys t
    else timer_start time pero t s = Some (Inl AssertFailed)"
proof (cases "currentTime s \<le> currentTime s + time")
  case True
  from timer_start_spec [OF assms True] obtain s' where
    s': "timer_start time pero t s = Some (Inr s')" "tev s' t = tev s t"
      "timer_list s' (insert_timer ((stamp s)(tev s t := currentTime s + time)) (tev s t)
                       (remove1 (tev s t) xs))"
      "stamp s' = (stamp s)(tev s t := currentTime s + time)"
      "busy (timers s' t) = 1" by blast
  then show ?thesis using True assms(2) fun_cong [OF s'(4)]
    by (auto simp: timer_expire_def timer_wf_def intro!: exI)
next
  case False
  have ne: "tev s t \<noteq> NULL" using assms(2) by (simp add: timer_wf_def)
  obtain r c where "cancel_timer (tev s t) s = Some (r, c)" "same_but_links s c"
    using cancel_timer_spec [OF assms(1) ne] by blast
  then obtain s1 where s1: "(if busy (timers s t) \<noteq> 0 then map_option snd (cancel_timer (tev s t) s)
      else Some s) = Some s1" "same_but_links s s1"
    by (cases "busy (timers s t) = 0") auto
  have "currentTime s + time < currentTime s" using False by (simp add: not_le)
  then show ?thesis using False s1(1) same_but_links_time [OF s1(2)]
    by (simp add: timer_start_def Let_def)
qed

theorem timer_start_schedules_witness:
  "\<exists>s'. timer_start 5 0 50 running_timer = Some (Inr s') \<and> timer_expire 50 s' = 5"
  using timer_start_schedules [OF running_timer_ok, of 5 0]
  by (auto simp: running_timer_def one_timer_def fresh_scheduler_def)

text \<open>
  C24: pausing a timer and resuming it later, while the event loop ran on, queues it again with the
  time that was left when it was paused.
\<close>

theorem pause_resume_keeps_remaining:
  assumes "timer_list s xs" "timer_wf s xs t" "currentTime s \<le> timer_expire t s"
    and "timer_pause t s = Some s1"
    and "timer_list s2 ys" "tev s t \<notin> set ys" "timers s2 t = timers s1 t"
      "store s2 (tev s t) = store s1 (tev s t)"
    and "currentTime s2 \<le> currentTime s2 + (timer_expire t s - currentTime s)"
  shows "tev s t \<notin> set (remove1 (tev s t) xs) \<and> timer_list s1 (remove1 (tev s t) xs)
    \<and> (\<exists>s3 zs. timer_resume t s2 = Some (Inr (1, s3)) \<and> timer_list s3 zs
        \<and> mset zs = add_mset (tev s t) (mset ys)
        \<and> timer_expire t s3 - currentTime s2 = timer_expire t s - currentTime s)"
proof -
  from timer_pause_spec [OF assms(1,2)] assms(4) have
    p: "timer_list s1 (remove1 (tev s t) xs)" "tev s1 t = tev s t" "nxt (store s1) (tev s t) = NULL"
      "rtime (timers s1 t) = timer_expire t s - currentTime s"
    using assms(3) by (auto simp: timer_expire_def min_def)
  have e: "tev s2 t = tev s t" using assms(7) p(2) by simp
  have "tev s t \<noteq> NULL" using assms(2) by (simp add: timer_wf_def)
  moreover have "nxt (store s2) (tev s2 t) = NULL" using p(3) assms(8) e by simp
  moreover have "currentTime s2 \<le> currentTime s2 + rtime (timers s2 t)"
    using assms(7,9) p(4) by simp
  ultimately have "\<exists>s3. timer_resume t s2 = Some (Inr (1, s3)) \<and> tev s3 t = tev s2 t
    \<and> timer_list s3 (insert_timer ((stamp s2)(tev s2 t := currentTime s2 + rtime (timers s2 t)))
                       (tev s2 t) ys)
    \<and> stamp s3 (tev s2 t) = currentTime s2 + rtime (timers s2 t)"
    using assms(5,6) e by (intro timer_resume_spec) simp_all
  then obtain s3 where s3: "timer_resume t s2 = Some (Inr (1, s3))" "tev s3 t = tev s t"
    "timer_list s3 (insert_timer ((stamp s2)(tev s2 t := currentTime s2 + rtime (timers s2 t)))
                       (tev s2 t) ys)"
    "stamp s3 (tev s t) = currentTime s2 + rtime (timers s2 t)" using e by auto
  have "mset (insert_timer f (tev s2 t) ys) = add_mset (tev s t) (mset ys)" for f using e by simp
  moreover have "timer_expire t s3 - currentTime s2 = timer_expire t s - currentTime s"
    using s3(2,4) p(4) assms(7) by (simp add: timer_expire_def)
  ultimately have "\<exists>s3 zs. timer_resume t s2 = Some (Inr (1, s3)) \<and> timer_list s3 zs
    \<and> mset zs = add_mset (tev s t) (mset ys)
    \<and> timer_expire t s3 - currentTime s2 = timer_expire t s - currentTime s"
    using s3(1,3) by blast
  then show ?thesis using p(1) timer_list_distinct [OF assms(1)] by simp
qed

theorem pause_resume_keeps_remaining_witness:
  "\<exists>s1 s3. timer_pause 50 running_timer = Some s1
     \<and> timer_resume 50 (s1\<lparr>currentTime := 7\<rparr>) = Some (Inr (1, s3)) \<and> timer_expire 50 s3 - 7 = 1"
proof -
  from timer_pause_spec [OF running_timer_ok] obtain s1 where s1: "timer_pause 50 running_timer = Some s1"
    "timer_list s1 (remove1 (tev running_timer 50) [1])" by blast
  have e: "tev running_timer 50 = 1" "timer_expire 50 running_timer = 1" "currentTime running_timer = 0"
    by (simp_all add: running_timer_def one_timer_def fresh_scheduler_def timer_expire_def events_at_def
        blank_event_def)
  have l: "timer_list (s1\<lparr>currentTime := 7\<rparr>) []" using s1(2) e(1) by (simp add: timer_list_def)
  have o7: "currentTime (s1\<lparr>currentTime := 7\<rparr>)
      \<le> currentTime (s1\<lparr>currentTime := 7\<rparr>) + (timer_expire 50 running_timer - currentTime running_timer)"
    using e by simp
  from pause_resume_keeps_remaining [OF running_timer_ok _ s1(1) l _ _ _ o7] e show ?thesis
    using s1(1) by auto
qed

text \<open>
  \<open>pause\<close> does not look at \<open>paused_\<close>.  Pausing a timer that is already paused takes the time since
  the first pause off what is left: of 1000 ticks left at time 0, 400 are left after pausing again at
  time 600.
\<close>

theorem pause_twice_loses_time:
  "(let s0 = upd_timer 50 (\<lambda>ob. ob\<lparr>callout_event := 1\<rparr>) (fresh_scheduler 8 (\<lambda>_. blank_event)) in
    case timer_start 1000 0 50 s0 of
      Some (Inr s1) \<Rightarrow>
        (case timer_pause 50 s1 of
           Some s2 \<Rightarrow>
             (case timer_pause 50 (s2\<lparr>currentTime := 600\<rparr>) of
                Some s3 \<Rightarrow> (rtime (timers s2 50), rtime (timers s3 50)) = (1000, 400)
              | None \<Rightarrow> False)
         | None \<Rightarrow> False)
    | _ \<Rightarrow> False)"
  by code_simp

text \<open>
  the destructor frees the timer's event without taking it from the timer list: when the timer
  was running, the list then holds a freed event.
\<close>

theorem timer_delete_dangles:
  assumes "timer_list s xs" "tev s t \<in> set xs"
  shows "timer_list (timerObj_delete t s) xs \<and> tev s t \<in> set xs \<inter> freed (timerObj_delete t s)"
proof -
  have "timer_list (timerObj_delete t s) xs = timer_list s xs"
    by (rule timer_list_cong) (auto simp: timerObj_delete_def Let_def)
  then show ?thesis using assms by (simp add: timerObj_delete_def Let_def)
qed

theorem timer_delete_dangles_witness:
  "1 \<in> set [1] \<inter> freed (timerObj_delete 50 running_timer)"
proof -
  have "tev running_timer 50 = 1" by (simp add: running_timer_def)
  then show ?thesis using timer_delete_dangles [OF running_timer_ok(1), of 50] by simp
qed

end
