(* ===== verification/Scheduler.thy ===== *)
theory Scheduler
  imports Timers
begin

text \<open>
  The event loop of \<open>scheduler.cc\<close>: reading the event tunnel, removing the next event from the heap
  or the timer list, dispatching it, and the loop that does so until the simulation time is over;
  and the event functions of \<open>nctuns_api.cc\<close> that insert or free an event.  What the loop calls
  outside this file (member functions, callout functions, the command server, the GUI poll, the
  poll of the module binders) is the field \<open>call\<close> of \<open>env\<close>, together with the kernel's side of the
  tunnels.  The locale \<open>handlers\<close> says what a callout must keep.
\<close>

text \<open>\<open>CallObj obj memfun arg\<close>, \<open>CallFunc func arg\<close>, \<open>CheckIPCmessages nid fd pid\<close>.\<close>

datatype callout =
    CallObj addr addr addr
  | CallFunc addr addr
  | CheckIPCmessages u32 u32 u32
  | GuiPolling
  | PollBinders nat

record env =
  TICK :: u64
  ifcnt :: u32
  tunIFqlen :: "scheduler \<Rightarrow> nat \<Rightarrow> u32"
  iftun_obj :: "nat \<Rightarrow> addr"
  iftun_meth :: "nat \<Rightarrow> addr"
  get_nid :: "addr \<Rightarrow> nat"
  callout_chk :: "scheduler \<Rightarrow> int \<times> tun_event list"
  call :: "callout \<Rightarrow> scheduler \<Rightarrow> scheduler run"

definition T0E_TIMEOUT :: u32 where "T0E_TIMEOUT = 1"
definition T0E_CHKTUN :: u32 where "T0E_CHKTUN = 2"
definition T0E_CHK_CMDIPC :: u32 where "T0E_CHK_CMDIPC = 3"
definition T0E_NOTICE_CHILD_PGID :: u32 where "T0E_NOTICE_CHILD_PGID = 4"

lemmas t0e_flags = T0E_TIMEOUT_def T0E_CHKTUN_def T0E_CHK_CMDIPC_def T0E_NOTICE_CHILD_PGID_def

definition FORK_PROCESS :: u8 where "FORK_PROCESS = 1"
definition KILL_PROCESS :: u8 where "KILL_PROCESS = 2"

text \<open>The addresses of the callout functions of \<open>event.cc\<close>.\<close>

definition trafficGen_Event_addr :: addr where "trafficGen_Event_addr = 1"
definition SyncWithGUI_addr :: addr where "SyncWithGUI_addr = 2"
definition checkIPC_addr :: addr where "checkIPC_addr = 3"
definition showCurrentTime_addr :: addr where "showCurrentTime_addr = 4"

lemmas func_addrs = trafficGen_Event_addr_def SyncWithGUI_addr_def checkIPC_addr_def
  showCurrentTime_addr_def

subsection \<open>Inserting and freeing events\<close>

definition setEvent :: "addr \<Rightarrow> scheduler \<Rightarrow> abort + (int \<times> scheduler)" where
  "setEvent ep s =
     (case insertEvent (store s) (currentTime s) (simulateTime s) ep (schedHeap s) of
        Inl a \<Rightarrow> Inl a
      | Inr (r, h) \<Rightarrow> Inr (r, s\<lparr>schedHeap := h\<rparr>))"

definition FREE_EVENT :: "addr \<Rightarrow> scheduler \<Rightarrow> scheduler" where
  "FREE_EVENT ep s = s\<lparr>freed := insert ep (freed s)\<rparr>"

definition freeEvent :: "addr \<Rightarrow> scheduler \<Rightarrow> int \<times> scheduler" where
  "freeEvent ep s =
     (if ep \<noteq> NULL then
        (let s1 = (if DataInfo (store s ep) \<noteq> NULL
                   then s\<lparr>freed_data := insert (DataInfo (store s ep)) (freed_data s),
                          store := (store s)(ep := (store s ep)\<lparr>DataInfo := NULL\<rparr>)\<rparr>
                   else s)
         in (1, FREE_EVENT ep s1))
      else (-1, s))"

definition setEventReuse :: "addr \<Rightarrow> scheduler \<Rightarrow> abort + (int \<times> scheduler)" where
  "setEventReuse ep s =
     (if ep \<noteq> NULL \<and> perio (store s ep) > 0
      then setEvent ep (set_stamp ep (currentTime s + perio (store s ep)) s)
      else Inr (-1, s))"

definition setFuncEvent ::
  "addr \<Rightarrow> u64 \<Rightarrow> u64 \<Rightarrow> addr \<Rightarrow> addr \<Rightarrow> scheduler \<Rightarrow> abort + (int \<times> scheduler)" where
  "setFuncEvent ep t p fn data s =
     (if ep \<noteq> NULL \<and> fn \<noteq> NULL
      then setEvent ep (s\<lparr>store := (store s)(ep := (store s ep)\<lparr>timeStamp := t, perio := p,
             func := fn, DataInfo := data, calloutObj := NULL\<rparr>)\<rparr>)
      else Inr (-1, s))"

definition setObjEvent ::
  "addr \<Rightarrow> u64 \<Rightarrow> u64 \<Rightarrow> addr \<Rightarrow> addr \<Rightarrow> addr \<Rightarrow> scheduler \<Rightarrow> abort + (int \<times> scheduler)" where
  "setObjEvent ep t p obj memf data s =
     (if ep \<noteq> NULL \<and> obj \<noteq> NULL \<and> memf \<noteq> NULL
      then setEvent ep (s\<lparr>store := (store s)(ep := (store s ep)\<lparr>timeStamp := t, perio := p,
             calloutObj := obj, memfun := memf, DataInfo := data, func := NULL\<rparr>)\<rparr>)
      else Inr (-1, s))"

definition scheduleInsertEvent :: "addr \<Rightarrow> scheduler \<Rightarrow> abort + (int \<times> scheduler)" where
  "scheduleInsertEvent ep s = (if ep \<noteq> NULL then setEvent ep s else Inr (-1, s))"

subsection \<open>The event tunnel\<close>

text \<open>
  \<open>MICRO_TO_TICK\<close> multiplies by the double \<open>1000.0/TICK\<close> and truncates; the quotient of integers is
  its value wherever the double product is exact.
\<close>

definition MICRO_TO_TICK :: "u64 \<Rightarrow> u64 \<Rightarrow> u64" where
  "MICRO_TO_TICK tick time = word_of_int (uint time * 1000 div uint tick)"

text \<open>A block for an event or for a \<open>tgInfo\<close>: \<open>malloc\<close> gives the next address.\<close>

definition alloc :: "scheduler \<Rightarrow> addr \<times> scheduler" where
  "alloc s = (fresh s, s\<lparr>fresh := fresh s + 1\<rparr>)"

definition upd_event :: "addr \<Rightarrow> (event \<Rightarrow> event) \<Rightarrow> scheduler \<Rightarrow> scheduler" where
  "upd_event ep f s = s\<lparr>store := (store s)(ep := f (store s ep))\<rparr>"

text \<open>
  The part of the loop body of \<open>readt0e\<close> that fills the new event \<open>ep\<close>, and the timestamp it gives.
\<close>

definition fill_event ::
  "u64 \<Rightarrow> tun_event \<Rightarrow> addr \<Rightarrow> scheduler \<Rightarrow> abort + (u64 \<times> scheduler)" where
  "fill_event tick te ep s =
     (if te_flag te \<in> {T0E_TIMEOUT, T0E_CHK_CMDIPC, T0E_NOTICE_CHILD_PGID} then
        (if 1000 div tick = 0 then Inl DivByZero
         else if currentTime s div (1000 div tick) > te_value te then Inl (Exit 0)
         else let t0 = MICRO_TO_TICK tick (te_value te);
                  ticks = (if t0 < currentTime s then currentTime s else t0)
              in if te_flag te = T0E_CHK_CMDIPC then
                   Inr (ticks + 1, upd_event ep (\<lambda>e. e\<lparr>ev_optval := te_nid te,
                     ev_flag := CMD_SERVER, ev_socket_fd := te_socket_fd te, ev_pid := te_pid te\<rparr>) s)
                 else if te_flag te = T0E_TIMEOUT then
                   Inr (ticks, upd_event ep (\<lambda>e. e\<lparr>ev_optval := ucast (te_value te),
                     ev_flag := KTIMEOUT, priority := 0x00 AND 0x3f\<rparr>) s)
                 else
                   (let (ti, s1) = alloc s;
                        s2 = s1\<lparr>tgdata := (tgdata s1)(ti := \<lparr>todo = KILL_PROCESS,
                               tg_pid = te_pid te, endtime = 0\<rparr>)\<rparr>;
                        s3 = upd_event ep (\<lambda>e. e\<lparr>func := trafficGen_Event_addr, DataInfo := ti\<rparr>) s2
                    in Inr (te_value te,
                         if te_pid te \<in> set (tglist s3) then s3
                         else s3\<lparr>tglist := tglist s3 @ [te_pid te]\<rparr>)))
      else if te_flag te = T0E_CHKTUN then
        Inr (currentTime s, upd_event ep (\<lambda>e. e\<lparr>ev_optval := ucast (te_value te),
          ev_flag := CHKTUN\<rparr>) s)
      else Inl AssertFailed)"

definition t0e_event :: "u64 \<Rightarrow> tun_event \<Rightarrow> scheduler \<Rightarrow> abort + scheduler" where
  "t0e_event tick te s =
     (let (ep, s1) = alloc s in
      case fill_event tick te ep (upd_event ep CREATE_EVENT s1) of
        Inl a \<Rightarrow> Inl a
      | Inr (ticks, s2) \<Rightarrow>
          (case setEvent ep (s2\<lparr>store := SET_EVENT_TIMESTAMP ep ticks 0 (store s2)\<rparr>) of
             Inl a \<Rightarrow> Inl a
           | Inr (r, s3) \<Rightarrow>
               if r < 0 then
                 (if te_flag te = T0E_TIMEOUT then Inl (Exit 0) else Inr (FREE_EVENT ep s3))
               else Inr s3))"

primrec read_events :: "u64 \<Rightarrow> tun_event list \<Rightarrow> scheduler \<Rightarrow> abort + scheduler" where
  "read_events tick [] s = Inr s"
| "read_events tick (te # tes) s =
     (case t0e_event tick te (s\<lparr>t0e := tes\<rparr>) of Inl a \<Rightarrow> Inl a | Inr s' \<Rightarrow> read_events tick tes s')"

definition readt0e :: "env \<Rightarrow> scheduler \<Rightarrow> abort + (int \<times> scheduler)" where
  "readt0e E s =
     (if t0e s = [] then Inr (0, s) else map_sum id (Pair 1) (read_events (TICK E) (t0e s) s))"

definition triggerKernelCallouts :: "env \<Rightarrow> scheduler \<Rightarrow> abort + (int \<times> scheduler)" where
  "triggerKernelCallouts E s =
     (let (r, tes) = callout_chk E s in
      if r < 0 then Inl (Exit 1)
      else map_sum id (\<lambda>(_, s'). (1, s')) (readt0e E (s\<lparr>t0e := t0e s @ tes\<rparr>)))"

definition chktunnel :: "env \<Rightarrow> int \<Rightarrow> scheduler \<Rightarrow> abort + (int \<times> scheduler)" where
  "chktunnel E tunid s =
     (if tunid \<le> 0 \<or> tunid > sint (ifcnt E) then Inr (0, s)
      else let n = nat tunid in
        if tunIFqlen E s n \<noteq> 0 then
          (if iftun_obj E n = NULL \<or> iftun_meth E n = NULL then Inr (0, s)
           else let (ep, s1) = alloc s;
                    s2 = upd_event ep CREATE_EVENT s1;
                    s3 = s2\<lparr>store := SET_EVENT_TIMESTAMP ep (currentTime s2) 0 (store s2)\<rparr>;
                    s4 = upd_event ep (\<lambda>e. e\<lparr>calloutObj := iftun_obj E n, memfun := iftun_meth E n,
                           DataInfo := NULL, func := NULL\<rparr>) s3
                in map_sum id (\<lambda>(_, s'). (1, s')) (setEvent ep s4))
        else Inr (0, s))"

subsection \<open>Dispatching an event\<close>

text \<open>
  The three kinds of event that \<open>deqheap\<close> and \<open>deqtimer\<close> treat alike before any other: the result is
  \<open>None\<close> when the event is none of them.
\<close>

definition flag_event :: "env \<Rightarrow> addr \<Rightarrow> scheduler \<Rightarrow> scheduler run option" where
  "flag_event E ep s =
     (let e = store s ep in
      if ev_flag e = KTIMEOUT then
        Some (Some (map_sum id (\<lambda>(_, s'). FREE_EVENT ep s') (triggerKernelCallouts E s)))
      else if ev_flag e = CHKTUN then
        Some (Some (map_sum id (\<lambda>(_, s'). FREE_EVENT ep s') (chktunnel E (sint (ev_optval e)) s)))
      else if ev_flag e = CMD_SERVER then
        Some (map_option (map_sum id (FREE_EVENT ep))
          (call E (CheckIPCmessages (ev_optval e) (ev_socket_fd e) (ev_pid e)) s))
      else None)"

text \<open>Setting the clock, and \<open>nid\<close> when the event has a callout object.\<close>

definition begin_event :: "env \<Rightarrow> addr \<Rightarrow> scheduler \<Rightarrow> scheduler" where
  "begin_event E ep s =
     (let s1 = s\<lparr>currentTime := stamp s ep\<rparr> in
      if calloutObj (store s ep) \<noteq> NULL
      then s1\<lparr>nid := get_nid E (calloutObj (store s ep))\<rparr> else s1)"

definition deqheap :: "env \<Rightarrow> scheduler \<Rightarrow> scheduler run" where
  "deqheap E s =
     (let (ep, h) = dequeueEvent (store s) (currentTime s) (schedHeap s);
          s1 = s\<lparr>schedHeap := h\<rparr> in
      if stamp s1 ep < currentTime s1 then Some (Inl (Exit 0))
      else let s2 = begin_event E ep s1; e = store s2 ep in
        case flag_event E ep s2 of
          Some r \<Rightarrow> r
        | None \<Rightarrow>
            if calloutObj e \<noteq> NULL then call E (CallObj (calloutObj e) (memfun e) ep) s2
            else if func e \<noteq> NULL then call E (CallFunc (func e) ep) s2
            else Some (Inr (FREE_EVENT ep s2)))"

definition deqtimer :: "env \<Rightarrow> scheduler \<Rightarrow> scheduler run" where
  "deqtimer E s =
     (let (ep, s1) = dequeue_timer s in
      if stamp s1 ep < currentTime s1 then Some (Inl (Exit 0))
      else let s2 = begin_event E ep s1; e = store s2 ep in
        case flag_event E ep s2 of
          Some r \<Rightarrow> r
        | None \<Rightarrow>
            run_bind
              (if perio e > 0
               then map_option (map_sum id snd)
                      (schedule_timer ep (set_stamp ep (stamp s2 ep + perio e) s2))
               else Some (Inr (timer_init (DataInfo e) s2)))
              (\<lambda>s3. let e' = store s3 ep in
                 if calloutObj e' \<noteq> NULL then call E (CallObj (calloutObj e') (memfun e') NULL) s3
                 else if func e' \<noteq> NULL then call E (CallFunc (func e') NULL) s3
                 else Some (Inr s3)))"

text \<open>The choice between the heap and the timer list: the body of the first \<open>if\<close> of the loop.\<close>

definition dispatch_next :: "env \<Rightarrow> scheduler \<Rightarrow> scheduler run" where
  "dispatch_next E s =
     (if DumpNumEvent (schedHeap s) > 0 \<and> timerHead s \<noteq> NULL then
        (let h = eventHeap (schedHeap s) 1; t = timerHead s in
         if stamp s h < stamp s t then deqheap E s
         else if stamp s h = stamp s t then
           (if prio (store s) h \<ge> prio (store s) t then deqheap E s else deqtimer E s)
         else deqtimer E s)
      else if DumpNumEvent (schedHeap s) > 0 then deqheap E s
      else deqtimer E s)"

definition MAX_NUM_NODE :: nat where "MAX_NUM_NODE = 4096"

text \<open>One iteration of the loop of \<open>executeEvent\<close>.\<close>

definition exec_step :: "env \<Rightarrow> scheduler \<Rightarrow> scheduler run" where
  "exec_step E s =
     run_bind (Some (readt0e E s)) (\<lambda>(_, s1).
     run_bind (call E GuiPolling (s1\<lparr>nid := 0\<rparr>)) (\<lambda>s2.
       if DumpNumEvent (schedHeap s2) > 0 \<or> timerHead s2 \<noteq> NULL then
         run_bind (dispatch_next E s2) (\<lambda>s3.
           if 1 \<le> nid s3 \<and> nid s3 \<le> MAX_NUM_NODE then call E (PollBinders (nid s3)) s3
           else Some (Inr s3))
       else Some (Inr (s2\<lparr>currentTime := simulateTime s2 + 1\<rparr>))))"

partial_function (option) executeEvent :: "env \<Rightarrow> scheduler \<Rightarrow> scheduler run" where
  "executeEvent E s =
     (case exec_step E s of
        None \<Rightarrow> None
      | Some r \<Rightarrow>
          (case r of
             Inl a \<Rightarrow> Some (Inl a)
           | Inr s' \<Rightarrow> if currentTime s' \<le> simulateTime s' then executeEvent E s' else Some (Inr s')))"

subsection \<open>The invariant\<close>

text \<open>
  \<open>pending s xs\<close>: the events in the heap and in the timer list.  \<open>sched_inv\<close>: both queues are in
  order, no event is queued twice, and every queued event is a live block that is not due in the past.
\<close>

definition pending :: "scheduler \<Rightarrow> addr list \<Rightarrow> addr multiset" where
  "pending s xs = heap_events (schedHeap s) + mset xs"

definition usable :: "scheduler \<Rightarrow> addr \<Rightarrow> bool" where
  "usable s e \<longleftrightarrow> e \<noteq> NULL \<and> e < fresh s \<and> e \<notin> freed s"

definition sched_inv :: "scheduler \<Rightarrow> addr list \<Rightarrow> bool" where
  "sched_inv s xs \<longleftrightarrow> timer_list s xs \<and> heap_ok (store s) (schedHeap s)
     \<and> (\<forall>e. count (pending s xs) e \<le> 1)
     \<and> (\<forall>e\<in>#pending s xs. usable s e \<and> currentTime s \<le> stamp s e)
     \<and> 0 < fresh s \<and> (\<forall>e\<in>freed s. e < fresh s)"

text \<open>An event the caller holds: usable and not queued.\<close>

definition held :: "scheduler \<Rightarrow> addr list \<Rightarrow> addr \<Rightarrow> bool" where
  "held s xs e \<longleftrightarrow> usable s e \<and> e \<notin># pending s xs"

text \<open>A state that differs from \<open>s\<close> in ways the invariant does not see.\<close>

definition inv_equiv :: "scheduler \<Rightarrow> scheduler \<Rightarrow> addr list \<Rightarrow> bool" where
  "inv_equiv s s' xs \<longleftrightarrow> timerHead s' = timerHead s \<and> currentTime s' = currentTime s
     \<and> simulateTime s' = simulateTime s
     \<and> heap_events (schedHeap s') = heap_events (schedHeap s)
     \<and> (heap_ok (store s) (schedHeap s) \<longrightarrow> heap_ok (store s) (schedHeap s'))
     \<and> freed s \<subseteq> freed s' \<and> fresh s \<le> fresh s' \<and> (\<forall>e\<in>freed s'. e < fresh s')
     \<and> (\<forall>e\<in>#pending s xs. e \<notin> freed s' \<and> stamp s' e = stamp s e
          \<and> next_ep (store s' e) = next_ep (store s e))"

lemma inv_equiv_inv: "sched_inv s xs \<Longrightarrow> inv_equiv s s' xs \<Longrightarrow> sched_inv s' xs"
proof -
  assume i: "sched_inv s xs" and e: "inv_equiv s s' xs"
  have p: "pending s' xs = pending s xs" using e by (simp add: pending_def inv_equiv_def)
  have "timer_list s' xs = timer_list s xs"
    by (rule timer_list_cong) (use e in \<open>auto simp: inv_equiv_def pending_def\<close>)
  moreover have "heap_ok (store s') (schedHeap s') = heap_ok (store s) (schedHeap s')"
    by (rule heap_ok_cong) (use e in \<open>auto simp: inv_equiv_def pending_def\<close>)
  ultimately show ?thesis using i e p by (auto simp: sched_inv_def inv_equiv_def usable_def)
qed

lemma inv_equiv_held: "held s xs a \<Longrightarrow> inv_equiv s s' xs \<Longrightarrow> a \<notin> freed s' \<Longrightarrow> held s' xs a"
  by (auto simp: held_def inv_equiv_def usable_def pending_def)

lemma inv_equiv_refl: "sched_inv s xs \<Longrightarrow> inv_equiv s s xs"
  by (auto simp: inv_equiv_def sched_inv_def usable_def)

lemma inv_equiv_trans:
  "inv_equiv s s' xs \<Longrightarrow> inv_equiv s' s'' xs \<Longrightarrow> inv_equiv s s'' xs"
  unfolding inv_equiv_def pending_def
  by (metis heap_ok_cong order_trans subset_trans union_iff)

lemma inv_equiv_upd_event:
  assumes "sched_inv s xs" "ep \<notin># pending s xs"
  shows "inv_equiv s (upd_event ep f s) xs"
  using assms by (auto simp: inv_equiv_def upd_event_def sched_inv_def usable_def)

lemma inv_equiv_alloc:
  assumes "sched_inv s xs" "alloc s = (ep, s')"
  shows "inv_equiv s s' xs \<and> held s' xs ep"
  using assms by (auto simp: inv_equiv_def alloc_def sched_inv_def usable_def held_def pending_def)
    fastforce+

lemma inv_equiv_free:
  assumes "sched_inv s xs" "held s xs ep"
  shows "inv_equiv s (FREE_EVENT ep s) xs"
  using assms by (auto simp: inv_equiv_def FREE_EVENT_def sched_inv_def usable_def held_def)

lemma inv_equiv_field:
  assumes "sched_inv s xs"
  shows "inv_equiv s (s\<lparr>nid := n\<rparr>) xs" "inv_equiv s (s\<lparr>t0e := q\<rparr>) xs"
    "inv_equiv s (s\<lparr>tglist := l\<rparr>) xs" "inv_equiv s (s\<lparr>tgdata := d\<rparr>) xs"
    "inv_equiv s (upd_timer t g s) xs"
  using assms by (auto simp: inv_equiv_def sched_inv_def usable_def pending_def)

subsection \<open>Inserting keeps the invariant\<close>

text \<open>
  What the operations keep that insert into the heap: the invariant, the clock, and that the events
  the caller holds stay its own.
\<close>

definition keeps :: "scheduler \<Rightarrow> addr list \<Rightarrow> scheduler \<Rightarrow> bool" where
  "keeps s xs s' \<longleftrightarrow> sched_inv s' xs \<and> currentTime s' = currentTime s
     \<and> simulateTime s' = simulateTime s \<and> (\<forall>e. held s xs e \<longrightarrow> held s' xs e)"

lemma keeps_refl: "sched_inv s xs \<Longrightarrow> keeps s xs s"
  by (simp add: keeps_def)

lemma keeps_trans: "keeps s xs s' \<Longrightarrow> keeps s' xs s'' \<Longrightarrow> keeps s xs s''"
  by (simp add: keeps_def)

lemma setEvent_inv:
  assumes "sched_inv s xs" "held s xs ep" "setEvent ep s = Inr (r, s')"
  shows "sched_inv s' xs \<and> currentTime s' = currentTime s \<and> simulateTime s' = simulateTime s
    \<and> (r = 1 \<and> pending s' xs = add_mset ep (pending s xs) \<or> r \<le> 0 \<and> s' = s)"
proof -
  obtain h where h: "insertEvent (store s) (currentTime s) (simulateTime s) ep (schedHeap s) = Inr (r, h)"
    "s' = s\<lparr>schedHeap := h\<rparr>"
    using assms(3) by (auto simp: setEvent_def split: sum.splits)
  from insertEvent_Inr_cases [OF h(1)] show ?thesis
  proof
    assume r: "r = 1"
    have "heap_ok (store s) (schedHeap s)" using assms(1) by (simp add: sched_inv_def)
    from insertEvent_ok [OF this h(1) [unfolded r]] have
      ok: "heap_ok (store s) h" "heap_events h = add_mset ep (heap_events (schedHeap s))"
        "currentTime s \<le> stamp s ep" by auto
    have p: "pending s' xs = add_mset ep (pending s xs)" using ok(2) h(2) by (simp add: pending_def)
    have "sched_inv s' xs" unfolding sched_inv_def
    proof (intro conjI allI)
      show "timer_list s' xs" using assms(1) h(2) by (simp add: sched_inv_def timer_list_def)
      show "heap_ok (store s') (schedHeap s')" using ok(1) h(2) by simp
      show "count (pending s' xs) e \<le> 1" for e
        using assms(1,2) unfolding p sched_inv_def held_def by (auto simp: not_in_iff)
      show "\<forall>e\<in>#pending s' xs. usable s' e \<and> currentTime s' \<le> stamp s' e"
        using assms(1,2) ok(3) h(2) unfolding p by (auto simp: sched_inv_def held_def usable_def)
      show "0 < fresh s'" "\<forall>e\<in>freed s'. e < fresh s'"
        using assms(1) h(2) by (auto simp: sched_inv_def)
    qed
    moreover have "currentTime s' = currentTime s" "simulateTime s' = simulateTime s"
      using h(2) by simp_all
    ultimately show ?thesis using r p by (intro conjI disjI1)
  next
    assume "r \<le> 0 \<and> h = schedHeap s"
    then show ?thesis using h(2) assms(1) by simp
  qed
qed

text \<open>An event that is filled after it was allocated and then inserted.\<close>

lemma inv_equiv_frame:
  assumes "inv_equiv s s' xs" shows "currentTime s' = currentTime s" "simulateTime s' = simulateTime s"
  using assms by (auto simp: inv_equiv_def)

lemma set_timestamp_upd_event:
  "s\<lparr>store := SET_EVENT_TIMESTAMP ep t p (store s)\<rparr> = upd_event ep (\<lambda>e. e\<lparr>timeStamp := t, perio := p\<rparr>) s"
  by (simp add: upd_event_def SET_EVENT_TIMESTAMP_def)

lemma set_stamp_upd_event: "set_stamp ep t s = upd_event ep (\<lambda>e. e\<lparr>timeStamp := t\<rparr>) s"
  by (simp add: upd_event_def set_stamp_def)

lemma freed_upd_event [simp]: "freed (upd_event ep f s) = freed s"
  by (simp add: upd_event_def)

text \<open>
  \<open>prep s s' xs ep\<close>: \<open>s'\<close> is reached from \<open>s\<close> by writes the invariant does not see, and holds the
  block \<open>ep\<close> that was not in use in \<open>s\<close>.
\<close>

definition prep :: "scheduler \<Rightarrow> scheduler \<Rightarrow> addr list \<Rightarrow> addr \<Rightarrow> bool" where
  "prep s s' xs ep \<longleftrightarrow> sched_inv s' xs \<and> inv_equiv s s' xs \<and> held s' xs ep
     \<and> freed s' = freed s \<and> \<not> usable s ep"

lemma prep_equiv:
  assumes "prep s s' xs ep" "inv_equiv s' s'' xs" "freed s'' = freed s'"
  shows "prep s s'' xs ep"
proof -
  have "sched_inv s'' xs" using inv_equiv_inv assms(1,2) by (auto simp: prep_def)
  moreover have "inv_equiv s s'' xs" using inv_equiv_trans assms(1,2) by (auto simp: prep_def)
  moreover have "held s'' xs ep"
    using inv_equiv_held [OF _ assms(2)] assms(1,3) by (auto simp: prep_def held_def usable_def)
  ultimately show ?thesis using assms(1,3) by (simp add: prep_def)
qed

lemma prep_upd_event:
  assumes "prep s s' xs ep" shows "prep s (upd_event ep f s') xs ep"
proof (rule prep_equiv [OF assms])
  show "inv_equiv s' (upd_event ep f s') xs"
    using assms by (intro inv_equiv_upd_event) (auto simp: prep_def held_def)
qed simp

lemma prep_alloc: "sched_inv s xs \<Longrightarrow> alloc s = (ep, s') \<Longrightarrow> prep s s' xs ep"
  unfolding prep_def using inv_equiv_alloc [of s xs ep s'] inv_equiv_inv [of s xs s']
  by (auto simp: alloc_def usable_def)

lemma prep_setEvent:
  assumes "prep s s' xs ep" "setEvent ep s' = Inr (r, s'')"
  shows "keeps s xs s'' \<and> (r < 0 \<longrightarrow> held s'' xs ep)"
proof -
  have p: "sched_inv s' xs" "inv_equiv s s' xs" "held s' xs ep" "freed s' = freed s" "\<not> usable s ep"
    using assms(1) by (auto simp: prep_def)
  note e = setEvent_inv [OF p(1,3) assms(2)]
  have "held s'' xs a" if a: "held s xs a" for a
  proof -
    have "held s' xs a" using inv_equiv_held [OF a p(2)] a p(4) by (auto simp: held_def usable_def)
    moreover have "a \<noteq> ep" using a p(5) by (auto simp: held_def)
    moreover have "fresh s'' = fresh s'" "freed s'' = freed s'"
      using assms(2) by (auto simp: setEvent_def split: sum.splits)
    ultimately show ?thesis using e by (auto simp: held_def usable_def)
  qed
  then show ?thesis using e inv_equiv_frame [OF p(2)] p(3) by (auto simp: keeps_def)
qed

lemma fill_event_prep:
  assumes "prep s s' xs ep" "fill_event tick te ep s' = Inr (t, s'')"
  shows "prep s s'' xs ep"
proof -
  obtain ti s1 where a: "alloc s' = (ti, s1)" by fastforce
  let ?s2 = "s1\<lparr>tgdata := (tgdata s1)(ti := \<lparr>todo = KILL_PROCESS, tg_pid = te_pid te, endtime = 0\<rparr>)\<rparr>"
  have i: "sched_inv s' xs" using assms(1) by (simp add: prep_def)
  have "freed s1 = freed s'" using a by (auto simp: alloc_def)
  then have p1: "prep s s1 xs ep"
    using prep_equiv [OF assms(1)] inv_equiv_alloc [OF i a] by blast
  have p2: "prep s ?s2 xs ep"
    by (rule prep_equiv [OF p1 inv_equiv_field(4)]) (use p1 in \<open>simp_all add: prep_def\<close>)
  have p3: "prep s (upd_event ep f ?s2) xs ep" for f using p2 by (rule prep_upd_event)
  have p4: "prep s (upd_event ep f ?s2\<lparr>tglist := l\<rparr>) xs ep" for f l
    by (rule prep_equiv [OF p3 inv_equiv_field(3)]) (use p3 [of f] in \<open>simp_all add: prep_def\<close>)
  show ?thesis
    using assms(2) a p3 p4 prep_upd_event [OF assms(1)]
    by (auto simp: fill_event_def Let_def split: if_splits)
qed

lemma held_free:
  assumes "sched_inv s xs" "held s xs ep"
  shows "sched_inv (FREE_EVENT ep s) xs" and "held s xs e \<Longrightarrow> e \<noteq> ep \<Longrightarrow> held (FREE_EVENT ep s) xs e"
  using inv_equiv_inv [OF assms(1) inv_equiv_free [OF assms]]
  by (auto simp: held_def usable_def FREE_EVENT_def pending_def)

lemma t0e_event_inv:
  assumes "sched_inv s xs" "t0e_event tick te s = Inr s'"
  shows "keeps s xs s'"
proof -
  obtain ep s1 where a: "alloc s = (ep, s1)" by fastforce
  let ?c = "upd_event ep CREATE_EVENT s1"
  obtain t s2 where f: "fill_event tick te ep ?c = Inr (t, s2)"
    using assms(2) a by (auto simp: t0e_event_def split: sum.splits)
  let ?w = "s2\<lparr>store := SET_EVENT_TIMESTAMP ep t 0 (store s2)\<rparr>"
  obtain r s3 where e: "setEvent ep ?w = Inr (r, s3)"
    using assms(2) a f by (auto simp: t0e_event_def split: sum.splits)
  have "prep s ?c xs ep" using prep_upd_event [OF prep_alloc [OF assms(1) a]] .
  from fill_event_prep [OF this f] have w: "prep s ?w xs ep"
    unfolding set_timestamp_upd_event by (rule prep_upd_event)
  from prep_setEvent [OF w e] have k: "keeps s xs s3" "r < 0 \<longrightarrow> held s3 xs ep" by auto
  show ?thesis
  proof (cases "r < 0")
    case True
    then have "s' = FREE_EVENT ep s3" using assms(2) a f e by (simp add: t0e_event_def split: if_splits)
    moreover have "held s xs e \<Longrightarrow> e \<noteq> ep" for e using w by (auto simp: prep_def held_def)
    ultimately show ?thesis using k True held_free [of s3 xs ep]
      by (auto simp: keeps_def FREE_EVENT_def)
  next
    case False
    then show ?thesis using assms(2) a f e k by (simp add: t0e_event_def)
  qed
qed

lemma keeps_t0e: "sched_inv s xs \<Longrightarrow> keeps s xs (s\<lparr>t0e := q\<rparr>)"
  using inv_equiv_inv [OF _ inv_equiv_field(2)] by (auto simp: keeps_def held_def usable_def pending_def)

lemma read_events_inv:
  "sched_inv s xs \<Longrightarrow> read_events tick tes s = Inr s' \<Longrightarrow> keeps s xs s'"
proof (induction tes arbitrary: s)
  case Nil
  then show ?case by (auto simp: keeps_refl)
next
  case (Cons te tes)
  then obtain s1 where s1: "t0e_event tick te (s\<lparr>t0e := tes\<rparr>) = Inr s1"
    "read_events tick tes s1 = Inr s'" by (auto split: sum.splits)
  have k: "keeps s xs (s\<lparr>t0e := tes\<rparr>)" using Cons.prems(1) by (rule keeps_t0e)
  then have "keeps (s\<lparr>t0e := tes\<rparr>) xs s1" using t0e_event_inv s1(1) by (auto simp: keeps_def)
  moreover from this have "keeps s1 xs s'" using Cons.IH s1(2) by (auto simp: keeps_def)
  ultimately show ?case using k keeps_trans by blast
qed

lemma readt0e_inv:
  assumes "sched_inv s xs" "readt0e E s = Inr (r, s')"
  shows "keeps s xs s'"
  using assms read_events_inv [of s xs "TICK E" "t0e s" s']
  by (auto simp: readt0e_def keeps_refl split: if_splits)

lemma triggerKernelCallouts_inv:
  assumes "sched_inv s xs" "triggerKernelCallouts E s = Inr (r, s')"
  shows "keeps s xs s'"
proof -
  obtain q k where q: "readt0e E (s\<lparr>t0e := q\<rparr>) = Inr (k, s')"
    using assms(2) by (auto simp: triggerKernelCallouts_def split: prod.splits if_splits sum.splits)
  have k: "keeps s xs (s\<lparr>t0e := q\<rparr>)" using assms(1) by (rule keeps_t0e)
  then show ?thesis using readt0e_inv [OF _ q] keeps_trans by (auto simp: keeps_def)
qed

lemma chktunnel_inv:
  assumes "sched_inv s xs" "chktunnel E tunid s = Inr (r, s')"
  shows "keeps s xs s'"
proof (cases "s' = s")
  case True
  then show ?thesis using assms(1) by (simp add: keeps_refl)
next
  case False
  obtain ep s1 where a: "alloc s = (ep, s1)" by fastforce
  obtain f g k where e: "setEvent ep (upd_event ep f (upd_event ep g (upd_event ep CREATE_EVENT s1))) = Inr (k, s')"
    using assms(2) a False
    by (auto simp: chktunnel_def Let_def set_timestamp_upd_event
        split: if_splits sum.splits prod.splits)
  have "prep s (upd_event ep f (upd_event ep g (upd_event ep CREATE_EVENT s1))) xs ep"
    by (intro prep_upd_event prep_alloc [OF assms(1) a])
  from prep_setEvent [OF this e] show ?thesis by blast
qed

subsection \<open>Taking an event out\<close>

text \<open>\<open>ep\<close> is queued, and no queued event is due before it.\<close>

definition earliest :: "scheduler \<Rightarrow> addr list \<Rightarrow> addr \<Rightarrow> bool" where
  "earliest s xs ep \<longleftrightarrow> ep \<in># pending s xs \<and> (\<forall>e\<in>#pending s xs. stamp s ep \<le> stamp s e)"

text \<open>\<open>s'\<close> is \<open>s\<close> after \<open>ep\<close> was taken out and the clock set to its timestamp.\<close>

definition taken :: "scheduler \<Rightarrow> addr list \<Rightarrow> addr \<Rightarrow> scheduler \<Rightarrow> addr list \<Rightarrow> bool" where
  "taken s xs ep s' ys \<longleftrightarrow> sched_inv s' ys \<and> held s' ys ep \<and> currentTime s' = stamp s ep
     \<and> simulateTime s' = simulateTime s \<and> currentTime s \<le> stamp s ep"

lemma begin_event_fields [simp]:
  "schedHeap (begin_event E ep s) = schedHeap s" "store (begin_event E ep s) = store s"
  "timerHead (begin_event E ep s) = timerHead s" "fresh (begin_event E ep s) = fresh s"
  "freed (begin_event E ep s) = freed s" "simulateTime (begin_event E ep s) = simulateTime s"
  "currentTime (begin_event E ep s) = stamp s ep" "timers (begin_event E ep s) = timers s"
  by (simp_all add: begin_event_def Let_def)

lemma begin_event_inv:
  assumes "timer_list s ys" "heap_ok (store s) (schedHeap s)" "0 < fresh s" "\<forall>e\<in>freed s. e < fresh s"
    and "pending s0 xs = add_mset ep (pending s ys)" "\<forall>e. count (pending s0 xs) e \<le> 1"
    and "\<forall>e\<in>#pending s0 xs. usable s e \<and> stamp s ep \<le> stamp s e"
  shows "sched_inv (begin_event E ep s) ys \<and> held (begin_event E ep s) ys ep"
proof -
  let ?b = "begin_event E ep s"
  have p: "pending ?b ys = pending s ys" by (simp add: pending_def)
  have tl: "timer_list ?b ys" using assms(1) by (simp add: timer_list_def)
  have c: "count (pending s ys) e \<le> 1" for e
    using assms(5) spec [OF assms(6), of e] by (cases "e = ep") auto
  have n: "ep \<notin># pending s ys"
    using assms(5) spec [OF assms(6), of ep] by (simp add: not_in_iff)
  have "\<forall>e\<in>#pending s ys. usable ?b e \<and> currentTime ?b \<le> stamp ?b e"
    using assms(5,7) by (simp add: usable_def)
  moreover have "usable ?b ep" using assms(5,7) by (simp add: usable_def)
  ultimately show ?thesis using tl assms(2-4) c n p by (simp add: sched_inv_def held_def)
qed

lemma deqheap_taken:
  assumes inv: "sched_inv s xs" and ne: "numEvent (schedHeap s) \<noteq> 0"
    and d: "dequeueEvent (store s) (currentTime s) (schedHeap s) = (ep, h)"
    and e: "earliest s xs (eventHeap (schedHeap s) 1)"
  shows "ep = eventHeap (schedHeap s) 1 \<and> taken s xs ep (begin_event E ep (s\<lparr>schedHeap := h\<rparr>)) xs"
proof -
  have ok: "heap_ok (store s) (schedHeap s)" using inv by (simp add: sched_inv_def)
  note D = dequeueEvent_spec [OF ok ne d]
  let ?s1 = "s\<lparr>schedHeap := h\<rparr>"
  have p: "pending s xs = add_mset ep (pending ?s1 xs)" using D by (simp add: pending_def)
  have "timer_list ?s1 xs" using inv by (simp add: sched_inv_def timer_list_def)
  then have "sched_inv (begin_event E ep ?s1) xs \<and> held (begin_event E ep ?s1) xs ep"
  proof (rule begin_event_inv [OF _ _ _ _ p])
    show "\<forall>e\<in>#pending s xs. usable ?s1 e \<and> stamp ?s1 ep \<le> stamp ?s1 e"
      using inv e D by (auto simp: earliest_def sched_inv_def usable_def)
  qed (use inv D in \<open>auto simp: sched_inv_def\<close>)
  moreover have "currentTime s \<le> stamp s ep" using inv p by (simp add: sched_inv_def)
  ultimately show ?thesis using D by (simp add: taken_def)
qed

lemma deqtimer_taken:
  assumes inv: "sched_inv s (x # xs)" and d: "dequeue_timer s = (ep, s1)"
    and e: "earliest s (x # xs) x"
  shows "ep = x \<and> taken s (x # xs) ep (begin_event E ep s1) xs \<and> nxt (store s1) ep = NULL
    \<and> stamp s1 = stamp s"
proof -
  have tl: "timer_list s (x # xs)" using inv by (simp add: sched_inv_def)
  from dequeue_timer_spec [OF tl] d have D: "ep = x" "same_but_links s s1" "timer_list s1 xs"
    "x \<noteq> NULL" "nxt (store s1) x = NULL" by auto
  have f: "schedHeap s1 = schedHeap s" "fresh s1 = fresh s" "freed s1 = freed s"
    "simulateTime s1 = simulateTime s"
    using d by (auto simp: dequeue_timer_def Let_def split: if_splits)
  have st: "stamp s1 = stamp s" using same_but_links_stamp [OF D(2)] .
  have p: "pending s (x # xs) = add_mset ep (pending s1 xs)" using D(1) f(1) by (simp add: pending_def)
  have "heap_ok (store s1) (schedHeap s1) = heap_ok (store s) (schedHeap s1)"
    by (rule heap_ok_cong) (use fun_cong [OF st] in simp)
  then have ok: "heap_ok (store s1) (schedHeap s1)" using inv f(1) by (simp add: sched_inv_def)
  have "sched_inv (begin_event E ep s1) xs \<and> held (begin_event E ep s1) xs ep"
  proof (rule begin_event_inv [OF D(3) ok _ _ p])
    show "\<forall>e\<in>#pending s (x # xs). usable s1 e \<and> stamp s1 ep \<le> stamp s1 e"
      using inv e D(1) f fun_cong [OF st] by (auto simp: earliest_def sched_inv_def usable_def)
  qed (use inv f in \<open>auto simp: sched_inv_def\<close>)
  moreover have "currentTime s \<le> stamp s ep" using inv p by (simp add: sched_inv_def)
  ultimately show ?thesis using D f st fun_cong [OF st, of ep] by (simp add: taken_def)
qed

subsection \<open>What a callout must keep\<close>

primrec arg_event :: "callout \<Rightarrow> addr" where
  "arg_event (CallObj obj memf a) = a"
| "arg_event (CallFunc fn a) = a"
| "arg_event (CheckIPCmessages i f p) = NULL"
| "arg_event GuiPolling = NULL"
| "arg_event (PollBinders n) = NULL"

lemma same_but_links_fields:
  assumes "same_but_links s s'"
  shows "schedHeap s' = schedHeap s" "fresh s' = fresh s" "freed s' = freed s"
    "simulateTime s' = simulateTime s" "currentTime s' = currentTime s"
proof -
  have e: "s' = s\<lparr>store := store s', timerHead := timerHead s'\<rparr>"
    using assms by (simp add: same_but_links_def)
  show "schedHeap s' = schedHeap s" "fresh s' = fresh s" "freed s' = freed s"
    "simulateTime s' = simulateTime s" "currentTime s' = currentTime s"
    by (subst e, simp)+
qed

text \<open>
  The contract of a callout: the event it is given is its own, to insert again or to free, every
  other event the caller holds is left alone.
\<close>

definition call_keeps :: "addr set \<Rightarrow> scheduler \<Rightarrow> addr list \<Rightarrow> scheduler \<Rightarrow> bool" where
  "call_keeps A s xs s' \<longleftrightarrow> (\<exists>ys. sched_inv s' ys \<and> (\<forall>e. held s xs e \<and> e \<notin> A \<longrightarrow> held s' ys e))
     \<and> currentTime s' = currentTime s \<and> simulateTime s' = simulateTime s"

locale handlers =
  fixes E :: env
  assumes call_inv: "sched_inv s xs \<Longrightarrow> arg_event c = NULL \<or> held s xs (arg_event c) \<Longrightarrow>
    call E c s = Some (Inr s') \<Longrightarrow> call_keeps {arg_event c} s xs s'"

lemma keeps_call_keeps: "keeps s xs s' \<Longrightarrow> call_keeps A s xs s'"
  by (auto simp: keeps_def call_keeps_def)

lemma keeps_free_call_keeps: "keeps s xs s' \<Longrightarrow> held s xs ep \<Longrightarrow> call_keeps {ep} s xs (FREE_EVENT ep s')"
  using held_free [of s' xs ep] by (auto simp: keeps_def call_keeps_def FREE_EVENT_def)

lemma schedule_timer_inv:
  assumes inv: "sched_inv s xs" "held s xs T" "nxt (store s) T = NULL"
    and st: "schedule_timer T s = Some (Inr (r, s'))"
  shows "call_keeps {T} s xs s'"
proof (cases "stamp s T < currentTime s")
  case True
  then have "s' = s" using st schedule_timer_rejects [of T s] by simp
  then show ?thesis using inv(1) keeps_call_keeps keeps_refl by blast
next
  case False
  have tl: "timer_list s xs" and T: "T \<noteq> NULL" "T \<notin> set xs" "T \<notin># heap_events (schedHeap s)"
    using inv(1,2) by (auto simp: sched_inv_def held_def usable_def pending_def)
  from False have "currentTime s \<le> stamp s T" by simp
  from schedule_timer_spec [OF tl T(1,2) inv(3) this] st obtain
    S: "same_but_links s s'" "timer_list s' (insert_timer (stamp s) T xs)" by auto
  let ?ys = "insert_timer (stamp s) T xs"
  note f = same_but_links_fields [OF S(1)] and t = fun_cong [OF same_but_links_stamp [OF S(1)]]
  have p: "pending s' ?ys = add_mset T (pending s xs)" using f(1) by (simp add: pending_def)
  have "heap_ok (store s') (schedHeap s') = heap_ok (store s) (schedHeap s')"
    by (rule heap_ok_cong) (use t in simp)
  then have ok: "heap_ok (store s') (schedHeap s')" using inv(1) f(1) by (simp add: sched_inv_def)
  have "count (pending s' ?ys) e \<le> 1" for e
    using inv(1,2) p by (cases "e = T") (simp_all add: sched_inv_def held_def not_in_iff)
  moreover have "\<forall>e\<in>#pending s' ?ys. usable s' e \<and> currentTime s' \<le> stamp s' e"
    using inv(1,2) False p t f by (auto simp: sched_inv_def held_def usable_def)
  ultimately have "sched_inv s' ?ys" using S(2) ok inv(1) f by (simp add: sched_inv_def)
  moreover have "held s' ?ys e" if "held s xs e" "e \<noteq> T" for e
    using that p f by (simp add: held_def usable_def)
  ultimately show ?thesis using f by (auto simp: call_keeps_def)
qed

context handlers
begin

lemma flag_event_keeps:
  assumes inv: "sched_inv s xs" "held s xs ep" and f: "flag_event E ep s = Some (Some (Inr s'))"
  shows "call_keeps {ep} s xs s'"
proof -
  let ?e = "store s ep"
  consider (t) r s1 where "triggerKernelCallouts E s = Inr (r, s1)" "s' = FREE_EVENT ep s1"
    | (c) r s1 where "chktunnel E (sint (ev_optval ?e)) s = Inr (r, s1)" "s' = FREE_EVENT ep s1"
    | (i) s1 where "call E (CheckIPCmessages (ev_optval ?e) (ev_socket_fd ?e) (ev_pid ?e)) s = Some (Inr s1)"
        "s' = FREE_EVENT ep s1"
    using f by (auto simp: flag_event_def Let_def split: if_splits)
  then show ?thesis
  proof cases
    case t
    then show ?thesis using triggerKernelCallouts_inv inv keeps_free_call_keeps by blast
  next
    case c
    then show ?thesis using chktunnel_inv inv keeps_free_call_keeps by blast
  next
    case i
    have "call_keeps {NULL} s xs s1"
      using call_inv [OF inv(1) _ i(1)] by simp
    then obtain ys where "sched_inv s1 ys" "\<forall>e. held s xs e \<longrightarrow> held s1 ys e"
      "currentTime s1 = currentTime s" "simulateTime s1 = simulateTime s"
      unfolding call_keeps_def by (auto simp: held_def usable_def)
    then show ?thesis using held_free [of s1 ys ep] inv(2) i(2)
      by (auto simp: call_keeps_def FREE_EVENT_def)
  qed
qed

lemma deqheap_keeps:
  assumes "sched_inv s xs" "numEvent (schedHeap s) \<noteq> 0" "earliest s xs (eventHeap (schedHeap s) 1)"
    and "deqheap E s = Some (Inr s')"
  shows "(\<exists>ys. sched_inv s' ys) \<and> currentTime s' = stamp s (eventHeap (schedHeap s) 1)
    \<and> simulateTime s' = simulateTime s"
proof -
  obtain ep h where d: "dequeueEvent (store s) (currentTime s) (schedHeap s) = (ep, h)" by fastforce
  let ?s2 = "begin_event E ep (s\<lparr>schedHeap := h\<rparr>)"
  from deqheap_taken [OF assms(1,2) d assms(3)] have
    ep: "ep = eventHeap (schedHeap s) 1" and t: "taken s xs ep ?s2 xs" by blast+
  from t have inv: "sched_inv ?s2 xs" "held ?s2 xs ep" "\<not> stamp s ep < currentTime s"
    by (auto simp: taken_def)
  have "call_keeps {ep} ?s2 xs s'"
  proof (cases "flag_event E ep ?s2")
    case (Some r)
    then have "r = Some (Inr s')" using assms(4) d inv(3) by (simp add: deqheap_def Let_def)
    then show ?thesis using flag_event_keeps [OF inv(1,2)] Some by simp
  next
    case None
    let ?e = "store ?s2 ep"
    have "deqheap E s =
        (if calloutObj ?e \<noteq> NULL then call E (CallObj (calloutObj ?e) (memfun ?e) ep) ?s2
         else if func ?e \<noteq> NULL then call E (CallFunc (func ?e) ep) ?s2
         else Some (Inr (FREE_EVENT ep ?s2)))"
      using d inv(3) None by (simp add: deqheap_def Let_def)
    then consider (o) "call E (CallObj (calloutObj ?e) (memfun ?e) ep) ?s2 = Some (Inr s')"
      | (f) "call E (CallFunc (func ?e) ep) ?s2 = Some (Inr s')" | (n) "s' = FREE_EVENT ep ?s2"
      using assms(4) by (metis option.inject sum.inject(2))
    then show ?thesis
    proof cases
      case o then show ?thesis using call_inv [OF inv(1) _ o] inv(2) by simp
    next
      case f then show ?thesis using call_inv [OF inv(1) _ f] inv(2) by simp
    next
      case n then show ?thesis using keeps_free_call_keeps [OF keeps_refl [OF inv(1)] inv(2)] by simp
    qed
  qed
  then show ?thesis using t ep by (auto simp: call_keeps_def taken_def)
qed

lemma call_timer_keeps:
  assumes "call_keeps {ep} s xs s3"
    and "(if calloutObj e \<noteq> NULL then call E (CallObj (calloutObj e) (memfun e) NULL) s3
          else if func e \<noteq> NULL then call E (CallFunc (func e) NULL) s3
          else Some (Inr s3)) = Some (Inr s')"
  shows "(\<exists>ys. sched_inv s' ys) \<and> currentTime s' = currentTime s \<and> simulateTime s' = simulateTime s"
proof -
  obtain ys where y: "sched_inv s3 ys" "currentTime s3 = currentTime s" "simulateTime s3 = simulateTime s"
    using assms(1) by (auto simp: call_keeps_def)
  have "call_keeps {NULL} s3 ys s'"
  proof -
    consider "s' = s3" | c where "call E c s3 = Some (Inr s')" "arg_event c = NULL"
      using assms(2) by (metis arg_event.simps(1,2) option.inject sum.inject(2))
    then show ?thesis
    proof cases
      case 1
      then show ?thesis using keeps_call_keeps keeps_refl y(1) by blast
    next
      case 2
      then show ?thesis using call_inv [OF y(1) _ 2(1)] by simp
    qed
  qed
  then show ?thesis using y by (auto simp: call_keeps_def)
qed

lemma deqtimer_keeps:
  assumes "sched_inv s (x # xs)" "earliest s (x # xs) x" and "deqtimer E s = Some (Inr s')"
  shows "(\<exists>ys. sched_inv s' ys) \<and> currentTime s' = stamp s x \<and> simulateTime s' = simulateTime s"
proof -
  obtain ep s1 where d: "dequeue_timer s = (ep, s1)" by fastforce
  let ?s2 = "begin_event E ep s1"
  let ?e = "store s1 ep"
  from deqtimer_taken [OF assms(1) d assms(2)] have
    ep: "ep = x" and t: "taken s (x # xs) ep ?s2 xs" and nx: "nxt (store s1) ep = NULL"
    and st: "stamp s1 = stamp s" by blast+
  have cur: "currentTime s1 = currentTime s"
    using d by (auto simp: dequeue_timer_def Let_def split: if_splits)
  from t have inv: "sched_inv ?s2 xs" "held ?s2 xs ep" "\<not> stamp s1 ep < currentTime s1"
    using fun_cong [OF st, of ep] cur by (auto simp: taken_def)
  have "(\<exists>ys. sched_inv s' ys) \<and> currentTime s' = currentTime ?s2 \<and> simulateTime s' = simulateTime ?s2"
  proof (cases "flag_event E ep ?s2")
    case (Some r)
    then have "r = Some (Inr s')" using assms(3) d inv(3) by (simp add: deqtimer_def Let_def)
    then show ?thesis using flag_event_keeps [OF inv(1,2)] Some by (auto simp: call_keeps_def)
  next
    case None
    let ?q = "if perio ?e > 0 then map_option (map_sum id snd)
                (schedule_timer ep (set_stamp ep (stamp ?s2 ep + perio ?e) ?s2))
              else Some (Inr (timer_init (DataInfo ?e) ?s2))"
    have run: "deqtimer E s = run_bind ?q (\<lambda>s3. let e' = store s3 ep in
        if calloutObj e' \<noteq> NULL then call E (CallObj (calloutObj e') (memfun e') NULL) s3
        else if func e' \<noteq> NULL then call E (CallFunc (func e') NULL) s3
        else Some (Inr s3))"
      using d inv(3) None by (simp add: deqtimer_def Let_def)
    then obtain s3 where q: "?q = Some (Inr s3)"
      using assms(3) by (auto simp: run_bind_def split: option.splits sum.splits)
    have "call_keeps {ep} ?s2 xs s3"
    proof (cases "perio ?e > 0")
      case True
      then obtain r where r: "schedule_timer ep (set_stamp ep (stamp ?s2 ep + perio ?e) ?s2) = Some (Inr (r, s3))"
        using q by auto
      let ?w = "upd_event ep (\<lambda>e. e\<lparr>timeStamp := stamp ?s2 ep + perio ?e\<rparr>) ?s2"
      have i: "inv_equiv ?s2 ?w xs" using inv by (intro inv_equiv_upd_event) (auto simp: held_def)
      have "held ?w xs ep" using inv_equiv_held [OF inv(2) i] inv(2) by (simp add: held_def usable_def)
      moreover have "nxt (store ?w) ep = NULL" using nx by (simp add: upd_event_def)
      ultimately have "call_keeps {ep} ?w xs s3"
        using schedule_timer_inv [of ?w xs ep r s3] inv_equiv_inv [OF inv(1) i] r
        by (simp only: set_stamp_upd_event)
      moreover have "held ?s2 xs e \<Longrightarrow> held ?w xs e" for e
        using inv_equiv_held [OF _ i] by (auto simp: held_def usable_def)
      ultimately show ?thesis by (fastforce simp: call_keeps_def upd_event_def)
    next
      case False
      then have "s3 = timer_init (DataInfo ?e) ?s2" using q by simp
      then have i: "inv_equiv ?s2 s3 xs" using inv_equiv_field(5) inv(1) by (simp add: timer_init_def)
      moreover have "freed s3 = freed ?s2" using \<open>s3 = _\<close> by (simp add: timer_init_def)
      ultimately show ?thesis
        using inv_equiv_inv [OF inv(1) i] inv_equiv_held [OF _ i] inv_equiv_frame [OF i]
        by (auto simp: call_keeps_def held_def usable_def)
    qed
    moreover have "(let e' = store s3 ep in
        if calloutObj e' \<noteq> NULL then call E (CallObj (calloutObj e') (memfun e') NULL) s3
        else if func e' \<noteq> NULL then call E (CallFunc (func e') NULL) s3
        else Some (Inr s3)) = Some (Inr s')"
      using assms(3) unfolding run q by (simp add: run_bind_def)
    ultimately show ?thesis unfolding Let_def by (rule call_timer_keeps)
  qed
  then show ?thesis using t ep by (auto simp: taken_def)
qed

lemma dispatch_keeps:
  assumes inv: "sched_inv s xs" and ne: "pending s xs \<noteq> {#}" and d: "dispatch_next E s = Some (Inr s')"
  shows "(\<exists>ys. sched_inv s' ys) \<and> simulateTime s' = simulateTime s
    \<and> (\<exists>ep. earliest s xs ep \<and> currentTime s' = stamp s ep)"
proof -
  let ?h = "eventHeap (schedHeap s) 1"
  have ok: "heap_ok (store s) (schedHeap s)" and tl: "timer_list s xs"
    using inv by (auto simp: sched_inv_def)
  have hd: "timerHead s = NULL \<longleftrightarrow> xs = []" "xs \<noteq> [] \<Longrightarrow> timerHead s = hd xs"
    using tl timer_list_head [OF tl] by (cases xs; auto simp: timer_list_def)+
  have hl: "e \<in># heap_events (schedHeap s) \<Longrightarrow> stamp s ?h \<le> stamp s e" for e
    using heap_events_root_least [OF ok] .
  have tll: "e \<in> set xs \<Longrightarrow> stamp s (hd xs) \<le> stamp s e" for e
    using timer_list_least [of s "hd xs" "tl xs"] tl by (cases xs) auto
  have heap: "earliest s xs ?h" if "numEvent (schedHeap s) \<noteq> 0" "xs = [] \<or> stamp s ?h \<le> stamp s (hd xs)"
    using that root_in_heap_events hl tll by (fastforce simp: earliest_def pending_def)
  have timer: "earliest s xs (hd xs)"
    if "xs \<noteq> []" "numEvent (schedHeap s) = 0 \<or> stamp s (hd xs) \<le> stamp s ?h"
    using that hl tll heap_events_empty_iff [of "schedHeap s"]
    by (fastforce simp: earliest_def pending_def)
  consider (h) "numEvent (schedHeap s) \<noteq> 0" "earliest s xs ?h" "deqheap E s = Some (Inr s')"
    | (t) "xs \<noteq> []" "earliest s xs (hd xs)" "deqtimer E s = Some (Inr s')"
  proof -
    have "numEvent (schedHeap s) \<noteq> 0 \<or> xs \<noteq> []"
      using ne heap_events_empty_iff [of "schedHeap s"] by (auto simp: pending_def)
    then show thesis using d hd heap timer h t
      by (cases "numEvent (schedHeap s) = 0"; cases "xs = []")
        (auto simp: dispatch_next_def DumpNumEvent_def Let_def not_less split: if_splits)
  qed
  then show ?thesis
  proof cases
    case h
    then show ?thesis using deqheap_keeps [OF inv] by blast
  next
    case t
    then have "xs = hd xs # tl xs" by simp
    then show ?thesis using deqtimer_keeps [of s "hd xs" "tl xs"] inv t by metis
  qed
qed

text \<open>
  One iteration: the clock goes to the earliest event that is queued once the tunnel and the GUI were
  read, or, with nothing queued, to just after the end of the simulation.
\<close>

lemma exec_step_keeps:
  assumes inv: "sched_inv s xs" and st: "exec_step E s = Some (Inr s')"
  shows "(\<exists>ys. sched_inv s' ys) \<and> simulateTime s' = simulateTime s
    \<and> (\<exists>s2 ys. sched_inv s2 ys \<and> currentTime s2 = currentTime s \<and> simulateTime s2 = simulateTime s
        \<and> (if pending s2 ys = {#} then currentTime s' = simulateTime s + 1
           else \<exists>ep. earliest s2 ys ep \<and> currentTime s' = stamp s2 ep))"
proof -
  from st obtain r s1 s2 where
    1: "readt0e E s = Inr (r, s1)" and 2: "call E GuiPolling (s1\<lparr>nid := 0\<rparr>) = Some (Inr s2)" and
    3: "(if DumpNumEvent (schedHeap s2) > 0 \<or> timerHead s2 \<noteq> NULL then
         run_bind (dispatch_next E s2) (\<lambda>s3.
           if 1 \<le> nid s3 \<and> nid s3 \<le> MAX_NUM_NODE then call E (PollBinders (nid s3)) s3
           else Some (Inr s3))
       else Some (Inr (s2\<lparr>currentTime := simulateTime s2 + 1\<rparr>))) = Some (Inr s')"
    by (auto simp: exec_step_def run_bind_Inr)
  have "keeps s xs s1" using readt0e_inv inv 1 by blast
  then have "keeps s xs (s1\<lparr>nid := 0\<rparr>)"
    using inv_equiv_inv [OF _ inv_equiv_field(1)]
    by (auto simp: keeps_def held_def usable_def pending_def)
  then obtain ys where s2: "sched_inv s2 ys" "currentTime s2 = currentTime s"
    "simulateTime s2 = simulateTime s"
    using call_inv [of "s1\<lparr>nid := 0\<rparr>" xs GuiPolling s2] 2 by (auto simp: keeps_def call_keeps_def)
  have emp: "(DumpNumEvent (schedHeap s2) > 0 \<or> timerHead s2 \<noteq> NULL) \<longleftrightarrow> pending s2 ys \<noteq> {#}"
    using s2(1) timer_list_head [of s2 ys] heap_events_empty_iff [of "schedHeap s2"]
    by (auto simp: sched_inv_def pending_def DumpNumEvent_def)
  show ?thesis
  proof (cases "pending s2 ys = {#}")
    case True
    then have s': "s' = s2\<lparr>currentTime := simulateTime s2 + 1\<rparr>" using 3 emp by simp
    have "sched_inv s' ys" using s2(1) True s'
      by (auto simp: sched_inv_def pending_def timer_list_def)
    then show ?thesis using s2 s' True by auto
  next
    case False
    then obtain s3 where s3: "dispatch_next E s2 = Some (Inr s3)"
      "(if 1 \<le> nid s3 \<and> nid s3 \<le> MAX_NUM_NODE then call E (PollBinders (nid s3)) s3
           else Some (Inr s3)) = Some (Inr s')"
      using 3 emp by (auto simp: run_bind_Inr)
    from dispatch_keeps [OF s2(1) False s3(1)] obtain zs ep where
      k: "sched_inv s3 zs" "simulateTime s3 = simulateTime s2" "earliest s2 ys ep"
        "currentTime s3 = stamp s2 ep" by blast
    have "call_keeps {NULL} s3 zs s'"
      using s3(2) call_inv [OF k(1), of "PollBinders (nid s3)"] keeps_call_keeps keeps_refl [OF k(1)]
      by (auto split: if_splits)
    then show ?thesis using k s2 False by (auto simp: call_keeps_def)
  qed
qed

lemma exec_step_clock:
  assumes "sched_inv s xs" "exec_step E s = Some (Inr s')"
    and "currentTime s \<le> simulateTime s" "simulateTime s < simulateTime s + 1"
  shows "currentTime s \<le> currentTime s'"
proof -
  from exec_step_keeps [OF assms(1,2)] obtain s2 ys where
    k: "sched_inv s2 ys" "currentTime s2 = currentTime s"
      "if pending s2 ys = {#} then currentTime s' = simulateTime s + 1
       else \<exists>ep. earliest s2 ys ep \<and> currentTime s' = stamp s2 ep" by blast
  show ?thesis
  proof (cases "pending s2 ys = {#}")
    case True
    then show ?thesis using k(3) assms(3,4) by simp
  next
    case False
    then show ?thesis using k by (auto simp: earliest_def sched_inv_def)
  qed
qed

end

declare executeEvent.simps [code]

text \<open>A run of the loop that returns has passed the end of the simulation, in a good state.\<close>

lemma executeEvent_returns:
  assumes "executeEvent E s = Some r"
  shows "handlers E \<longrightarrow> (\<exists>xs. sched_inv s xs) \<longrightarrow> r = Inr s' \<longrightarrow>
    (\<exists>ys. sched_inv s' ys) \<and> simulateTime s' < currentTime s' \<and> simulateTime s' = simulateTime s"
    (is "?P E s r")
proof (rule executeEvent.raw_induct [where P = ?P, OF _ assms], intro impI)
  fix ex E s r
  assume IH: "\<And>E s r. ex E s = Some r \<Longrightarrow> ?P E s r"
    and r: "(case exec_step E s of None \<Rightarrow> None
      | Some (Inl a) \<Rightarrow> Some (Inl a)
      | Some (Inr s1) \<Rightarrow> if currentTime s1 \<le> simulateTime s1 then ex E s1 else Some (Inr s1)) = Some r"
    and h: "handlers E" and "\<exists>xs. sched_inv s xs" and r': "r = Inr s'"
  then obtain xs where xs: "sched_inv s xs" by blast
  from r r' obtain s1 where s1: "exec_step E s = Some (Inr s1)"
    "(if currentTime s1 \<le> simulateTime s1 then ex E s1 else Some (Inr s1)) = Some (Inr s')"
    by (auto split: option.splits sum.splits)
  from handlers.exec_step_keeps [OF h xs s1(1)] have
    k: "\<exists>ys. sched_inv s1 ys" "simulateTime s1 = simulateTime s" by auto
  show "(\<exists>ys. sched_inv s' ys) \<and> simulateTime s' < currentTime s' \<and> simulateTime s' = simulateTime s"
  proof (cases "currentTime s1 \<le> simulateTime s1")
    case True
    then have "ex E s1 = Some (Inr s')" using s1(2) by simp
    from IH [OF this] h k show ?thesis by auto
  next
    case False
    then show ?thesis using s1(2) k by auto
  qed
qed

end
