(* ===== verification/EventFuncs.thy ===== *)
theory EventFuncs
  imports Scheduler
begin

text \<open>
  The callout functions of \<open>event.cc\<close> that the event loop calls through an event's \<open>func_\<close>, the
  environment \<open>event_env\<close> that answers a callout with them, and the proof that it keeps the contract
  the event loop relies on, so that what the locale \<open>handlers\<close> shows of the loop holds with these
  functions.
\<close>

text \<open>
  \<open>SyncWithGUI\<close>, \<open>checkIPC\<close> and \<open>showCurrentTime\<close> send to or receive from the GUI and insert their
  event again; the two counters \<open>showCurrentTime\<close> prints are reset by reading them.
\<close>

definition SyncWithGUI :: "addr \<Rightarrow> scheduler \<Rightarrow> abort + scheduler" where
  "SyncWithGUI ep s = map_sum id snd (setEventReuse ep s)"

definition checkIPC :: "addr \<Rightarrow> scheduler \<Rightarrow> abort + scheduler" where
  "checkIPC ep s = map_sum id snd (setEventReuse ep s)"

definition showCurrentTime :: "addr \<Rightarrow> scheduler \<Rightarrow> abort + scheduler" where
  "showCurrentTime ep s =
     (let (_, h1) = DumpNumInsertEvent (schedHeap s);
          (_, h2) = DumpNumDequeueEvent h1;
          s1 = s\<lparr>schedHeap := h2\<rparr>
      in if ep = NULL then Inl NullDeref
         else if perio (store s1 ep) > 0
         then map_sum id snd (setEvent ep (set_stamp ep (currentTime s1 + perio (store s1 ep)) s1))
         else Inr s1)"

text \<open>
  The branch of \<open>trafficGen_Event\<close> that kills a traffic generator, with what follows it: the process
  is taken from \<open>g_tglist\<close> when it is still there, the \<open>tgInfo\<close> and the event are freed.  The branch
  that forks a process is not modelled.
\<close>

definition trafficGen_kill :: "addr \<Rightarrow> scheduler \<Rightarrow> scheduler" where
  "trafficGen_kill ep s =
     (let ti = DataInfo (store s ep);
          s1 = (if tg_pid (tgdata s ti) \<in> set (tglist s)
                then s\<lparr>tglist := remove1 (tg_pid (tgdata s ti)) (tglist s)\<rparr> else s);
          s2 = upd_event ep (\<lambda>e. e\<lparr>DataInfo := NULL\<rparr>) (s1\<lparr>freed_data := insert ti (freed_data s1)\<rparr>)
      in snd (freeEvent ep s2))"

definition event_call :: "(callout \<Rightarrow> scheduler \<Rightarrow> scheduler run) \<Rightarrow> callout \<Rightarrow> scheduler \<Rightarrow> scheduler run" where
  "event_call other c s =
     (case c of
        CallFunc fn ep \<Rightarrow>
          if fn = SyncWithGUI_addr then Some (SyncWithGUI ep s)
          else if fn = checkIPC_addr then Some (checkIPC ep s)
          else if fn = showCurrentTime_addr then Some (showCurrentTime ep s)
          else if fn = trafficGen_Event_addr then
            (if ep = NULL then Some (Inl NullDeref)
             else if todo (tgdata s (DataInfo (store s ep))) AND FORK_PROCESS \<noteq> 0 then other c s
             else if todo (tgdata s (DataInfo (store s ep))) AND KILL_PROCESS \<noteq> 0
               then Some (Inr (trafficGen_kill ep s))
             else Some (Inl AssertFailed))
          else other c s
      | _ \<Rightarrow> other c s)"

definition event_env :: "env \<Rightarrow> env" where
  "event_env E = E\<lparr>call := event_call (call E)\<rparr>"

subsection \<open>They keep the contract\<close>

lemma setEvent_call_keeps:
  assumes "sched_inv s xs" "held s xs ep" "setEvent ep s = Inr (r, s')"
  shows "call_keeps {ep} s xs s'"
proof -
  have "fresh s' = fresh s" "freed s' = freed s"
    using assms(3) by (auto simp: setEvent_def split: sum.splits)
  with setEvent_inv [OF assms] show ?thesis by (auto simp: call_keeps_def held_def usable_def)
qed

lemma set_stamp_setEvent:
  assumes "sched_inv s xs" "held s xs ep" "setEvent ep (set_stamp ep t s) = Inr (r, s')"
  shows "call_keeps {ep} s xs s'"
proof -
  let ?w = "upd_event ep (\<lambda>e. e\<lparr>timeStamp := t\<rparr>) s"
  have i: "inv_equiv s ?w xs" using assms(1,2) by (intro inv_equiv_upd_event) (auto simp: held_def)
  have h: "held s xs e \<Longrightarrow> held ?w xs e" for e
    using inv_equiv_held [OF _ i] by (auto simp: held_def usable_def)
  from setEvent_call_keeps [OF inv_equiv_inv [OF assms(1) i] h [OF assms(2)]] assms(3)
  have "call_keeps {ep} ?w xs s'" by (simp add: set_stamp_upd_event)
  then show ?thesis using h inv_equiv_frame [OF i] by (fastforce simp: call_keeps_def)
qed

lemma setEventReuse_keeps:
  assumes "sched_inv s xs" "ep = NULL \<or> held s xs ep" "setEventReuse ep s = Inr (r, s')"
  shows "call_keeps {ep} s xs s'"
  using assms keeps_call_keeps [OF keeps_refl, of s xs] set_stamp_setEvent [of s xs ep _ r s']
  by (auto simp: setEventReuse_def split: if_splits)

lemma showCurrentTime_keeps:
  assumes "sched_inv s xs" "held s xs ep" "showCurrentTime ep s = Inr s'"
  shows "call_keeps {ep} s xs s'"
proof -
  define s1 where "s1 = s\<lparr>schedHeap := (schedHeap s)\<lparr>numInsertEvent := 0, numDequeueEvent := 0\<rparr>\<rparr>"
  have e: "heap_events (schedHeap s1) = heap_events (schedHeap s)"
    by (simp add: s1_def heap_events_def)
  have i: "inv_equiv s s1 xs" using assms(1)
    by (auto simp: s1_def inv_equiv_def heap_ok_def heap_events_def sched_inv_def usable_def)
  have h: "held s xs a \<Longrightarrow> held s1 xs a" for a
    using inv_equiv_held [OF _ i] by (auto simp: held_def usable_def s1_def)
  have inv: "sched_inv s1 xs" using inv_equiv_inv [OF assms(1) i] .
  have "showCurrentTime ep s = (if perio (store s1 ep) > 0
         then map_sum id snd (setEvent ep (set_stamp ep (currentTime s1 + perio (store s1 ep)) s1))
         else Inr s1)"
    using assms(2)
    by (simp add: showCurrentTime_def held_def usable_def DumpNumInsertEvent_def DumpNumDequeueEvent_def s1_def)
  with assms(3) have "(if perio (store s1 ep) > 0
         then map_sum id snd (setEvent ep (set_stamp ep (currentTime s1 + perio (store s1 ep)) s1))
         else Inr s1) = Inr s'" by simp
  then have "call_keeps {ep} s1 xs s'"
    using set_stamp_setEvent [OF inv h [OF assms(2)]]
      keeps_call_keeps [OF keeps_refl [OF inv]]
    by (auto split: if_splits)
  then show ?thesis using h inv_equiv_frame [OF i] by (fastforce simp: call_keeps_def)
qed

lemma trafficGen_kill_keeps:
  assumes "sched_inv s xs" "held s xs ep"
  shows "call_keeps {ep} s xs (trafficGen_kill ep s)"
proof -
  let ?ti = "DataInfo (store s ep)"
  define s1 where "s1 = upd_event ep (\<lambda>e. e\<lparr>DataInfo := NULL\<rparr>)
    ((if tg_pid (tgdata s ?ti) \<in> set (tglist s)
      then s\<lparr>tglist := remove1 (tg_pid (tgdata s ?ti)) (tglist s)\<rparr> else s)
     \<lparr>freed_data := insert ?ti (freed_data s)\<rparr>)"
  have i: "inv_equiv s s1 xs" using assms
    by (auto simp: s1_def inv_equiv_def upd_event_def sched_inv_def usable_def held_def)
  have f: "freed s1 = freed s" by (simp add: s1_def)
  have inv: "sched_inv s1 xs" using inv_equiv_inv [OF assms(1) i] .
  have h: "held s xs a \<Longrightarrow> held s1 xs a" for a
    using inv_equiv_held [OF _ i] f by (auto simp: held_def usable_def)
  have "trafficGen_kill ep s = FREE_EVENT ep s1"
    using assms(2) by (simp add: trafficGen_kill_def s1_def freeEvent_def held_def usable_def
        upd_event_def Let_def)
  then show ?thesis using keeps_free_call_keeps [OF keeps_refl [OF inv] h [OF assms(2)]]
      h inv_equiv_frame [OF i] by (fastforce simp: call_keeps_def)
qed

lemma showCurrentTime_NULL [simp]: "showCurrentTime NULL s = Inl NullDeref"
  by (simp add: showCurrentTime_def DumpNumInsertEvent_def DumpNumDequeueEvent_def)

lemma event_env_handlers:
  assumes "handlers E" shows "handlers (event_env E)"
proof
  fix s xs c s'
  assume inv: "sched_inv s xs" and a: "arg_event c = NULL \<or> held s xs (arg_event c)"
    and c: "call (event_env E) c s = Some (Inr s')"
  show "call_keeps {arg_event c} s xs s'"
  proof (cases "call E c s = Some (Inr s')")
    case True
    then show ?thesis using handlers.call_inv [OF assms inv a] by blast
  next
    case False
    then obtain fn ep where f: "c = CallFunc fn ep" "event_call (call E) c s = Some (Inr s')"
      using c by (cases c) (auto simp: event_env_def event_call_def)
    consider (r) q where "setEventReuse ep s = Inr (q, s')"
      | (d) "showCurrentTime ep s = Inr s'" | (k) "s' = trafficGen_kill ep s" "ep \<noteq> NULL"
      using f False
      by (auto simp: event_call_def SyncWithGUI_def checkIPC_def split: if_splits)
    then show ?thesis
    proof cases
      case r
      then show ?thesis using setEventReuse_keeps inv a f(1) by simp
    next
      case d
      then have "ep \<noteq> NULL" by (cases "ep = NULL") auto
      then show ?thesis using showCurrentTime_keeps inv a f(1) d by simp
    next
      case k
      then show ?thesis using trafficGen_kill_keeps inv a f(1) by simp
    qed
  qed
qed

text \<open>
  An environment with a tick of 100 ns, no tunnel and no command waiting, in which the GUI, the
  command server and the modules do nothing.
\<close>

definition idle_env :: env where
  "idle_env = \<lparr>TICK = 100, ifcnt = 0, tunIFqlen = (\<lambda>_ _. 0), iftun_obj = (\<lambda>_. NULL),
     iftun_meth = (\<lambda>_. NULL), get_nid = (\<lambda>_. 0), callout_chk = (\<lambda>_. (0, [])),
     call = (\<lambda>_ s. Some (Inr s))\<rparr>"

lemma idle_env_handlers: "handlers idle_env"
  by unfold_locales (simp add: idle_env_def keeps_call_keeps keeps_refl)

interpretation evh: handlers "event_env idle_env"
  by (rule event_env_handlers [OF idle_env_handlers])

subsection \<open>Properties\<close>

text \<open>One event in the heap: \<open>SyncWithGUI\<close> every 300 ticks, first at 300.\<close>

definition sync_scheduler :: scheduler where
  "sync_scheduler = (fresh_scheduler 8 ((\<lambda>_. blank_event)(7 := blank_event\<lparr>timeStamp := 300,
     perio := 300, func := SyncWithGUI_addr\<rparr>)))
     \<lparr>schedHeap := \<lparr>maxEvent = 8, numEvent = 1, numInsertEvent = 1, numDequeueEvent = 0,
        eventHeap = (\<lambda>_. NULL)(1 := 7)\<rparr>\<rparr>"

lemma sync_scheduler_inv: "sched_inv sync_scheduler []"
  by (simp add: sync_scheduler_def sched_inv_def fresh_scheduler_def timer_list_def heap_ok_def
      ts_heap_def pending_def heap_events_def entries_def usable_def)

lemma sync_scheduler_step:
  "\<exists>s'. exec_step (event_env idle_env) sync_scheduler = Some (Inr s') \<and> currentTime s' = 300"
proof -
  have "case exec_step (event_env idle_env) sync_scheduler of Some (Inr s') \<Rightarrow> currentTime s' = 300
    | _ \<Rightarrow> False" by code_simp
  then show ?thesis by (auto split: option.splits sum.splits)
qed



text \<open>C21: an iteration of the loop never sets the clock back.\<close>

theorem clock_monotone:
  assumes "handlers E" "sched_inv s xs" "exec_step E s = Some (Inr s')"
    and "currentTime s \<le> simulateTime s" "simulateTime s < simulateTime s + 1"
  shows "currentTime s \<le> currentTime s'"
  using handlers.exec_step_clock [OF assms] .

theorem clock_monotone_witness:
  "\<exists>s'. exec_step (event_env idle_env) sync_scheduler = Some (Inr s')
     \<and> currentTime sync_scheduler \<le> currentTime s'"
proof -
  obtain s' where s': "exec_step (event_env idle_env) sync_scheduler = Some (Inr s')"
    using sync_scheduler_step by blast
  have "currentTime sync_scheduler \<le> simulateTime sync_scheduler"
    "simulateTime sync_scheduler < simulateTime sync_scheduler + 1"
    by (simp_all add: sync_scheduler_def fresh_scheduler_def)
  from clock_monotone [OF evh.handlers_axioms sync_scheduler_inv s' this] s' show ?thesis by blast
qed





end
