(* ===== verification/PacketBuffer.thy ===== *)
theory PacketBuffer
  imports Scheduler
begin

text \<open>
  The packet of \<open>packet.cc\<close> and \<open>packet.h\<close>: a buffer that grows towards lower addresses as headers
  are put in front, an optional cluster of \<open>pcluster\<close> bytes that takes over when the buffer inside
  the object is full, a reference-counted buffer that copies of a packet share, a list of named
  pieces of information, a handler and a stack of header protocols.

  Positions in a buffer are offsets: \<open>p_dat\<close> is the offset of the first data byte from the start of
  the \<open>pbuf\<close>, or from the start of the cluster when \<open>PF_EXTEND\<close> is set.  The sizes are those of the
  32-bit system the simulator is built for.  A shared buffer is a cell of \<open>sbufs\<close>; \<open>sfreed\<close> are the
  shared buffers given back.  The class keeps one item of information per \<open>PT_INFO\<close> buffer, because
  \<open>INFOSIZE\<close> is all of it; the model allows any number, as the code does.
\<close>

definition PLEN :: int where "PLEN = 128"
definition P_DATLEN :: int where "P_DATLEN = 94"
definition p_dbuf :: int where "p_dbuf = 36"
definition p_sbuf :: int where "p_sbuf = 32"
definition p_infobuf :: int where "p_infobuf = 16"
definition INFOSIZE :: int where "INFOSIZE = 112"
definition INFONAME :: nat where "INFONAME = 5"
definition INFOBODY :: int where "INFOBODY = 106"
definition pcluster :: int where "pcluster = 1024"
definition MAX_HDR_PROTO :: int where "MAX_HDR_PROTO = 20"

lemmas buffer_sizes = PLEN_def P_DATLEN_def p_dbuf_def p_sbuf_def p_infobuf_def INFOSIZE_def
  INFONAME_def INFOBODY_def pcluster_def MAX_HDR_PROTO_def

definition PF_SEND :: u16 where "PF_SEND = 0x0001"
definition PF_RECV :: u16 where "PF_RECV = 0x0002"
definition PF_WITHSHARED :: u16 where "PF_WITHSHARED = 0x0004"
definition PF_WITHINFO :: u16 where "PF_WITHINFO = 0x0008"
definition PF_EXTEND :: u16 where "PF_EXTEND = 0x1000"

lemmas packet_flags = PF_SEND_def PF_RECV_def PF_WITHSHARED_def PF_WITHINFO_def PF_EXTEND_def

type_synonym bytes = "int \<Rightarrow> u8"

text \<open>A \<open>PT_INFO\<close> buffer: the items in the order of insertion, each a name and the bytes written.\<close>

record info_pbuf =
  ip_len :: int
  ip_dat :: int
  ip_items :: "(u8 list \<times> u8 list) list"

datatype handler = HANDLE_NONE | HANDLE_FUNC addr | HANDLE_OBJ addr addr

record packet =
  p_len :: int
  p_tlen :: int
  p_dat :: int
  p_flags :: u16
  p_pid :: u64
  p_sptr :: addr
  p_bytes :: bytes
  p_ext :: bytes
  p_infos :: "info_pbuf list"
  hdl :: handler
  gateway :: u32
  pkt_err :: int
  hdr_p :: "int \<Rightarrow> u8 \<times> u32"
  hdr_sp :: int

record sbuf =
  s_type_info :: bool
  s_len :: int
  s_dat :: int
  s_pid :: u64
  s_refcnt :: u32
  s_cluster :: bytes
  s_items :: "(u8 list \<times> u8 list) list"

record pool =
  sbufs :: "addr \<Rightarrow> sbuf"
  sfresh :: addr
  sfreed :: "addr set"
  pktid :: u64

text \<open>Where a pointer that a packet gives out points to.\<close>

datatype dptr = DNull | InPbuf int | InCluster int | InShared addr int | InSharedHdr addr int

abbreviation flag :: "packet \<Rightarrow> u16 \<Rightarrow> bool" where "flag p f \<equiv> p_flags p AND f \<noteq> 0"

definition copy_bytes :: "bytes \<Rightarrow> int \<Rightarrow> bytes \<Rightarrow> int \<Rightarrow> int \<Rightarrow> bytes" where
  "copy_bytes dst d src s n = (\<lambda>i. if d \<le> i \<and> i < d + n then src (s + (i - d)) else dst i)"

definition put_bytes :: "bytes \<Rightarrow> int \<Rightarrow> u8 list \<Rightarrow> bytes" where
  "put_bytes dst d xs = (\<lambda>i. if d \<le> i \<and> i < d + int (length xs) then xs ! nat (i - d) else dst i)"

definition get_bytes :: "bytes \<Rightarrow> int \<Rightarrow> int \<Rightarrow> u8 list" where
  "get_bytes b d n = map (\<lambda>k. b (d + int k)) [0..<nat n]"

subsection \<open>Construction\<close>

text \<open>The constructor with an identifier; the one without takes it from the counter.\<close>

definition Packet_id :: "u64 \<Rightarrow> packet \<Rightarrow> packet" where
  "Packet_id i g = g\<lparr>p_infos := [], p_len := 0, p_dat := PLEN, p_tlen := 0, p_pid := i,
     p_flags := PF_SEND, p_sptr := NULL, hdl := HANDLE_NONE, gateway := 0, pkt_err := 0,
     hdr_sp := 0\<rparr>"

definition Packet :: "packet \<Rightarrow> pool \<Rightarrow> packet \<times> pool" where
  "Packet g po = (Packet_id (pktid po) g, po\<lparr>pktid := pktid po + 1\<rparr>)"

subsection \<open>Data in front\<close>

definition pkt_malloc :: "int \<Rightarrow> packet \<Rightarrow> abort + (dptr \<times> packet)" where
  "pkt_malloc len p =
     (let p1 = (if p_len p + len > P_DATLEN \<and> \<not> flag p PF_EXTEND
                then p\<lparr>p_flags := p_flags p OR PF_EXTEND,
                       p_ext := copy_bytes (p_ext p) (pcluster - p_len p) (p_bytes p) (p_dat p) (p_len p),
                       p_dat := pcluster - p_len p\<rparr>
                else p)
      in if flag p1 PF_EXTEND \<and> p_dat p1 - len < 0 then Inl (Exit (-1))
         else let p2 = p1\<lparr>p_len := p_len p1 + len, p_tlen := p_tlen p1 + len,
                          p_dat := p_dat p1 - len\<rparr>
              in Inr (if flag p2 PF_EXTEND then InCluster (p_dat p2) else InPbuf (p_dat p2), p2))"

definition pkt_prepend :: "u8 list \<Rightarrow> packet \<Rightarrow> abort + (int \<times> packet)" where
  "pkt_prepend xs p =
     (case pkt_malloc (int (length xs)) p of
        Inl a \<Rightarrow> Inl a
      | Inr (ptr, p1) \<Rightarrow>
          Inr (1, if flag p1 PF_EXTEND then p1\<lparr>p_ext := put_bytes (p_ext p1) (p_dat p1) xs\<rparr>
                  else p1\<lparr>p_bytes := put_bytes (p_bytes p1) (p_dat p1) xs\<rparr>))"

definition pkt_seek :: "int \<Rightarrow> packet \<Rightarrow> int \<times> packet" where
  "pkt_seek off p =
     (if flag p PF_EXTEND then
        (1, if p_dat p + off \<ge> pcluster
            then p\<lparr>p_dat := pcluster, p_tlen := p_tlen p - p_len p, p_len := 0\<rparr>
            else if p_dat p + off < 0
            then p\<lparr>p_len := pcluster, p_tlen := p_tlen p + p_dat p, p_dat := 0\<rparr>
            else p\<lparr>p_dat := p_dat p + off, p_len := p_len p - off, p_tlen := p_tlen p - off\<rparr>)
      else
        (1, if p_dat p + off \<ge> PLEN
            then p\<lparr>p_dat := PLEN, p_tlen := p_tlen p - p_len p, p_len := 0\<rparr>
            else if p_dat p + off < p_dbuf
            then p\<lparr>p_len := P_DATLEN, p_tlen := p_tlen p + (p_dat p - p_dbuf), p_dat := p_dbuf\<rparr>
            else p\<lparr>p_dat := p_dat p + off, p_len := p_len p - off, p_tlen := p_tlen p - off\<rparr>))"

text \<open>A pointer \<open>off\<close> bytes into the data.\<close>

definition data_ptr :: "packet \<Rightarrow> int \<Rightarrow> dptr" where
  "data_ptr p off = (if flag p PF_EXTEND then InCluster (p_dat p + off) else InPbuf (p_dat p + off))"

definition pkt_get :: "packet \<Rightarrow> pool \<Rightarrow> dptr" where
  "pkt_get p po =
     (if p_len p > 0 then data_ptr p 0
      else if flag p PF_WITHSHARED \<and> s_len (sbufs po (p_sptr p)) > 0
        then InSharedHdr (p_sptr p) (s_dat (sbufs po (p_sptr p)))
      else DNull)"

definition pkt_get_at :: "int \<Rightarrow> packet \<Rightarrow> pool \<Rightarrow> dptr" where
  "pkt_get_at off p po =
     (if p_len p - off > 0 then data_ptr p off
      else if flag p PF_WITHSHARED \<and> s_len (sbufs po (p_sptr p)) > 0
        then InSharedHdr (p_sptr p) (s_dat (sbufs po (p_sptr p)))
      else DNull)"

definition pkt_getlen :: "packet \<Rightarrow> int" where "pkt_getlen p = p_tlen p"

definition pkt_setflow :: "u16 \<Rightarrow> packet \<Rightarrow> packet" where
  "pkt_setflow f p =
     (if f = PF_RECV then p\<lparr>p_flags := (p_flags p AND NOT PF_SEND) OR PF_RECV\<rparr>
      else if f = PF_SEND then p\<lparr>p_flags := (p_flags p AND NOT PF_RECV) OR PF_SEND\<rparr>
      else p)"

subsection \<open>The shared buffer\<close>

text \<open>\<open>P_SGET\<close> in the block \<open>a\<close>, and the attachment of it.\<close>

definition P_SGET :: "pool \<Rightarrow> addr \<times> pool" where
  "P_SGET po = (sfresh po, po\<lparr>sfresh := sfresh po + 1,
     sbufs := (sbufs po)(sfresh po := (sbufs po (sfresh po))\<lparr>s_type_info := False, s_len := 0,
       s_dat := PLEN, s_refcnt := 1, s_items := []\<rparr>)\<rparr>)"

definition pkt_sattach :: "int \<Rightarrow> packet \<Rightarrow> pool \<Rightarrow> dptr \<times> packet \<times> pool" where
  "pkt_sattach len p po =
     (if flag p PF_WITHSHARED then (DNull, p, po)
      else let (a, po1) = P_SGET po;
               po2 = po1\<lparr>sbufs := (sbufs po1)(a := (sbufs po1 a)\<lparr>s_pid := p_pid p\<rparr>)\<rparr>
           in (InShared a P_DATLEN, p\<lparr>p_flags := p_flags p OR PF_WITHSHARED, p_sptr := a\<rparr>, po2))"

definition pkt_sdeattach :: "packet \<Rightarrow> pool \<Rightarrow> abort + (int \<times> packet \<times> pool)" where
  "pkt_sdeattach p po =
     (if \<not> flag p PF_WITHSHARED then Inr (-1, p, po)
      else if p_sptr p = NULL then Inl AssertFailed
      else let sf = sbufs po (p_sptr p); p1 = p\<lparr>p_tlen := p_tlen p - s_len sf\<rparr> in
        if s_refcnt sf - 1 = 0 then
          Inr (1, p1\<lparr>p_flags := p_flags p1 AND NOT PF_WITHSHARED\<rparr>,
               po\<lparr>sfreed := insert (p_sptr p) (sfreed po)\<rparr>)
        else
          Inr (1, p1\<lparr>p_sptr := NULL, p_flags := p_flags p1 AND NOT PF_WITHSHARED\<rparr>,
               po\<lparr>sbufs := (sbufs po)(p_sptr p := sf\<lparr>s_refcnt := s_refcnt sf - 1\<rparr>)\<rparr>))"

definition pkt_sget :: "packet \<Rightarrow> dptr" where
  "pkt_sget p = (if p_sptr p \<noteq> NULL then InShared (p_sptr p) P_DATLEN else DNull)"

definition pkt_sprepend :: "dptr \<Rightarrow> int \<Rightarrow> packet \<Rightarrow> pool \<Rightarrow> int \<times> packet \<times> pool" where
  "pkt_sprepend d len p po =
     (if \<not> flag p PF_WITHSHARED then (-1, p, po)
      else if p_sptr p = NULL then (-1, p, po)
      else if InShared (p_sptr p) P_DATLEN = d then
        (1, p\<lparr>p_tlen := p_tlen p + len\<rparr>,
         po\<lparr>sbufs := (sbufs po)(p_sptr p := (sbufs po (p_sptr p))\<lparr>s_len := s_len (sbufs po (p_sptr p)) + len\<rparr>)\<rparr>)
      else (-1, p, po))"

text \<open>Copying the \<open>PT_INFO\<close> buffers sets the data pointer of each copy from its length.\<close>

definition copy_info :: "info_pbuf \<Rightarrow> info_pbuf" where
  "copy_info i = i\<lparr>ip_dat := PLEN - ip_len i\<rparr>"

text \<open>
  \<open>copy\<close>: the new object \<open>g\<close> is built with the source's identifier; copying the first \<open>PLEN\<close> bytes of
  the buffer then gives it the source's fields and data, without the header stack.
\<close>

definition pkt_copy_obj :: "packet \<Rightarrow> packet \<Rightarrow> pool \<Rightarrow> packet \<times> pool" where
  "pkt_copy_obj g p po =
     (let q = (Packet_id (p_pid p) g)\<lparr>gateway := gateway p, p_len := p_len p, p_tlen := p_tlen p,
            p_flags := p_flags p, p_sptr := p_sptr p, p_bytes := p_bytes p\<rparr>;
          q1 = (if flag p PF_EXTEND
                then q\<lparr>p_ext := copy_bytes (p_ext g) (pcluster - p_len q) (p_ext p) (p_dat p) (p_len p),
                       p_dat := pcluster - p_len q\<rparr>
                else q\<lparr>p_dat := PLEN - p_len q\<rparr>);
          po1 = (if flag p PF_WITHSHARED
                 then po\<lparr>sbufs := (sbufs po)(p_sptr p := (sbufs po (p_sptr p))
                            \<lparr>s_refcnt := s_refcnt (sbufs po (p_sptr p)) + 1\<rparr>)\<rparr>
                 else po)
      in (q1\<lparr>p_infos := map copy_info (p_infos p), hdl := hdl p\<rparr>, po1))"

definition release :: "packet \<Rightarrow> pool \<Rightarrow> abort + (packet \<times> pool)" where
  "release p po =
     (if flag p PF_WITHSHARED \<and> p_sptr p = NULL then Inl AssertFailed
      else let (p1, po1) =
          (if flag p PF_WITHSHARED then
             (let sf = sbufs po (p_sptr p); n = s_refcnt sf - 1;
                  po' = po\<lparr>sbufs := (sbufs po)(p_sptr p := sf\<lparr>s_refcnt := n\<rparr>)\<rparr>
              in (p\<lparr>p_sptr := NULL\<rparr>,
                  if n = 0 then po'\<lparr>sfreed := insert (p_sptr p) (sfreed po')\<rparr> else po'))
           else (p, po))
      in Inr (p1\<lparr>p_infos := []\<rparr>, po1))"

definition pkt_aggregate :: "packet \<Rightarrow> pool \<Rightarrow> abort + (dptr \<times> pool)" where
  "pkt_aggregate p po =
     (if p_tlen p = 0 then Inr (DNull, po)
      else if \<not> flag p PF_WITHSHARED then Inr (data_ptr p 0, po)
      else if p_sptr p = NULL then Inl AssertFailed
      else if p_len p = 0 then Inr (InShared (p_sptr p) P_DATLEN, po)
      else if \<not> flag p PF_EXTEND then
        (let sf = sbufs po (p_sptr p) in
         Inr (InShared (p_sptr p) (P_DATLEN - p_len p),
              po\<lparr>sbufs := (sbufs po)(p_sptr p := sf\<lparr>s_cluster :=
                copy_bytes (s_cluster sf) (P_DATLEN - p_len p) (p_bytes p) (p_dat p) (p_len p)\<rparr>)\<rparr>))
      else Inr (InShared (p_sptr p) P_DATLEN, po))"

subsection \<open>Named information\<close>

text \<open>
  \<open>strncpy\<close> keeps the first \<open>INFONAME\<close> characters of a name and \<open>strncmp\<close> compares as many.  A piece
  of information is written from the start of its body: a shorter one leaves the rest of a longer one
  behind it.
\<close>

definition info_name :: "u8 list \<Rightarrow> u8 list" where
  "info_name iname = take INFONAME iname"

definition overwrite :: "u8 list \<Rightarrow> u8 list \<Rightarrow> u8 list" where
  "overwrite new old = new @ drop (length new) old"

text \<open>The items \<open>pkt_getinfo\<close> looks at in one buffer: as many as \<open>ip_len\<close> covers and there is room for.\<close>

definition visible :: "int \<Rightarrow> int \<Rightarrow> (u8 list \<times> u8 list) list \<Rightarrow> (u8 list \<times> u8 list) list" where
  "visible base len items =
     take (nat (min ((len + INFOSIZE - 1) div INFOSIZE) ((PLEN - base) div INFOSIZE))) items"

definition item_of :: "u8 list \<Rightarrow> (u8 list \<times> u8 list) list \<Rightarrow> u8 list option" where
  "item_of iname items = map_option snd (List.find (\<lambda>it. fst it = info_name iname) items)"

fun getinfo :: "u8 list \<Rightarrow> info_pbuf list \<Rightarrow> u8 list option" where
  "getinfo iname [] = None"
| "getinfo iname (i # is) =
     (case item_of iname (visible p_infobuf (ip_len i) (ip_items i)) of
        Some b \<Rightarrow> Some b
      | None \<Rightarrow> getinfo iname is)"

definition pkt_getinfo :: "u8 list \<Rightarrow> packet \<Rightarrow> u8 list option" where
  "pkt_getinfo iname p = getinfo iname (p_infos p)"

text \<open>Writing over the first item of a name.\<close>

fun set_item :: "u8 list \<Rightarrow> u8 list \<Rightarrow> (u8 list \<times> u8 list) list \<Rightarrow> (u8 list \<times> u8 list) list" where
  "set_item n info [] = []"
| "set_item n info (it # its) =
     (if fst it = n then (n, overwrite info (snd it)) # its else it # set_item n info its)"

fun set_info :: "u8 list \<Rightarrow> u8 list \<Rightarrow> info_pbuf list \<Rightarrow> info_pbuf list" where
  "set_info iname info [] = []"
| "set_info iname info (i # is) =
     (if item_of iname (visible p_infobuf (ip_len i) (ip_items i)) \<noteq> None
      then i\<lparr>ip_items := set_item (info_name iname) info (ip_items i)\<rparr> # is
      else i # set_info iname info is)"

text \<open>\<open>INFO_COPYIN\<close>, and the place \<open>pkt_addinfo\<close> puts a new item in.\<close>

definition INFO_COPYIN :: "u8 list \<Rightarrow> u8 list \<Rightarrow> info_pbuf \<Rightarrow> info_pbuf" where
  "INFO_COPYIN iname info i = i\<lparr>ip_dat := ip_dat i - INFOSIZE, ip_len := ip_len i + INFOSIZE,
     ip_items := ip_items i @ [(info_name iname, info)]\<rparr>"

definition P_IGET :: info_pbuf where
  "P_IGET = \<lparr>ip_len = 0, ip_dat = PLEN, ip_items = []\<rparr>"

fun add_info :: "u8 list \<Rightarrow> u8 list \<Rightarrow> info_pbuf list \<Rightarrow> info_pbuf list" where
  "add_info iname info [] = [INFO_COPYIN iname info P_IGET]"
| "add_info iname info (i # is) =
     (if ip_dat i - INFOSIZE \<ge> p_infobuf then INFO_COPYIN iname info i # is
      else i # add_info iname info is)"

definition pkt_addinfo :: "u8 list \<Rightarrow> u8 list \<Rightarrow> packet \<Rightarrow> int \<times> packet" where
  "pkt_addinfo iname info p =
     (if int (length info) > INFOBODY then (-1, p)
      else if pkt_getinfo iname p \<noteq> None then (1, p\<lparr>p_infos := set_info iname info (p_infos p)\<rparr>)
      else (1, p\<lparr>p_flags := p_flags p OR PF_WITHINFO, p_infos := add_info iname info (p_infos p)\<rparr>))"

definition pkt_sgetinfo :: "u8 list \<Rightarrow> packet \<Rightarrow> pool \<Rightarrow> u8 list option" where
  "pkt_sgetinfo iname p po =
     (if p_sptr p \<noteq> NULL \<and> s_type_info (sbufs po (p_sptr p))
      then item_of iname (visible p_sbuf (s_len (sbufs po (p_sptr p))) (s_items (sbufs po (p_sptr p))))
      else None)"

definition pkt_saddinfo :: "u8 list \<Rightarrow> u8 list \<Rightarrow> packet \<Rightarrow> pool \<Rightarrow> int \<times> pool" where
  "pkt_saddinfo iname info p po =
     (if int (length info) > INFOSIZE then (-1, po)
      else let a = p_sptr p; sf = sbufs po a in
        if pkt_sgetinfo iname p po \<noteq> None then
          (1, po\<lparr>sbufs := (sbufs po)(a := sf\<lparr>s_items := set_item (info_name iname) info (s_items sf)\<rparr>)\<rparr>)
        else if a = NULL then (-1, po)
        else if s_dat sf - INFOSIZE \<ge> p_sbuf then
          (1, po\<lparr>sbufs := (sbufs po)(a := sf\<lparr>s_type_info := True, s_dat := s_dat sf - INFOSIZE,
                 s_len := s_len sf + INFOSIZE, s_items := s_items sf @ [(info_name iname, info)]\<rparr>)\<rparr>)
        else (-1, po))"

subsection \<open>Header protocols and handlers\<close>

definition pkt_pushproto :: "u8 \<Rightarrow> u32 \<Rightarrow> packet \<Rightarrow> int \<times> packet" where
  "pkt_pushproto proto len p =
     (if hdr_sp p \<ge> MAX_HDR_PROTO then (-1, p)
      else (1, p\<lparr>hdr_p := (hdr_p p)(hdr_sp p := (proto, len)), hdr_sp := hdr_sp p + 1\<rparr>))"

definition pkt_popproto :: "packet \<Rightarrow> u8 \<times> packet" where
  "pkt_popproto p =
     (if hdr_sp p \<le> 0 then (0, p)
      else (fst (hdr_p p (hdr_sp p)), p\<lparr>hdr_sp := hdr_sp p - 1\<rparr>))"

definition pkt_curproto :: "packet \<Rightarrow> u8" where
  "pkt_curproto p = (if hdr_sp p \<le> 0 then 0 else fst (hdr_p p (hdr_sp p)))"

definition pkt_setHandler_obj :: "addr \<Rightarrow> addr \<Rightarrow> packet \<Rightarrow> int \<times> packet" where
  "pkt_setHandler_obj ob meth p = (1, p\<lparr>hdl := HANDLE_OBJ ob meth\<rparr>)"

definition pkt_setHandler_func :: "addr \<Rightarrow> packet \<Rightarrow> int \<times> packet" where
  "pkt_setHandler_func fn p = (1, p\<lparr>hdl := HANDLE_FUNC fn\<rparr>)"

text \<open>\<open>pkt_callout\<close> on the event \<open>ep\<close> that carries the packet \<open>p\<close>, whose address is \<open>DataInfo_\<close>.\<close>

definition pkt_callout :: "packet \<Rightarrow> addr \<Rightarrow> scheduler \<Rightarrow> abort + (int \<times> scheduler)" where
  "pkt_callout p ep s =
     (if DataInfo (store s ep) = NULL then Inr (-1, s)
      else case hdl p of
        HANDLE_NONE \<Rightarrow> Inr (-1, s)
      | HANDLE_FUNC fn \<Rightarrow>
          map_sum id (\<lambda>(_, s'). (1, s')) (setFuncEvent ep (currentTime s) 0 fn (DataInfo (store s ep)) s)
      | HANDLE_OBJ ob meth \<Rightarrow>
          map_sum id (\<lambda>(_, s'). (1, s'))
            (setObjEvent ep (currentTime s) 0 ob meth (DataInfo (store s ep)) s))"

subsection \<open>Packets as events\<close>

text \<open>
  \<open>pkt_copy\<close>, \<open>createPacket\<close> and \<open>freePacket\<close> of \<open>nctuns_api.cc\<close>, on the events; the packet objects
  are at \<open>DataInfo_\<close>, \<open>obj'\<close> is the address of the new one.  \<open>g\<close> is what is in the new event's block.
\<close>

definition pkt_copy_event :: "event \<Rightarrow> addr \<Rightarrow> event \<Rightarrow> event" where
  "pkt_copy_event g obj' src = (createEvent g)\<lparr>timeStamp := timeStamp src, perio := perio src,
     priority := priority src, calloutObj := calloutObj src, func := func src, DataInfo := obj',
     ev_flag := ev_flag src\<rparr>"

definition createPacket_event :: "event \<Rightarrow> addr \<Rightarrow> event" where
  "createPacket_event g obj' = (let e = (createEvent g)\<lparr>DataInfo := obj'\<rparr>
     in e\<lparr>priority := (priority e AND 0x3f) OR 0x40\<rparr>)"

definition freePacket :: "(addr \<Rightarrow> packet) \<Rightarrow> addr \<Rightarrow> scheduler \<Rightarrow> pool \<Rightarrow> abort + (int \<times> scheduler \<times> pool)" where
  "freePacket packets ep s po =
     (if ep = NULL then Inr (-1, s, po)
      else let p = DataInfo (store s ep) in
        if p \<noteq> NULL then
          (case release (packets p) po of
             Inl a \<Rightarrow> Inl a
           | Inr (_, po') \<Rightarrow> Inr (1, FREE_EVENT ep (s\<lparr>freed_data := insert p (freed_data s)\<rparr>), po'))
        else Inr (1, FREE_EVENT ep s, po))"

subsection \<open>The data of a packet\<close>

definition pkt_wf :: "packet \<Rightarrow> bool" where
  "pkt_wf p \<longleftrightarrow> 0 \<le> p_len p \<and> (if flag p PF_EXTEND then p_len p \<le> pcluster \<and> p_dat p = pcluster - p_len p
     else p_len p \<le> P_DATLEN \<and> p_dat p = PLEN - p_len p)"

definition pkt_data :: "packet \<Rightarrow> u8 list" where
  "pkt_data p = get_bytes (if flag p PF_EXTEND then p_ext p else p_bytes p) (p_dat p) (p_len p)"

lemma length_get_bytes [simp]: "length (get_bytes b d n) = nat n"
  by (simp add: get_bytes_def)

lemma get_bytes_nth [simp]: "k < nat n \<Longrightarrow> get_bytes b d n ! k = b (d + int k)"
  by (simp add: get_bytes_def)

lemma get_bytes_cong: "(\<And>i. d \<le> i \<Longrightarrow> i < d + n \<Longrightarrow> b i = b' i) \<Longrightarrow> get_bytes b d n = get_bytes b' d n"
  by (simp add: get_bytes_def)

lemma get_bytes_put_front:
  assumes "0 \<le> n"
  shows "get_bytes (put_bytes b (d - int (length xs)) xs) (d - int (length xs)) (n + int (length xs))
    = xs @ get_bytes b d n"
proof (rule nth_equalityI)
  show "length (get_bytes (put_bytes b (d - int (length xs)) xs) (d - int (length xs)) (n + int (length xs)))
      = length (xs @ get_bytes b d n)" using assms by (simp add: nat_add_distrib)
next
  fix k assume "k < length (get_bytes (put_bytes b (d - int (length xs)) xs) (d - int (length xs)) (n + int (length xs)))"
  then have k: "k < nat n + length xs" using assms by (simp add: nat_add_distrib)
  show "get_bytes (put_bytes b (d - int (length xs)) xs) (d - int (length xs)) (n + int (length xs)) ! k
      = (xs @ get_bytes b d n) ! k"
  proof (cases "k < length xs")
    case True
    then show ?thesis using k assms by (simp add: put_bytes_def nth_append nat_add_distrib)
  next
    case False
    then obtain j where j: "k = length xs + j" by (metis le_add_diff_inverse not_less)
    have "d - int (length xs) + int k = d + int j" using j by simp
    then show ?thesis using False k assms j by (simp add: put_bytes_def nth_append nat_add_distrib)
  qed
qed

lemma get_bytes_copy: "get_bytes (copy_bytes dst d src s n) d n = get_bytes src s n"
  by (auto simp: get_bytes_def copy_bytes_def)

lemma get_bytes_drop: "0 \<le> k \<Longrightarrow> k \<le> n \<Longrightarrow> get_bytes b (d + k) (n - k) = drop (nat k) (get_bytes b d n)"
  by (rule nth_equalityI) (simp_all add: algebra_simps nat_diff_distrib)

lemma or_and_self [simp]: "(w OR f) AND f = f" for w :: u16
  by (rule bit_word_eqI) (auto simp: bit_simps)

lemma packet_flags_nonzero [simp]: "PF_SEND \<noteq> 0" "PF_RECV \<noteq> 0" "PF_WITHSHARED \<noteq> 0"
  "PF_WITHINFO \<noteq> 0" "PF_EXTEND \<noteq> 0"
  by (simp_all add: packet_flags)

lemma pkt_malloc_spec:
  assumes "pkt_wf p" "0 \<le> len"
  shows "if p_len p + len \<le> pcluster
    then \<exists>ptr p'. pkt_malloc len p = Inr (ptr, p') \<and> p_len p' = p_len p + len
      \<and> p_tlen p' = p_tlen p + len \<and> pkt_wf p'
      \<and> ptr = data_ptr p' 0
      \<and> get_bytes (if flag p' PF_EXTEND then p_ext p' else p_bytes p') (p_dat p' + len) (p_len p) = pkt_data p
    else pkt_malloc len p = Inl (Exit (-1))"
proof -
  consider (ext) "flag p PF_EXTEND" | (small) "\<not> flag p PF_EXTEND" "p_len p + len \<le> P_DATLEN"
    | (grow) "\<not> flag p PF_EXTEND" "p_len p + len > P_DATLEN" by linarith
  then show ?thesis
  proof cases
    case ext
    then show ?thesis using assms
      by (auto simp: pkt_malloc_def pkt_wf_def pkt_data_def data_ptr_def Let_def)
  next
    case small
    then show ?thesis using assms
      by (auto simp: pkt_malloc_def pkt_wf_def pkt_data_def data_ptr_def Let_def buffer_sizes)
  next
    case grow
    have "get_bytes (copy_bytes (p_ext p) (pcluster - p_len p) (p_bytes p) (p_dat p) (p_len p))
        (pcluster - p_len p) (p_len p) = pkt_data p"
      using grow(1) by (simp add: get_bytes_copy pkt_data_def)
    then show ?thesis using grow assms
      by (auto simp: pkt_malloc_def pkt_wf_def pkt_data_def data_ptr_def Let_def)
  qed
qed

text \<open>
  \<open>pkt_prepend\<close> puts the bytes in front of the data, whether or not the packet moves to a cluster,
  and the total length grows by as much; when the data would not fit the cluster the process ends.
\<close>

theorem pkt_prepend_data:
  assumes "pkt_wf p"
  shows "if p_len p + int (length xs) \<le> pcluster
    then \<exists>p'. pkt_prepend xs p = Inr (1, p') \<and> pkt_wf p' \<and> pkt_data p' = xs @ pkt_data p
      \<and> pkt_getlen p' = pkt_getlen p + int (length xs)
    else pkt_prepend xs p = Inl (Exit (-1))"
proof (cases "p_len p + int (length xs) \<le> pcluster")
  case True
  from pkt_malloc_spec [OF assms, of "int (length xs)"] True obtain ptr p1 where
    m: "pkt_malloc (int (length xs)) p = Inr (ptr, p1)" "p_len p1 = p_len p + int (length xs)"
      "p_tlen p1 = p_tlen p + int (length xs)" "pkt_wf p1"
      "get_bytes (if flag p1 PF_EXTEND then p_ext p1 else p_bytes p1) (p_dat p1 + int (length xs)) (p_len p)
        = pkt_data p" by auto
  have l: "0 \<le> p_len p" using assms by (simp add: pkt_wf_def)
  let ?p' = "if flag p1 PF_EXTEND then p1\<lparr>p_ext := put_bytes (p_ext p1) (p_dat p1) xs\<rparr>
      else p1\<lparr>p_bytes := put_bytes (p_bytes p1) (p_dat p1) xs\<rparr>"
  have "pkt_data ?p' = xs @ pkt_data p"
    using m(2,5) get_bytes_put_front [OF l, of "p_ext p1" "p_dat p1 + int (length xs)" xs]
      get_bytes_put_front [OF l, of "p_bytes p1" "p_dat p1 + int (length xs)" xs]
    by (auto simp: pkt_data_def)
  moreover have "pkt_wf ?p'" using m(4) by (auto simp: pkt_wf_def)
  ultimately show ?thesis using True m by (auto simp: pkt_prepend_def pkt_getlen_def)
next
  case False
  then show ?thesis using pkt_malloc_spec [OF assms, of "int (length xs)"] by (simp add: pkt_prepend_def)
qed

text \<open>A packet as the constructor makes it, for the examples.\<close>

definition empty_packet :: packet where
  "empty_packet = Packet_id 1 \<lparr>p_len = 0, p_tlen = 0, p_dat = 0, p_flags = 0, p_pid = 0, p_sptr = 0,
     p_bytes = (\<lambda>_. 0), p_ext = (\<lambda>_. 0), p_infos = [], hdl = HANDLE_NONE, gateway = 0, pkt_err = 0,
     hdr_p = (\<lambda>_. (0, 0)), hdr_sp = 0\<rparr>"

definition empty_pool :: pool where
  "empty_pool = \<lparr>sbufs = (\<lambda>_. \<lparr>s_type_info = False, s_len = 0, s_dat = PLEN, s_pid = 0, s_refcnt = 0,
     s_cluster = (\<lambda>_. 0), s_items = []\<rparr>), sfresh = 1, sfreed = {}, pktid = 0\<rparr>"

lemma empty_packet_wf: "pkt_wf empty_packet"
  by (simp add: empty_packet_def Packet_id_def pkt_wf_def packet_flags buffer_sizes)

theorem pkt_prepend_data_witness:
  "\<exists>p'. pkt_prepend [1, 2, 3] empty_packet = Inr (1, p') \<and> pkt_data p' = [1, 2, 3]"
proof -
  have "p_len empty_packet + int (length [1, 2, 3 :: u8]) \<le> pcluster" "pkt_data empty_packet = []"
    by (simp_all add: empty_packet_def Packet_id_def pcluster_def pkt_data_def get_bytes_def)
  then show ?thesis using pkt_prepend_data [OF empty_packet_wf, of "[1, 2, 3]"] by auto
qed

text \<open>
  \<open>pkt_seek\<close> forward takes bytes off the front of the data, all of them when the offset is beyond
  the end, and seeking back by as much brings them back, as long as the data of a packet without a
  cluster stays behind the offset of \<open>p_dbuf\<close>.
\<close>

theorem pkt_seek_drops:
  assumes "pkt_wf p" "0 \<le> k" "flag p PF_EXTEND \<or> p_dbuf \<le> p_dat p"
  shows "pkt_wf (snd (pkt_seek k p)) \<and> pkt_data (snd (pkt_seek k p)) = drop (nat k) (pkt_data p)
    \<and> pkt_getlen (snd (pkt_seek k p)) = pkt_getlen p - min k (p_len p)
    \<and> (k \<le> p_len p \<longrightarrow> pkt_seek (- k) (snd (pkt_seek k p)) = (1, p))"
proof (cases "p_len p \<le> k")
  case True
  have "length (pkt_data p) \<le> nat k" using True by (simp add: pkt_data_def nat_mono)
  then have d: "drop (nat k) (pkt_data p) = []" by simp
  then show ?thesis using True assms
    by (cases "flag p PF_EXTEND"; cases "k = p_len p")
      (auto simp: pkt_seek_def pkt_wf_def pkt_data_def get_bytes_def pkt_getlen_def min_def buffer_sizes)
next
  case False
  then have "get_bytes b (d + k) (p_len p - k) = drop (nat k) (get_bytes b d (p_len p))" for b d
    using assms(2) by (intro get_bytes_drop) auto
  then show ?thesis using False assms
    by (cases "flag p PF_EXTEND")
      (auto simp: pkt_seek_def pkt_wf_def pkt_data_def pkt_getlen_def min_def buffer_sizes)
qed

text \<open>Ten bytes in the buffer of the packet.\<close>

definition ten_bytes :: packet where
  "ten_bytes = empty_packet\<lparr>p_len := 10, p_tlen := 10, p_dat := 118\<rparr>"

theorem pkt_seek_drops_witness:
  "pkt_getlen (snd (pkt_seek 4 ten_bytes)) = 6 \<and> pkt_seek (-4) (snd (pkt_seek 4 ten_bytes)) = (1, ten_bytes)"
proof -
  have "pkt_wf ten_bytes" "p_dbuf \<le> p_dat ten_bytes"
    by (simp_all add: ten_bytes_def empty_packet_def Packet_id_def pkt_wf_def packet_flags buffer_sizes)
  then show ?thesis using pkt_seek_drops [of ten_bytes 4]
    by (simp add: ten_bytes_def pkt_getlen_def)
qed

text \<open>
  a packet with 94 bytes and no cluster starts before \<open>p_dbuf\<close>.  Taking one byte off it with
  \<open>pkt_seek\<close> is treated as seeking before the buffer: the packet keeps claiming 94 bytes, of which the
  last two lie behind the end of the buffer, and the total length drops by two.
\<close>

theorem pkt_seek_full_buffer:
  assumes "pkt_wf p" "\<not> flag p PF_EXTEND" "p_len p = P_DATLEN"
  shows "p_len (snd (pkt_seek 1 p)) = P_DATLEN \<and> pkt_getlen (snd (pkt_seek 1 p)) = pkt_getlen p - 2
    \<and> p_dat (snd (pkt_seek 1 p)) + p_len (snd (pkt_seek 1 p)) = PLEN + 2"
  using assms by (auto simp: pkt_seek_def pkt_wf_def pkt_getlen_def buffer_sizes)

theorem pkt_seek_full_buffer_witness:
  "\<exists>p. pkt_prepend (replicate 94 7) empty_packet = Inr (1, p)
     \<and> p_len (snd (pkt_seek 1 p)) = 94 \<and> pkt_getlen (snd (pkt_seek 1 p)) = 92"
proof -
  have e: "p_len empty_packet = 0" "p_dat empty_packet = 128" "p_tlen empty_packet = 0"
    "\<not> flag empty_packet PF_EXTEND"
    by (simp_all add: empty_packet_def Packet_id_def packet_flags buffer_sizes)
  define p where "p = empty_packet\<lparr>p_len := 94, p_tlen := 94, p_dat := 34,
    p_bytes := put_bytes (p_bytes empty_packet) 34 (replicate 94 7)\<rparr>"
  have "pkt_prepend (replicate 94 7) empty_packet = Inr (1, p)"
    using e by (simp add: pkt_prepend_def pkt_malloc_def Let_def buffer_sizes p_def)
  moreover have "pkt_wf p" "\<not> flag p PF_EXTEND" "p_len p = P_DATLEN"
    using e by (simp_all add: pkt_wf_def p_def buffer_sizes)
  from pkt_seek_full_buffer [OF this] have "p_len (snd (pkt_seek 1 p)) = 94"
    "pkt_getlen (snd (pkt_seek 1 p)) = 92"
    by (simp_all add: p_def pkt_getlen_def P_DATLEN_def)
  ultimately show ?thesis by blast
qed

end
