(* ===== verification/PacketSharing.thy ===== *)
theory PacketSharing
  imports PacketBuffer
begin

text \<open>
  The shared buffers of packets: a shared buffer counts the packets that point to it.  The invariant
  \<open>pool_ok\<close> relates the pool of shared buffers to the list of the packet objects that are alive; the
  operations that attach, copy, detach and release keep it, so a shared buffer is given back exactly
  with its last user.
\<close>

definition shares :: "addr \<Rightarrow> packet \<Rightarrow> bool" where
  "shares a p \<longleftrightarrow> flag p PF_WITHSHARED \<and> p_sptr p = a"

definition users :: "addr \<Rightarrow> packet list \<Rightarrow> nat" where
  "users a ps = length (filter (shares a) ps)"

definition pool_ok :: "packet list \<Rightarrow> pool \<Rightarrow> bool" where
  "pool_ok ps po \<longleftrightarrow> 0 < sfresh po \<and> users NULL ps = 0 \<and> (\<forall>a \<ge> sfresh po. users a ps = 0 \<and> a \<notin> sfreed po)
     \<and> (\<forall>a. 0 < users a ps \<longrightarrow> a \<notin> sfreed po \<and> s_refcnt (sbufs po a) = of_nat (users a ps))"

lemma users_Nil [simp]: "users a [] = 0"
  by (simp add: users_def)

lemma users_Cons [simp]: "users a (p # ps) = (if shares a p then 1 else 0) + users a ps"
  by (simp add: users_def)

lemma users_le: "users a ps \<le> length ps"
  by (simp add: users_def)

lemma and_not_self [simp]: "(w AND NOT f) AND f = 0" for w :: u16
  by (rule bit_word_eqI) (auto simp: bit_simps)

lemma shares_cong: "p_flags p = p_flags q \<Longrightarrow> p_sptr p = p_sptr q \<Longrightarrow> shares a p = shares a q"
  by (simp add: shares_def)

lemma of_nat_u32_0_iff: "n < 2 ^ 32 \<Longrightarrow> (of_nat n :: u32) = 0 \<longleftrightarrow> n = 0"
  by (auto simp: word_of_nat_eq_0_iff dest: nat_dvd_not_less)

lemma refcnt_minus_1:
  assumes "n < 2 ^ 32" "(c :: u32) = of_nat (Suc n)"
  shows "c - 1 = of_nat n" "c = 1 \<longleftrightarrow> n = 0"
  using assms of_nat_u32_0_iff [of n] by simp_all

text \<open>The facts of a packet with a shared buffer.\<close>

lemma pool_ok_shared:
  assumes "pool_ok (p # ps) po" "flag p PF_WITHSHARED"
  shows "p_sptr p \<noteq> NULL" "p_sptr p < sfresh po" "p_sptr p \<notin> sfreed po"
    "s_refcnt (sbufs po (p_sptr p)) = of_nat (Suc (users (p_sptr p) ps))"
proof -
  have s: "shares (p_sptr p) p" using assms(2) by (simp add: shares_def)
  then have u: "users (p_sptr p) (p # ps) = Suc (users (p_sptr p) ps)" by simp
  show "p_sptr p \<noteq> NULL" using assms(1) s by (metis pool_ok_def u nat.distinct(1))
  show "p_sptr p < sfresh po" using assms(1) u by (metis pool_ok_def leI nat.distinct(1))
  show "p_sptr p \<notin> sfreed po" "s_refcnt (sbufs po (p_sptr p)) = of_nat (Suc (users (p_sptr p) ps))"
    using assms(1) u by (metis pool_ok_def zero_less_Suc)+
qed

text \<open>The flag and the pointer of the packets that the operations return.\<close>

lemma pkt_sattach_new:
  assumes "\<not> flag p PF_WITHSHARED" "pkt_sattach len p po = (d, p', po')"
  shows "d = InShared (sfresh po) P_DATLEN" "flag p' PF_WITHSHARED" "p_sptr p' = sfresh po"
    "sfresh po' = sfresh po + 1" "sfreed po' = sfreed po" "s_refcnt (sbufs po' (sfresh po)) = 1"
    "\<And>a. a \<noteq> sfresh po \<Longrightarrow> sbufs po' a = sbufs po a"
  using assms by (auto simp: pkt_sattach_def P_SGET_def Let_def)

lemma pkt_copy_obj_shares:
  assumes "pkt_copy_obj g p po = (q, po')"
  shows "shares a q = shares a p" "sfresh po' = sfresh po" "sfreed po' = sfreed po"
    "s_refcnt (sbufs po' a) = s_refcnt (sbufs po a) + (if shares a p then 1 else 0)"
proof -
  have f: "p_flags q = p_flags p" "p_sptr q = p_sptr p" using assms
    by (auto simp: pkt_copy_obj_def Let_def Packet_id_def)
  show "shares a q = shares a p" using f by (rule shares_cong)
  show "sfresh po' = sfresh po" "sfreed po' = sfreed po"
    "s_refcnt (sbufs po' a) = s_refcnt (sbufs po a) + (if shares a p then 1 else 0)"
    using assms by (cases "flag p PF_WITHSHARED"; simp add: pkt_copy_obj_def Let_def shares_def; fail | auto simp: pkt_copy_obj_def Let_def shares_def split: if_splits)+
qed

lemma pool_ok_users: "pool_ok ps po \<Longrightarrow> 0 < users a ps \<Longrightarrow> s_refcnt (sbufs po a) = of_nat (users a ps)"
  "pool_ok ps po \<Longrightarrow> 0 < users a ps \<Longrightarrow> a \<notin> sfreed po"
  "pool_ok ps po \<Longrightarrow> 0 < users a ps \<Longrightarrow> a < sfresh po"
  by (simp_all add: pool_ok_def) (metis not_le not_less_zero)

lemma users_cong: "p_flags p = p_flags q \<Longrightarrow> p_sptr p = p_sptr q \<Longrightarrow> users a (p # ps) = users a (q # ps)"
  using shares_cong [of p q a] by simp

text \<open>
  C16: attaching a shared buffer to a packet that has none, and copying a packet, keep the count of
  every shared buffer equal to the number of the live packets that point to it, and point no packet to
  a buffer that was given back.  A packet that has a shared buffer keeps it: \<open>pkt_sattach\<close> then
  returns a null pointer and changes nothing.
\<close>

theorem attach_and_copy_count_users:
  assumes "pool_ok (p # ps) po"
  shows "(let (d, p', po') = pkt_sattach len p po in pool_ok (p' # ps) po' \<and> flag p' PF_WITHSHARED
      \<and> (flag p PF_WITHSHARED \<longrightarrow> d = DNull \<and> p' = p \<and> po' = po))
    \<and> (let (q, po') = pkt_copy_obj g p po in pool_ok (q # p # ps) po')"
proof
  show "let (d, p', po') = pkt_sattach len p po in pool_ok (p' # ps) po' \<and> flag p' PF_WITHSHARED
      \<and> (flag p PF_WITHSHARED \<longrightarrow> d = DNull \<and> p' = p \<and> po' = po)"
  proof (cases "flag p PF_WITHSHARED")
    case True
    then show ?thesis using assms by (simp add: pkt_sattach_def)
  next
    case False
    obtain d p' po' where e: "pkt_sattach len p po = (d, p', po')" by (cases "pkt_sattach len p po")
    note n = pkt_sattach_new [OF False e]
    have u: "users a (p' # ps) = (if a = sfresh po then 1 else 0) + users a (p # ps)" for a
      using False n(2,3) by (auto simp: shares_def)
    have "users (sfresh po) (p # ps) = 0" using assms by (simp add: pool_ok_def)
    then have "pool_ok (p' # ps) po'"
      using assms unfolding pool_ok_def u n(4,5) by (auto simp: n(6,7))
    then show ?thesis using False n(2) e by simp
  qed
  obtain q po' where e: "pkt_copy_obj g p po = (q, po')" by (cases "pkt_copy_obj g p po")
  note c = pkt_copy_obj_shares [OF e]
  have u: "users a (q # p # ps) = (if shares a p then 1 else 0) + users a (p # ps)" for a
    using c(1) by simp
  have "pool_ok (q # p # ps) po'" unfolding pool_ok_def u c(2,3)
    using assms by (auto simp: pool_ok_def c(4))
  then show "let (q, po') = pkt_copy_obj g p po in pool_ok (q # p # ps) po'" using e by simp
qed

text \<open>The pool after one user of the buffer \<open>a\<close> is gone.\<close>

definition drop_user :: "addr \<Rightarrow> packet list \<Rightarrow> pool \<Rightarrow> pool \<Rightarrow> bool" where
  "drop_user a ps po po' \<longleftrightarrow> sfresh po' = sfresh po
     \<and> sfreed po' = (if users a ps = 0 then insert a (sfreed po) else sfreed po)
     \<and> (0 < users a ps \<longrightarrow> s_refcnt (sbufs po' a) = of_nat (users a ps))
     \<and> (\<forall>x. x \<noteq> a \<longrightarrow> sbufs po' x = sbufs po x)"

lemma pool_ok_drop_user:
  assumes "pool_ok (p # ps) po" "flag p PF_WITHSHARED" "drop_user (p_sptr p) ps po po'"
  shows "pool_ok ps po'"
proof -
  have a: "shares x p \<longleftrightarrow> x = p_sptr p" for x using assms(2) by (auto simp: shares_def)
  note d = assms(3) [unfolded drop_user_def]
  have "x \<notin> sfreed po' \<and> s_refcnt (sbufs po' x) = of_nat (users x ps)" if "0 < users x ps" for x
  proof (cases "x = p_sptr p")
    case True
    then show ?thesis using that d pool_ok_shared(3) [OF assms(1,2)] by simp
  next
    case False
    have "0 < users x (p # ps)" using that by simp
    then show ?thesis using False that d pool_ok_users(1,2) [OF assms(1), of x] a by simp
  qed
  moreover have "x \<notin> sfreed po'" if "sfresh po' \<le> x" for x
    using that d assms(1) pool_ok_shared(2) [OF assms(1,2)] by (auto simp: pool_ok_def)
  ultimately show ?thesis using assms(1) d by (auto simp: pool_ok_def)
qed

lemma release_drop_user:
  assumes "pool_ok (p # ps) po" "length ps < 2 ^ 32" "flag p PF_WITHSHARED"
  obtains p' po' where "release p po = Inr (p', po')" "drop_user (p_sptr p) ps po po'"
proof -
  note s = pool_ok_shared [OF assms(1,3)]
  have n: "users (p_sptr p) ps < 2 ^ 32" using users_le [of "p_sptr p" ps] assms(2) by linarith
  note r = refcnt_minus_1 [OF n s(4)]
  let ?sf = "sbufs po (p_sptr p)"
  define po1 where "po1 = po\<lparr>sbufs := (sbufs po)(p_sptr p := ?sf\<lparr>s_refcnt := of_nat (users (p_sptr p) ps)\<rparr>)\<rparr>"
  define po' where "po' = (if users (p_sptr p) ps = 0 then po1\<lparr>sfreed := insert (p_sptr p) (sfreed po1)\<rparr> else po1)"
  have z: "(of_nat (users (p_sptr p) ps) :: u32) = 0 \<longleftrightarrow> users (p_sptr p) ps = 0" using n by (rule of_nat_u32_0_iff)
  have "release p po = Inr (p\<lparr>p_sptr := NULL, p_infos := []\<rparr>, po')"
    using assms(3) s(1) r(2) by (simp add: release_def Let_def r(1) z po'_def po1_def)
  moreover have "drop_user (p_sptr p) ps po po'" by (simp add: drop_user_def po'_def po1_def)
  ultimately show ?thesis by (rule that)
qed

lemma sdeattach_drop_user:
  assumes "pool_ok (p # ps) po" "length ps < 2 ^ 32" "flag p PF_WITHSHARED"
  obtains p' po' where "pkt_sdeattach p po = Inr (1, p', po')" "\<not> flag p' PF_WITHSHARED"
    "drop_user (p_sptr p) ps po po'" "p_tlen p' = p_tlen p - s_len (sbufs po (p_sptr p))"
proof -
  note s = pool_ok_shared [OF assms(1,3)]
  have n: "users (p_sptr p) ps < 2 ^ 32" using users_le [of "p_sptr p" ps] assms(2) by linarith
  note r = refcnt_minus_1 [OF n s(4)]
  let ?sf = "sbufs po (p_sptr p)"
  define p1 where "p1 = p\<lparr>p_tlen := p_tlen p - s_len ?sf, p_flags := p_flags p AND NOT PF_WITHSHARED\<rparr>"
  have l: "\<not> flag (p1\<lparr>p_sptr := x\<rparr>) PF_WITHSHARED" "\<not> flag p1 PF_WITHSHARED"
    "p_tlen (p1\<lparr>p_sptr := x\<rparr>) = p_tlen p - s_len ?sf" "p_tlen p1 = p_tlen p - s_len ?sf" for x
    by (simp_all add: p1_def)
  show ?thesis
  proof (cases "users (p_sptr p) ps = 0")
    case True
    then have "pkt_sdeattach p po = Inr (1, p1, po\<lparr>sfreed := insert (p_sptr p) (sfreed po)\<rparr>)"
      using assms(3) s(1) r by (simp add: pkt_sdeattach_def Let_def p1_def)
    then show ?thesis by (rule that) (simp_all add: l True drop_user_def)
  next
    case False
    define po1 where "po1 = po\<lparr>sbufs := (sbufs po)(p_sptr p := ?sf\<lparr>s_refcnt := s_refcnt ?sf - 1\<rparr>)\<rparr>"
    have "pkt_sdeattach p po = Inr (1, p1\<lparr>p_sptr := NULL\<rparr>, po1)"
      using assms(3) s(1) r(2) False by (simp add: pkt_sdeattach_def Let_def p1_def po1_def)
    moreover have "drop_user (p_sptr p) ps po po1" using r(1) False by (simp add: drop_user_def po1_def)
    ultimately show ?thesis by (rule that [OF _ l(1) _ l(3)])
  qed
qed

lemma pool_ok_unshared:
  assumes "pool_ok (p # ps) po" "\<not> flag p PF_WITHSHARED"
  shows "pool_ok ps po"
  using assms by (simp add: pool_ok_def shares_def)

text \<open>
  C15: detaching the shared buffer of a packet and releasing a packet never fail an assertion, keep the
  counts, and give a shared buffer back exactly when the packet was its last user; the total length of
  a packet drops by the shared length when it is detached.
\<close>

theorem detach_and_release_free_last:
  assumes "pool_ok (p # ps) po" "length ps < 2 ^ 32"
  shows "(\<exists>r p' po'. pkt_sdeattach p po = Inr (r, p', po') \<and> pool_ok (p' # ps) po' \<and> \<not> flag p' PF_WITHSHARED
      \<and> pkt_getlen p' = pkt_getlen p - (if flag p PF_WITHSHARED then s_len (sbufs po (p_sptr p)) else 0)
      \<and> sfreed po' = sfreed po \<union> {a. shares a p \<and> users a ps = 0})
    \<and> (\<exists>p' po'. release p po = Inr (p', po') \<and> pool_ok ps po'
      \<and> sfreed po' = sfreed po \<union> {a. shares a p \<and> users a ps = 0})"
proof (cases "flag p PF_WITHSHARED")
  case True
  have f: "sfreed po' = sfreed po \<union> {a. shares a p \<and> users a ps = 0}" if "drop_user (p_sptr p) ps po po'" for po'
    using that True by (auto simp: drop_user_def shares_def)
  obtain p1 po1 where d: "pkt_sdeattach p po = Inr (1, p1, po1)" "\<not> flag p1 PF_WITHSHARED"
    "drop_user (p_sptr p) ps po po1" "p_tlen p1 = p_tlen p - s_len (sbufs po (p_sptr p))"
    by (rule sdeattach_drop_user [OF assms True])
  have "users a (p1 # ps) = users a ps" for a using d(2) by (simp add: shares_def)
  then have "pool_ok (p1 # ps) po1" using pool_ok_drop_user [OF assms(1) True d(3)] by (simp add: pool_ok_def)
  moreover obtain p2 po2 where r: "release p po = Inr (p2, po2)" "drop_user (p_sptr p) ps po po2"
    by (rule release_drop_user [OF assms True])
  ultimately show ?thesis
    using d True f [OF d(3)] f [OF r(2)] pool_ok_drop_user [OF assms(1) True r(2)] by (simp add: r(1) pkt_getlen_def)
next
  case False
  then show ?thesis using assms(1) pool_ok_unshared [OF assms(1) False]
    by (simp add: pkt_sdeattach_def release_def shares_def pkt_getlen_def)
qed

subsection \<open>Examples\<close>

text \<open>A packet alone with its shared buffer of 40 bytes, as \<open>pkt_sattach\<close> and \<open>pkt_sprepend\<close> make it.\<close>

definition sole_owner :: "packet \<times> pool" where
  "sole_owner = (let (d, p, po) = pkt_sattach 40 empty_packet empty_pool in snd (pkt_sprepend d 40 p po))"

lemma empty_pool_ok: "pool_ok [empty_packet] empty_pool"
  by (simp add: pool_ok_def shares_def empty_packet_def Packet_id_def empty_pool_def packet_flags)

lemma sole_owner_ok: "pool_ok [fst sole_owner] (snd sole_owner)" "flag (fst sole_owner) PF_WITHSHARED"
  "p_sptr (fst sole_owner) = 1"
  by (auto simp: pool_ok_def shares_def sole_owner_def pkt_sattach_def pkt_sprepend_def P_SGET_def Let_def
      empty_packet_def Packet_id_def empty_pool_def packet_flags)

theorem attach_and_copy_count_users_witness:
  "(let (d, p, po) = pkt_sattach 40 empty_packet empty_pool in pool_ok [p] po)
   \<and> (let (q, po) = pkt_copy_obj empty_packet empty_packet empty_pool in pool_ok [q, empty_packet] po)"
  using attach_and_copy_count_users [OF empty_pool_ok, of 40 empty_packet] by (auto simp: Let_def split: prod.splits)

theorem detach_and_release_free_last_witness:
  "\<exists>p po. pkt_sdeattach (fst sole_owner) (snd sole_owner) = Inr (1, p, po) \<and> 1 \<in> sfreed po"
proof -
  have "shares 1 (fst sole_owner)" using sole_owner_ok by (simp add: shares_def)
  moreover have "pkt_sdeattach (fst sole_owner) (snd sole_owner) = Inr (r, x) \<Longrightarrow> r = 1" for r x
    using sole_owner_ok(2) by (auto simp: pkt_sdeattach_def Let_def split: if_splits)
  ultimately show ?thesis using detach_and_release_free_last [OF sole_owner_ok(1)] by fastforce
qed

text \<open>
  the last user of a shared buffer that detaches it keeps the pointer to it: \<open>pkt_sget\<close> then gives
  out a pointer into a buffer that was given back, while every other user gets a null pointer.
\<close>

theorem detached_pointer_dangles:
  assumes "pool_ok (p # ps) po" "length ps < 2 ^ 32" "flag p PF_WITHSHARED"
  shows "case pkt_sdeattach p po of Inr (r, p', po') \<Rightarrow>
      if users (p_sptr p) ps = 0
      then pkt_sget p' = InShared (p_sptr p) P_DATLEN \<and> p_sptr p \<in> sfreed po'
      else pkt_sget p' = DNull
    | Inl a \<Rightarrow> False"
proof -
  note s = pool_ok_shared [OF assms(1,3)]
  have n: "users (p_sptr p) ps < 2 ^ 32" using users_le [of "p_sptr p" ps] assms(2) by linarith
  show ?thesis using assms(3) s(1) refcnt_minus_1 [OF n s(4)]
    by (simp add: pkt_sdeattach_def Let_def pkt_sget_def)
qed

theorem detached_pointer_dangles_witness:
  "\<exists>p po. pkt_sdeattach (fst sole_owner) (snd sole_owner) = Inr (1, p, po)
     \<and> pkt_sget p = InShared 1 P_DATLEN \<and> 1 \<in> sfreed po"
proof -
  have "pkt_sdeattach (fst sole_owner) (snd sole_owner) = Inr (r, x) \<Longrightarrow> r = 1" for r x
    using sole_owner_ok(2) by (auto simp: pkt_sdeattach_def Let_def split: if_splits)
  then show ?thesis using detached_pointer_dangles [OF sole_owner_ok(1) _ sole_owner_ok(2)]
    by (fastforce simp: sole_owner_ok(3) split: sum.splits)
qed

end
