(* ===== verification/PacketInfo.thy ===== *)
theory PacketInfo
  imports PacketSharing
begin

text \<open>
  The named information of packets, the stack of header protocols, and the data of a packet as
  \<open>pkt_aggregate\<close> and \<open>copy\<close> give it.  Each \<open>PT_INFO\<close> buffer holds one item, because \<open>INFOSIZE\<close> bytes
  are all there are behind its header: \<open>infos_wf\<close> states it, and a packet is a map from names (their
  first \<open>INFONAME\<close> characters) to pieces of information.
\<close>

definition info_wf :: "info_pbuf \<Rightarrow> bool" where
  "info_wf i \<longleftrightarrow> length (ip_items i) = 1 \<and> ip_len i = INFOSIZE \<and> ip_dat i = PLEN - INFOSIZE"

definition infos_wf :: "packet \<Rightarrow> bool" where
  "infos_wf p \<longleftrightarrow> list_all info_wf (p_infos p)"

lemma visible_wf: "info_wf i \<Longrightarrow> visible p_infobuf (ip_len i) (ip_items i) = ip_items i"
  by (simp add: info_wf_def visible_def buffer_sizes)

lemma item_of_set_item:
  "item_of m (set_item (info_name n) b its) =
     (if info_name m = info_name n then map_option (overwrite b) (item_of m its) else item_of m its)"
  by (induction its) (auto simp: item_of_def)

lemma getinfo_set_info:
  "list_all info_wf is \<Longrightarrow> getinfo m (set_info n b is) =
     (if info_name m = info_name n then map_option (overwrite b) (getinfo n is) else getinfo m is)"
proof (induction "is")
  case (Cons i "is")
  have w: "info_wf i" "list_all info_wf is" using Cons.prems by simp_all
  have w': "info_wf (i\<lparr>ip_items := set_item (info_name n) b (ip_items i)\<rparr>)"
    using w(1) by (cases "ip_items i") (auto simp: info_wf_def)
  have e: "info_name m = info_name n \<Longrightarrow> item_of m its = item_of n its" for its by (simp add: item_of_def)
  show ?case using Cons.IH [OF w(2)] visible_wf [OF w(1)] visible_wf [OF w'] e
    by (auto simp: item_of_set_item split: option.splits)
qed simp

lemma set_info_wf: "list_all info_wf is \<Longrightarrow> list_all info_wf (set_info n b is)"
proof (induction "is")
  case (Cons i "is")
  then show ?case by (cases "ip_items i") (auto simp: info_wf_def)
qed simp

lemma add_info_wf:
  "list_all info_wf is \<Longrightarrow> add_info n b is = is @ [INFO_COPYIN n b P_IGET]"
  by (induction "is") (auto simp: info_wf_def buffer_sizes)

lemma new_info_wf: "info_wf (INFO_COPYIN n b P_IGET)"
  by (simp add: info_wf_def INFO_COPYIN_def P_IGET_def)

lemma getinfo_append: "getinfo m (xs @ ys) = (case getinfo m xs of Some b \<Rightarrow> Some b | None \<Rightarrow> getinfo m ys)"
  by (induction xs) (auto split: option.splits)

lemma getinfo_cong: "info_name m = info_name n \<Longrightarrow> getinfo m is = getinfo n is"
  by (induction "is") (auto simp: item_of_def split: option.split)

lemma item_of_new: "item_of m (visible p_infobuf (ip_len (INFO_COPYIN n b P_IGET)) (ip_items (INFO_COPYIN n b P_IGET)))
    = (if info_name m = info_name n then Some b else None)"
  unfolding visible_wf [OF new_info_wf] by (auto simp: INFO_COPYIN_def P_IGET_def item_of_def)

text \<open>
  C32: information that \<open>pkt_addinfo\<close> accepts is what \<open>pkt_getinfo\<close> returns for its name, in front of
  what is left of a longer piece of the same name; every other name keeps what it had, names being
  equal when their first five characters are.  Information longer than \<open>INFOBODY\<close> is refused.
\<close>

theorem addinfo_getinfo:
  assumes "infos_wf p"
  shows "case pkt_addinfo n b p of (r, p') \<Rightarrow>
      infos_wf p' \<and> r = (if int (length b) \<le> INFOBODY then 1 else -1)
      \<and> (r = -1 \<longrightarrow> p' = p)
      \<and> (r = 1 \<longrightarrow> (\<forall>m. pkt_getinfo m p' = (if info_name m = info_name n
            then Some (overwrite b (case pkt_getinfo n p of Some old \<Rightarrow> old | None \<Rightarrow> []))
            else pkt_getinfo m p)))"
proof -
  note w = assms [unfolded infos_wf_def]
  have e: "info_name m = info_name n \<Longrightarrow> pkt_getinfo m p = pkt_getinfo n p" for m
    unfolding pkt_getinfo_def by (rule getinfo_cong)
  show ?thesis
  proof (cases "pkt_getinfo n p")
    case None
    then show ?thesis using w new_info_wf e
      by (auto simp: pkt_addinfo_def infos_wf_def add_info_wf pkt_getinfo_def getinfo_append item_of_new
          overwrite_def split: option.splits)
  next
    case (Some old)
    then show ?thesis using w set_info_wf [OF w] getinfo_set_info [OF w]
      by (auto simp: pkt_addinfo_def infos_wf_def pkt_getinfo_def)
  qed
qed

theorem addinfo_getinfo_witness:
  "pkt_getinfo [65, 66] (snd (pkt_addinfo [65, 66] [1, 2] empty_packet)) = Some [1, 2]
   \<and> pkt_getinfo [65, 67] (snd (pkt_addinfo [65, 66] [1, 2] empty_packet)) = None"
proof -
  have w: "infos_wf empty_packet" and n: "\<And>m. pkt_getinfo m empty_packet = None"
    by (simp_all add: infos_wf_def pkt_getinfo_def empty_packet_def Packet_id_def)
  show ?thesis using addinfo_getinfo [OF w, where n = "[65, 66]" and b = "[1, 2]"]
    by (auto simp: n overwrite_def info_name_def INFONAME_def INFOBODY_def split: prod.splits)
qed

text \<open>
  a shared buffer never takes information: the space behind its header is smaller than
  \<open>INFOSIZE\<close>, so \<open>pkt_saddinfo\<close> refuses every name and leaves the pool as it is, and
  \<open>pkt_sgetinfo\<close> finds none.
\<close>

theorem shared_buffer_takes_no_info:
  assumes "p_sptr p \<noteq> NULL \<longrightarrow> s_dat (sbufs po (p_sptr p)) \<le> PLEN"
  shows "pkt_saddinfo n b p po = (-1, po) \<and> pkt_sgetinfo n p po = None"
proof -
  have v: "visible p_sbuf l its = []" for l its by (simp add: visible_def buffer_sizes)
  have g: "pkt_sgetinfo n p po = None" by (simp add: pkt_sgetinfo_def v item_of_def)
  then show ?thesis using assms by (auto simp: pkt_saddinfo_def Let_def buffer_sizes)
qed

theorem shared_buffer_takes_no_info_witness:
  "pkt_saddinfo [65] [1] (fst sole_owner) (snd sole_owner) = (-1, snd sole_owner)"
proof -
  have "s_dat (sbufs (snd sole_owner) (p_sptr (fst sole_owner))) \<le> PLEN"
    by (simp add: sole_owner_def pkt_sattach_def pkt_sprepend_def P_SGET_def Let_def empty_packet_def
        Packet_id_def empty_pool_def packet_flags)
  then show ?thesis using shared_buffer_takes_no_info by blast
qed

text \<open>
  a copy of a packet carries the same data, the same information under every name, the same
  handler, identifier, lengths and gateway, and is well formed; what it does not carry is the stack of
  header protocols.
\<close>

theorem copy_same_contents:
  assumes "pkt_wf p" "infos_wf p"
  shows "let q = fst (pkt_copy_obj g p po) in pkt_wf q \<and> infos_wf q \<and> pkt_data q = pkt_data p
      \<and> pkt_getlen q = pkt_getlen p \<and> (\<forall>n. pkt_getinfo n q = pkt_getinfo n p) \<and> hdl q = hdl p
      \<and> p_pid q = p_pid p \<and> gateway q = gateway p \<and> pkt_curproto q = 0"
proof -
  have "copy_info i = i" if "info_wf i" for i using that by (simp add: copy_info_def info_wf_def)
  then have i: "map copy_info (p_infos p) = p_infos p"
    using assms(2) by (auto simp: infos_wf_def list_all_iff intro: map_idI)
  show ?thesis using assms get_bytes_copy
    by (simp add: pkt_copy_obj_def Let_def pkt_wf_def infos_wf_def pkt_data_def pkt_getlen_def pkt_getinfo_def
        i Packet_id_def pkt_curproto_def)
qed

theorem copy_same_contents_witness:
  "pkt_data (fst (pkt_copy_obj empty_packet ten_bytes empty_pool)) = replicate 10 0"
proof -
  have "pkt_wf ten_bytes" "infos_wf ten_bytes"
    by (simp_all add: ten_bytes_def empty_packet_def Packet_id_def pkt_wf_def packet_flags buffer_sizes infos_wf_def)
  moreover have "pkt_data ten_bytes = replicate 10 0"
    by (simp add: ten_bytes_def empty_packet_def Packet_id_def pkt_data_def get_bytes_def packet_flags map_replicate_const)
  ultimately show ?thesis using copy_same_contents [of ten_bytes empty_packet empty_pool] by (simp add: Let_def)
qed

text \<open>
  \<open>pkt_curproto\<close> after \<open>pkt_pushproto\<close> does not return the protocol that was pushed but what is in
  the entry behind it, which is entry 20 of an array of 20 entries when the stack is full; and
  \<open>pkt_popproto\<close> returns the same entry and takes the protocol that was pushed off.
\<close>

theorem curproto_reads_behind_top:
  assumes "0 \<le> hdr_sp p" "hdr_sp p < MAX_HDR_PROTO"
  shows "let p' = snd (pkt_pushproto proto len p) in
      pkt_curproto p' = fst (hdr_p p (hdr_sp p + 1)) \<and> fst (pkt_popproto p') = fst (hdr_p p (hdr_sp p + 1))
      \<and> hdr_sp (snd (pkt_popproto p')) = hdr_sp p"
  using assms by (simp add: pkt_pushproto_def pkt_curproto_def pkt_popproto_def Let_def)

theorem curproto_reads_behind_top_witness:
  "pkt_curproto (snd (pkt_pushproto 17 20 empty_packet)) = 0"
  using curproto_reads_behind_top [of empty_packet 17 20]
  by (simp add: empty_packet_def Packet_id_def Let_def MAX_HDR_PROTO_def)

text \<open>The bytes a packet and its shared buffer hold together, in order.\<close>

definition whole_data :: "packet \<Rightarrow> pool \<Rightarrow> u8 list" where
  "whole_data p po = pkt_data p @ (if flag p PF_WITHSHARED
     then get_bytes (s_cluster (sbufs po (p_sptr p))) P_DATLEN (s_len (sbufs po (p_sptr p))) else [])"

text \<open>Reading \<open>n\<close> bytes at a pointer.\<close>

definition read_at :: "dptr \<Rightarrow> int \<Rightarrow> packet \<Rightarrow> pool \<Rightarrow> u8 list option" where
  "read_at d n p po = (case d of DNull \<Rightarrow> None | InPbuf i \<Rightarrow> Some (get_bytes (p_bytes p) i n)
     | InCluster i \<Rightarrow> Some (get_bytes (p_ext p) i n) | InShared a i \<Rightarrow> Some (get_bytes (s_cluster (sbufs po a)) i n)
     | InSharedHdr a i \<Rightarrow> None)"

lemma get_bytes_split: "0 \<le> m \<Longrightarrow> 0 \<le> n \<Longrightarrow> get_bytes b d (m + n) = get_bytes b d m @ get_bytes b (d + m) n"
  by (rule nth_equalityI) (auto simp: nth_append nat_add_distrib algebra_simps of_nat_diff)

text \<open>
  for a packet whose data is not in a cluster of its own, the pointer that \<open>pkt_aggregate\<close> returns
  is where the whole data can be read, the data of the packet followed by the shared data, and the
  shared data is not changed.  (When the packet has a cluster the pointer is that of the shared data
  alone.)
\<close>

theorem aggregate_contiguous:
  assumes "pkt_wf p" "\<not> flag p PF_EXTEND" "p_sptr p \<noteq> NULL" "p_tlen p \<noteq> 0"
    "0 \<le> s_len (sbufs po (p_sptr p))"
  shows "\<exists>d po'. pkt_aggregate p po = Inr (d, po') \<and> whole_data p po' = whole_data p po
      \<and> read_at d (int (length (whole_data p po))) p po' = Some (whole_data p po)"
proof (cases "flag p PF_WITHSHARED \<and> p_len p \<noteq> 0")
  case False
  then show ?thesis using assms
    by (auto simp: pkt_aggregate_def whole_data_def read_at_def data_ptr_def pkt_data_def pkt_wf_def get_bytes_def)
next
  case True
  define sf where "sf = sbufs po (p_sptr p)"
  define po' where "po' = po\<lparr>sbufs := (sbufs po)(p_sptr p := sf\<lparr>s_cluster :=
                copy_bytes (s_cluster sf) (P_DATLEN - p_len p) (p_bytes p) (p_dat p) (p_len p)\<rparr>)\<rparr>"
  have a: "pkt_aggregate p po = Inr (InShared (p_sptr p) (P_DATLEN - p_len p), po')"
    using True assms by (simp add: pkt_aggregate_def po'_def sf_def Let_def)
  have l: "0 \<le> p_len p" using assms(1) by (simp add: pkt_wf_def)
  have s: "get_bytes (copy_bytes c (P_DATLEN - p_len p) b o' (p_len p)) P_DATLEN m = get_bytes c P_DATLEN m" for c b o' m
    by (rule get_bytes_cong) (simp add: copy_bytes_def)
  have w: "whole_data p po' = whole_data p po" using True by (simp add: whole_data_def po'_def sf_def s)
  have n: "int (length (whole_data p po)) = p_len p + s_len sf"
    using True l assms(5) by (simp add: whole_data_def pkt_data_def sf_def)
  have "get_bytes (s_cluster (sbufs po' (p_sptr p))) (P_DATLEN - p_len p) (p_len p + s_len sf) = whole_data p po"
    using True l assms(2,5) by (simp add: get_bytes_split po'_def get_bytes_copy s whole_data_def pkt_data_def sf_def)
  then show ?thesis using a w by (simp add: n read_at_def)
qed

theorem aggregate_contiguous_witness:
  "\<exists>p d po'. pkt_prepend [1, 2] (fst sole_owner) = Inr (1, p)
     \<and> pkt_aggregate p (snd sole_owner) = Inr (d, po') \<and> read_at d 42 p po' = Some (1 # 2 # replicate 40 0)"
proof -
  define p where "p = (fst sole_owner)\<lparr>p_len := 2, p_tlen := 42, p_dat := 126, p_bytes := put_bytes (\<lambda>_. 0) 126 [1, 2]\<rparr>"
  have p: "pkt_prepend [1, 2] (fst sole_owner) = Inr (1, p)"
    by (simp add: p_def sole_owner_def pkt_sattach_def pkt_sprepend_def P_SGET_def Let_def empty_packet_def
        Packet_id_def empty_pool_def packet_flags pkt_prepend_def pkt_malloc_def buffer_sizes)
  have w: "pkt_wf p" "\<not> flag p PF_EXTEND" "p_sptr p \<noteq> NULL" "p_tlen p \<noteq> 0"
    "s_len (sbufs (snd sole_owner) (p_sptr p)) = 40" "flag p PF_WITHSHARED"
    "pkt_data p = [1, 2]" "s_cluster (sbufs (snd sole_owner) (p_sptr p)) = (\<lambda>_. 0)"
    by (simp_all add: p_def sole_owner_def pkt_sattach_def pkt_sprepend_def P_SGET_def Let_def empty_packet_def
        Packet_id_def empty_pool_def packet_flags buffer_sizes pkt_wf_def pkt_data_def get_bytes_def put_bytes_def
        upt_rec)
  have d: "whole_data p (snd sole_owner) = 1 # 2 # replicate 40 0"
    using w by (simp add: whole_data_def get_bytes_def map_replicate_const)
  from aggregate_contiguous [OF w(1-4), of "snd sole_owner"] obtain q po' where
    "pkt_aggregate p (snd sole_owner) = Inr (q, po')"
    "read_at q (int (length (1 # 2 # replicate 40 (0 :: u8)))) p po' = Some (1 # 2 # replicate 40 0)"
    unfolding d w(5) by auto
  then show ?thesis using p by auto
qed

end
