(* ===== verification/ModuleBinder.thy ===== *)
theory ModuleBinder
  imports EventHeap
begin

text \<open>
  The module binder of \<open>mbinder.cc\<close>: the queue between two modules in which packets wait, by priority
  level, while the next module is busy, and the list of binders the event loop polls
  (\<open>RegToMBPoller\<close> of \<open>nctuns_api.cc\<close> and the polling loop of \<open>executeEvent\<close>).  Packets are events,
  linked through \<open>next_ep\<close>.  The members of the modules a binder calls, \<open>get\<close> of the next module and
  the upcall, are parameters.  \<open>mb_list st b xs\<close> says that binder \<open>b\<close> holds the packets \<open>xs\<close>.
\<close>

record mbinder =
  mbq_head :: addr
  mbq_tail :: addr
  mbq_len :: int
  mbq_maxlen :: int
  mbq_drops :: int
  co_type :: u16
  coObj :: addr
  m_upcall :: addr
  f_upcall :: addr
  frmObj :: addr
  toObj :: addr
  next_mb :: addr

record mbstate =
  pkts :: mem
  mbs :: "addr \<Rightarrow> mbinder"
  MBH :: "nat \<Rightarrow> addr"
  pflags :: "addr \<Rightarrow> u16"

definition NO_UPCALL :: u16 where "NO_UPCALL = 0"
definition MEMB_UPCALL :: u16 where "MEMB_UPCALL = 1"
definition FUNC_UPCALL :: u16 where "FUNC_UPCALL = 2"

definition MLEVEL_1 :: u8 where "MLEVEL_1 = 0x00"
definition MLEVEL_2 :: u8 where "MLEVEL_2 = 0x40"
definition MLEVEL_3 :: u8 where "MLEVEL_3 = 0x80"
definition MLEVEL_4 :: u8 where "MLEVEL_4 = 0xc0"

definition GET_MLEVEL :: "mem \<Rightarrow> addr \<Rightarrow> u8" where
  "GET_MLEVEL m p = prio m p AND 0xc0"

definition SET_MLEVEL :: "u8 \<Rightarrow> addr \<Rightarrow> mem \<Rightarrow> mem" where
  "SET_MLEVEL l p m = m(p := (m p)\<lparr>priority := (prio m p AND 0x3f) OR l\<rparr>)"

abbreviation mbq :: "'x mbstate_scheme \<Rightarrow> addr \<Rightarrow> mbinder" where "mbq st b \<equiv> mbs st b"

definition upd_mb :: "addr \<Rightarrow> (mbinder \<Rightarrow> mbinder) \<Rightarrow> 'x mbstate_scheme \<Rightarrow> 'x mbstate_scheme" where
  "upd_mb b f st = st\<lparr>mbs := (mbs st)(b := f (mbs st b))\<rparr>"

definition link :: "addr \<Rightarrow> addr \<Rightarrow> 'x mbstate_scheme \<Rightarrow> 'x mbstate_scheme" where
  "link p q st = st\<lparr>pkts := set_next p q (pkts st)\<rparr>"

text \<open>The two constructors; the first is the second with a queue of one packet.\<close>

definition MBinder :: "addr \<Rightarrow> int \<Rightarrow> mbinder" where
  "MBinder fr qlen = \<lparr>mbq_head = NULL, mbq_tail = NULL, mbq_len = 0, mbq_maxlen = qlen, mbq_drops = 0,
     co_type = NO_UPCALL, coObj = NULL, m_upcall = NULL, f_upcall = NULL, frmObj = fr, toObj = NULL,
     next_mb = NULL\<rparr>"

definition set_maxqlen :: "int \<Rightarrow> mbinder \<Rightarrow> mbinder" where
  "set_maxqlen n b = b\<lparr>mbq_maxlen := n\<rparr>"

definition bind_to :: "addr \<Rightarrow> mbinder \<Rightarrow> mbinder" where
  "bind_to obj b = b\<lparr>toObj := obj\<rparr>"

definition set_upcall_func :: "addr \<Rightarrow> mbinder \<Rightarrow> mbinder" where
  "set_upcall_func f b = b\<lparr>co_type := FUNC_UPCALL, f_upcall := f\<rparr>"

definition set_upcall_memb :: "addr \<Rightarrow> addr \<Rightarrow> mbinder \<Rightarrow> mbinder" where
  "set_upcall_memb obj f b = b\<lparr>co_type := MEMB_UPCALL, coObj := obj, m_upcall := f\<rparr>"

definition MB_QFULL :: "mbinder \<Rightarrow> bool" where
  "MB_QFULL b \<longleftrightarrow> mbq_len b \<ge> mbq_maxlen b"

definition MB_PREPEND :: "addr \<Rightarrow> addr \<Rightarrow> 'x mbstate_scheme \<Rightarrow> 'x mbstate_scheme" where
  "MB_PREPEND b p st =
     (let st1 = link p (mbq_head (mbq st b)) st;
          st2 = upd_mb b (\<lambda>q. if mbq_tail q = NULL then q\<lparr>mbq_tail := p\<rparr> else q) st1
      in upd_mb b (\<lambda>q. q\<lparr>mbq_head := p, mbq_len := mbq_len q + 1\<rparr>) st2)"

definition MB_DEQUEUE :: "addr \<Rightarrow> 'x mbstate_scheme \<Rightarrow> addr \<times> 'x mbstate_scheme" where
  "MB_DEQUEUE b st =
     (let p = mbq_head (mbq st b) in
      if p \<noteq> NULL then
        (let n = nxt (pkts st) p;
             st1 = upd_mb b (\<lambda>q. q\<lparr>mbq_head := n\<rparr>) st;
             st2 = (if n = NULL then upd_mb b (\<lambda>q. q\<lparr>mbq_tail := NULL\<rparr>) st1 else st1);
             st3 = link p NULL st2
         in (p, upd_mb b (\<lambda>q. q\<lparr>mbq_len := mbq_len q - 1\<rparr>) st3))
      else (NULL, st))"

subsection \<open>Registering a binder to be polled\<close>

partial_function (option) reg_loop :: "addr \<Rightarrow> 'x mbstate_scheme \<Rightarrow> addr \<Rightarrow> 'x mbstate_scheme option" where
  "reg_loop b st mbp =
     (if mbp = b then Some st
      else if next_mb (mbs st mbp) = NULL then
        Some (upd_mb b (\<lambda>q. q\<lparr>next_mb := NULL\<rparr>) (upd_mb mbp (\<lambda>q. q\<lparr>next_mb := b\<rparr>) st))
      else reg_loop b st (next_mb (mbs st mbp)))"

definition RegToMBPoller :: "(addr \<Rightarrow> nat) \<Rightarrow> addr \<Rightarrow> 'x mbstate_scheme \<Rightarrow> 'x mbstate_scheme run" where
  "RegToMBPoller nidf b st =
     (if toObj (mbq st b) = NULL then Some (Inl NullDeref)
      else let idx = nidf (toObj (mbq st b)) in
        if MBH st idx = NULL then
          Some (Inr (upd_mb b (\<lambda>q. q\<lparr>next_mb := NULL\<rparr>) (st\<lparr>MBH := (MBH st)(idx := b)\<rparr>)))
        else map_option Inr (reg_loop b st (MBH st idx)))"

subsection \<open>enqueue\<close>

text \<open>
  The two loops of \<open>enqueue\<close>: \<open>victim_loop\<close> looks for the last packet of the lowest level,
  \<open>place_loop\<close> for the first packet of a level below the new packet's; each gives the packet found
  and its predecessor.
\<close>

partial_function (option) victim_loop ::
  "mem \<Rightarrow> addr \<Rightarrow> addr \<Rightarrow> addr \<Rightarrow> addr \<Rightarrow> (addr \<times> addr) option" where
  "victim_loop m ptr ptr1 p p1 =
     (if ptr = NULL then Some (p, p1)
      else if GET_MLEVEL m ptr \<le> GET_MLEVEL m p then victim_loop m (nxt m ptr) ptr ptr ptr1
      else victim_loop m (nxt m ptr) ptr p p1)"

partial_function (option) place_loop :: "mem \<Rightarrow> addr \<Rightarrow> addr \<Rightarrow> addr \<Rightarrow> (addr \<times> addr) option" where
  "place_loop m pkt ptr ptr1 =
     (if ptr = NULL then Some (ptr, ptr1)
      else if GET_MLEVEL m pkt > GET_MLEVEL m ptr then Some (ptr, ptr1)
      else place_loop m pkt (nxt m ptr) ptr)"

text \<open>The second half of \<open>enqueue\<close>, which links the packet in.\<close>

definition mb_insert :: "(addr \<Rightarrow> nat) \<Rightarrow> addr \<Rightarrow> addr \<Rightarrow> addr \<Rightarrow> 'x mbstate_scheme \<Rightarrow> (addr \<times> 'x mbstate_scheme) run" where
  "mb_insert nidf b pkt dq_pkt st =
     (case (if mbq_tail (mbq st b) = NULL
            then Some (upd_mb b (\<lambda>q. q\<lparr>mbq_head := pkt, mbq_tail := pkt\<rparr>) st)
            else map_option (\<lambda>(ptr, ptr1).
              (let st1 = (if ptr1 \<noteq> NULL
                          then link ptr1 pkt (link pkt (nxt (pkts st) ptr1) st)
                          else upd_mb b (\<lambda>q. q\<lparr>mbq_head := pkt\<rparr>) (link pkt (mbq_head (mbq st b)) st))
               in if ptr = NULL then upd_mb b (\<lambda>q. q\<lparr>mbq_tail := pkt\<rparr>) st1 else st1))
              (place_loop (pkts st) pkt (mbq_head (mbq st b)) NULL)) of
        None \<Rightarrow> None
      | Some st2 \<Rightarrow>
          map_option (map_sum id (Pair dq_pkt))
            (RegToMBPoller nidf b (upd_mb b (\<lambda>q. q\<lparr>mbq_len := mbq_len q + 1\<rparr>) st2)))"

text \<open>Taking the victim \<open>p\<close>, whose predecessor is \<open>p1\<close>, out of a full queue.\<close>

definition mb_evict :: "addr \<Rightarrow> addr \<Rightarrow> addr \<Rightarrow> 'x mbstate_scheme \<Rightarrow> 'x mbstate_scheme" where
  "mb_evict b p p1 st =
     (let q0 = mbq st b;
          st1 = (if p1 \<noteq> NULL then link p NULL (link p1 (nxt (pkts st) p) st)
                 else if mbq_head q0 = mbq_tail q0
                   then upd_mb b (\<lambda>q. q\<lparr>mbq_head := nxt (pkts st) (mbq_head q0),
                                       mbq_tail := nxt (pkts st) (mbq_head q0)\<rparr>) st
                 else upd_mb b (\<lambda>q. q\<lparr>mbq_head := nxt (pkts st) (mbq_head q0)\<rparr>) st)
      in upd_mb b (\<lambda>q. q\<lparr>mbq_len := mbq_len q - 1\<rparr>) st1)"

definition enqueue :: "(addr \<Rightarrow> nat) \<Rightarrow> addr \<Rightarrow> addr \<Rightarrow> 'x mbstate_scheme \<Rightarrow> (addr \<times> 'x mbstate_scheme) run" where
  "enqueue nidf b pkt st =
     (let st0 = link pkt NULL st in
      if MB_QFULL (mbq st0 b) then
        (let st1 = upd_mb b (\<lambda>q. q\<lparr>mbq_drops := mbq_drops q + 1\<rparr>) st0;
             h = mbq_head (mbq st1 b) in
         if h = NULL then Some (Inl NullDeref)
         else case victim_loop (pkts st1) h NULL h NULL of
           None \<Rightarrow> None
         | Some (p, p1) \<Rightarrow>
             if GET_MLEVEL (pkts st1) pkt \<le> GET_MLEVEL (pkts st1) p then Some (Inr (pkt, st1))
             else mb_insert nidf b pkt p (mb_evict b p p1 st1))
      else mb_insert nidf b pkt NULL st0)"

subsection \<open>serve and the polling loop\<close>

text \<open>What a binder calls: \<open>get\<close> of a module, and the two kinds of upcall.\<close>

record 'x mb_env =
  nid_of :: "addr \<Rightarrow> nat"
  mod_get :: "addr \<Rightarrow> addr \<Rightarrow> addr \<Rightarrow> 'x mbstate_scheme \<Rightarrow> (int \<times> 'x mbstate_scheme) run"
  memb_upcall :: "addr \<Rightarrow> addr \<Rightarrow> addr \<Rightarrow> 'x mbstate_scheme \<Rightarrow> 'x mbstate_scheme run"
  func_upcall :: "addr \<Rightarrow> addr \<Rightarrow> 'x mbstate_scheme \<Rightarrow> 'x mbstate_scheme run"

definition try_upcall :: "'x mb_env \<Rightarrow> addr \<Rightarrow> 'x mbstate_scheme \<Rightarrow> 'x mbstate_scheme run" where
  "try_upcall V b st =
     (if co_type (mbq st b) = NO_UPCALL then Some (Inr st)
      else if co_type (mbq st b) = MEMB_UPCALL
        then memb_upcall V (coObj (mbq st b)) (m_upcall (mbq st b)) b st
      else if co_type (mbq st b) = FUNC_UPCALL then func_upcall V (f_upcall (mbq st b)) b st
      else Some (Inl AssertFailed))"

definition serve :: "'x mb_env \<Rightarrow> addr \<Rightarrow> 'x mbstate_scheme \<Rightarrow> (int \<times> 'x mbstate_scheme) run" where
  "serve V b st =
     (let (pkt, st1) = MB_DEQUEUE b st in
      if pkt \<noteq> NULL then
        (if toObj (mbq st1 b) = NULL then Some (Inl AssertFailed)
         else run_bind (mod_get V (toObj (mbq st1 b)) pkt b st1) (\<lambda>(r, st2).
           if r > 0 then run_bind (try_upcall V b st2) (\<lambda>st3. Some (Inr (1, st3)))
           else Some (Inr (-1, MB_PREPEND b pkt st2))))
      else Some (Inr (-1, st1)))"

text \<open>The loop of \<open>executeEvent\<close> over the binders of node \<open>n\<close>.\<close>

partial_function (option) poll_loop ::
  "'x mb_env \<Rightarrow> nat \<Rightarrow> addr \<Rightarrow> bool \<Rightarrow> 'x mbstate_scheme \<Rightarrow> 'x mbstate_scheme run" where
  "poll_loop V n mbp is_served st =
     (if mbp = NULL then Some (Inr st)
      else case serve V mbp st of
        None \<Rightarrow> None
      | Some r \<Rightarrow>
          (case r of
             Inl a \<Rightarrow> Some (Inl a)
           | Inr x \<Rightarrow>
               (let served = (is_served \<or> fst x > 0);
                    nx = next_mb (mbs (snd x) mbp)
                in if nx = NULL \<and> served then poll_loop V n (MBH (snd x) n) False (snd x)
                   else poll_loop V n nx served (snd x))))"

definition poll_binders :: "'x mb_env \<Rightarrow> nat \<Rightarrow> 'x mbstate_scheme \<Rightarrow> 'x mbstate_scheme run" where
  "poll_binders V n st = poll_loop V n (MBH st n) False st"

declare reg_loop.simps [code] victim_loop.simps [code] place_loop.simps [code] poll_loop.simps [code]

subsection \<open>What a binder holds, and what is polled\<close>

definition mb_list :: "'x mbstate_scheme \<Rightarrow> addr \<Rightarrow> addr list \<Rightarrow> bool" where
  "mb_list st b xs \<longleftrightarrow> chain (nxt (pkts st)) (mbq_head (mbq st b)) xs
     \<and> (mbq_tail (mbq st b) = NULL \<longleftrightarrow> xs = []) \<and> mbq_len (mbq st b) = int (length xs)"

definition polled :: "'x mbstate_scheme \<Rightarrow> nat \<Rightarrow> addr list \<Rightarrow> bool" where
  "polled st n bs \<longleftrightarrow> chain (\<lambda>a. next_mb (mbs st a)) (MBH st n) bs"

abbreviation lev :: "'x mbstate_scheme \<Rightarrow> addr \<Rightarrow> u8" where "lev st x \<equiv> GET_MLEVEL (pkts st) x"

text \<open>Where a packet goes: behind every packet of its level or a higher one at the front.\<close>

definition place :: "(addr \<Rightarrow> u8) \<Rightarrow> addr \<Rightarrow> addr list \<Rightarrow> addr list" where
  "place l p xs = takeWhile (\<lambda>x. l p \<le> l x) xs @ [p] @ dropWhile (\<lambda>x. l p \<le> l x) xs"

lemma mset_place [simp]: "mset (place l p xs) = add_mset p (mset xs)"
  unfolding place_def by (rule takeWhile_dropWhile_insert_mset)

lemma length_place [simp]: "length (place l p xs) = Suc (length xs)"
  by (metis mset_place size_add_mset size_mset)

lemma place_not_Nil [simp]: "place l p xs \<noteq> []"
  by (simp add: place_def)

lemma upd_mb_simps [simp]:
  "pkts (upd_mb b f st) = pkts st" "MBH (upd_mb b f st) = MBH st"
  "mbs (upd_mb b f st) = (mbs st)(b := f (mbs st b))" "pflags (upd_mb b f st) = pflags st"
  by (simp_all add: upd_mb_def)

lemma link_simps [simp]:
  "pkts (link p q st) = set_next p q (pkts st)" "MBH (link p q st) = MBH st"
  "mbs (link p q st) = mbs st" "pflags (link p q st) = pflags st"
  by (simp_all add: link_def)

lemma lev_set_next [simp]: "GET_MLEVEL (set_next p q m) = GET_MLEVEL m"
  by (simp add: GET_MLEVEL_def fun_eq_iff)

text \<open>What registering leaves alone: the packets, and every binder but for its place in the list.\<close>

definition same_queues :: "'x mbstate_scheme \<Rightarrow> 'x mbstate_scheme \<Rightarrow> bool" where
  "same_queues st st' \<longleftrightarrow> pkts st' = pkts st \<and> pflags st' = pflags st
     \<and> (\<forall>a. (mbs st' a)\<lparr>next_mb := NULL\<rparr> = (mbs st a)\<lparr>next_mb := NULL\<rparr>)"

lemma same_queues_fields:
  assumes "same_queues st st'"
  shows "mbq_head (mbs st' a) = mbq_head (mbs st a)" "mbq_tail (mbs st' a) = mbq_tail (mbs st a)"
    "mbq_len (mbs st' a) = mbq_len (mbs st a)" "mbq_maxlen (mbs st' a) = mbq_maxlen (mbs st a)"
    "mbq_drops (mbs st' a) = mbq_drops (mbs st a)" "toObj (mbs st' a) = toObj (mbs st a)"
proof -
  have e: "(mbs st' a)\<lparr>next_mb := NULL\<rparr> = (mbs st a)\<lparr>next_mb := NULL\<rparr>"
    using assms by (simp add: same_queues_def)
  show "mbq_head (mbs st' a) = mbq_head (mbs st a)" "mbq_tail (mbs st' a) = mbq_tail (mbs st a)"
    "mbq_len (mbs st' a) = mbq_len (mbs st a)" "mbq_maxlen (mbs st' a) = mbq_maxlen (mbs st a)"
    "mbq_drops (mbs st' a) = mbq_drops (mbs st a)" "toObj (mbs st' a) = toObj (mbs st a)"
    using arg_cong [OF e, of mbq_head] arg_cong [OF e, of mbq_tail] arg_cong [OF e, of mbq_len]
      arg_cong [OF e, of mbq_maxlen] arg_cong [OF e, of mbq_drops] arg_cong [OF e, of toObj] by simp_all
qed

lemma same_queues_mb_list: "same_queues st st' \<Longrightarrow> mb_list st' a xs = mb_list st a xs"
  using same_queues_fields [of st st' a] by (simp add: mb_list_def same_queues_def)

lemma reg_loop_spec:
  assumes "chain (\<lambda>a. next_mb (mbs st a)) (MBH st n) (ps @ mbp # ys)" "b \<notin> set ps" "b \<noteq> NULL"
  shows "\<exists>st'. reg_loop b st mbp = Some st' \<and> MBH st' = MBH st \<and> same_queues st st'
    \<and> polled st' n (if b \<in> set (mbp # ys) then ps @ mbp # ys else ps @ mbp # ys @ [b])"
  using assms
proof (induction ys arbitrary: ps mbp)
  case Nil
  let ?nx = "\<lambda>a. next_mb (mbs st a)"
  show ?case
  proof (cases "mbp = b")
    case True
    then show ?thesis using Nil.prems reg_loop.simps [of b st mbp]
      by (simp add: polled_def same_queues_def)
  next
    case False
    have nx: "next_mb (mbs st mbp) = NULL" using Nil.prems(1) by auto
    let ?st' = "upd_mb b (\<lambda>q. q\<lparr>next_mb := NULL\<rparr>) (upd_mb mbp (\<lambda>q. q\<lparr>next_mb := b\<rparr>) st)"
    have "chain (?nx(b := NULL)) (MBH st n) (ps @ [mbp])"
      using Nil.prems False by simp
    then have "chain (?nx(b := NULL, mbp := b)) (MBH st n) (ps @ [mbp, b])"
      by (rule chain_append) (use Nil.prems False in auto)
    moreover have "(\<lambda>a. next_mb (mbs ?st' a)) = ?nx(b := NULL, mbp := b)"
      using False by (auto simp: fun_eq_iff)
    ultimately have "polled ?st' n (ps @ [mbp, b])" by (simp add: polled_def del: seg_append)
    then show ?thesis using False nx Nil.prems reg_loop.simps [of b st mbp]
      by (simp add: same_queues_def)
  qed
next
  case (Cons y ys)
  show ?case
  proof (cases "mbp = b")
    case True
    then show ?thesis using Cons.prems reg_loop.simps [of b st mbp]
      by (simp add: polled_def same_queues_def)
  next
    case False
    have nx: "next_mb (mbs st mbp) = y" "y \<noteq> NULL" using Cons.prems(1) by auto
    have "\<exists>st'. reg_loop b st y = Some st' \<and> MBH st' = MBH st \<and> same_queues st st'
      \<and> polled st' n (if b \<in> set (y # ys) then (ps @ [mbp]) @ y # ys else (ps @ [mbp]) @ y # ys @ [b])"
      by (rule Cons.IH) (use Cons.prems False in simp_all)
    moreover have "b \<in> set (mbp # y # ys) \<longleftrightarrow> b \<in> set (y # ys)" using False by auto
    ultimately show ?thesis using False nx reg_loop.simps [of b st mbp] by (simp only: append.simps append_assoc if_False refl)
  qed
qed

lemma RegToMBPoller_spec:
  assumes "polled st n bs" "b \<noteq> NULL" "toObj (mbq st b) \<noteq> NULL" "n = nidf (toObj (mbq st b))"
  shows "\<exists>st'. RegToMBPoller nidf b st = Some (Inr st') \<and> same_queues st st'
    \<and> polled st' n (if b \<in> set bs then bs else bs @ [b]) \<and> (\<forall>k. k \<noteq> n \<longrightarrow> MBH st' k = MBH st k)"
proof (cases bs)
  case Nil
  then have "MBH st n = NULL" using assms(1) by (simp add: polled_def)
  then show ?thesis using assms Nil by (simp add: RegToMBPoller_def same_queues_def polled_def)
next
  case (Cons x ys)
  then have c: "chain (\<lambda>a. next_mb (mbs st a)) (MBH st n) ([] @ x # ys)" and h: "MBH st n = x" "x \<noteq> NULL"
    using assms(1) by (auto simp: polled_def)
  have "\<exists>st'. reg_loop b st x = Some st' \<and> MBH st' = MBH st \<and> same_queues st st'
    \<and> polled st' n (if b \<in> set (x # ys) then [] @ x # ys else [] @ x # ys @ [b])"
    using c by (rule reg_loop_spec) (use assms(2) in simp_all)
  then obtain st' where
    "reg_loop b st x = Some st'" "MBH st' = MBH st" "same_queues st st'"
    "polled st' n (if b \<in> set bs then bs else bs @ [b])"
    using Cons by (elim exE conjE) (simp only: append.simps)
  then show ?thesis using h assms(3,4) by (simp add: RegToMBPoller_def Let_def)
qed

subsection \<open>enqueue\<close>

lemma place_loop_spec:
  assumes "chain (nxt m) ptr ys"
  shows "place_loop m pkt ptr ptr1 =
    (let as = takeWhile (\<lambda>x. GET_MLEVEL m pkt \<le> GET_MLEVEL m x) ys;
         bs = dropWhile (\<lambda>x. GET_MLEVEL m pkt \<le> GET_MLEVEL m x) ys
     in Some (if bs = [] then NULL else hd bs, if as = [] then ptr1 else last as))"
  using assms
proof (induction ys arbitrary: ptr ptr1)
  case Nil
  then show ?case using place_loop.simps [of m pkt ptr ptr1] by simp
next
  case (Cons y ys)
  then have h: "ptr = y" "y \<noteq> NULL" "chain (nxt m) (nxt m y) ys" by auto
  show ?case
  proof (cases "GET_MLEVEL m pkt > GET_MLEVEL m y")
    case True
    then have "\<not> GET_MLEVEL m pkt \<le> GET_MLEVEL m y" by (simp add: not_le)
    then show ?thesis using h place_loop.simps [of m pkt ptr ptr1] True by simp
  next
    case False
    then have "GET_MLEVEL m pkt \<le> GET_MLEVEL m y" by (simp add: not_less)
    then show ?thesis using h place_loop.simps [of m pkt ptr ptr1] Cons.IH [OF h(3), of y] False
      by (simp add: Let_def)
  qed
qed

text \<open>\<open>xs = as @ [v] @ bs\<close>, and \<open>v\<close> is the last packet of the lowest level in \<open>xs\<close>.\<close>

definition victim_at :: "(addr \<Rightarrow> u8) \<Rightarrow> addr list \<Rightarrow> addr \<Rightarrow> addr list \<Rightarrow> bool" where
  "victim_at l as v bs \<longleftrightarrow> (\<forall>x\<in>set as. l v \<le> l x) \<and> (\<forall>x\<in>set bs. l v < l x)"

lemma victim_loop_spec:
  assumes "chain (nxt m) ptr ys" "victim_at (GET_MLEVEL m) as p bs" "ptr1 = last (p # bs)"
    and "p1 = (if as = [] then NULL else last as)"
  shows "\<exists>as' v bs'. as @ [p] @ bs @ ys = as' @ [v] @ bs' \<and> victim_at (GET_MLEVEL m) as' v bs'
    \<and> victim_loop m ptr ptr1 p p1 = Some (v, if as' = [] then NULL else last as')"
  using assms
proof (induction ys arbitrary: ptr ptr1 as p bs p1)
  case Nil
  then show ?case using victim_loop.simps [of m ptr ptr1 p p1] by auto
next
  case (Cons y ys)
  then have h: "ptr = y" "y \<noteq> NULL" "chain (nxt m) (nxt m y) ys" by auto
  show ?case
  proof (cases "GET_MLEVEL m y \<le> GET_MLEVEL m p")
    case True
    have v: "victim_at (GET_MLEVEL m) (as @ [p] @ bs) y []"
      using Cons.prems(2) True unfolding victim_at_def by fastforce
    have "\<exists>as' v bs'. (as @ [p] @ bs) @ [y] @ [] @ ys = as' @ [v] @ bs' \<and> victim_at (GET_MLEVEL m) as' v bs'
      \<and> victim_loop m (nxt m y) y y ptr1 = Some (v, if as' = [] then NULL else last as')"
      by (rule Cons.IH [OF h(3) v]) (use Cons.prems(3) in \<open>auto simp: last_append\<close>)
    moreover have "victim_loop m ptr ptr1 p p1 = victim_loop m (nxt m y) y y ptr1"
      using h True victim_loop.simps [of m ptr ptr1 p p1] by simp
    ultimately show ?thesis by simp
  next
    case False
    have v: "victim_at (GET_MLEVEL m) as p (bs @ [y])"
      using Cons.prems(2) False by (auto simp: victim_at_def not_le)
    have "\<exists>as' v bs'. as @ [p] @ (bs @ [y]) @ ys = as' @ [v] @ bs' \<and> victim_at (GET_MLEVEL m) as' v bs'
      \<and> victim_loop m (nxt m y) y p p1 = Some (v, if as' = [] then NULL else last as')"
      by (rule Cons.IH [OF h(3) v]) (use Cons.prems(4) in auto)
    moreover have "victim_loop m ptr ptr1 p p1 = victim_loop m (nxt m y) y p p1"
      using h False victim_loop.simps [of m ptr ptr1 p p1] by simp
    ultimately show ?thesis by simp
  qed
qed

lemma mb_list_chain_upd:
  assumes "chain (nxt (pkts st)) (mbq_head (mbq st b)) xs"
  shows "chain (nxt (pkts st)) (mbq_head (mbq (upd_mb a f st) b)) xs
    = chain (nxt (pkts st)) (if a = b then mbq_head (f (mbq st b)) else mbq_head (mbq st b)) xs"
  by simp

text \<open>Linking a new packet in front of the head.\<close>

lemma chain_push: "chain nx p xs \<Longrightarrow> t \<notin> set xs \<Longrightarrow> t \<noteq> NULL \<Longrightarrow> chain (nx(t := p)) t (t # xs)"
  by simp

text \<open>
  After an eviction the tail may point to the packet that was evicted; only whether it is null
  matters.
\<close>

definition mb_chain :: "'x mbstate_scheme \<Rightarrow> addr \<Rightarrow> addr list \<Rightarrow> bool" where
  "mb_chain st b xs \<longleftrightarrow> chain (nxt (pkts st)) (mbq_head (mbq st b)) xs
     \<and> (mbq_tail (mbq st b) = NULL \<longrightarrow> xs = []) \<and> mbq_len (mbq st b) = int (length xs)"

lemma mb_insert_spec:
  assumes l: "mb_chain st b xs" and p: "pkt \<noteq> NULL" "pkt \<notin> set xs" "nxt (pkts st) pkt = NULL"
    and b: "b \<noteq> NULL" "toObj (mbq st b) \<noteq> NULL" and r: "polled st (nidf (toObj (mbq st b))) bs"
  shows "\<exists>st'. mb_insert nidf b pkt dq st = Some (Inr (dq, st')) \<and> mb_list st' b (place (lev st) pkt xs)
    \<and> (\<forall>x. lev st' x = lev st x) \<and> mbq_maxlen (mbq st' b) = mbq_maxlen (mbq st b)
    \<and> mbq_drops (mbq st' b) = mbq_drops (mbq st b)
    \<and> (\<forall>c ys. c \<noteq> b \<longrightarrow> mb_list st c ys \<longrightarrow> pkt \<notin> set ys \<longrightarrow> set ys \<inter> set xs = {} \<longrightarrow> mb_list st' c ys)
    \<and> polled st' (nidf (toObj (mbq st b))) (if b \<in> set bs then bs else bs @ [b])"
proof -
  define A where "A = takeWhile (\<lambda>x. lev st pkt \<le> lev st x) xs"
  define B where "B = dropWhile (\<lambda>x. lev st pkt \<le> lev st x) xs"
  have xs: "xs = A @ B" by (simp add: A_def B_def)
  have plc: "place (lev st) pkt xs = A @ [pkt] @ B" by (simp add: place_def A_def B_def)
  have c: "chain (nxt (pkts st)) (mbq_head (mbq st b)) xs" and t: "mbq_tail (mbq st b) = NULL \<longrightarrow> xs = []"
    and n: "mbq_len (mbq st b) = int (length xs)" using l by (auto simp: mb_chain_def)
  obtain st2 where
    e: "(if mbq_tail (mbq st b) = NULL
            then Some (upd_mb b (\<lambda>q. q\<lparr>mbq_head := pkt, mbq_tail := pkt\<rparr>) st)
            else map_option (\<lambda>(ptr, ptr1).
              (let st1 = (if ptr1 \<noteq> NULL
                          then link ptr1 pkt (link pkt (nxt (pkts st) ptr1) st)
                          else upd_mb b (\<lambda>q. q\<lparr>mbq_head := pkt\<rparr>) (link pkt (mbq_head (mbq st b)) st))
               in if ptr = NULL then upd_mb b (\<lambda>q. q\<lparr>mbq_tail := pkt\<rparr>) st1 else st1))
              (place_loop (pkts st) pkt (mbq_head (mbq st b)) NULL)) = Some st2" and
    q: "chain (nxt (pkts st2)) (mbq_head (mbq st2 b)) (place (lev st) pkt xs)"
      "mbq_tail (mbq st2 b) \<noteq> NULL" "mbq_len (mbq st2 b) = int (length xs)"
      "toObj (mbq st2 b) = toObj (mbq st b)" "mbq_maxlen (mbq st2 b) = mbq_maxlen (mbq st b)"
      "mbq_drops (mbq st2 b) = mbq_drops (mbq st b)"
      "\<forall>a. a \<notin> set (pkt # xs) \<longrightarrow> pkts st2 a = pkts st a" "\<forall>a. a \<noteq> b \<longrightarrow> mbs st2 a = mbs st a"
      "\<forall>a. next_mb (mbs st2 a) = next_mb (mbs st a)" "MBH st2 = MBH st" "\<forall>x. lev st2 x = lev st x"
  proof (cases "xs = []")
    case True
    have h: "mbq_head (mbq st b) = NULL" using c True by simp
    show thesis
    proof (cases "mbq_tail (mbq st b) = NULL")
      case tl: True
      then show thesis using True n p
        by (intro that [of "upd_mb b (\<lambda>q. q\<lparr>mbq_head := pkt, mbq_tail := pkt\<rparr>) st"])
          (simp_all add: place_def)
    next
      case False
      have "place_loop (pkts st) pkt (mbq_head (mbq st b)) NULL = Some (NULL, NULL)"
        using h place_loop.simps [of "pkts st" pkt NULL NULL] by simp
      then show thesis using True n p h False
        by (intro that [of "upd_mb b (\<lambda>q. q\<lparr>mbq_tail := pkt\<rparr>)
            (upd_mb b (\<lambda>q. q\<lparr>mbq_head := pkt\<rparr>) (link pkt (mbq_head (mbq st b)) st))"])
          (simp_all add: place_def)
    qed
  next
    case False
    note pl = place_loop_spec [OF c, of pkt NULL, unfolded Let_def, folded A_def B_def]
    have nn: "x \<in> set xs \<Longrightarrow> x \<noteq> NULL" for x using chain_not_NULL [OF c] by (cases "x = NULL") auto
    show thesis
    proof (cases "A = []")
      case True
      then have B: "B = xs" using xs by simp
      let ?st1 = "upd_mb b (\<lambda>q. q\<lparr>mbq_head := pkt\<rparr>) (link pkt (mbq_head (mbq st b)) st)"
      have h: "hd xs \<noteq> NULL" using nn False by simp
      then have "place_loop (pkts st) pkt (mbq_head (mbq st b)) NULL = Some (hd xs, NULL)"
        using pl True B False by simp
      moreover have "chain (nxt (pkts ?st1)) pkt (place (lev st) pkt xs)"
        using chain_push [OF c p(2,1)] True B plc by simp
      ultimately show thesis using t n False h
        by (intro that [of ?st1]) simp_all
    next
      case A: False
      then obtain zs z where z: "A = zs @ [z]" using rev_exhaust by blast
      then have xz: "xs = zs @ [z] @ B" using xs by simp
      have zz: "z \<noteq> NULL" using nn xz by simp
      let ?st1 = "link z pkt (link pkt (nxt (pkts st) z) st)"
      let ?st2 = "if B = [] then upd_mb b (\<lambda>q. q\<lparr>mbq_tail := pkt\<rparr>) ?st1 else ?st1"
      have hb: "B \<noteq> [] \<Longrightarrow> hd B \<noteq> NULL" using nn xs by simp
      have "place_loop (pkts st) pkt (mbq_head (mbq st b)) NULL = Some (if B = [] then NULL else hd B, z)"
        using pl z by simp
      moreover have "chain ((nxt (pkts st))(pkt := nxt (pkts st) z, z := pkt)) (mbq_head (mbq st b))
          (zs @ [z] @ [pkt] @ B)"
        by (rule chain_insert_after [OF c [unfolded xz] _ p(1) refl]) (use p(2) xz in simp)
      moreover have "nxt (pkts ?st2) = (nxt (pkts st))(pkt := nxt (pkts st) z, z := pkt)" by simp
      moreover have "place (lev st) pkt xs = zs @ [z] @ [pkt] @ B" using z plc by simp
      moreover have "\<forall>a. a \<notin> set (pkt # xs) \<longrightarrow> pkts ?st2 a = pkts st a" using xz by simp
      ultimately show thesis using t n False zz hb p(1)
        by (cases "B = []"; intro that [of ?st2]) (simp_all add: Let_def del: seg_append)
    qed
  qed
  define st3 where "st3 = upd_mb b (\<lambda>q. q\<lparr>mbq_len := mbq_len q + 1\<rparr>) st2"
  have p3: "polled st3 (nidf (toObj (mbq st b))) bs" "toObj (mbq st3 b) \<noteq> NULL"
    "nidf (toObj (mbq st b)) = nidf (toObj (mbq st3 b))"
    using r b(2) q(4,9,10) seg_cong [of bs "\<lambda>a. next_mb (mbs st3 a)" "\<lambda>a. next_mb (mbs st a)"]
    by (auto simp: polled_def st3_def)
  from RegToMBPoller_spec [where nidf = nidf, OF p3(1) b(1) p3(2,3)] obtain st' where
    s': "RegToMBPoller nidf b st3 = Some (Inr st')" "same_queues st3 st'"
      "polled st' (nidf (toObj (mbq st b))) (if b \<in> set bs then bs else bs @ [b])" by blast
  have "mb_list st3 b (place (lev st) pkt xs)" using q(1-3) by (simp add: mb_list_def st3_def)
  moreover have "mb_list st3 d ys" if "d \<noteq> b" "mb_list st d ys" "pkt \<notin> set ys" "set ys \<inter> set xs = {}" for d ys
  proof -
    have "chain (nxt (pkts st2)) (mbq_head (mbq st d)) ys = chain (nxt (pkts st)) (mbq_head (mbq st d)) ys"
      by (rule seg_cong) (use that q(7) in auto)
    then show ?thesis using that(1,2) q(8) by (simp add: mb_list_def st3_def)
  qed
  moreover have "mb_insert nidf b pkt dq st = Some (Inr (dq, st'))"
    using e s'(1) by (simp add: mb_insert_def st3_def)
  moreover have "\<forall>x. lev st' x = lev st x" using q(11) s'(2) by (simp add: same_queues_def st3_def)
  ultimately show ?thesis using s'(2,3) q(5,6) same_queues_mb_list [OF s'(2)] same_queues_fields [OF s'(2), of b]
    by (auto simp: st3_def)
qed

lemma mb_evict_spec:
  assumes l: "mb_list st b (as @ [v] @ bs)"
  defines "st' \<equiv> mb_evict b v (if as = [] then NULL else last as) st"
  shows "mb_chain st' b (as @ bs) \<and> (\<forall>x. lev st' x = lev st x)
    \<and> toObj (mbq st' b) = toObj (mbq st b) \<and> mbq_maxlen (mbq st' b) = mbq_maxlen (mbq st b)
    \<and> mbq_drops (mbq st' b) = mbq_drops (mbq st b) \<and> MBH st' = MBH st
    \<and> (\<forall>a. next_mb (mbs st' a) = next_mb (mbs st a)) \<and> (\<forall>a. a \<noteq> b \<longrightarrow> mbs st' a = mbs st a)
    \<and> (\<forall>a. a \<notin> set (as @ [v] @ bs) \<longrightarrow> pkts st' a = pkts st a)"
proof -
  have c: "chain (nxt (pkts st)) (mbq_head (mbq st b)) (as @ [v] @ bs)"
    and n: "mbq_len (mbq st b) = int (length (as @ [v] @ bs))" and t: "mbq_tail (mbq st b) \<noteq> NULL"
    using l by (auto simp: mb_list_def)
  show ?thesis
  proof (cases "as = []")
    case True
    have h: "mbq_head (mbq st b) = v" "chain (nxt (pkts st)) (nxt (pkts st) v) bs"
      using c True by auto
    then show ?thesis using True n t chain_head_NULL [OF h(2)]
      by (cases "mbq_tail (mbq st b) = v") (simp_all add: st'_def mb_evict_def mb_chain_def Let_def)
  next
    case False
    then obtain zs z where z: "as = zs @ [z]" using rev_exhaust by blast
    have d: "distinct (as @ [v] @ bs)" using c by (rule chain_distinct)
    have "chain (nxt (pkts st)) (mbq_head (mbq st b)) (zs @ [z, v] @ bs)" using c z by simp
    then have ch: "chain ((nxt (pkts st))(z := nxt (pkts st) v, v := NULL)) (mbq_head (mbq st b)) (zs @ [z] @ bs)"
      by (rule chain_unlink_after) simp
    have zn: "z \<noteq> NULL" using c chain_not_NULL [OF c] z by (cases "z = NULL") auto
    show ?thesis using False z zn n t ch d
      by (simp add: st'_def mb_evict_def mb_chain_def Let_def del: seg_append)
  qed
qed

text \<open>
  What \<open>enqueue\<close> does to the packets of a binder, and which packet it gives back: the new packet, or
  the packet it takes out for it, or none.
\<close>

definition enq_result :: "(addr \<Rightarrow> u8) \<Rightarrow> int \<Rightarrow> addr \<Rightarrow> addr list \<Rightarrow> addr \<Rightarrow> addr list \<Rightarrow> bool" where
  "enq_result l mx pkt xs dq ys \<longleftrightarrow>
     (if int (length xs) < mx then dq = NULL \<and> ys = place l pkt xs
      else \<exists>as v bs. xs = as @ [v] @ bs \<and> victim_at l as v bs
        \<and> (if l pkt \<le> l v then dq = pkt \<and> ys = xs else dq = v \<and> ys = place l pkt (as @ bs)))"

lemma mb_list_chain: "mb_list st b xs \<Longrightarrow> mb_chain st b xs"
  by (simp add: mb_list_def mb_chain_def)

lemma enqueue_spec:
  assumes l: "mb_list st b xs" and p: "pkt \<noteq> NULL" "pkt \<notin> set xs"
    and b: "b \<noteq> NULL" "toObj (mbq st b) \<noteq> NULL" and r: "polled st (nidf (toObj (mbq st b))) bs"
    and mx: "1 \<le> mbq_maxlen (mbq st b)"
  shows "\<exists>dq st' ys. enqueue nidf b pkt st = Some (Inr (dq, st')) \<and> mb_list st' b ys
    \<and> enq_result (lev st) (mbq_maxlen (mbq st b)) pkt xs dq ys
    \<and> mbq_maxlen (mbq st' b) = mbq_maxlen (mbq st b) \<and> (\<forall>x. lev st' x = lev st x)
    \<and> (dq = pkt \<or> polled st' (nidf (toObj (mbq st b))) (if b \<in> set bs then bs else bs @ [b]))
    \<and> (\<forall>c zs. c \<noteq> b \<longrightarrow> mb_list st c zs \<longrightarrow> pkt \<notin> set zs \<longrightarrow> set zs \<inter> set xs = {} \<longrightarrow> mb_list st' c zs)"
proof -
  let ?st0 = "link pkt NULL st"
  have l0: "mb_list ?st0 b xs" using l p(2) by (simp add: mb_list_def)
  have ll: "(\<lambda>x. lev ?st0 x) = (\<lambda>x. lev st x)" by simp
  have fr0: "mb_list ?st0 c zs" if "mb_list st c zs" "pkt \<notin> set zs" for c zs
    using that by (simp add: mb_list_def)
  have len: "mbq_len (mbq st b) = int (length xs)" using l by (simp add: mb_list_def)
  show ?thesis
  proof (cases "int (length xs) < mbq_maxlen (mbq st b)")
    case True
    have "enqueue nidf b pkt st = mb_insert nidf b pkt NULL ?st0"
      using True len by (simp add: enqueue_def MB_QFULL_def)
    moreover have r0: "polled ?st0 (nidf (toObj (mbq ?st0 b))) bs" using r by (simp add: polled_def)
    ultimately show ?thesis
      using mb_insert_spec [where nidf = nidf and dq = NULL, OF mb_list_chain [OF l0] p _ b(1) _ r0]
        b(2) True fr0 by (auto simp: enq_result_def)
  next
    case False
    let ?st1 = "upd_mb b (\<lambda>q. q\<lparr>mbq_drops := mbq_drops q + 1\<rparr>) ?st0"
    have l1: "mb_list ?st1 b xs" using l0 by (simp add: mb_list_def)
    have "xs \<noteq> []" using False mx by auto
    then obtain x ys where xs: "xs = x # ys" by (cases xs) auto
    have h: "mbq_head (mbq st b) = x" "x \<noteq> NULL" "chain (nxt (pkts ?st1)) (nxt (pkts ?st1) x) ys"
      "x \<noteq> pkt" using l1 xs p(2) by (auto simp: mb_list_def)
    have first: "victim_loop (pkts ?st1) x NULL x NULL = victim_loop (pkts ?st1) (nxt (pkts ?st1) x) x x NULL"
      using h(2) victim_loop.simps [of "pkts ?st1" x NULL x NULL] by simp
    have "\<exists>as v bs. [] @ [x] @ [] @ ys = as @ [v] @ bs \<and> victim_at (GET_MLEVEL (pkts ?st1)) as v bs
      \<and> victim_loop (pkts ?st1) (nxt (pkts ?st1) x) x x NULL = Some (v, if as = [] then NULL else last as)"
      by (rule victim_loop_spec [OF h(3)]) (simp_all add: victim_at_def)
    then obtain as v bs' where v: "xs = as @ [v] @ bs'" "victim_at (lev st) as v bs'"
      "victim_loop (pkts ?st1) x NULL x NULL = Some (v, if as = [] then NULL else last as)"
      using first xs by auto
    let ?st2 = "mb_evict b v (if as = [] then NULL else last as) ?st1"
    have e: "enqueue nidf b pkt st = (if lev st pkt \<le> lev st v then Some (Inr (pkt, ?st1))
        else mb_insert nidf b pkt v ?st2)"
      using False len h(1,2) v(3) by (simp add: enqueue_def MB_QFULL_def Let_def)
    have fr1: "mb_list ?st1 c zs" if "c \<noteq> b" "mb_list st c zs" "pkt \<notin> set zs" for c zs
      using fr0 [OF that(2,3)] that(1) by (simp add: mb_list_def)
    show ?thesis
    proof (cases "lev st pkt \<le> lev st v")
      case True
      then show ?thesis using e l1 v(1,2) False fr1 by (auto simp: enq_result_def)
    next
      case hi: False
      define st2 where "st2 = ?st2"
      note E = mb_evict_spec [OF l1 [unfolded v(1)], folded st2_def]
      have E2: "mb_chain st2 b (as @ bs')" "toObj (mbq st2 b) = toObj (mbq st b)"
        "mbq_maxlen (mbq st2 b) = mbq_maxlen (mbq st b)" "MBH st2 = MBH st"
        "\<forall>a. next_mb (mbs st2 a) = next_mb (mbs st a)" "\<forall>a. a \<noteq> b \<longrightarrow> mbs st2 a = mbs st a"
        "\<forall>a. a \<notin> set xs \<longrightarrow> pkts st2 a = pkts ?st1 a" "lev st2 = lev st"
        using E v(1) by (auto simp: fun_eq_iff)
      have pn: "pkt \<notin> set (as @ bs')" using p(2) v(1) by simp
      have nx: "nxt (pkts st2) pkt = NULL" using E2(7) p(2) by simp
      have "chain (\<lambda>a. next_mb (mbs st2 a)) (MBH st k) bs = chain (\<lambda>a. next_mb (mbs st a)) (MBH st k) bs" for k
        by (rule seg_cong) (simp add: E2(5))
      then have r2: "polled st2 (nidf (toObj (mbq st2 b))) bs"
        using r E2(2,4) by (simp add: polled_def)
      have to: "toObj (mbq st2 b) \<noteq> NULL" using E2(2) b(2) by simp
      have fr2: "mb_list st2 c zs" if "c \<noteq> b" "mb_list st c zs" "pkt \<notin> set zs" "set zs \<inter> set xs = {}" for c zs
      proof -
        have "mb_list ?st1 c zs" using fr1 that(1-3) by blast
        moreover have "chain (nxt (pkts st2)) (mbq_head (mbq ?st1 c)) zs
            = chain (nxt (pkts ?st1)) (mbq_head (mbq ?st1 c)) zs"
          by (rule seg_cong) (use E2(7) that(4) in auto)
        moreover have "mbs st2 c = mbs ?st1 c" using E2(6) that(1) by simp
        ultimately show ?thesis by (simp add: mb_list_def)
      qed
      from mb_insert_spec [where nidf = nidf and dq = v, OF E2(1) p(1) pn nx b(1) to r2]
      obtain st' where
        s': "mb_insert nidf b pkt v st2 = Some (Inr (v, st'))"
          "mb_list st' b (place (lev st2) pkt (as @ bs'))" "\<forall>x. lev st' x = lev st2 x"
          "mbq_maxlen (mbq st' b) = mbq_maxlen (mbq st2 b)"
          "\<forall>c ys. c \<noteq> b \<longrightarrow> mb_list st2 c ys \<longrightarrow> pkt \<notin> set ys \<longrightarrow> set ys \<inter> set (as @ bs') = {} \<longrightarrow> mb_list st' c ys"
          "polled st' (nidf (toObj (mbq st2 b))) (if b \<in> set bs then bs else bs @ [b])"
        by blast
      have "enq_result (lev st) (mbq_maxlen (mbq st b)) pkt xs v (place (lev st) pkt (as @ bs'))"
        unfolding enq_result_def using False hi v(1,2) by auto
      moreover have "mbq_maxlen (mbq st' b) = mbq_maxlen (mbq st b)" using s'(4) E2(3) by simp
      moreover have "\<forall>x. lev st' x = lev st x" using s'(3) by (simp add: E2(8))
      moreover have "mb_list st' c zs"
        if "c \<noteq> b" "mb_list st c zs" "pkt \<notin> set zs" "set zs \<inter> set xs = {}" for c zs
        using s'(5) fr2 [OF that] that v(1) by auto
      moreover have "enqueue nidf b pkt st = Some (Inr (v, st'))"
        using e hi s'(1) by (simp add: st2_def)
      moreover have "mb_list st' b (place (lev st) pkt (as @ bs'))" using s'(2) by (simp add: E2(8))
      ultimately show ?thesis using s'(6) E2(2) by auto
    qed
  qed
qed

end
