(* ===== verification/ModuleObject.thy ===== *)
theory ModuleObject
  imports ModuleBinder PacketBuffer
begin

text \<open>
  How modules pass packets on, from \<open>object.cc\<close>: \<open>get\<close> of the base class \<open>NslObject\<close> with its flow
  control, \<open>put\<close> and \<open>put1\<close>, which hand a packet to the next module or queue it in the binder
  between them.  \<open>send\<close> and \<open>recv\<close> of a module are virtual; \<open>nsl_get\<close> takes them as parameters and
  \<open>nsl_send\<close>, \<open>nsl_recv\<close> are those of the base class.  \<open>pflags\<close> gives the flags of the packet an event
  carries.
\<close>

definition DISABLED :: u8 where "DISABLED = 0x00"
definition ENABLED :: u8 where "ENABLED = 0x01"

record nslobject =
  s_flowctl :: u8
  r_flowctl :: u8
  recvtarget :: addr
  sendtarget :: addr

definition nsl_get ::
  "nslobject \<Rightarrow> (addr \<Rightarrow> 'x mbstate_scheme \<Rightarrow> (int \<times> 'x mbstate_scheme) run) \<Rightarrow> (addr \<Rightarrow> 'x mbstate_scheme \<Rightarrow> (int \<times> 'x mbstate_scheme) run)
     \<Rightarrow> addr \<Rightarrow> 'x mbstate_scheme \<Rightarrow> (int \<times> 'x mbstate_scheme) run" where
  "nsl_get ob v_send v_recv pkt st =
     (if pflags st pkt AND PF_SEND \<noteq> 0 then
        (if s_flowctl ob = DISABLED then v_send pkt st
         else if \<not> MB_QFULL (mbq st (sendtarget ob)) then v_send pkt st
         else Some (Inr (-1, st)))
      else if pflags st pkt AND PF_RECV \<noteq> 0 then
        (if r_flowctl ob = DISABLED then v_recv pkt st
         else if \<not> MB_QFULL (mbq st (recvtarget ob)) then v_recv pkt st
         else Some (Inr (-1, st)))
      else Some (Inl AssertFailed))"

definition nsl_put :: "'x mb_env \<Rightarrow> addr \<Rightarrow> addr \<Rightarrow> 'x mbstate_scheme \<Rightarrow> (int \<times> 'x mbstate_scheme) run" where
  "nsl_put V pkt mo st =
     (if pflags st pkt AND PF_SEND \<noteq> 0 then
        (if toObj (mbq st mo) = NULL then Some (Inl (Exit (-1)))
         else run_bind (mod_get V (toObj (mbq st mo)) pkt mo st) (\<lambda>(r, st1).
           if r < 0 then
             run_bind (enqueue (nid_of V) mo pkt st1) (\<lambda>(dq, st2).
               if dq \<noteq> NULL then Some (Inl (Exit (-1))) else Some (Inr (1, st2)))
           else run_bind (try_upcall V mo st1) (\<lambda>st2. Some (Inr (1, st2)))))
      else if pflags st pkt AND PF_RECV \<noteq> 0 then
        (if toObj (mbq st mo) = NULL then Some (Inl (Exit (-1)))
         else run_bind (mod_get V (toObj (mbq st mo)) pkt mo st) (\<lambda>(r, st1).
           if r < 0 then
             run_bind (enqueue (nid_of V) mo pkt st1) (\<lambda>(dq, st2).
               if dq \<noteq> NULL then Some (Inl (Exit (-1))) else Some (Inr (1, st2)))
           else run_bind (try_upcall V mo st1) (\<lambda>st2. Some (Inr (1, st2)))))
      else Some (Inl AssertFailed))"

text \<open>\<open>put1\<close> gives the packet that was dropped, \<open>NULL\<close> for none.\<close>

definition nsl_put1 :: "'x mb_env \<Rightarrow> addr \<Rightarrow> addr \<Rightarrow> 'x mbstate_scheme \<Rightarrow> (addr \<times> 'x mbstate_scheme) run" where
  "nsl_put1 V pkt mo st =
     (if pflags st pkt AND PF_SEND \<noteq> 0 then
        (if toObj (mbq st mo) = NULL then Some (Inl (Exit (-1)))
         else run_bind (mod_get V (toObj (mbq st mo)) pkt mo st) (\<lambda>(r, st1).
           if r < 0 then enqueue (nid_of V) mo pkt st1
           else run_bind (try_upcall V mo st1) (\<lambda>st2. Some (Inr (NULL, st2)))))
      else if pflags st pkt AND PF_RECV \<noteq> 0 then
        (if toObj (mbq st mo) = NULL then Some (Inl (Exit (-1)))
         else run_bind (mod_get V (toObj (mbq st mo)) pkt mo st) (\<lambda>(r, st1).
           if r < 0 then enqueue (nid_of V) mo pkt st1
           else run_bind (try_upcall V mo st1) (\<lambda>st2. Some (Inr (NULL, st2)))))
      else Some (Inl AssertFailed))"

definition nsl_send :: "'x mb_env \<Rightarrow> nslobject \<Rightarrow> addr \<Rightarrow> 'x mbstate_scheme \<Rightarrow> (int \<times> 'x mbstate_scheme) run" where
  "nsl_send V ob pkt st =
     (if pkt = NULL \<or> DataInfo (pkts st pkt) = NULL then Some (Inl AssertFailed)
      else nsl_put V pkt (sendtarget ob) st)"

definition nsl_recv :: "'x mb_env \<Rightarrow> nslobject \<Rightarrow> addr \<Rightarrow> 'x mbstate_scheme \<Rightarrow> (int \<times> 'x mbstate_scheme) run" where
  "nsl_recv V ob pkt st =
     (if pkt = NULL \<or> DataInfo (pkts st pkt) = NULL then Some (Inl AssertFailed)
      else nsl_put V pkt (recvtarget ob) st)"

subsection \<open>serve\<close>

lemma MB_DEQUEUE_spec:
  assumes "mb_list st b (x # xs)"
  shows "\<exists>st'. MB_DEQUEUE b st = (x, st') \<and> mb_list st' b xs \<and> x \<noteq> NULL \<and> x \<notin> set xs
    \<and> toObj (mbq st' b) = toObj (mbq st b) \<and> mbq_maxlen (mbq st' b) = mbq_maxlen (mbq st b)"
proof -
  have h: "mbq_head (mbq st b) = x" "x \<noteq> NULL" "chain (nxt (pkts st)) (nxt (pkts st) x) xs"
    "mbq_tail (mbq st b) \<noteq> NULL" "mbq_len (mbq st b) = 1 + int (length xs)"
    using assms by (auto simp: mb_list_def)
  have "x \<notin> set xs" using chain_head_notin_tail h(2,3) by blast
  then show ?thesis using h chain_head_NULL [OF h(3)]
    by (auto simp: MB_DEQUEUE_def mb_list_def Let_def)
qed

lemma MB_DEQUEUE_empty: "mb_list st b [] \<Longrightarrow> MB_DEQUEUE b st = (NULL, st)"
  by (auto simp: MB_DEQUEUE_def mb_list_def Let_def)

lemma MB_PREPEND_spec:
  assumes "mb_list st b xs" "p \<noteq> NULL" "p \<notin> set xs"
  shows "mb_list (MB_PREPEND b p st) b (p # xs)"
  using assms by (auto simp: MB_PREPEND_def mb_list_def Let_def)

subsection \<open>Properties of the binder\<close>

lemma victim_at_least: "victim_at l as v bs \<Longrightarrow> x \<in> set (as @ [v] @ bs) \<Longrightarrow> l v \<le> l x"
  by (auto simp: victim_at_def intro: less_imp_le)

lemma enq_result_facts:
  assumes e: "enq_result l mx pkt xs dq ys" and x: "pkt \<noteq> NULL" "NULL \<notin> set xs"
    and mx: "int (length xs) \<le> mx" "1 \<le> mx"
  shows "add_mset pkt (mset xs) = mset ys + (if dq = NULL then {#} else {#dq#})
    \<and> int (length ys) \<le> mx \<and> (dq \<noteq> NULL \<longrightarrow> int (length xs) = mx \<and> (\<forall>y\<in>set ys. l dq \<le> l y))"
proof (cases "int (length xs) < mx")
  case True
  then show ?thesis using e by (simp add: enq_result_def)
next
  case False
  then obtain as v bs where v: "xs = as @ [v] @ bs" "victim_at l as v bs"
    "if l pkt \<le> l v then dq = pkt \<and> ys = xs else dq = v \<and> ys = place l pkt (as @ bs)"
    using e by (auto simp: enq_result_def)
  have least: "y \<in> set xs \<Longrightarrow> l v \<le> l y" for y using victim_at_least [OF v(2)] v(1) by simp
  have len: "int (length xs) = mx" using False mx by simp
  show ?thesis
  proof (cases "l pkt \<le> l v")
    case True
    then have "dq = pkt" "ys = xs" using v(3) by auto
    moreover have "\<forall>y\<in>set xs. l pkt \<le> l y" using True least order_trans by blast
    ultimately show ?thesis using x len by simp
  next
    case hi: False
    then have d: "dq = v" "ys = place l pkt (as @ bs)" using v(3) by auto
    have "v \<noteq> NULL" using x(2) v(1) by auto
    moreover have "set ys = insert pkt (set (as @ bs))"
      by (metis d(2) mset_place set_mset_add_mset_insert set_mset_mset)
    then have "\<forall>y\<in>set ys. l v \<le> l y" using least hi v(1) by auto
    ultimately show ?thesis using d len v(1) by simp
  qed
qed

lemma place_sorted:
  assumes "sorted_wrt (\<lambda>x y. l x \<ge> l y) xs"
  shows "sorted_wrt (\<lambda>x y. l x \<ge> l y) (place l p xs)"
  using assms
proof (induction xs)
  case Nil
  then show ?case by (simp add: place_def)
next
  case (Cons x xs)
  show ?case
  proof (cases "l p \<le> l x")
    case True
    then have e: "place l p (x # xs) = x # place l p xs" by (simp add: place_def)
    have "set (place l p xs) = insert p (set xs)"
      by (metis mset_place set_mset_add_mset_insert set_mset_mset)
    then show ?thesis using e Cons True by auto
  next
    case False
    then have e: "place l p (x # xs) = p # x # xs" by (simp add: place_def)
    have "l x \<le> l p" using False by simp
    then show ?thesis using e Cons.prems by (fastforce intro: order_trans)
  qed
qed

lemma sorted_wrt_remove_mid: "sorted_wrt R (as @ [v] @ bs) \<Longrightarrow> sorted_wrt R (as @ bs)"
  by (auto simp: sorted_wrt_append)

lemma enq_result_sorted:
  assumes "enq_result l mx pkt xs dq ys" "sorted_wrt (\<lambda>x y. l x \<ge> l y) xs"
  shows "sorted_wrt (\<lambda>x y. l x \<ge> l y) ys"
proof (cases "int (length xs) < mx")
  case True
  then show ?thesis using assms place_sorted by (simp add: enq_result_def)
next
  case False
  then obtain as v bs where v: "xs = as @ [v] @ bs"
    "if l pkt \<le> l v then dq = pkt \<and> ys = xs else dq = v \<and> ys = place l pkt (as @ bs)"
    using assms(1) by (auto simp: enq_result_def)
  have "sorted_wrt (\<lambda>x y. l x \<ge> l y) (as @ bs)"
    by (rule sorted_wrt_remove_mid [of _ as v]) (use assms(2) v(1) in simp)
  then show ?thesis using v(2) assms(2) place_sorted by (auto split: if_splits)
qed


text \<open>
  Binder 1 binds to module 9 of node 1 and is full: two packets, 5 of level 3 and 6 of level 1.  The
  packets 7 and 8 have level 2.  The binder 2, which binds to module 8 of node 1, is empty.
\<close>

definition level_of :: "addr \<Rightarrow> u8" where
  "level_of p = (if p = 5 then MLEVEL_3 else if p = 6 then MLEVEL_1 else MLEVEL_2)"

definition full_binder :: mbstate where
  "full_binder = \<lparr>pkts = (\<lambda>p. blank_event\<lparr>priority := level_of p, DataInfo := 90,
       next_ep := (if p = 5 then 6 else NULL)\<rparr>),
     mbs = (\<lambda>b. if b = 1 then (MBinder 3 2)\<lparr>mbq_head := 5, mbq_tail := 6, mbq_len := 2, toObj := 9\<rparr>
                else (MBinder 4 1)\<lparr>toObj := 8\<rparr>),
     MBH = (\<lambda>_. NULL), pflags = (\<lambda>_. PF_SEND)\<rparr>"

lemma full_binder_list: "mb_list full_binder 1 [5, 6]" "mb_list full_binder 2 []"
  "polled full_binder 1 []"
  by (simp_all add: mb_list_def full_binder_def MBinder_def polled_def)

lemma full_binder_levels: "lev full_binder 5 = 0x80" "lev full_binder 6 = 0" "lev full_binder 7 = 0x40"
  by (simp_all add: full_binder_def GET_MLEVEL_def level_of_def MLEVEL_1_def MLEVEL_2_def MLEVEL_3_def)



text \<open>A next module that answers \<open>r\<close> and does nothing.\<close>

definition answer_env :: "int \<Rightarrow> 'x mb_env" where
  "answer_env r = \<lparr>nid_of = (\<lambda>_. 1), mod_get = (\<lambda>_ _ _ s. Some (Inr (r, s))),
     memb_upcall = (\<lambda>_ _ _ s. Some (Inr s)), func_upcall = (\<lambda>_ _ s. Some (Inr s))\<rparr>"

lemma full_binder_dequeued:
  "mb_list (snd (MB_DEQUEUE 1 full_binder)) 1 [6]"
  "co_type (mbq (snd (MB_DEQUEUE 1 full_binder)) 1) = NO_UPCALL"
  "toObj (mbq full_binder 1) \<noteq> NULL"
  by (simp_all add: full_binder_def MBinder_def MB_DEQUEUE_def mb_list_def Let_def)


text \<open>
  \<open>put\<close> and \<open>serve\<close> read the result 0 of a module's \<open>get\<close> differently: \<open>put\<close> takes the packet as
  passed on and keeps nothing, \<open>serve\<close> takes it as refused and keeps the packet in the queue, so a
  packet that a module took with the result 0 is offered to it again.
\<close>

theorem zero_result_kept_by_serve:
  assumes "mb_list st b (x # xs)" "toObj (mbq st b) \<noteq> NULL" "co_type (mbq st b) = NO_UPCALL"
    and "\<And>s. mod_get V (toObj (mbq st b)) x b s = Some (Inr (0, s))"
    and "pflags st x AND PF_SEND \<noteq> 0"
  shows "(\<exists>st'. serve V b st = Some (Inr (-1, st')) \<and> mb_list st' b (x # xs))
    \<and> nsl_put V x b st = Some (Inr (1, st))"
proof -
  from MB_DEQUEUE_spec [OF assms(1)] obtain s1 where
    d: "MB_DEQUEUE b st = (x, s1)" "mb_list s1 b xs" "x \<noteq> NULL" "x \<notin> set xs"
      "toObj (mbq s1 b) = toObj (mbq st b)" by blast
  have "serve V b st = Some (Inr (-1, MB_PREPEND b x s1))"
    using d assms(2,4) by (simp add: serve_def run_bind_def)
  then show ?thesis using MB_PREPEND_spec [OF d(2-4)] assms(2-5)
    by (simp add: nsl_put_def run_bind_def try_upcall_def)
qed

theorem zero_result_kept_by_serve_witness:
  "(\<exists>st'. serve (answer_env 0) 1 full_binder = Some (Inr (-1, st')) \<and> mb_list st' 1 [5, 6])
   \<and> nsl_put (answer_env 0) 5 1 full_binder = Some (Inr (1, full_binder))"
proof -
  have "co_type (mbq full_binder 1) = NO_UPCALL" "pflags full_binder 5 AND PF_SEND \<noteq> 0"
    by (simp_all add: full_binder_def MBinder_def PF_SEND_def)
  from zero_result_kept_by_serve [OF full_binder_list(1) full_binder_dequeued(3) this(1) _ this(2)]
  show ?thesis by (simp add: answer_env_def)
qed

definition base_env :: "nslobject \<Rightarrow> 'x mb_env" where
  "base_env ob = (answer_env 1)\<lparr>mod_get := (\<lambda>_ pkt _. nsl_get ob (\<lambda>_ s. Some (Inr (1, s)))
     (\<lambda>_ s. Some (Inr (1, s))) pkt)\<rparr>"

text \<open>
  flow control: when the next module is one of the base class whose own output queue is full,
  \<open>put\<close> does not hand the packet over but queues it in the binder before that module, losing nothing;
  with no room left in that binder either the process ends.
\<close>

theorem put_queues_when_next_full:
  assumes "pflags st pkt AND PF_SEND \<noteq> 0" "toObj (mbq st b) \<noteq> NULL"
    and "\<And>s. mod_get V (toObj (mbq st b)) pkt b s = nsl_get ob snd' rcv' pkt s"
    and "s_flowctl ob \<noteq> DISABLED" "MB_QFULL (mbq st (sendtarget ob))"
    and "mb_list st b xs" "pkt \<noteq> NULL" "pkt \<notin> set xs" "b \<noteq> NULL"
      "polled st (nid_of V (toObj (mbq st b))) bs" "1 \<le> mbq_maxlen (mbq st b)"
  shows "if int (length xs) < mbq_maxlen (mbq st b)
    then \<exists>st'. nsl_put V pkt b st = Some (Inr (1, st')) \<and> mb_list st' b (place (lev st) pkt xs)
    else nsl_put V pkt b st = Some (Inl (Exit (-1)))"
proof -
  from enqueue_spec [where nidf = "nid_of V", OF assms(6-9,2,10,11)] obtain dq st' ys where
    e: "enqueue (nid_of V) b pkt st = Some (Inr (dq, st'))" "mb_list st' b ys"
      "enq_result (lev st) (mbq_maxlen (mbq st b)) pkt xs dq ys" by blast
  have "NULL \<notin> set xs" using assms(6) chain_not_NULL by (auto simp: mb_list_def)
  then have "int (length xs) < mbq_maxlen (mbq st b) \<longleftrightarrow> dq = NULL"
    using e(3) assms(7) by (auto simp: enq_result_def split: if_splits)
  moreover have "nsl_put V pkt b st = (if dq \<noteq> NULL then Some (Inl (Exit (-1))) else Some (Inr (1, st')))"
    using assms(1-5) e(1) by (simp add: nsl_put_def nsl_get_def run_bind_def)
  ultimately show ?thesis using e(2,3)
    by (cases "int (length xs) < mbq_maxlen (mbq st b)") (auto simp: enq_result_def)
qed

theorem put_queues_when_next_full_witness:
  "\<exists>st'. nsl_put (base_env \<lparr>s_flowctl = ENABLED, r_flowctl = ENABLED, recvtarget = 2, sendtarget = 1\<rparr>)
      7 2 full_binder = Some (Inr (1, st')) \<and> mb_list st' 2 [7]"
proof -
  let ?ob = "\<lparr>s_flowctl = ENABLED, r_flowctl = ENABLED, recvtarget = 2, sendtarget = 1\<rparr>"
  have "if int (length ([] :: addr list)) < mbq_maxlen (mbq full_binder 2)
    then \<exists>st'. nsl_put (base_env ?ob) 7 2 full_binder = Some (Inr (1, st'))
      \<and> mb_list st' 2 (place (lev full_binder) 7 [])
    else nsl_put (base_env ?ob) 7 2 full_binder = Some (Inl (Exit (-1)))"
    by (rule put_queues_when_next_full [OF _ _ _ _ _ full_binder_list(2), where ob = ?ob and bs = "[]"
          and snd' = "\<lambda>_ s. Some (Inr (1, s))" and rcv' = "\<lambda>_ s. Some (Inr (1, s))"])
      (use full_binder_list(3) in \<open>simp_all add: full_binder_def MBinder_def PF_SEND_def base_env_def
        answer_env_def ENABLED_def DISABLED_def MB_QFULL_def\<close>)
  then show ?thesis by (simp add: full_binder_def MBinder_def place_def)
qed

end
