(* ===== verification/Fifo.thy ===== *)
theory Fifo
  imports ModuleObject QueueSpecs
begin

text \<open>
  The interface queue of \<open>module/ps/fifo\<close>: the macros of \<open>fifo.h\<close> on a queue of packets linked through
  \<open>next_ep\<close>, and the module \<open>fifo\<close>, which keeps packets while the binder below it is full and refills
  the binder by an upcall.  The lengths of the queues of tunnel interfaces are published in
  \<open>fifoIFcurqlen\<close> and \<open>fifoIFmaxqlen\<close>, under the number the registered variable \<open>TUNID\<close> holds
  (\<open>None\<close> when there is none).  A line of the log is its time in ticks and its length.
\<close>

record ifqueue =
  ifq_head :: addr
  ifq_tail :: addr
  ifq_len :: int
  ifq_maxlen :: int
  ifq_drops :: int

record fifo =
  fifo_obj :: nslobject
  if_snd :: ifqueue
  log_qlen :: bool
  full_log_flag :: bool
  tunid :: "u32 option"
  tunid_port :: "u32 option"

record fifo_state = mbstate +
  fifos :: "addr \<Rightarrow> fifo"
  fifoIFcurqlen :: "u32 \<Rightarrow> u32"
  fifoIFmaxqlen :: "u32 \<Rightarrow> u32"
  qlen_log :: "(addr \<times> u64 \<times> int) list"
  fifo_now :: u64
  dropped :: "addr set"

subsection \<open>The macros\<close>

definition IF_QFULL :: "ifqueue \<Rightarrow> bool" where
  "IF_QFULL q \<longleftrightarrow> ifq_len q \<ge> ifq_maxlen q"

definition IF_DROP :: "ifqueue \<Rightarrow> ifqueue" where
  "IF_DROP q = q\<lparr>ifq_drops := ifq_drops q + 1\<rparr>"

definition IF_ENQUEUE :: "addr \<Rightarrow> mem \<times> ifqueue \<Rightarrow> mem \<times> ifqueue" where
  "IF_ENQUEUE p = (\<lambda>(m, q).
     let (m1, q1) = (if ifq_tail q = NULL then (m, q\<lparr>ifq_head := p\<rparr>)
                     else (set_next (ifq_tail q) p m, q))
     in (m1, q1\<lparr>ifq_tail := p, ifq_len := ifq_len q1 + 1\<rparr>))"

definition IF_PREPEND :: "addr \<Rightarrow> mem \<times> ifqueue \<Rightarrow> mem \<times> ifqueue" where
  "IF_PREPEND p = (\<lambda>(m, q).
     let q1 = (if ifq_tail q = NULL then q\<lparr>ifq_tail := p\<rparr> else q)
     in (set_next p (ifq_head q) m, q1\<lparr>ifq_head := p, ifq_len := ifq_len q1 + 1\<rparr>))"

definition IF_DEQUEUE :: "mem \<times> ifqueue \<Rightarrow> addr \<times> mem \<times> ifqueue" where
  "IF_DEQUEUE = (\<lambda>(m, q).
     let p = ifq_head q in
     if p \<noteq> NULL then
       (let n = nxt m p;
            q1 = q\<lparr>ifq_head := n\<rparr>;
            q2 = (if n = NULL then q1\<lparr>ifq_tail := NULL\<rparr> else q1)
        in (p, set_next p NULL m, q2\<lparr>ifq_len := ifq_len q2 - 1\<rparr>))
     else (NULL, m, q))"

subsection \<open>The module\<close>

text \<open>The constructor, with the default length, for an object \<open>ob\<close>.\<close>

definition fifo_new :: "nslobject \<Rightarrow> fifo" where
  "fifo_new ob = \<lparr>fifo_obj = ob\<lparr>s_flowctl := DISABLED, r_flowctl := DISABLED\<rparr>,
     if_snd = \<lparr>ifq_head = NULL, ifq_tail = NULL, ifq_len = 0, ifq_maxlen = 50, ifq_drops = 0\<rparr>,
     log_qlen = False, full_log_flag = False, tunid = None, tunid_port = None\<rparr>"

definition upd_fifo :: "addr \<Rightarrow> (fifo \<Rightarrow> fifo) \<Rightarrow> 'x fifo_state_scheme \<Rightarrow> 'x fifo_state_scheme" where
  "upd_fifo a f st = st\<lparr>fifos := (fifos st)(a := f (fifos st a))\<rparr>"

definition set_ifq :: "addr \<Rightarrow> mem \<times> ifqueue \<Rightarrow> 'x fifo_state_scheme \<Rightarrow> 'x fifo_state_scheme" where
  "set_ifq a r st = upd_fifo a (\<lambda>f. f\<lparr>if_snd := snd r\<rparr>) (st\<lparr>pkts := fst r\<rparr>)"

definition fifo_log :: "addr \<Rightarrow> 'x fifo_state_scheme \<Rightarrow> 'x fifo_state_scheme" where
  "fifo_log a st =
     (if log_qlen (fifos st a)
      then st\<lparr>qlen_log := qlen_log st @ [(a, fifo_now st, ifq_len (if_snd (fifos st a)))]\<rparr> else st)"

definition publish :: "u32 option \<Rightarrow> addr \<Rightarrow> 'x fifo_state_scheme \<Rightarrow> 'x fifo_state_scheme" where
  "publish tun a st =
     (case tun of None \<Rightarrow> st
      | Some k \<Rightarrow> st\<lparr>fifoIFcurqlen := (fifoIFcurqlen st)(k := of_int (ifq_len (if_snd (fifos st a))))\<rparr>)"

definition fifo_send :: "'x fifo_state_ext mb_env \<Rightarrow> addr \<Rightarrow> addr \<Rightarrow> 'x fifo_state_scheme \<Rightarrow> (int \<times> 'x fifo_state_scheme) run" where
  "fifo_send V a pkt st =
     (if pkt = NULL \<or> DataInfo (pkts st pkt) = NULL then Some (Inl AssertFailed)
      else let f = fifos st a in
        if MB_QFULL (mbq st (sendtarget (fifo_obj f))) then
          (if IF_QFULL (if_snd f) then
             Some (Inr (1, upd_fifo a (\<lambda>f. f\<lparr>if_snd := IF_DROP (if_snd f)\<rparr>)
                             (st\<lparr>dropped := insert pkt (dropped st)\<rparr>)))
           else let st1 = set_ifq a (IF_ENQUEUE pkt (pkts st, if_snd f)) st;
                    st2 = (if full_log_flag f then fifo_log a st1 else st1)
                in Some (Inr (1, publish (tunid f) a st2)))
        else nsl_send V (fifo_obj f) pkt st)"

definition fifo_recv :: "'x fifo_state_ext mb_env \<Rightarrow> addr \<Rightarrow> addr \<Rightarrow> 'x fifo_state_scheme \<Rightarrow> (int \<times> 'x fifo_state_scheme) run" where
  "fifo_recv V a pkt st =
     (if pkt = NULL \<or> DataInfo (pkts st pkt) = NULL then Some (Inl AssertFailed)
      else nsl_recv V (fifo_obj (fifos st a)) pkt st)"

definition intrq :: "(addr \<Rightarrow> nat) \<Rightarrow> addr \<Rightarrow> 'x fifo_state_scheme \<Rightarrow> (int \<times> 'x fifo_state_scheme) run" where
  "intrq nidf a st =
     (let f = fifos st a;
          (pkt, r) = IF_DEQUEUE (pkts st, if_snd f);
          st1 = publish (tunid_port f) a (set_ifq a r st);
          st2 = (if full_log_flag f then fifo_log a st1 else st1)
      in if pkt \<noteq> NULL then
           run_bind (enqueue nidf (sendtarget (fifo_obj f)) pkt st2) (\<lambda>(dq, st3).
             if dq = NULL then Some (Inr (1, st3)) else Some (Inl AssertFailed))
         else Some (Inr (1, st2)))"

text \<open>The assignment of the command \<open>Set max-queue-length\<close>, to the number \<open>n\<close> that \<open>atoi\<close> gives.\<close>

definition fifo_set_maxlen :: "addr \<Rightarrow> int \<Rightarrow> 'x fifo_state_scheme \<Rightarrow> 'x fifo_state_scheme" where
  "fifo_set_maxlen a n st =
     (let st1 = upd_fifo a (\<lambda>f. f\<lparr>if_snd := (if_snd f)\<lparr>ifq_maxlen := n\<rparr>\<rparr>) st in
      case tunid (fifos st a) of None \<Rightarrow> st1
      | Some k \<Rightarrow> st1\<lparr>fifoIFmaxqlen := (fifoIFmaxqlen st1)(k := of_int n)\<rparr>)"

subsection \<open>The queue is first in, first out\<close>

text \<open>\<open>ifq_list m q xs\<close>: the queue holds the packets \<open>xs\<close>, and its tail is the last one.\<close>

definition ifq_list :: "mem \<Rightarrow> ifqueue \<Rightarrow> addr list \<Rightarrow> bool" where
  "ifq_list m q xs \<longleftrightarrow> chain (nxt m) (ifq_head q) xs \<and> ifq_tail q = (if xs = [] then NULL else last xs)
     \<and> ifq_len q = int (length xs)"

definition ifq_rep :: "mem \<times> ifqueue \<Rightarrow> addr list \<Rightarrow> bool" where
  "ifq_rep s xs = ifq_list (fst s) (snd s) xs"

definition unlinked :: "mem \<times> ifqueue \<Rightarrow> addr \<Rightarrow> bool" where
  "unlinked s p \<longleftrightarrow> p \<noteq> NULL \<and> nxt (fst s) p = NULL"

definition ifq_deq :: "mem \<times> ifqueue \<Rightarrow> addr option \<times> mem \<times> ifqueue" where
  "ifq_deq s = (let (p, s') = IF_DEQUEUE s in (if p = NULL then None else Some p, s'))"

lemma ifq_enqueue_list [queue_simps]:
  assumes "ifq_list m q xs" "p \<noteq> NULL" "nxt m p = NULL" "p \<notin> set xs"
  shows "ifq_rep (IF_ENQUEUE p (m, q)) (xs @ [p])"
proof (cases xs rule: rev_cases)
  case Nil
  then show ?thesis using assms by (simp add: ifq_list_def ifq_rep_def IF_ENQUEUE_def)
next
  case (snoc ys y)
  have t: "ifq_tail q = y" "y \<noteq> NULL" "ifq_len q = 1 + int (length ys)" using assms(1) snoc by (auto simp: ifq_list_def)
  have "chain ((nxt m)(y := p)) (ifq_head q) (ys @ [y, p])"
    by (rule chain_append) (use assms snoc in \<open>simp_all add: ifq_list_def\<close>)
  then show ?thesis using t snoc by (simp add: ifq_list_def ifq_rep_def IF_ENQUEUE_def del: seg_append)
qed

lemma ifq_dequeue_list [queue_simps]:
  assumes "ifq_list m q (x # xs)"
  shows "\<exists>m' q'. IF_DEQUEUE (m, q) = (x, m', q') \<and> ifq_list m' q' xs \<and> x \<noteq> NULL \<and> x \<notin> set xs
    \<and> nxt m' x = NULL \<and> (\<forall>y. y \<noteq> x \<longrightarrow> m' y = m y) \<and> ifq_maxlen q' = ifq_maxlen q \<and> ifq_drops q' = ifq_drops q"
proof -
  have c: "ifq_head q = x" "x \<noteq> NULL" "chain (nxt m) (nxt m x) xs" "ifq_len q = 1 + int (length xs)"
    "ifq_tail q = (if xs = [] then x else last xs)"
    using assms by (auto simp: ifq_list_def)
  have n: "x \<notin> set xs" using chain_head_notin_tail c(2,3) by blast
  have "set_next x NULL m y = m y" if "y \<noteq> x" for y using that by (simp add: set_next_def)
  with n show ?thesis using c chain_head_NULL [OF c(3)]
    by (auto simp: IF_DEQUEUE_def ifq_list_def Let_def)
qed

lemma ifq_dequeue_Nil [queue_simps]: "ifq_list m q [] \<Longrightarrow> IF_DEQUEUE (m, q) = (NULL, m, q)"
  by (simp add: IF_DEQUEUE_def ifq_list_def)

lemma ifq_prepend_list [queue_simps]:
  assumes "ifq_list m q xs" "p \<noteq> NULL" "p \<notin> set xs"
  shows "ifq_rep (IF_PREPEND p (m, q)) (p # xs)"
proof -
  have "NULL \<notin> set xs" using assms(1) chain_not_NULL by (auto simp: ifq_list_def)
  then have "last xs \<noteq> NULL" if "xs \<noteq> []" using that last_in_set by metis
  then show ?thesis using assms by (cases "xs = []") (auto simp: ifq_list_def ifq_rep_def IF_PREPEND_def Let_def)
qed

interpretation ifq: fifo_queue ifq_rep unlinked IF_ENQUEUE ifq_deq
proof (unfold_locales, goal_cases)
  case (1 s xs x)
  then show ?case using ifq_enqueue_list by (cases s) (simp add: ifq_rep_def unlinked_def)
next
  case (2 s xs x y)
  then show ?case
    by (cases s; cases xs rule: rev_cases) (auto simp: ifq_rep_def ifq_list_def unlinked_def IF_ENQUEUE_def)
next
  case (3 s)
  then show ?case by (cases s) (simp add: ifq_deq_def ifq_rep_def ifq_dequeue_Nil)
next
  case (4 s x xs)
  then show ?case using ifq_dequeue_list [of "fst s" "snd s" x xs]
    by (cases s) (auto simp: ifq_deq_def ifq_rep_def)
next
  case (5 s xs y)
  obtain m q where s: "s = (m, q)" by (cases s)
  show ?case
  proof (cases xs)
    case Nil
    then show ?thesis using 5 s ifq_dequeue_Nil [of m q] by (simp add: ifq_deq_def ifq_rep_def)
  next
    case (Cons x xs')
    obtain m' q' where d: "IF_DEQUEUE (m, q) = (x, m', q')" "\<forall>y. y \<noteq> x \<longrightarrow> m' y = m y"
      using ifq_dequeue_list [of m q x xs'] 5(1) s Cons by (auto simp: ifq_rep_def)
    then show ?thesis using 5(2,3) s Cons by (simp add: ifq_deq_def unlinked_def)
  qed
qed

text \<open>
  C28: whatever packets are put into an interface queue and taken out of it, in whatever order of
  operations, the packets taken out, followed by those still queued, are those that were queued at
  first, followed by those put in, in order.
\<close>

theorem ifq_first_in_first_out:
  assumes "ifq_rep s xs" "distinct (xs @ puts ops)" "\<forall>p\<in>set (puts ops). unlinked s p"
    and "fifo_run IF_ENQUEUE ifq_deq ops s = (ys, s')"
  shows "\<exists>zs. ifq_rep s' zs \<and> ys @ zs = xs @ puts ops"
  using assms by (rule ifq.fifo_order)

definition empty_ifq :: "mem \<times> ifqueue" where
  "empty_ifq = ((\<lambda>_. blank_event), \<lparr>ifq_head = NULL, ifq_tail = NULL, ifq_len = 0, ifq_maxlen = 2, ifq_drops = 0\<rparr>)"

theorem ifq_first_in_first_out_witness:
  "\<exists>zs. ifq_rep (snd (fifo_run IF_ENQUEUE ifq_deq [Put 3, Put 4, Take, Put 5] empty_ifq)) zs
     \<and> fst (fifo_run IF_ENQUEUE ifq_deq [Put 3, Put 4, Take, Put 5] empty_ifq) @ zs = [3, 4, 5]"
proof -
  have "ifq_rep empty_ifq []" "\<forall>p\<in>set (puts [Put 3, Put 4, Take, Put 5]). unlinked empty_ifq p"
    by (simp_all add: ifq_rep_def ifq_list_def empty_ifq_def unlinked_def blank_event_def)
  from ifq_first_in_first_out [OF this(1) _ this(2) surjective_pairing] show ?thesis by simp
qed

subsection \<open>What enqueue leaves alone\<close>

lemma reg_loop_frame:
  assumes "reg_loop b st mbp = Some st'"
  shows "pkts st' = pkts st \<and> mbstate.more st' = mbstate.more st"
  by (rule reg_loop.raw_induct [where P = "\<lambda>b st mbp st'. pkts st' = pkts st \<and> mbstate.more st' = mbstate.more st", OF _ assms])
    (auto simp: upd_mb_def split: if_splits)

lemma RegToMBPoller_frame:
  "RegToMBPoller nidf b st = Some (Inr st') \<Longrightarrow> pkts st' = pkts st \<and> mbstate.more st' = mbstate.more st"
  using reg_loop_frame by (fastforce simp: RegToMBPoller_def Let_def upd_mb_def split: if_splits)

lemma more_upd_mb [frame_simps]: "mbstate.more (upd_mb b f st) = mbstate.more st"
  "mbstate.more (link p q st) = mbstate.more st"
  by (simp_all add: upd_mb_def link_def)

lemma mb_insert_frame:
  assumes "mb_insert nidf b pkt dq st = Some (Inr (d, st'))" "mb_chain st b xs"
  shows "mbstate.more st' = mbstate.more st \<and> (\<forall>a. a \<notin> insert pkt (set xs) \<longrightarrow> pkts st' a = pkts st a)"
proof -
  have c: "chain (nxt (pkts st)) (mbq_head (mbq st b)) xs" using assms(2) by (simp add: mb_chain_def)
  have p: "ptr1 = NULL \<or> ptr1 \<in> set xs"
    if "place_loop (pkts st) pkt (mbq_head (mbq st b)) NULL = Some (ptr, ptr1)" for ptr ptr1
    using that unfolding place_loop_spec [OF c]
    by (auto simp: Let_def split: if_splits dest!: last_in_set dest: set_takeWhileD)
  have o: "set_next x y m a = m a" if "a \<noteq> x" for x y m a using that by (simp add: set_next_def)
  have "\<forall>ptr ptr1. place_loop (pkts st) pkt (mbq_head (mbq st b)) NULL = Some (ptr, ptr1) \<longrightarrow> 0 < ptr1 \<longrightarrow> a \<notin> set xs
      \<longrightarrow> a \<noteq> ptr1" for a using p by blast
  then show ?thesis using assms(1)
    by (auto simp: mb_insert_def Let_def frame_simps o split: if_splits option.splits sum.splits prod.splits
        dest!: RegToMBPoller_frame)
qed

lemma enqueue_room:
  assumes "\<not> MB_QFULL (mbq st b)"
  shows "enqueue nidf b pkt st = mb_insert nidf b pkt NULL (link pkt NULL st)"
  using assms by (simp add: enqueue_def)

lemma fifos_more: "mbstate.more st' = mbstate.more st \<Longrightarrow> fifos st' = fifos st \<and> dropped st' = dropped st"
  for st :: "'x fifo_state_scheme"
  by (cases st; cases st') simp

text \<open>The packets that wait in the interface queue of module \<open>a\<close>.\<close>

definition waiting :: "'x fifo_state_scheme \<Rightarrow> addr \<Rightarrow> addr list \<Rightarrow> bool" where
  "waiting st a xs \<longleftrightarrow> ifq_list (pkts st) (if_snd (fifos st a)) xs"

lemma ifq_list_cong: "(\<And>p. p \<in> set xs \<Longrightarrow> nxt m' p = nxt m p) \<Longrightarrow> ifq_list m' q xs = ifq_list m q xs"
  using seg_cong [of xs "nxt m'" "nxt m" "ifq_head q" NULL] by (simp add: ifq_list_def)

lemma publish_fields [simp]: "pkts (publish t a st) = pkts st" "mbs (publish t a st) = mbs st"
  "fifos (publish t a st) = fifos st" "dropped (publish t a st) = dropped st" "MBH (publish t a st) = MBH st"
  by (simp_all add: publish_def split: option.splits)

lemma fifo_log_fields [simp]: "pkts (fifo_log a st) = pkts st" "mbs (fifo_log a st) = mbs st"
  "fifos (fifo_log a st) = fifos st" "dropped (fifo_log a st) = dropped st" "MBH (fifo_log a st) = MBH st"
  by (simp_all add: fifo_log_def)

text \<open>
  while the binder below is full, \<open>send\<close> keeps the packet behind those that wait, or drops and
  counts it when the interface queue is full; in both cases the call reports success and the packets
  queued in the binders stay where they are.
\<close>

theorem fifo_send_waits:
  assumes "waiting st a xs" "pkt \<noteq> NULL" "DataInfo (pkts st pkt) \<noteq> NULL" "pkt \<notin> set xs"
    and "nxt (pkts st) pkt = NULL" "MB_QFULL (mbq st (sendtarget (fifo_obj (fifos st a))))"
  shows "\<exists>st'. fifo_send V a pkt st = Some (Inr (1, st')) \<and> mbs st' = mbs st
    \<and> (if int (length xs) < ifq_maxlen (if_snd (fifos st a))
       then waiting st' a (xs @ [pkt]) \<and> dropped st' = dropped st
       else waiting st' a xs \<and> dropped st' = insert pkt (dropped st)
         \<and> ifq_drops (if_snd (fifos st' a)) = ifq_drops (if_snd (fifos st a)) + 1)
    \<and> (\<forall>b ys. mb_list st b ys \<longrightarrow> pkt \<notin> set ys \<longrightarrow> set ys \<inter> set xs = {} \<longrightarrow> mb_list st' b ys)"
proof -
  let ?q = "if_snd (fifos st a)"
  have len: "ifq_len ?q = int (length xs)" using assms(1) by (simp add: waiting_def ifq_list_def)
  show ?thesis
  proof (cases "int (length xs) < ifq_maxlen ?q")
    case False
    then show ?thesis using assms len
      by (simp add: fifo_send_def IF_QFULL_def upd_fifo_def IF_DROP_def waiting_def ifq_list_def mb_list_def Let_def)
  next
    case True
    define r where "r = IF_ENQUEUE pkt (pkts st, ?q)"
    define st' where "st' = publish (tunid (fifos st a)) a
      (if full_log_flag (fifos st a) then fifo_log a (set_ifq a r st) else set_ifq a r st)"
    have e: "fifo_send V a pkt st = Some (Inr (1, st'))"
      using True assms len by (simp add: fifo_send_def IF_QFULL_def st'_def r_def Let_def)
    have s: "pkts st' = fst r" "mbs st' = mbs st" "if_snd (fifos st' a) = snd r" "dropped st' = dropped st"
      by (simp_all add: st'_def set_ifq_def upd_fifo_def)
    have w: "waiting st' a (xs @ [pkt])"
      using ifq_enqueue_list [of "pkts st" ?q xs pkt] assms by (simp add: waiting_def s ifq_rep_def r_def)
    have "nxt (fst r) p = nxt (pkts st) p" if "p \<notin> set xs" "p \<noteq> NULL" for p
    proof (cases "xs = []")
      case True
      then show ?thesis using assms(1) by (simp add: r_def IF_ENQUEUE_def waiting_def ifq_list_def)
    next
      case False
      then have "p \<noteq> last xs" using that(1) by auto
      then show ?thesis using assms(1) False by (auto simp: r_def IF_ENQUEUE_def waiting_def ifq_list_def)
    qed
    then have o: "nxt (fst r) p = nxt (pkts st) p" if "p \<notin> set xs" "p \<noteq> NULL" for p using that by blast
    have "mb_list st' b ys" if y: "mb_list st b ys" "set ys \<inter> set xs = {}" for b ys
    proof -
      have "NULL \<notin> set ys" using y(1) chain_not_NULL by (auto simp: mb_list_def)
      then have "nxt (fst r) p = nxt (pkts st) p" if "p \<in> set ys" for p
        using that y(2) by (intro o; metis disjoint_iff)
      then have "seg (nxt (fst r)) (mbq_head (mbq st b)) ys NULL = seg (nxt (pkts st)) (mbq_head (mbq st b)) ys NULL"
        by (rule seg_cong)
      then show ?thesis using y(1) by (simp add: mb_list_def s)
    qed
    with e w s(2,4) True show ?thesis by auto
  qed
qed

text \<open>
  The module 20 above binder 1, which is full; no packet waits.  Its interface queue takes two packets.
\<close>

definition one_fifo :: fifo_state where
  "one_fifo = \<lparr>pkts = pkts full_binder, mbs = mbs full_binder, MBH = MBH full_binder, pflags = pflags full_binder,
     fifos = (\<lambda>_. (fifo_new \<lparr>s_flowctl = ENABLED, r_flowctl = ENABLED, recvtarget = 2, sendtarget = 1\<rparr>)
       \<lparr>if_snd := \<lparr>ifq_head = NULL, ifq_tail = NULL, ifq_len = 0, ifq_maxlen = 2, ifq_drops = 0\<rparr>, tunid := Some 7\<rparr>),
     fifoIFcurqlen = (\<lambda>_. 0), fifoIFmaxqlen = (\<lambda>_. 2), qlen_log = [], fifo_now = 0, dropped = {}\<rparr>"

theorem fifo_send_waits_witness:
  "\<exists>st'. fifo_send (answer_env 1) 20 8 one_fifo = Some (Inr (1, st')) \<and> waiting st' 20 [8]"
proof -
  have "waiting one_fifo 20 []" "DataInfo (pkts one_fifo 8) \<noteq> NULL" "nxt (pkts one_fifo) 8 = NULL"
    "MB_QFULL (mbq one_fifo (sendtarget (fifo_obj (fifos one_fifo 20))))"
    "ifq_maxlen (if_snd (fifos one_fifo 20)) = 2"
    by (simp_all add: waiting_def one_fifo_def ifq_list_def fifo_new_def full_binder_def MBinder_def MB_QFULL_def
        blank_event_def)
  then show ?thesis using fifo_send_waits [of one_fifo 20 "[]" 8 "answer_env 1"] by fastforce
qed

text \<open>
  the upcall refills the binder when it has room again: the packet that waited longest goes into
  the binder at the place of its level, the others keep their order, and the assertion that the binder
  takes it does not fail; with no packet waiting the upcall changes no queue.
\<close>

theorem intrq_refills:
  assumes "waiting st a xs" "b = sendtarget (fifo_obj (fifos st a))" "mb_list st b ys" "set xs \<inter> set ys = {}"
    and "b \<noteq> NULL" "toObj (mbq st b) \<noteq> NULL" "polled st (nidf (toObj (mbq st b))) bs"
    and "int (length ys) < mbq_maxlen (mbq st b)"
  shows "\<exists>st'. intrq nidf a st = Some (Inr (1, st')) \<and> waiting st' a (tl xs)
    \<and> mb_list st' b (case xs of [] \<Rightarrow> ys | x # _ \<Rightarrow> place (lev st) x ys)"
proof (cases xs)
  case Nil
  have s: "pkts (set_ifq a (pkts st, if_snd (fifos st a)) st) = pkts st"
    "fifos (set_ifq a (pkts st, if_snd (fifos st a)) st) a = fifos st a"
    "mbs (set_ifq a (pkts st, if_snd (fifos st a)) st) = mbs st"
    by (simp_all add: set_ifq_def upd_fifo_def)
  show ?thesis using assms Nil ifq_dequeue_Nil [of "pkts st" "if_snd (fifos st a)"] s
    by (simp add: intrq_def waiting_def Let_def mb_list_def)
next
  case (Cons x xs')
  obtain m' q' where d: "IF_DEQUEUE (pkts st, if_snd (fifos st a)) = (x, m', q')" "ifq_list m' q' xs'"
    "x \<noteq> NULL" "x \<notin> set xs'" "nxt m' x = NULL" "\<forall>y. y \<noteq> x \<longrightarrow> m' y = pkts st y"
    using ifq_dequeue_list [of "pkts st" "if_snd (fifos st a)" x xs'] assms(1) Cons by (auto simp: waiting_def)
  define st2 where "st2 = (let st1 = publish (tunid_port (fifos st a)) a (set_ifq a (m', q') st)
    in if full_log_flag (fifos st a) then fifo_log a st1 else st1)"
  have s: "pkts st2 = m'" "mbs st2 = mbs st" "MBH st2 = MBH st" "if_snd (fifos st2 a) = q'"
    by (simp_all add: st2_def set_ifq_def upd_fifo_def Let_def)
  have x: "x \<notin> set ys" using assms(4) Cons by auto
  have l: "mb_list st2 b ys"
  proof -
    have "seg (nxt m') (mbq_head (mbq st b)) ys NULL = seg (nxt (pkts st)) (mbq_head (mbq st b)) ys NULL"
      by (rule seg_cong) (use d(6) x in auto)
    then show ?thesis using assms(3) by (simp add: mb_list_def s)
  qed
  have lv: "lev st2 p = lev st p" for p
  proof (cases "p = x")
    case True
    have "priority (m' x) = priority (pkts st x)" using d(1)
      by (auto simp: IF_DEQUEUE_def Let_def split: if_splits)
    then show ?thesis using True by (simp add: GET_MLEVEL_def s)
  next
    case False
    then show ?thesis using d(6) by (simp add: GET_MLEVEL_def s)
  qed
  have room: "\<not> MB_QFULL (mbq st2 b)" using assms(3,8) by (simp add: MB_QFULL_def mb_list_def s)
  let ?st3 = "link x NULL st2"
  have c: "mb_chain ?st3 b ys" using mb_list_chain [OF l] x by (simp add: mb_chain_def)
  have "polled ?st3 (nidf (toObj (mbq ?st3 b))) bs" using assms(7) by (simp add: polled_def s)
  from mb_insert_spec [where nidf = nidf, OF c d(3) x _ assms(5) _ this, of NULL] assms(6) obtain st' where
    i: "mb_insert nidf b x NULL ?st3 = Some (Inr (NULL, st'))" "mb_list st' b (place (lev ?st3) x ys)"
    by (auto simp: s)
  have "lev ?st3 = lev st" using lv by (simp add: fun_eq_iff)
  then have p: "mb_list st' b (place (lev st) x ys)" using i(2) by simp
  note fr = mb_insert_frame [OF i(1) c]
  have "fifos st' = fifos ?st3" using fr fifos_more [of st' ?st3] by blast
  then have f: "if_snd (fifos st' a) = q'" using s(4) by (simp add: link_def)
  have "nxt (pkts st') p = nxt m' p" if "p \<in> set xs'" for p
  proof -
    have n: "p \<noteq> x" "p \<notin> set ys" using that d(4) assms(4) Cons by auto
    then show ?thesis using fr by (simp add: s)
  qed
  then have w: "waiting st' a xs'" using d(2) ifq_list_cong [of xs' "pkts st'" m' q'] by (simp add: waiting_def f)
  have "intrq nidf a st = Some (Inr (1, st'))"
    using i(1) enqueue_room [OF room, of nidf x] d(1,3) assms(2)
    by (simp add: intrq_def Let_def st2_def run_bind_def)
  then show ?thesis using w p Cons by auto
qed

theorem intrq_refills_witness:
  "\<exists>st'. intrq (\<lambda>_. 1) 20 (one_fifo\<lparr>mbs := mbs full_binder, fifos := (\<lambda>a. (fifos one_fifo a)
      \<lparr>fifo_obj := (fifo_obj (fifos one_fifo a))\<lparr>sendtarget := 2\<rparr>,
       if_snd := \<lparr>ifq_head = 8, ifq_tail = 8, ifq_len = 1, ifq_maxlen = 2, ifq_drops = 0\<rparr>\<rparr>)\<rparr>) = Some (Inr (1, st'))
     \<and> waiting st' 20 [] \<and> mb_list st' 2 [8]"
proof -
  define st where "st = one_fifo\<lparr>mbs := mbs full_binder, fifos := (\<lambda>a. (fifos one_fifo a)
      \<lparr>fifo_obj := (fifo_obj (fifos one_fifo a))\<lparr>sendtarget := 2\<rparr>,
       if_snd := \<lparr>ifq_head = 8, ifq_tail = 8, ifq_len = 1, ifq_maxlen = 2, ifq_drops = 0\<rparr>\<rparr>)\<rparr>"
  have h: "waiting st 20 [8]" "2 = sendtarget (fifo_obj (fifos st 20))" "mb_list st 2 []" "set [8] \<inter> set [] = {}"
    "(2 :: nat) \<noteq> NULL" "toObj (mbq st 2) \<noteq> NULL" "polled st ((\<lambda>_. 1) (toObj (mbq st 2))) []"
    "int (length []) < mbq_maxlen (mbq st 2)"
    by (simp_all add: st_def waiting_def one_fifo_def ifq_list_def fifo_new_def full_binder_def MBinder_def
        mb_list_def polled_def blank_event_def)
  from intrq_refills [where nidf = "\<lambda>_. 1", OF h] show ?thesis by (simp add: st_def place_def)
qed

end
