(* ===== verification/Drr.thy ===== *)
theory Drr
  imports Fifo "HOL-Library.Char_ord"
begin

text \<open>
  The deficit round robin scheduler of \<open>module/ps/drr/drr.cc\<close>.  A packet is given by the address of its
  event; \<open>frames\<close> gives the header fields the code reads of the packet at the address \<open>DataInfo_\<close>
  (\<open>ether_type\<close>, \<open>ip_src\<close>, \<open>ip_dst\<close> and \<open>ip_len\<close> as the numbers that \<open>ntohs\<close> and \<open>htonl\<close> give, the others
  as stored).  The chain of packets of a flow, from \<open>First\<close> to \<open>Tail\<close>, is a list, and so is the chain
  of flows from \<open>drrTableAll->First\<close>, in which a flow is the pair of its address and its fields.
  \<open>malloc_junk\<close> is what the memory that \<open>malloc\<close> returns at an address holds.
\<close>

record ip_frame =
  ether_type :: u16
  ip_src :: u32
  ip_dst :: u32
  ip_p :: u8
  ip_len :: u16
  th_sport :: u16
  th_dport :: u16

record drrTbl =
  s_ip :: u32
  d_ip :: u32
  s_portn :: int
  d_portn :: int
  Protocol :: int
  Counter :: int
  Priority :: int
  pkt_length :: int
  Timer :: int
  pkts_of :: "addr list"

record drr =
  drr_obj :: nslobject
  DrrPacketTotal :: int
  DrrMaxBufSpaceForAllFlows :: int
  DrrMaxQueLenForEachFlow :: int
  CreditAddedPerRound :: int
  DrrTableAllMax :: int
  flows_Counter :: int
  flows :: "(addr \<times> drrTbl) list"
  drrTableRR :: addr
  SpecialTbl :: drrTbl
  SpanningTbl :: drrTbl
  drrTableRR_var :: int
  protocol_care :: string
  s_portn_care :: string
  d_portn_care :: string
  s_mask_long :: u32
  d_mask_long :: u32

record drr_state = mbstate +
  drrs :: "addr \<Rightarrow> drr"
  frames :: "addr \<Rightarrow> ip_frame"
  malloc_junk :: "addr \<Rightarrow> drrTbl"
  freed_pkts :: "addr set"

subsection \<open>Parsing the configuration\<close>

text \<open>The case-insensitive comparison \<open>strcasecmp\<close> of the C library, and \<open>atol\<close> of a string of digits.\<close>

definition lower :: "char \<Rightarrow> char" where
  "lower c = (let n = of_char c :: nat in if 65 \<le> n \<and> n \<le> 90 then char_of (n + 32) else c)"

definition strcase_eq :: "string \<Rightarrow> string \<Rightarrow> bool" where
  "strcase_eq s t \<longleftrightarrow> map lower s = map lower t"

abbreviation is_off :: "string \<Rightarrow> bool" where "is_off s \<equiv> strcase_eq s ''off''"

definition is_digit :: "char \<Rightarrow> bool" where
  "is_digit c \<longleftrightarrow> 48 \<le> (of_char c :: nat) \<and> (of_char c :: nat) \<le> 57"

fun digits_value :: "nat \<Rightarrow> string \<Rightarrow> nat" where
  "digits_value n [] = n"
| "digits_value n (c # s) = (if is_digit c then digits_value (10 * n + (of_char c - 48)) s else n)"

definition atol :: "string \<Rightarrow> u32" where
  "atol s = of_nat (digits_value 0 s)"

text \<open>
  The loop of \<open>init\<close> over the dots of a mask; \<open>p\<close> is \<open>s_pointer\<close>.  A mask with fewer than three dots makes
  the code read on past the end of the string.
\<close>

definition next_dot :: "string \<Rightarrow> nat \<Rightarrow> abort + nat" where
  "next_dot s p =
     (let n = length (takeWhile (\<lambda>c. c \<noteq> CHR ''.'') (drop p s))
      in if p + n < length s then Inr (p + n) else Inl OutOfBounds)"

definition parse_mask :: "string \<Rightarrow> abort + u32" where
  "parse_mask s =
     sum_bind (next_dot s 1) (\<lambda>p1.
     sum_bind (next_dot s (p1 + 1)) (\<lambda>p2.
     sum_bind (next_dot s (p2 + 1)) (\<lambda>p3.
       Inr (atol s * 16777216 + atol (drop (p1 + 1) s) * 65536 + atol (drop (p2 + 1) s) * 256 + atol (drop (p3 + 1) s)))))"

definition empty_tbl :: "drrTbl \<Rightarrow> drrTbl" where
  "empty_tbl t = t\<lparr>Counter := 0, Priority := 0, Timer := 0, pkts_of := []\<rparr>"

definition drr_new :: "nslobject \<Rightarrow> drr \<Rightarrow> drr" where
  "drr_new ob d = d\<lparr>drr_obj := ob\<lparr>s_flowctl := DISABLED, r_flowctl := DISABLED\<rparr>,
     DrrMaxBufSpaceForAllFlows := 200, DrrMaxQueLenForEachFlow := 50, CreditAddedPerRound := 1500\<rparr>"

text \<open>\<open>init\<close>: the strings of the configuration, \<open>None\<close> for one that is not given.\<close>

definition drr_init :: "string option \<Rightarrow> string option \<Rightarrow> string option \<Rightarrow> string option \<Rightarrow> string option \<Rightarrow> drr \<Rightarrow> abort + drr" where
  "drr_init s_mask d_mask proto sport dport d =
     (let str = (\<lambda>x y. case x of None \<Rightarrow> y | Some s \<Rightarrow> s);
          d1 = d\<lparr>DrrPacketTotal := 0, DrrTableAllMax := 0, flows_Counter := 0, flows := [], drrTableRR := NULL,
                 SpanningTbl := empty_tbl (SpanningTbl d), SpecialTbl := empty_tbl (SpecialTbl d),
                 protocol_care := str proto ''on'', s_portn_care := str sport ''on'', d_portn_care := str dport ''on'',
                 DrrMaxBufSpaceForAllFlows :=
                   (if DrrMaxBufSpaceForAllFlows d = 0 then 200 else DrrMaxBufSpaceForAllFlows d)\<rparr>
      in sum_bind (parse_mask (str s_mask ''255.255.255.255'')) (\<lambda>sm.
         sum_bind (parse_mask (str d_mask ''255.255.255.255'')) (\<lambda>dm.
           Inr (d1\<lparr>s_mask_long := sm, d_mask_long := dm\<rparr>))))"

subsection \<open>Queueing a packet\<close>

text \<open>The search: how many of the five criteria the flow \<open>t\<close> meets, and the first flow that meets all.\<close>

definition Grades :: "drr \<Rightarrow> ip_frame \<Rightarrow> drrTbl \<Rightarrow> nat" where
  "Grades d f t =
     (if s_ip t = ip_src f AND s_mask_long d then 1 else 0)
     + (if d_ip t = ip_dst f AND d_mask_long d then 1 else 0)
     + (if Protocol t = uint (ip_p f) \<or> is_off (protocol_care d) then 1 else 0)
     + (if ip_p f = 6 \<or> ip_p f = 17
        then (if s_portn t = uint (th_sport f) \<or> is_off (s_portn_care d) then 1 else 0)
             + (if d_portn t = uint (th_dport f) \<or> is_off (d_portn_care d) then 1 else 0)
        else if ip_p f = 1 then 2 else 0)"

definition find_flow :: "drr \<Rightarrow> ip_frame \<Rightarrow> (addr \<times> drrTbl) option" where
  "find_flow d f = List.find (\<lambda>(a, t). Grades d f t = 5) (flows d)"

definition upd_flow :: "addr \<Rightarrow> (drrTbl \<Rightarrow> drrTbl) \<Rightarrow> (addr \<times> drrTbl) list \<Rightarrow> (addr \<times> drrTbl) list" where
  "upd_flow a g fl = map (\<lambda>(x, t). (x, if x = a then g t else t)) fl"

text \<open>The flow made for a packet when the search found none; \<open>t\<close> is what the new memory holds.\<close>

definition new_flow :: "drr \<Rightarrow> ip_frame \<Rightarrow> addr \<Rightarrow> drrTbl \<Rightarrow> drrTbl" where
  "new_flow d f pkt t =
     (let t1 = t\<lparr>s_ip := ip_src f AND s_mask_long d, d_ip := ip_dst f AND d_mask_long d,
                 Protocol := uint (ip_p f), pkt_length := uint (ip_len f), Priority := 0\<rparr>;
          t2 = (if Protocol t1 = 6 \<or> Protocol t1 = 17
                then t1\<lparr>s_portn := uint (th_sport f), d_portn := uint (th_dport f)\<rparr>
                else if Protocol t1 = 1 then t1\<lparr>s_portn := 0, d_portn := 0\<rparr> else t1)
      in t2\<lparr>Counter := 1, pkts_of := [pkt], Timer := 0\<rparr>)"

definition add_packet :: "ip_frame \<Rightarrow> addr \<Rightarrow> drrTbl \<Rightarrow> drrTbl" where
  "add_packet f pkt t =
     (let t1 = t\<lparr>Counter := Counter t + 1\<rparr> in
      if Counter t1 = 1 then t1\<lparr>pkts_of := [pkt], pkt_length := uint (ip_len f), Priority := 0, Timer := 0\<rparr>
      else if Counter t1 > 1 then t1\<lparr>pkts_of := pkts_of t1 @ [pkt]\<rparr> else t1)"

definition append_flow :: "addr \<Rightarrow> drrTbl \<Rightarrow> drr \<Rightarrow> drr" where
  "append_flow a t d =
     (let n = flows_Counter d + 1 in
      d\<lparr>DrrPacketTotal := DrrPacketTotal d + 1, flows_Counter := n,
        flows := (if n = 1 then [(a, t)] else if n > 1 then flows d @ [(a, t)] else flows d),
        DrrTableAllMax := (if DrrTableAllMax d < n then n else DrrTableAllMax d)\<rparr>)"

text \<open>The first packet of an idle scheduler: the round starts at its flow.\<close>

definition start_rr :: "addr \<Rightarrow> drr \<Rightarrow> drr" where
  "start_rr a d = (if DrrPacketTotal d = 1 then d\<lparr>drrTableRR := a, drrTableRR_var := 1\<rparr> else d)"

text \<open>The part of \<open>send\<close> for IP while the binder is full, \<open>a\<close> being the address of a new flow; \<open>None\<close>: freed.\<close>

definition drr_queue :: "addr \<Rightarrow> drrTbl \<Rightarrow> ip_frame \<Rightarrow> addr \<Rightarrow> drr \<Rightarrow> drr option" where
  "drr_queue a junk f pkt d =
     (if DrrPacketTotal d \<ge> DrrMaxBufSpaceForAllFlows d then None
      else case find_flow d f of
        None \<Rightarrow> Some (start_rr a (append_flow a (new_flow d f pkt junk) d))
      | Some (b, t) \<Rightarrow>
          if Counter t \<ge> DrrMaxQueLenForEachFlow d then None
          else Some (start_rr b (d\<lparr>DrrPacketTotal := DrrPacketTotal d + 1,
                                  flows := upd_flow b (add_packet f pkt) (flows d)\<rparr>)))"

text \<open>A control packet while the binder is full: the counter of its table stays as it is.\<close>

definition keep_control :: "addr \<Rightarrow> drrTbl \<Rightarrow> drrTbl" where
  "keep_control pkt t = (if Counter t = 0 then t\<lparr>pkts_of := [pkt]\<rparr> else t\<lparr>pkts_of := pkts_of t @ [pkt]\<rparr>)"

definition upd_drr :: "addr \<Rightarrow> (drr \<Rightarrow> drr) \<Rightarrow> 'x drr_state_scheme \<Rightarrow> 'x drr_state_scheme" where
  "upd_drr a g st = st\<lparr>drrs := (drrs st)(a := g (drrs st a))\<rparr>"

definition new_addr :: "(addr \<times> drrTbl) list \<Rightarrow> addr" where
  "new_addr fl = Suc (foldr max (map fst fl) 0)"

definition frame_of :: "'x drr_state_scheme \<Rightarrow> addr \<Rightarrow> ip_frame" where
  "frame_of st pkt = frames st (DataInfo (pkts st pkt))"

definition drr_send :: "'x drr_state_ext mb_env \<Rightarrow> addr \<Rightarrow> addr \<Rightarrow> 'x drr_state_scheme \<Rightarrow> (int \<times> 'x drr_state_scheme) run" where
  "drr_send V a pkt st =
     (if pkt = NULL \<or> DataInfo (pkts st pkt) = NULL then Some (Inl AssertFailed)
      else let d = drrs st a; f = frame_of st pkt; full = MB_QFULL (mbq st (sendtarget (drr_obj d))) in
        if ether_type f = 0x0001 then
          (if full then Some (Inr (1, upd_drr a (\<lambda>d. d\<lparr>SpanningTbl := keep_control pkt (SpanningTbl d)\<rparr>) st))
           else nsl_send V (drr_obj d) pkt st)
        else if ether_type f \<noteq> 0x0800 then
          (if full then Some (Inr (1, upd_drr a (\<lambda>d. d\<lparr>SpecialTbl := keep_control pkt (SpecialTbl d)\<rparr>) st))
           else nsl_send V (drr_obj d) pkt st)
        else if full then
          (case drr_queue (new_addr (flows d)) (malloc_junk st (new_addr (flows d))) f pkt d of
             None \<Rightarrow> Some (Inr (1, st\<lparr>freed_pkts := insert pkt (freed_pkts st)\<rparr>))
           | Some d' \<Rightarrow> Some (Inr (1, upd_drr a (\<lambda>_. d') st)))
        else nsl_send V (drr_obj d) pkt st)"

definition drr_recv :: "'x drr_state_ext mb_env \<Rightarrow> addr \<Rightarrow> addr \<Rightarrow> 'x drr_state_scheme \<Rightarrow> (int \<times> 'x drr_state_scheme) run" where
  "drr_recv V a pkt st =
     (if pkt = NULL \<or> DataInfo (pkts st pkt) = NULL then Some (Inl AssertFailed)
      else nsl_recv V (drr_obj (drrs st a)) pkt st)"

subsection \<open>Choosing the next packet\<close>

text \<open>The flow after \<open>a\<close>, the first one after the last.\<close>

fun after :: "addr \<Rightarrow> (addr \<times> drrTbl) list \<Rightarrow> addr" where
  "after a [] = NULL"
| "after a ((x, t) # fl) = (if x = a then (case fl of [] \<Rightarrow> NULL | (y, u) # _ \<Rightarrow> y) else after a fl)"

definition next_flow :: "(addr \<times> drrTbl) list \<Rightarrow> addr \<Rightarrow> addr" where
  "next_flow fl a = (if after a fl = NULL then (case fl of [] \<Rightarrow> NULL | (x, t) # _ \<Rightarrow> x) else after a fl)"

partial_function (option) skip_idle :: "(addr \<times> drrTbl) list \<Rightarrow> addr \<Rightarrow> addr run" where
  "skip_idle fl a =
     (case map_of fl a of None \<Rightarrow> Some (Inl NullDeref)
      | Some t \<Rightarrow> if Counter t \<le> 0 then skip_idle fl (next_flow fl a) else Some (Inr a))"

definition give_credit :: "drr \<Rightarrow> drrTbl \<Rightarrow> drrTbl \<times> int" where
  "give_credit d t =
     (if drrTableRR_var d = 1 \<and> Counter t \<noteq> 0 then (t\<lparr>Priority := Priority t + CreditAddedPerRound d\<rparr>, 0)
      else (t, drrTableRR_var d))"

text \<open>Taking the first packet off a flow; \<open>len\<close> gives the IP length of a packet.\<close>

definition take_first :: "(addr \<Rightarrow> int) \<Rightarrow> drrTbl \<Rightarrow> abort + (addr \<times> drrTbl)" where
  "take_first len t =
     (case pkts_of t of [] \<Rightarrow> Inl NullDeref
      | p # ps \<Rightarrow>
          let t1 = t\<lparr>pkts_of := ps, Priority := Priority t - pkt_length t, Counter := Counter t - 1\<rparr> in
          if Counter t1 > 0 then
            (case ps of [] \<Rightarrow> Inl NullDeref | q # _ \<Rightarrow> Inr (p, t1\<lparr>pkt_length := len q\<rparr>))
          else Inr (p, t1\<lparr>Priority := 0\<rparr>))"

definition move_on :: "drr \<Rightarrow> drr run" where
  "move_on d =
     (if DrrPacketTotal d > 0 then
        run_bind (skip_idle (flows d) (next_flow (flows d) (drrTableRR d))) (\<lambda>b.
          Some (Inr (d\<lparr>drrTableRR := b, drrTableRR_var := 1\<rparr>)))
      else Some (Inr (d\<lparr>drrTableRR := NULL\<rparr>)))"

definition serve_flow :: "(addr \<Rightarrow> int) \<Rightarrow> drr \<Rightarrow> drrTbl \<Rightarrow> (addr option \<times> drr) run" where
  "serve_flow len d t =
     (let (t1, var) = give_credit d t;
          put = (\<lambda>u. upd_flow (drrTableRR d) (\<lambda>_. u) (flows d)) in
      if Priority t1 \<ge> pkt_length t1 \<and> Counter t1 > 0 then
        (case take_first len t1 of Inl e \<Rightarrow> Some (Inl e)
         | Inr (p, t2) \<Rightarrow>
             let d1 = d\<lparr>flows := put t2, drrTableRR_var := var, DrrPacketTotal := DrrPacketTotal d - 1\<rparr> in
             if Counter t2 \<le> 0 \<or> Priority t2 < pkt_length t2
             then run_bind (move_on d1) (\<lambda>d2. Some (Inr (Some p, d2)))
             else Some (Inr (Some p, d1)))
      else Some (Inr (None, d\<lparr>flows := put t1, drrTableRR_var := var\<rparr>)))"

definition drr_pick :: "(addr \<Rightarrow> int) \<Rightarrow> drr \<Rightarrow> (addr option \<times> drr) run" where
  "drr_pick len d =
     (if Counter (SpanningTbl d) > 0 then
        (case pkts_of (SpanningTbl d) of [] \<Rightarrow> Some (Inl NullDeref)
         | p # ps \<Rightarrow> Some (Inr (Some p, d\<lparr>SpanningTbl :=
             (SpanningTbl d)\<lparr>pkts_of := ps, Counter := Counter (SpanningTbl d) - 1\<rparr>\<rparr>)))
      else if Counter (SpecialTbl d) > 0 then
        (case pkts_of (SpecialTbl d) of [] \<Rightarrow> Some (Inl NullDeref)
         | p # ps \<Rightarrow> Some (Inr (Some p, d\<lparr>SpecialTbl :=
             (SpecialTbl d)\<lparr>pkts_of := ps, Counter := Counter (SpecialTbl d) - 1\<rparr>\<rparr>)))
      else if DrrPacketTotal d > 0 then
        (case map_of (flows d) (drrTableRR d) of None \<Rightarrow> Some (Inl NullDeref) | Some t \<Rightarrow> serve_flow len d t)
      else Some (Inr (None, d)))"

definition ip_length :: "'x drr_state_scheme \<Rightarrow> addr \<Rightarrow> int" where
  "ip_length st pkt = uint (ip_len (frame_of st pkt))"

definition drr_intrq :: "(addr \<Rightarrow> nat) \<Rightarrow> addr \<Rightarrow> 'x drr_state_scheme \<Rightarrow> (int \<times> 'x drr_state_scheme) run" where
  "drr_intrq nidf a st =
     run_bind (drr_pick (ip_length st) (drrs st a)) (\<lambda>(pkt, d').
       let st1 = upd_drr a (\<lambda>_. d') st in
       case pkt of None \<Rightarrow> Some (Inr (1, st1))
       | Some p \<Rightarrow>
           run_bind (enqueue nidf (sendtarget (drr_obj d')) p st1) (\<lambda>(dq, st2).
             if dq = NULL then Some (Inr (1, st2)) else Some (Inl AssertFailed)))"

subsection \<open>The timer\<close>

text \<open>
  \<open>Delete_que\<close>: the loop ages the idle flows.  After a flow is unlinked and freed, \<open>DelFind->Next\<close>, the
  next step of the loop, is read from the freed flow.
\<close>

fun age_flows :: "(addr \<times> drrTbl) list \<Rightarrow> abort + (addr \<times> drrTbl) list" where
  "age_flows [] = Inr []"
| "age_flows ((a, t) # fl) =
     (let t1 = (if Counter t \<le> 0 then t\<lparr>Timer := Timer t + 1\<rparr> else t) in
      if Timer t1 \<ge> 5 then Inl FreedDeref
      else sum_bind (age_flows fl) (\<lambda>fl'. Inr ((a, t1) # fl')))"

text \<open>The time of the event it schedules for itself is returned with the scheduler.\<close>

definition Delete_que :: "u64 \<Rightarrow> drr \<Rightarrow> abort + (u64 \<times> drr)" where
  "Delete_que now d = sum_bind (age_flows (flows d)) (\<lambda>fl. Inr (now + 10000000, d\<lparr>flows := fl\<rparr>))"

text \<open>
  \<open>init\<close> in the simulator: beside what \<open>drr_init\<close> does, it schedules the first event of the timer, whose
  time is returned, and sets the upcall of the binder below; \<open>up\<close> is the address of \<open>drr::intrq\<close>.
\<close>

definition drr_start :: "u64 \<Rightarrow> addr \<Rightarrow> string option \<Rightarrow> string option \<Rightarrow> string option \<Rightarrow> string option \<Rightarrow> string option
    \<Rightarrow> addr \<Rightarrow> 'x drr_state_scheme \<Rightarrow> abort + (u64 \<times> 'x drr_state_scheme)" where
  "drr_start now up s_mask d_mask proto sport dport a st =
     sum_bind (drr_init s_mask d_mask proto sport dport (drrs st a)) (\<lambda>d.
       Inr (now + 10000000, upd_mb (sendtarget (drr_obj d)) (set_upcall_memb a up) (upd_drr a (\<lambda>_. d) st)))"

end
