(* ===== verification/DrrService.thy ===== *)
theory DrrService
  imports Drr
begin

text \<open>
  What the deficit round robin scheduler of \<open>Drr\<close> delivers: its invariant, the order in which it visits
  the flows, the packets an upcall takes, and the share of the bytes each flow gets.
\<close>

subsection \<open>Tables of flows\<close>

definition held :: "(addr \<times> drrTbl) list \<Rightarrow> addr list" where
  "held fl = concat (map (\<lambda>(a, t). pkts_of t) fl)"

abbreviation busy :: "addr \<times> drrTbl \<Rightarrow> bool" where "busy \<equiv> \<lambda>(a, t). 0 < Counter t"

named_theorems flow_simps \<open>tables of flows\<close>

lemma held_simps [flow_simps]: "held [] = []" "held ((a, t) # fl) = pkts_of t @ held fl"
  "held (xs @ ys) = held xs @ held ys"
  by (simp_all add: held_def)

lemma fst_upd_flow [flow_simps]: "map fst (upd_flow a g fl) = map fst fl"
  by (induction fl) (auto simp: upd_flow_def)

lemma length_upd_flow [flow_simps]: "length (upd_flow a g fl) = length fl"
  by (simp add: upd_flow_def)

lemma map_of_upd_flow [flow_simps]:
  "map_of (upd_flow a g fl) x = (if x = a then map_option g (map_of fl x) else map_of fl x)"
  by (induction fl) (auto simp: upd_flow_def)

lemma upd_flow_other: "a \<notin> fst ` set fl \<Longrightarrow> upd_flow a g fl = fl"
  by (induction fl) (auto simp: upd_flow_def)

lemma flow_split:
  assumes "distinct (map fst fl)" "map_of fl a = Some t"
  obtains xs ys where "fl = xs @ (a, t) # ys" "a \<notin> fst ` set xs" "a \<notin> fst ` set ys"
    "\<And>g. upd_flow a g fl = xs @ (a, g t) # ys"
proof -
  obtain xs ys where f: "fl = xs @ (a, t) # ys" using map_of_SomeD [OF assms(2)] by (meson split_list)
  then have n: "a \<notin> fst ` set xs" "a \<notin> fst ` set ys" using assms(1) by auto
  have "upd_flow a g fl = xs @ (a, g t) # ys" for g
    using upd_flow_other [OF n(1)] upd_flow_other [OF n(2)] f by (simp add: upd_flow_def)
  with f n show ?thesis using that by blast
qed

lemma find_flow_map_of: "distinct (map fst (flows d)) \<Longrightarrow> find_flow d f = Some (b, t) \<Longrightarrow> map_of (flows d) b = Some t"
  by (auto simp: find_flow_def dest!: find_Some_in_set)

lemma new_addr_fresh: "new_addr fl \<notin> fst ` set fl" "new_addr fl \<noteq> NULL"
proof -
  have "x \<in> fst ` set fl \<Longrightarrow> x \<le> foldr max (map fst fl) 0" for x by (induction fl) (auto simp: le_max_iff_disj)
  then show "new_addr fl \<notin> fst ` set fl" by (force simp: new_addr_def)
qed (simp add: new_addr_def)

subsection \<open>Where the round goes\<close>

lemma after_split: "a \<notin> fst ` set xs \<Longrightarrow> after a (xs @ (a, t) # ys) = (case ys of [] \<Rightarrow> NULL | (y, u) # _ \<Rightarrow> y)"
  by (induction xs) auto

text \<open>The tables the module builds: every flow is at an address of its own.\<close>

definition flow_table :: "(addr \<times> drrTbl) list \<Rightarrow> bool" where
  "flow_table fl \<longleftrightarrow> distinct (map fst fl) \<and> NULL \<notin> fst ` set fl"

lemma flow_table_map_of: "flow_table (xs @ (a, t) # ys) \<Longrightarrow> map_of (xs @ (a, t) # ys) a = Some t"
  by (rule map_of_is_SomeI) (simp_all add: flow_table_def)

lemma next_flow_split:
  assumes "flow_table fl" "fl = xs @ (a, t) # ys"
  shows "next_flow fl a = (if ys = [] then fst (hd fl) else fst (hd ys))"
proof -
  have "a \<notin> fst ` set xs" using assms by (auto simp: flow_table_def)
  then have "after a fl = (case ys of [] \<Rightarrow> NULL | (y, u) # _ \<Rightarrow> y)" using after_split assms(2) by simp
  then show ?thesis using assms by (cases ys; cases xs) (auto simp: flow_table_def next_flow_def split: list.splits)
qed

lemma skip_suffix:
  "flow_table fl \<Longrightarrow> fl = xs @ ys \<Longrightarrow> filter busy ys \<noteq> [] \<Longrightarrow> skip_idle fl (fst (hd ys)) = Some (Inr (fst (hd (filter busy ys))))"
proof (induction ys arbitrary: xs)
  case (Cons y ys)
  obtain a t where y: "y = (a, t)" by fastforce
  have m: "map_of fl a = Some t" using flow_table_map_of Cons.prems(1,2) y by simp
  show ?case
  proof (cases "0 < Counter t")
    case True
    then show ?thesis using m y by (simp add: skip_idle.simps)
  next
    case False
    then have b: "filter busy ys \<noteq> []" "ys \<noteq> []" using Cons.prems(3) y by auto
    then have "next_flow fl a = fst (hd ys)" using next_flow_split [OF Cons.prems(1), of xs a t ys] Cons.prems(2) y by simp
    then have "skip_idle fl a = skip_idle fl (fst (hd ys))" using m False by (subst skip_idle.simps) simp
    then show ?thesis using Cons.IH [of "xs @ [y]"] Cons.prems(1,2) b False y by simp
  qed
qed simp

lemma skip_idle_suffix:
  "flow_table fl \<Longrightarrow> fl = xs @ ys \<Longrightarrow> ys \<noteq> [] \<Longrightarrow> filter busy ys = [] \<Longrightarrow> skip_idle fl (fst (hd ys)) = skip_idle fl (fst (hd fl))"
proof (induction ys arbitrary: xs)
  case (Cons y ys)
  obtain a t where y: "y = (a, t)" by fastforce
  have m: "map_of fl a = Some t" using flow_table_map_of Cons.prems(1,2) y by simp
  have "skip_idle fl a = skip_idle fl (next_flow fl a)"
    using m Cons.prems(4) y by (subst skip_idle.simps) (simp split: if_splits)
  then show ?case using next_flow_split [OF Cons.prems(1), of xs a t ys] Cons.IH [of "xs @ [y]"] Cons.prems y
    by (cases "ys = []") (auto split: if_splits)
qed simp

lemma skip_next:
  assumes "flow_table fl" "fl = xs @ (a, t) # ys" "filter busy fl \<noteq> []"
  shows "skip_idle fl (next_flow fl a) = Some (Inr (fst (hd (filter busy (ys @ xs @ [(a, t)])))))"
proof (cases "filter busy ys = []")
  case False
  then have "ys \<noteq> []" by auto
  then show ?thesis using skip_suffix [OF assms(1), of "xs @ [(a, t)]" ys] False assms(1,2) next_flow_split [OF assms(1,2)]
    by simp
next
  case True
  have "skip_idle fl (next_flow fl a) = skip_idle fl (fst (hd fl))"
    using skip_idle_suffix [OF assms(1), of "xs @ [(a, t)]" ys] True assms(1,2) next_flow_split [OF assms(1,2)] by auto
  also have "\<dots> = Some (Inr (fst (hd (filter busy fl))))"
    using skip_suffix [OF assms(1), of "[]" fl] assms(3) by simp
  finally show ?thesis using True assms(2) by (simp add: filter_empty_conv)
qed

subsection \<open>The invariant\<close>

definition flen :: "(addr \<Rightarrow> ip_frame) \<Rightarrow> addr \<Rightarrow> int" where
  "flen fr p = uint (ip_len (fr p))"

text \<open>A flow counts its packets, keeps the length of the first one, and has no negative deficit.\<close>

definition flow_ok :: "(addr \<Rightarrow> ip_frame) \<Rightarrow> drrTbl \<Rightarrow> bool" where
  "flow_ok fr t \<longleftrightarrow> Counter t = int (length (pkts_of t)) \<and> 0 \<le> Priority t
     \<and> (case pkts_of t of [] \<Rightarrow> True | p # _ \<Rightarrow> pkt_length t = flen fr p)"

text \<open>
  The scheduler counts its flows and packets, and its round stands at a flow with packets whenever it
  holds any.  No control packet is counted.
\<close>

definition drr_ok :: "(addr \<Rightarrow> ip_frame) \<Rightarrow> drr \<Rightarrow> bool" where
  "drr_ok fr d \<longleftrightarrow> flow_table (flows d) \<and> (\<forall>t\<in>snd ` set (flows d). flow_ok fr t)
     \<and> flows_Counter d = int (length (flows d)) \<and> DrrPacketTotal d = int (length (held (flows d)))
     \<and> 0 \<le> CreditAddedPerRound d
     \<and> (held (flows d) \<noteq> [] \<longrightarrow> (\<exists>t. map_of (flows d) (drrTableRR d) = Some t \<and> pkts_of t \<noteq> []))
     \<and> Counter (SpanningTbl d) = 0 \<and> Counter (SpecialTbl d) = 0"

lemma flow_ok_busy: "flow_ok fr t \<Longrightarrow> 0 < Counter t \<longleftrightarrow> pkts_of t \<noteq> []"
  by (simp add: flow_ok_def)

lemma flow_okD: "drr_ok fr d \<Longrightarrow> map_of (flows d) a = Some t \<Longrightarrow> flow_ok fr t"
  by (force simp: drr_ok_def dest!: map_of_SomeD)

lemma held_filter: "\<forall>t\<in>snd ` set fl. flow_ok fr t \<Longrightarrow> held fl = [] \<longleftrightarrow> filter busy fl = []"
  by (induction fl) (auto simp: flow_simps flow_ok_busy)

lemma start_rr_fields [simp]:
  "flows (start_rr a d) = flows d" "DrrPacketTotal (start_rr a d) = DrrPacketTotal d"
  "flows_Counter (start_rr a d) = flows_Counter d" "CreditAddedPerRound (start_rr a d) = CreditAddedPerRound d"
  "SpanningTbl (start_rr a d) = SpanningTbl d" "SpecialTbl (start_rr a d) = SpecialTbl d"
  by (simp_all add: start_rr_def)

lemma start_rr_round [simp]:
  "drrTableRR (start_rr a d) = (if DrrPacketTotal d = 1 then a else drrTableRR d)"
  "drrTableRR_var (start_rr a d) = (if DrrPacketTotal d = 1 then 1 else drrTableRR_var d)"
  by (simp_all add: start_rr_def)

lemma append_flow_fields [simp]:
  "DrrPacketTotal (append_flow a t d) = DrrPacketTotal d + 1" "flows_Counter (append_flow a t d) = flows_Counter d + 1"
  "CreditAddedPerRound (append_flow a t d) = CreditAddedPerRound d" "drrTableRR (append_flow a t d) = drrTableRR d"
  "SpanningTbl (append_flow a t d) = SpanningTbl d" "SpecialTbl (append_flow a t d) = SpecialTbl d"
  "drrTableRR_var (append_flow a t d) = drrTableRR_var d"
  by (simp_all add: append_flow_def Let_def)

lemma new_flow_ok: "flow_ok fr (new_flow d (fr pkt) pkt junk)" "pkts_of (new_flow d f pkt junk) = [pkt]"
  by (simp_all add: flow_ok_def new_flow_def Let_def flen_def)

lemma add_packet_ok:
  assumes "flow_ok fr t"
  shows "flow_ok fr (add_packet (fr pkt) pkt t)" "pkts_of (add_packet f pkt t) = pkts_of t @ [pkt]"
  using assms by (auto simp: flow_ok_def add_packet_def Let_def flen_def split: list.splits)

text \<open>What queueing a packet does to the table, in the two cases.\<close>

lemma drr_queue_cases:
  assumes "drr_ok fr d" "drr_queue a junk f pkt d = Some d'" "a \<notin> fst ` set (flows d)" "a \<noteq> NULL"
  obtains (new) "find_flow d f = None" "flows d' = flows d @ [(a, new_flow d f pkt junk)]"
      "d' = start_rr a (append_flow a (new_flow d f pkt junk) d)"
  | (old) b t xs ys where "find_flow d f = Some (b, t)" "flows d = xs @ (b, t) # ys"
      "flows d' = xs @ (b, add_packet f pkt t) # ys" "flow_ok fr t" "Counter t < DrrMaxQueLenForEachFlow d"
      "d' = start_rr b (d\<lparr>DrrPacketTotal := DrrPacketTotal d + 1, flows := flows d'\<rparr>)"
proof (cases "find_flow d f")
  case None
  then have d: "d' = start_rr a (append_flow a (new_flow d f pkt junk) d)"
    using assms(2) by (simp add: drr_queue_def split: if_splits)
  moreover have "flows d' = flows d @ [(a, new_flow d f pkt junk)]"
    using assms(1) d by (auto simp: append_flow_def drr_ok_def Let_def)
  ultimately show ?thesis using None that(1) by blast
next
  case (Some bt)
  obtain b t where bt: "bt = (b, t)" by fastforce
  have ft: "distinct (map fst (flows d))" using assms(1) by (simp add: drr_ok_def flow_table_def)
  then have m: "map_of (flows d) b = Some t" using find_flow_map_of Some bt by blast
  obtain xs ys where f: "flows d = xs @ (b, t) # ys" "\<And>g. upd_flow b g (flows d) = xs @ (b, g t) # ys"
    using flow_split [OF ft m] by metis
  have c: "Counter t < DrrMaxQueLenForEachFlow d" "d' = start_rr b (d\<lparr>DrrPacketTotal := DrrPacketTotal d + 1,
      flows := upd_flow b (add_packet f pkt) (flows d)\<rparr>)"
    using assms(2) Some bt by (auto simp: drr_queue_def split: if_splits)
  then have "flows d' = xs @ (b, add_packet f pkt t) # ys" using f(2) by simp
  with that(2) [OF _ f(1)] Some bt flow_okD [OF assms(1) m] c f(2) show ?thesis by simp
qed

lemma drr_queue_ok:
  assumes "drr_ok fr d" "drr_queue a junk (fr pkt) pkt d = Some d'" "a \<notin> fst ` set (flows d)" "a \<noteq> NULL"
  shows "drr_ok fr d' \<and> mset (held (flows d')) = add_mset pkt (mset (held (flows d)))"
proof -
  have h: "held (flows d) = [] \<longleftrightarrow> DrrPacketTotal d = 0" using assms(1) by (simp add: drr_ok_def)
  show ?thesis
    using assms
  proof (cases rule: drr_queue_cases [case_names new old])
    case new
    then have f: "flow_table (flows d')" using assms(1,3,4) by (auto simp: drr_ok_def flow_table_def)
    then have m: "map_of (flows d') a = Some (new_flow d (fr pkt) pkt junk)"
      using new(2) flow_table_map_of by metis
    have o: "map_of (flows d') x = map_of (flows d) x" if "map_of (flows d) x \<noteq> None" for x
      using that new(2) by (auto simp: map_add_Some_iff)
    have "drrTableRR d' = (if held (flows d) = [] then a else drrTableRR d)"
      using new(3) h by simp
    then have "\<exists>t. map_of (flows d') (drrTableRR d') = Some t \<and> pkts_of t \<noteq> []"
      using m o assms(1) by (auto simp: new_flow_ok drr_ok_def)
    then show ?thesis using assms(1) new f
      by (auto simp: drr_ok_def new_flow_ok flow_simps)
  next
    case (old b t xs ys)
    have f: "flow_table (flows d')" using assms(1) old(2,3) by (auto simp: drr_ok_def flow_table_def)
    have m: "map_of (flows d') b = Some (add_packet (fr pkt) pkt t)" using old(3) f flow_table_map_of by metis
    have o: "map_of (flows d') x = map_of (flows d) x" if "x \<noteq> b" for x
      using that old(2,3) by (auto simp: map_add_def split: option.splits)
    have "drrTableRR d' = (if held (flows d) = [] then b else drrTableRR d)"
      using arg_cong [OF old(6), of drrTableRR] h by simp
    then have "\<exists>t. map_of (flows d') (drrTableRR d') = Some t \<and> pkts_of t \<noteq> []"
      using m o assms(1) add_packet_ok(2) [OF old(4)] by (cases "drrTableRR d' = b") (auto simp: drr_ok_def)
    moreover have "DrrPacketTotal d' = DrrPacketTotal d + 1" "flows_Counter d' = flows_Counter d"
      "CreditAddedPerRound d' = CreditAddedPerRound d" "SpanningTbl d' = SpanningTbl d" "SpecialTbl d' = SpecialTbl d"
      using arg_cong [OF old(6), of DrrPacketTotal] arg_cong [OF old(6), of flows_Counter]
        arg_cong [OF old(6), of CreditAddedPerRound] arg_cong [OF old(6), of SpanningTbl]
        arg_cong [OF old(6), of SpecialTbl] by simp_all
    ultimately show ?thesis using assms(1) old(2,3) f add_packet_ok [OF old(4)]
      by (auto simp: drr_ok_def flow_simps)
  qed
qed

subsection \<open>What an upcall does\<close>

text \<open>A flow whose first packet was taken: the length of the new first packet, or no deficit.\<close>

definition taken :: "(addr \<Rightarrow> ip_frame) \<Rightarrow> drrTbl \<Rightarrow> drrTbl" where
  "taken fr t = (case pkts_of t of [] \<Rightarrow> t | p # ps \<Rightarrow>
     t\<lparr>pkts_of := ps, Counter := Counter t - 1,
       Priority := (if ps = [] then 0 else Priority t - pkt_length t),
       pkt_length := (case ps of [] \<Rightarrow> pkt_length t | q # _ \<Rightarrow> flen fr q)\<rparr>)"

lemma taken_ok: "flow_ok fr t \<Longrightarrow> pkt_length t \<le> Priority t \<Longrightarrow> flow_ok fr (taken fr t)"
  by (auto simp: flow_ok_def taken_def split: list.splits)

lemma take_first_ok: "flow_ok fr t \<Longrightarrow> pkts_of t = p # ps \<Longrightarrow> take_first (flen fr) t = Inr (p, taken fr t)"
  by (cases ps) (auto simp: take_first_def flow_ok_def taken_def Let_def)

lemma give_credit_ok:
  assumes "flow_ok fr t" "0 \<le> CreditAddedPerRound d"
  shows "flow_ok fr (fst (give_credit d t))" "pkts_of (fst (give_credit d t)) = pkts_of t"
    "Counter (fst (give_credit d t)) = Counter t" "pkt_length (fst (give_credit d t)) = pkt_length t"
  using assms by (auto simp: give_credit_def flow_ok_def split: list.splits)

text \<open>The round goes on to the next flow with packets, in cyclic order, when there is one.\<close>

definition next_round :: "(addr \<times> drrTbl) list \<Rightarrow> drr \<Rightarrow> drr" where
  "next_round fl d = (case filter busy fl of [] \<Rightarrow> d\<lparr>drrTableRR := NULL\<rparr>
     | (b, u) # _ \<Rightarrow> d\<lparr>drrTableRR := b, drrTableRR_var := 1\<rparr>)"

lemma filter_rotate: "filter P (ys @ xs @ [z]) = [] \<longleftrightarrow> filter P (xs @ z # ys) = []"
  by (auto simp: filter_empty_conv)

lemma move_on_ok:
  assumes "flow_table (flows d)" "\<forall>t\<in>snd ` set (flows d). flow_ok fr t" "DrrPacketTotal d = int (length (held (flows d)))"
    and "flows d = xs @ (drrTableRR d, t) # ys"
  shows "move_on d = Some (Inr (next_round (ys @ xs @ [(drrTableRR d, t)]) d))"
proof (cases "held (flows d) = []")
  case True
  then have "filter busy (flows d) = []" using held_filter assms(2) by blast
  then have "filter busy (ys @ xs @ [(drrTableRR d, t)]) = []" using assms(4) filter_rotate by metis
  then show ?thesis using True assms(3) by (simp add: move_on_def next_round_def del: filter_append)
next
  case False
  then have b: "filter busy (flows d) \<noteq> []" using held_filter assms(2) by blast
  then have "filter busy (ys @ xs @ [(drrTableRR d, t)]) \<noteq> []" using assms(4) filter_rotate by metis
  then obtain b u r where r: "filter busy (ys @ xs @ [(drrTableRR d, t)]) = (b, u) # r"
    by (metis list.exhaust surj_pair)
  have "skip_idle (flows d) (next_flow (flows d) (drrTableRR d)) = Some (Inr b)"
    unfolding skip_next [OF assms(1,4) b] r by simp
  then show ?thesis unfolding next_round_def r using False assms(3) by (simp add: move_on_def run_bind_def)
qed

lemma drr_pick_idle: "drr_ok fr d \<Longrightarrow> held (flows d) = [] \<Longrightarrow> drr_pick len d = Some (Inr (None, d))"
  by (simp add: drr_pick_def drr_ok_def)

text \<open>
  The upcall on the flow \<open>(a, t)\<close> at which the round stands: it gets its credit, \<open>t1\<close>, and sends its first
  packet \<open>p\<close> when that covers it.
\<close>

definition upcall :: "(addr \<Rightarrow> ip_frame) \<Rightarrow> drr \<Rightarrow> (addr \<times> drrTbl) list \<Rightarrow> drrTbl \<Rightarrow> (addr \<times> drrTbl) list \<Rightarrow> addr option \<times> drr" where
  "upcall fr d xs t ys =
     (let (t1, var) = give_credit d t; a = drrTableRR d; t2 = taken fr t1 in
      if pkt_length t1 \<le> Priority t1 then
        (Some (hd (pkts_of t)),
         let d1 = d\<lparr>flows := xs @ (a, t2) # ys, drrTableRR_var := var, DrrPacketTotal := DrrPacketTotal d - 1\<rparr> in
         if pkts_of t2 = [] \<or> Priority t2 < pkt_length t2 then next_round (ys @ xs @ [(a, t2)]) d1 else d1)
      else (None, d\<lparr>flows := xs @ (a, t1) # ys, drrTableRR_var := var\<rparr>))"

lemma flows_upd_ok:
  assumes "drr_ok fr d" "flows d = xs @ (a, t) # ys" "flow_ok fr u"
  shows "flow_table (xs @ (a, u) # ys)" "\<forall>t\<in>snd ` set (xs @ (a, u) # ys). flow_ok fr t"
  using assms by (auto simp: drr_ok_def flow_table_def)

lemma drr_pick_upcall:
  assumes "drr_ok fr d" "flows d = xs @ (drrTableRR d, t) # ys" "pkts_of t \<noteq> []"
  shows "drr_pick (flen fr) d = Some (Inr (upcall fr d xs t ys))"
proof -
  let ?a = "drrTableRR d"
  have ft: "flow_table (flows d)" using assms(1) by (simp add: drr_ok_def)
  have m: "map_of (flows d) ?a = Some t" using flow_table_map_of ft assms(2) by metis
  have up: "upd_flow ?a g (flows d) = xs @ (?a, g t) # ys" for g
    using assms(2) ft upd_flow_other [of ?a xs g] upd_flow_other [of ?a ys g]
    by (simp add: upd_flow_def flow_table_def)
  have c: "drr_pick (flen fr) d = serve_flow (flen fr) d t"
  proof -
    have "0 < length (held (flows d))" using assms(2,3) by (simp add: flow_simps)
    then have "0 < DrrPacketTotal d" using assms(1) by (simp add: drr_ok_def)
    then show ?thesis using assms(1) m by (simp add: drr_pick_def drr_ok_def)
  qed
  obtain t1 var where g: "give_credit d t = (t1, var)" by fastforce
  have k: "flow_ok fr t" "0 \<le> CreditAddedPerRound d" using flow_okD [OF assms(1) m] assms(1) by (auto simp: drr_ok_def)
  note g1 = give_credit_ok [OF k, unfolded g fst_conv]
  obtain p ps where p: "pkts_of t = p # ps" using assms(3) by (cases "pkts_of t") auto
  have n: "0 < Counter t1" using flow_ok_busy [OF g1(1)] g1(2) p by simp
  show ?thesis
  proof (cases "pkt_length t1 \<le> Priority t1")
    case False
    then show ?thesis unfolding c using up by (simp add: serve_flow_def upcall_def g)
  next
    case True
    define t2 where "t2 = taken fr t1"
    define d1 where "d1 = d\<lparr>flows := xs @ (?a, t2) # ys, drrTableRR_var := var, DrrPacketTotal := DrrPacketTotal d - 1\<rparr>"
    have k2: "flow_ok fr t2" using taken_ok g1(1) True by (simp add: t2_def)
    have tf: "take_first (flen fr) t1 = Inr (p, t2)" using take_first_ok g1 p by (simp add: t2_def)
    have "DrrPacketTotal d = int (length (held (flows d)))" using assms(1) by (simp add: drr_ok_def)
    moreover have "pkts_of t1 = p # pkts_of t2" using g1(2) p by (simp add: t2_def taken_def)
    ultimately have tot: "DrrPacketTotal d1 = int (length (held (flows d1)))"
      using assms(2) g1(2) by (simp add: d1_def flow_simps)
    have mv: "move_on d1 = Some (Inr (next_round (ys @ xs @ [(?a, t2)]) d1))"
      using move_on_ok [of d1 fr xs t2 ys] flows_upd_ok [OF assms(1,2) k2] tot by (simp add: d1_def)
    have e: "Counter t2 \<le> 0 \<longleftrightarrow> pkts_of t2 = []" using flow_ok_busy [OF k2] by auto
    show ?thesis unfolding c using True n tf up mv e p
      by (simp add: serve_flow_def upcall_def g Let_def run_bind_def t2_def [symmetric] d1_def [symmetric])
  qed
qed

lemma next_round_fields [simp]:
  "flows (next_round fl d) = flows d" "DrrPacketTotal (next_round fl d) = DrrPacketTotal d"
  "flows_Counter (next_round fl d) = flows_Counter d" "CreditAddedPerRound (next_round fl d) = CreditAddedPerRound d"
  "SpanningTbl (next_round fl d) = SpanningTbl d" "SpecialTbl (next_round fl d) = SpecialTbl d"
  "drr_obj (next_round fl d) = drr_obj d"
  by (simp_all add: next_round_def split: list.splits prod.splits)

lemma next_round_busy:
  assumes "flow_table (flows d)" "\<forall>t\<in>snd ` set (flows d). flow_ok fr t" "held (flows d) \<noteq> []" "set fl = set (flows d)"
  shows "\<exists>t. map_of (flows d) (drrTableRR (next_round fl d)) = Some t \<and> pkts_of t \<noteq> []"
    "drrTableRR_var (next_round fl d) = 1"
proof -
  have "filter busy (flows d) \<noteq> []" using held_filter assms(2,3) by blast
  then have "filter busy fl \<noteq> []" using assms(4) by (simp add: filter_empty_conv)
  then obtain b u r where r: "filter busy fl = (b, u) # r" by (metis list.exhaust surj_pair)
  then have "(b, u) \<in> set (filter busy fl)" by simp
  then have u: "(b, u) \<in> set (flows d)" "0 < Counter u" using assms(4) by auto
  then have "flow_ok fr u" using assms(2) by force
  then have "pkts_of u \<noteq> []" "map_of (flows d) b = Some u"
    using u flow_ok_busy assms(1) by (auto simp: flow_table_def)
  then show "\<exists>t. map_of (flows d) (drrTableRR (next_round fl d)) = Some t \<and> pkts_of t \<noteq> []"
    "drrTableRR_var (next_round fl d) = 1" by (simp_all add: next_round_def r)
qed

text \<open>Giving the flow at which the round stands its credit, and then taking a packet of it.\<close>

lemma credit_ok:
  assumes "drr_ok fr d" "flows d = xs @ (drrTableRR d, t) # ys" "pkts_of t \<noteq> []"
  shows "drr_ok fr (d\<lparr>flows := xs @ (drrTableRR d, fst (give_credit d t)) # ys, drrTableRR_var := v\<rparr>)"
proof -
  have "flow_ok fr t" "0 \<le> CreditAddedPerRound d" using assms(1,2) by (auto simp: drr_ok_def)
  note g = give_credit_ok [OF this]
  note f = flows_upd_ok [OF assms(1,2) g(1)]
  show ?thesis using assms f flow_table_map_of [OF f(1)] g(2) by (simp add: drr_ok_def flow_simps)
qed

lemma taken_pkts: "pkts_of t = p # ps \<Longrightarrow> pkts_of (taken fr t) = ps"
  by (simp add: taken_def)

lemma upcall_ok:
  assumes "drr_ok fr d" "flows d = xs @ (drrTableRR d, t) # ys" "pkts_of t \<noteq> []" "upcall fr d xs t ys = (out, d')"
  shows "drr_ok fr d'"
    "mset (held (flows d)) = mset (held (flows d')) + (case out of None \<Rightarrow> {#} | Some p \<Rightarrow> {#p#})"
    "set (held (flows d')) \<subseteq> set (held (flows d))"
proof -
  let ?a = "drrTableRR d"
  obtain t1 var where gc: "give_credit d t = (t1, var)" by fastforce
  have k: "flow_ok fr t" "0 \<le> CreditAddedPerRound d" using assms(1,2) by (auto simp: drr_ok_def)
  note g = give_credit_ok [OF k, unfolded gc fst_conv]
  obtain p ps where p: "pkts_of t = p # ps" using assms(3) by (cases "pkts_of t") auto
  have "drr_ok fr d' \<and> mset (held (flows d)) = mset (held (flows d')) + (case out of None \<Rightarrow> {#} | Some p \<Rightarrow> {#p#})"
  proof (cases "pkt_length t1 \<le> Priority t1")
    case False
    then have "out = None" "d' = d\<lparr>flows := xs @ (?a, t1) # ys, drrTableRR_var := var\<rparr>"
      using assms(4) by (auto simp: upcall_def gc Let_def)
    then show ?thesis using credit_ok [OF assms(1-3), of var] assms(2) g(2) by (simp add: gc flow_simps)
  next
    case True
    define t2 where "t2 = taken fr t1"
    define d1 where "d1 = d\<lparr>flows := xs @ (?a, t2) # ys, drrTableRR_var := var, DrrPacketTotal := DrrPacketTotal d - 1\<rparr>"
    have k2: "flow_ok fr t2" using taken_ok g(1) True by (simp add: t2_def)
    have t2: "pkts_of t2 = ps" using taken_pkts g(2) p by (simp add: t2_def)
    have o: "out = Some p" "d' = (if ps = [] \<or> Priority t2 < pkt_length t2 then next_round (ys @ xs @ [(?a, t2)]) d1 else d1)"
      using assms(4) True p t2 by (auto simp: upcall_def gc Let_def t2_def [symmetric] d1_def [symmetric])
    note f = flows_upd_ok [OF assms(1,2) k2]
    have m: "mset (held (flows d)) = mset (held (flows d1)) + {#p#}" using assms(2) p t2
      by (simp add: d1_def flow_simps)
    have "DrrPacketTotal d = int (length (held (flows d)))" "flows_Counter d = int (length (flows d))"
      using assms(1) by (simp_all add: drr_ok_def)
    then have n: "DrrPacketTotal d1 = int (length (held (flows d1)))" "flows_Counter d1 = int (length (flows d1))"
      using assms(2) p t2 by (simp_all add: d1_def flow_simps)
    have "\<exists>t. map_of (flows d') (drrTableRR d') = Some t \<and> pkts_of t \<noteq> []" if "held (flows d') \<noteq> []"
    proof (cases "ps = [] \<or> Priority t2 < pkt_length t2")
      case True
      have "set (ys @ xs @ [(?a, t2)]) = set (flows d1)" by (auto simp: d1_def)
      then show ?thesis using next_round_busy(1) [of d1 fr "ys @ xs @ [(?a, t2)]"] f o(2) True that by (simp add: d1_def)
    next
      case False
      then show ?thesis using o(2) flow_table_map_of [OF f(1)] t2 by (simp add: d1_def)
    qed
    moreover have "flows d' = flows d1" "DrrPacketTotal d' = DrrPacketTotal d1" "flows_Counter d' = flows_Counter d1"
      "CreditAddedPerRound d' = CreditAddedPerRound d" "SpanningTbl d' = SpanningTbl d" "SpecialTbl d' = SpecialTbl d"
      using o(2) by (simp_all add: d1_def)
    ultimately show ?thesis using f n m o(1) assms(1) k(2) by (simp add: drr_ok_def d1_def)
  qed
  then show "drr_ok fr d'" and m: "mset (held (flows d)) = mset (held (flows d')) + (case out of None \<Rightarrow> {#} | Some p \<Rightarrow> {#p#})"
    by blast+
  show "set (held (flows d')) \<subseteq> set (held (flows d))"
    using arg_cong [OF m, of set_mset] by auto
qed

text \<open>Where the round stands, when the scheduler holds packets.\<close>

lemma round_split:
  assumes "drr_ok fr d" "held (flows d) \<noteq> []"
  obtains xs t ys where "flows d = xs @ (drrTableRR d, t) # ys" "pkts_of t \<noteq> []" "flow_ok fr t"
proof -
  obtain t where t: "map_of (flows d) (drrTableRR d) = Some t" "pkts_of t \<noteq> []" using assms by (auto simp: drr_ok_def)
  then obtain xs ys where "flows d = xs @ (drrTableRR d, t) # ys" by (meson map_of_SomeD split_list)
  with t that flow_okD [OF assms(1)] show ?thesis by blast
qed

lemma drr_pick_ok:
  assumes "drr_ok fr d"
  obtains out d' where "drr_pick (flen fr) d = Some (Inr (out, d'))" "drr_ok fr d'"
    "mset (held (flows d)) = mset (held (flows d')) + (case out of None \<Rightarrow> {#} | Some p \<Rightarrow> {#p#})"
proof (cases "held (flows d) = []")
  case True
  with drr_pick_idle [OF assms] assms that [of None d] show ?thesis by simp
next
  case False
  then obtain xs t ys where r: "flows d = xs @ (drrTableRR d, t) # ys" "pkts_of t \<noteq> []"
    using round_split [OF assms] by metis
  obtain out d' where u: "upcall fr d xs t ys = (out, d')" by fastforce
  show ?thesis using that drr_pick_upcall [OF assms r] upcall_ok [OF assms r u] u by simp
qed

subsection \<open>No upcall is wasted\<close>

text \<open>
  The condition under which every upcall sends: no packet is longer than the credit of a round, and the
  flow at which the round stands either waits for its credit or can send its first packet.
\<close>

definition drr_ready :: "(addr \<Rightarrow> ip_frame) \<Rightarrow> drr \<Rightarrow> bool" where
  "drr_ready fr d \<longleftrightarrow> (\<forall>p\<in>set (held (flows d)). flen fr p \<le> CreditAddedPerRound d)
     \<and> (held (flows d) \<noteq> [] \<longrightarrow> drrTableRR_var d = 1
          \<or> (\<forall>t. map_of (flows d) (drrTableRR d) = Some t \<longrightarrow> pkt_length t \<le> Priority t))"

lemma upcall_sends:
  assumes "drr_ok fr d" "drr_ready fr d" "flows d = xs @ (drrTableRR d, t) # ys" "pkts_of t \<noteq> []"
    and "upcall fr d xs t ys = (out, d')"
  shows "out = Some (hd (pkts_of t))" "drr_ready fr d'"
proof -
  let ?a = "drrTableRR d"
  obtain t1 var where gc: "give_credit d t = (t1, var)" by fastforce
  have k: "flow_ok fr t" "0 \<le> CreditAddedPerRound d" using assms(1,3) by (auto simp: drr_ok_def)
  note g = give_credit_ok [OF k, unfolded gc fst_conv]
  obtain p ps where p: "pkts_of t = p # ps" using assms(4) by (cases "pkts_of t") auto
  have h: "p \<in> set (held (flows d))" "held (flows d) \<noteq> []" using p assms(3) by (auto simp: flow_simps)
  have l: "flen fr p \<le> CreditAddedPerRound d" using assms(2) h(1) unfolding drr_ready_def by blast
  have ft: "flow_table (flows d)" using assms(1) by (simp add: drr_ok_def)
  have m: "map_of (flows d) ?a = Some t" using flow_table_map_of ft assms(3) by metis
  have pl: "pkt_length t = flen fr p" "Counter t \<noteq> 0" "0 \<le> Priority t" using k(1) p by (auto simp: flow_ok_def)
  have c: "pkt_length t1 \<le> Priority t1"
  proof (cases "drrTableRR_var d = 1")
    case True
    then show ?thesis using gc l pl by (auto simp: give_credit_def)
  next
    case False
    then show ?thesis using gc assms(2) h(2) m by (auto simp: give_credit_def drr_ready_def)
  qed
  then show "out = Some (hd (pkts_of t))" using assms(5) by (simp add: upcall_def gc Let_def)
  define t2 where "t2 = taken fr t1"
  define d1 where "d1 = d\<lparr>flows := xs @ (?a, t2) # ys, drrTableRR_var := var, DrrPacketTotal := DrrPacketTotal d - 1\<rparr>"
  have k2: "flow_ok fr t2" using taken_ok g(1) c by (simp add: t2_def)
  have t2: "pkts_of t2 = ps" using taken_pkts g(2) p by (simp add: t2_def)
  have d': "d' = (if ps = [] \<or> Priority t2 < pkt_length t2 then next_round (ys @ xs @ [(?a, t2)]) d1 else d1)"
    using assms(5) c t2 by (auto simp: upcall_def gc Let_def t2_def [symmetric] d1_def [symmetric])
  have fc: "flows d' = flows d1" "CreditAddedPerRound d' = CreditAddedPerRound d" using d' by (simp_all add: d1_def)
  note f = flows_upd_ok [OF assms(1,3) k2]
  have "drrTableRR_var d' = 1 \<or> (\<forall>t. map_of (flows d') (drrTableRR d') = Some t \<longrightarrow> pkt_length t \<le> Priority t)"
    if "held (flows d') \<noteq> []"
  proof (cases "ps = [] \<or> Priority t2 < pkt_length t2")
    case True
    have "set (ys @ xs @ [(?a, t2)]) = set (flows d1)" by (auto simp: d1_def)
    then show ?thesis using next_round_busy(2) [of d1 fr "ys @ xs @ [(?a, t2)]"] f d' True that by (simp add: d1_def)
  next
    case False
    then have "flows d' = xs @ (?a, t2) # ys" "drrTableRR d' = ?a" using d' by (simp_all add: d1_def)
    then have "map_of (flows d') (drrTableRR d') = Some t2" using flow_table_map_of f(1) by metis
    then show ?thesis using False by simp
  qed
  moreover have "set (held (flows d')) \<subseteq> set (held (flows d))" using upcall_ok(3) [OF assms(1,3-5)] .
  ultimately show "drr_ready fr d'" using assms(2) fc by (auto simp: drr_ready_def)
qed

lemma drr_pick_sends:
  assumes "drr_ok fr d" "drr_ready fr d" "held (flows d) \<noteq> []"
  obtains p d' where "drr_pick (flen fr) d = Some (Inr (Some p, d'))" "drr_ok fr d'" "drr_ready fr d'"
    "mset (held (flows d)) = add_mset p (mset (held (flows d')))"
proof -
  obtain xs t ys where r: "flows d = xs @ (drrTableRR d, t) # ys" "pkts_of t \<noteq> []"
    using round_split [OF assms(1,3)] by metis
  obtain out d' where u: "upcall fr d xs t ys = (out, d')" by fastforce
  show ?thesis using that [of "hd (pkts_of t)" d'] drr_pick_upcall [OF assms(1) r] upcall_ok [OF assms(1) r u] u
      upcall_sends [OF assms(1,2) r u] by simp
qed

lemma add_packet_busy:
  "flow_ok fr t \<Longrightarrow> pkts_of t \<noteq> [] \<Longrightarrow>
    pkt_length (add_packet f pkt t) = pkt_length t \<and> Priority (add_packet f pkt t) = Priority t"
  by (cases "pkts_of t") (auto simp: add_packet_def Let_def flow_ok_def)

lemma add_packet_Priority: "flow_ok fr t \<Longrightarrow> Priority (add_packet f pkt t) = (if pkts_of t = [] then 0 else Priority t)"
  by (cases "pkts_of t") (auto simp: add_packet_def Let_def flow_ok_def)

text \<open>Queueing a packet moves neither the round nor the deficit of a flow that has packets.\<close>

lemma drr_queue_keeps:
  assumes "drr_ok fr d" "drr_queue a junk (fr pkt) pkt d = Some d'" "a \<notin> fst ` set (flows d)" "a \<noteq> NULL"
  shows "CreditAddedPerRound d' = CreditAddedPerRound d"
    "held (flows d) = [] \<Longrightarrow> drrTableRR_var d' = 1"
    "held (flows d) \<noteq> [] \<Longrightarrow> drrTableRR d' = drrTableRR d \<and> drrTableRR_var d' = drrTableRR_var d"
    "map_of (flows d) x = Some t \<Longrightarrow> pkts_of t \<noteq> [] \<Longrightarrow>
       \<exists>t'. map_of (flows d') x = Some t' \<and> pkt_length t' = pkt_length t \<and> Priority t' = Priority t"
    "\<exists>zs. map fst (flows d') = map fst (flows d) @ zs"
proof -
  have n: "DrrPacketTotal d = int (length (held (flows d)))" using assms(1) by (simp add: drr_ok_def)
  have ft: "flow_table (flows d')" using drr_queue_ok [OF assms] by (simp add: drr_ok_def)
  have "CreditAddedPerRound d' = CreditAddedPerRound d
    \<and> (held (flows d) = [] \<longrightarrow> drrTableRR_var d' = 1)
    \<and> (held (flows d) \<noteq> [] \<longrightarrow> drrTableRR d' = drrTableRR d \<and> drrTableRR_var d' = drrTableRR_var d)
    \<and> (\<forall>x t. map_of (flows d) x = Some t \<and> pkts_of t \<noteq> [] \<longrightarrow>
       (\<exists>t'. map_of (flows d') x = Some t' \<and> pkt_length t' = pkt_length t \<and> Priority t' = Priority t))
    \<and> (\<exists>zs. map fst (flows d') = map fst (flows d) @ zs)"
    using assms
  proof (cases rule: drr_queue_cases [case_names new old])
    case new
    have o: "map_of (flows d') x = Some t" if "map_of (flows d) x = Some t" for x t
      using that new(2) by (simp add: map_add_Some_iff)
    then show ?thesis using new n by auto
  next
    case (old b t xs ys)
    have m: "map_of (flows d') b = Some (add_packet (fr pkt) pkt t)" using old(3) ft flow_table_map_of by metis
    have mb: "map_of (flows d) b = Some t" using old(2) assms(1) flow_table_map_of drr_ok_def by metis
    have o: "map_of (flows d') x = map_of (flows d) x" if "x \<noteq> b" for x
      using that old(2,3) by (auto simp: map_add_def split: option.splits)
    have "\<exists>t'. map_of (flows d') x = Some t' \<and> pkt_length t' = pkt_length u \<and> Priority t' = Priority u"
      if "map_of (flows d) x = Some u" "pkts_of u \<noteq> []" for x u
      using that m mb o add_packet_busy [OF old(4)] by (cases "x = b") auto
    moreover have "CreditAddedPerRound d' = CreditAddedPerRound d" "drrTableRR_var d' = (if DrrPacketTotal d = 0 then 1 else drrTableRR_var d)"
      "drrTableRR d' = (if DrrPacketTotal d = 0 then b else drrTableRR d)"
      using arg_cong [OF old(6), of CreditAddedPerRound] arg_cong [OF old(6), of drrTableRR_var]
        arg_cong [OF old(6), of drrTableRR] by simp_all
    ultimately show ?thesis using n old(2,3) by auto
  qed
  then show "CreditAddedPerRound d' = CreditAddedPerRound d"
    "held (flows d) = [] \<Longrightarrow> drrTableRR_var d' = 1"
    "held (flows d) \<noteq> [] \<Longrightarrow> drrTableRR d' = drrTableRR d \<and> drrTableRR_var d' = drrTableRR_var d"
    "map_of (flows d) x = Some t \<Longrightarrow> pkts_of t \<noteq> [] \<Longrightarrow>
       \<exists>t'. map_of (flows d') x = Some t' \<and> pkt_length t' = pkt_length t \<and> Priority t' = Priority t"
    "\<exists>zs. map fst (flows d') = map fst (flows d) @ zs" by blast+
qed

lemma drr_queue_ready:
  assumes "drr_ok fr d" "drr_ready fr d" "drr_queue a junk (fr pkt) pkt d = Some d'" "a \<notin> fst ` set (flows d)" "a \<noteq> NULL"
    and "flen fr pkt \<le> CreditAddedPerRound d"
  shows "drr_ready fr d'"
proof -
  note k = drr_queue_keeps [OF assms(1,3-5)]
  have "set (held (flows d')) = insert pkt (set (held (flows d)))"
    using arg_cong [OF conjunct2 [OF drr_queue_ok [OF assms(1,3-5)]], of set_mset] by simp
  moreover have "drrTableRR_var d' = 1 \<or> (\<forall>t. map_of (flows d') (drrTableRR d') = Some t \<longrightarrow> pkt_length t \<le> Priority t)"
  proof (cases "held (flows d) = []")
    case False
    then obtain t where t: "map_of (flows d) (drrTableRR d) = Some t" "pkts_of t \<noteq> []" using assms(1) by (auto simp: drr_ok_def)
    show ?thesis using k(3) [OF False] k(4) [OF t] assms(2) False t by (auto simp: drr_ready_def)
  qed (simp add: k(2))
  ultimately show ?thesis using assms(2,6) k(1) by (simp add: drr_ready_def)
qed

subsection \<open>The scheduler as a queue that serves every packet\<close>

text \<open>A scheduler with the frames of the packets and the memory \<open>malloc\<close> gives it.\<close>

type_synonym drr_sys = "(addr \<Rightarrow> ip_frame) \<times> (addr \<Rightarrow> drrTbl) \<times> drr"

definition drr_put :: "addr \<Rightarrow> drr_sys \<Rightarrow> drr_sys option" where
  "drr_put pkt = (\<lambda>(fr, jk, d). map_option (\<lambda>d'. (fr, jk, d'))
     (drr_queue (new_addr (flows d)) (jk (new_addr (flows d))) (fr pkt) pkt d))"

definition drr_take :: "drr_sys \<Rightarrow> (addr \<times> drr_sys) option" where
  "drr_take = (\<lambda>(fr, jk, d). case drr_pick (flen fr) d of
     Some (Inr (Some p, d')) \<Rightarrow> Some (p, fr, jk, d') | _ \<Rightarrow> None)"

definition drr_rep :: "drr_sys \<Rightarrow> addr multiset \<Rightarrow> bool" where
  "drr_rep = (\<lambda>(fr, jk, d) M. drr_ok fr d \<and> drr_ready fr d \<and> mset (held (flows d)) = M)"

definition within_credit :: "drr_sys \<Rightarrow> addr \<Rightarrow> bool" where
  "within_credit = (\<lambda>(fr, jk, d) pkt. flen fr pkt \<le> CreditAddedPerRound d)"

interpretation dq: event_queue drr_rep "\<lambda>_ _. 0 :: nat" within_credit drr_put drr_take
proof (unfold_locales, goal_cases)
  case (1 s M e s')
  then show ?case
    using drr_queue_ok new_addr_fresh drr_queue_ready
    by (auto simp: drr_rep_def drr_put_def within_credit_def split: prod.splits)
next
  case (2 s M)
  obtain fr jk d where s: "s = (fr, jk, d)" by (cases s)
  show ?case
  proof (cases "held (flows d) = []")
    case True
    then show ?thesis using 2 s drr_pick_idle [of fr d] by (auto simp: drr_rep_def drr_take_def)
  next
    case False
    then obtain p d' where "drr_pick (flen fr) d = Some (Inr (Some p, d'))"
      using drr_pick_sends [of fr d] 2 s by (metis (mono_tags, lifting) case_prod_conv drr_rep_def)
    then show ?thesis using False 2 s by (auto simp: drr_rep_def drr_take_def)
  qed
next
  case (3 s M e s')
  obtain fr jk d where s: "s = (fr, jk, d)" by (cases s)
  then have r: "drr_ok fr d" "drr_ready fr d" "M = mset (held (flows d))" using 3 by (auto simp: drr_rep_def)
  show ?case
  proof (cases "held (flows d) = []")
    case True
    then show ?thesis using 3 s drr_pick_idle [OF r(1)] by (simp add: drr_take_def)
  next
    case False
    from drr_pick_sends [OF r(1,2) False] obtain p d' where
      "drr_pick (flen fr) d = Some (Inr (Some p, d'))" "drr_ok fr d'" "drr_ready fr d'"
      "mset (held (flows d)) = add_mset p (mset (held (flows d')))" .
    then show ?thesis using 3 s r(3) by (auto simp: drr_take_def drr_rep_def)
  qed
qed

subsection \<open>The share of each flow\<close>

text \<open>
  What happens to a scheduler: a packet is queued or freed, or an upcall serves the flow \<open>a\<close>, \<open>c\<close> saying
  that it gets its credit, and sends a packet or none.
\<close>

datatype drr_event = Queued addr | Freed addr | Served addr bool "addr option"

definition credited :: "drr \<Rightarrow> bool" where
  "credited d \<longleftrightarrow> held (flows d) \<noteq> [] \<and> drrTableRR_var d = 1"

inductive drr_step :: "(addr \<Rightarrow> ip_frame) \<Rightarrow> drr \<Rightarrow> drr_event \<Rightarrow> drr \<Rightarrow> bool" for fr where
  queued: "drr_queue (new_addr (flows d)) junk (fr p) p d = Some d' \<Longrightarrow> drr_step fr d (Queued p) d'"
| freed: "drr_queue (new_addr (flows d)) junk (fr p) p d = None \<Longrightarrow> drr_step fr d (Freed p) d"
| served: "drr_pick (flen fr) d = Some (Inr (out, d')) \<Longrightarrow> drr_step fr d (Served (drrTableRR d) (credited d) out) d'"

inductive_cases drr_stepE: "drr_step fr d e d'"

text \<open>A run all of whose states satisfy \<open>P\<close>.\<close>

inductive drr_run :: "(addr \<Rightarrow> ip_frame) \<Rightarrow> (drr \<Rightarrow> bool) \<Rightarrow> drr \<Rightarrow> drr_event list \<Rightarrow> drr \<Rightarrow> bool" for fr P where
  run_end: "P d \<Longrightarrow> drr_run fr P d [] d"
| run_step: "P d \<Longrightarrow> drr_step fr d e d' \<Longrightarrow> drr_run fr P d' es d'' \<Longrightarrow> drr_run fr P d (e # es) d''"

fun gets_credit :: "addr \<Rightarrow> drr_event \<Rightarrow> int" where
  "gets_credit x (Served a c out) = (if a = x \<and> c then 1 else 0)"
| "gets_credit x _ = 0"

fun sends_bytes :: "(addr \<Rightarrow> ip_frame) \<Rightarrow> addr \<Rightarrow> drr_event \<Rightarrow> int" where
  "sends_bytes fr x (Served a c (Some p)) = (if a = x then flen fr p else 0)"
| "sends_bytes fr x _ = 0"

definition bytes_sent :: "(addr \<Rightarrow> ip_frame) \<Rightarrow> addr \<Rightarrow> drr_event list \<Rightarrow> int" where
  "bytes_sent fr x es = sum_list (map (sends_bytes fr x) es)"

definition backlogged :: "addr \<Rightarrow> drr \<Rightarrow> bool" where
  "backlogged x d \<longleftrightarrow> (\<exists>t. map_of (flows d) x = Some t \<and> pkts_of t \<noteq> [])"

definition deficit :: "addr \<Rightarrow> drr \<Rightarrow> int" where
  "deficit x d = (case map_of (flows d) x of None \<Rightarrow> 0 | Some t \<Rightarrow> Priority t)"

text \<open>The flows whose turn of the present round has begun: those before the one at which it stands, and
  that one, once it has its credit.\<close>

fun earlier :: "addr list \<Rightarrow> addr \<Rightarrow> addr \<Rightarrow> bool" where
  "earlier [] x a = False"
| "earlier (y # ys) x a = (if y = a then False else if y = x then True else earlier ys x a)"

definition had_turn :: "addr \<Rightarrow> drr \<Rightarrow> int" where
  "had_turn x d = (if x = drrTableRR d then (if drrTableRR_var d = 1 then 0 else 1)
     else if earlier (map fst (flows d)) x (drrTableRR d) then 1 else 0)"

lemma earlier_split: "a \<notin> set xs \<Longrightarrow> earlier (xs @ a # ys) x a \<longleftrightarrow> x \<in> set xs"
  by (induction xs) auto

lemma earlier_append: "a \<in> set xs \<Longrightarrow> earlier (xs @ zs) x a = earlier xs x a"
  by (induction xs) auto

lemma had_turn_split:
  assumes "flow_table (flows d)" "flows d = xs @ (a, t) # ys" "drrTableRR d = a"
  shows "had_turn x d = (if x = a then (if drrTableRR_var d = 1 then 0 else 1) else if x \<in> fst ` set xs then 1 else 0)"
  using assms earlier_split [of a "map fst xs" "map fst ys" x] by (auto simp: had_turn_def flow_table_def)

lemma backlogged_mem: "flow_table (flows d) \<Longrightarrow> backlogged x d \<longleftrightarrow> (\<exists>t. (x, t) \<in> set (flows d) \<and> pkts_of t \<noteq> [])"
  by (auto simp: backlogged_def flow_table_def)

lemma first_busy:
  assumes "filter busy fl = (b, u) # r"
  obtains us vs where "fl = us @ (b, u) # vs" "\<forall>z\<in>set us. \<not> busy z"
proof -
  from assms obtain us vs where "fl = us @ (b, u) # vs" "\<forall>z\<in>set us. \<not> busy z"
    unfolding filter_eq_Cons_iff by blast
  then show ?thesis by (rule that)
qed

text \<open>Whom an upcall that moves the round on passes over: only flows without packets.\<close>

lemma round_moves:
  assumes "flow_table fl" "\<forall>t\<in>snd ` set fl. flow_ok fr t" "fl = xs @ (a, t2) # ys" "flows d = fl"
    and "d' = next_round (ys @ xs @ [(a, t2)]) d"
  shows "\<exists>w. \<forall>x. backlogged x d' \<longrightarrow> (if x = a \<or> x \<in> fst ` set xs then 1 else 0) - had_turn x d' = (w :: int)"
proof (cases "filter busy (ys @ xs @ [(a, t2)])")
  case Nil
  have "set (ys @ xs @ [(a, t2)]) = set fl" using assms(3) by auto
  then have "\<not> busy z" if "z \<in> set fl" for z using Nil that by (metis filter_empty_conv)
  then have "held fl = []" using held_filter [OF assms(2)] by (simp add: filter_empty_conv)
  then have "\<not> backlogged x d'" for x
    using assms by (auto simp: backlogged_mem held_def)
  then show ?thesis by blast
next
  case (Cons c r)
  obtain b u where c: "c = (b, u)" by fastforce
  have d': "drrTableRR d' = b" "drrTableRR_var d' = 1" "flows d' = fl" using Cons c assms(4,5) by (simp_all add: next_round_def)
  have idle: "x \<notin> fst ` set us" if "backlogged x d'" "set us \<subseteq> set fl" "\<forall>z\<in>set us. \<not> busy z" for x us
  proof
    assume "x \<in> fst ` set us"
    then obtain v where v: "(x, v) \<in> set us" by auto
    note b = that
    have m: "(x, v) \<in> set fl" using b(2) v by blast
    obtain t where t: "(x, t) \<in> set fl" "pkts_of t \<noteq> []" using b(1) assms(1) d'(3) backlogged_mem [of d' x] by auto
    then have "v = t" using m assms(1) by (metis eq_key_imp_eq_value flow_table_def)
    moreover have "flow_ok fr t" using t(1) assms(2) by force
    ultimately show False using v b(3) t(2) flow_ok_busy by blast
  qed
  have dist: "distinct (map fst (xs @ (a, t2) # ys))" using assms(1,3) by (simp add: flow_table_def)
  have bl: "x \<in> fst ` set fl" if "backlogged x d'" for x using that assms(1) d'(3) by (force simp: backlogged_mem)
  consider (in_ys) "filter busy ys = (b, u) # tl (filter busy ys)"
    | (in_xs) "filter busy ys = []" "filter busy xs = (b, u) # tl (filter busy xs)"
    | (same) "filter busy ys = []" "filter busy xs = []" "b = a"
    using Cons c by (cases "filter busy ys"; cases "filter busy xs") (auto split: if_splits)
  then show ?thesis
  proof cases
    case in_ys
    obtain y1 y2 where y: "ys = y1 @ (b, u) # y2" "\<forall>z\<in>set y1. \<not> busy z" using first_busy [OF in_ys] .
    have h: "had_turn x d' = (if x = b then 0 else if x \<in> fst ` set (xs @ (a, t2) # y1) then 1 else 0)" for x
      using had_turn_split [of d' "xs @ (a, t2) # y1" b u y2 x] assms(1,3) d' y(1) by simp
    have "(if x = a \<or> x \<in> fst ` set xs then 1 else 0) - had_turn x d' = (0 :: int)" if "backlogged x d'" for x
    proof -
      have "x \<notin> fst ` set y1" using idle [OF that, of y1] y assms(3) by auto
      then show ?thesis using h dist y(1) by auto
    qed
    then show ?thesis by blast
  next
    case in_xs
    obtain x1 x2 where y: "xs = x1 @ (b, u) # x2" "\<forall>z\<in>set x1. \<not> busy z" using first_busy [OF in_xs(2)] .
    have h: "had_turn x d' = (if x = b then 0 else if x \<in> fst ` set x1 then 1 else 0)" for x
      using had_turn_split [of d' x1 b u "x2 @ (a, t2) # ys" x] assms(1,3) d' y(1) by simp
    have "(if x = a \<or> x \<in> fst ` set xs then 1 else 0) - had_turn x d' = (1 :: int)" if "backlogged x d'" for x
    proof -
      have "x \<notin> fst ` set x1" using idle [OF that, of x1] y assms(3) by auto
      moreover have "x \<notin> fst ` set ys" using idle [OF that, of ys] in_xs(1) assms(3) by (auto simp: filter_empty_conv)
      ultimately show ?thesis using h bl [OF that] y(1) assms(3) by auto
    qed
    then show ?thesis by blast
  next
    case same
    have h: "had_turn x d' = (if x = b then 0 else if x \<in> fst ` set xs then 1 else 0)" for x
      using had_turn_split [of d' xs a t2 ys x] assms(1,3) d' same by simp
    have "(if x = a \<or> x \<in> fst ` set xs then 1 else 0) - had_turn x d' = (1 :: int)" if "backlogged x d'" for x
    proof -
      have "x \<notin> fst ` set xs" using idle [OF that, of xs] same assms(3) by (auto simp: filter_empty_conv)
      moreover have "x \<notin> fst ` set ys" using idle [OF that, of ys] same assms(3) by (auto simp: filter_empty_conv)
      ultimately show ?thesis using h bl [OF that] same assms(3) by auto
    qed
    then show ?thesis by blast
  qed
qed

lemma backlogged_held: "backlogged x d \<Longrightarrow> held (flows d) \<noteq> []"
  by (force simp: backlogged_def held_def dest!: map_of_SomeD)

text \<open>
  One step of a run: the credit a flow with packets gets is \<open>w\<close>, whether the step ends the round, up to
  the turn it has had; the bytes it sends are its credit less what its deficit grew.
\<close>

lemma served_share:
  assumes "drr_ok fr d" "drr_pick (flen fr) d = Some (Inr (out, d'))"
  shows "\<exists>w. \<forall>x. backlogged x d \<and> backlogged x d' \<longrightarrow>
      gets_credit x (Served (drrTableRR d) (credited d) out) + had_turn x d - had_turn x d' = w"
    "backlogged x d \<Longrightarrow> backlogged x d' \<Longrightarrow> sends_bytes fr x (Served (drrTableRR d) (credited d) out)
      = CreditAddedPerRound d * gets_credit x (Served (drrTableRR d) (credited d) out) + deficit x d - deficit x d'"
proof -
  let ?a = "drrTableRR d" and ?e = "Served (drrTableRR d) (credited d) out" and ?C = "CreditAddedPerRound d"
  have "(\<exists>w. \<forall>x. backlogged x d \<and> backlogged x d' \<longrightarrow> gets_credit x ?e + had_turn x d - had_turn x d' = w)
    \<and> (\<forall>x. backlogged x d \<and> backlogged x d' \<longrightarrow> sends_bytes fr x ?e = ?C * gets_credit x ?e + deficit x d - deficit x d')"
  proof (cases "held (flows d) = []")
    case True
    then show ?thesis using backlogged_held by blast
  next
    case False
    obtain xs t ys where r: "flows d = xs @ (?a, t) # ys" "pkts_of t \<noteq> []" "flow_ok fr t" using round_split [OF assms(1) False] .
    have u: "upcall fr d xs t ys = (out, d')" using drr_pick_upcall [OF assms(1) r(1,2)] assms(2) by simp
    obtain t1 var where gc: "give_credit d t = (t1, var)" by fastforce
    have k: "0 \<le> ?C" using assms(1) by (simp add: drr_ok_def)
    note g = give_credit_ok [OF r(3) k, unfolded gc fst_conv]
    obtain p ps where p: "pkts_of t = p # ps" using r(2) by (cases "pkts_of t") auto
    have ft: "flow_table (flows d)" using assms(1) by (simp add: drr_ok_def)
    have cr: "credited d \<longleftrightarrow> drrTableRR_var d = 1" using False by (simp add: credited_def)
    have "Counter t \<noteq> 0" using r(3) p by (simp add: flow_ok_def)
    then have v: "var = (if credited d then 0 else drrTableRR_var d)" "Priority t1 = Priority t + (if credited d then ?C else 0)"
      using gc by (auto simp: give_credit_def cr)
    have h: "gets_credit x ?e + had_turn x d = (if x = ?a \<or> x \<in> fst ` set xs then 1 else 0)" for x
      using had_turn_split [OF ft r(1) refl, of x] r(1) ft by (auto simp: cr flow_table_def)
    have stay: "\<forall>x. gets_credit x ?e + had_turn x d - had_turn x d' = 0"
      if "flow_table (flows d')" "flows d' = xs @ (?a, s) # ys" "drrTableRR d' = ?a" "drrTableRR_var d' = var" for s
      using had_turn_split [OF that(1-3)] h v(1) that(4) cr by auto
    have def_d: "deficit ?a d = Priority t"
      using flow_table_map_of ft r(1) by (simp add: deficit_def)
    have def_d': "deficit x d' = (if x = ?a then Priority s else deficit x d)"
      if "flow_table (flows d')" "flows d' = xs @ (?a, s) # ys" for s x
      using flow_table_map_of that r(1) by (cases "x = ?a") (auto simp: deficit_def map_add_def split: option.splits)
    show ?thesis
    proof (cases "pkt_length t1 \<le> Priority t1")
      case False
      then have d': "out = None" "d' = d\<lparr>flows := xs @ (?a, t1) # ys, drrTableRR_var := var\<rparr>"
        using u by (auto simp: upcall_def gc Let_def)
      have f: "flow_table (flows d')" "flows d' = xs @ (?a, t1) # ys"
        using flows_upd_ok [OF assms(1) r(1) g(1)] d' by simp_all
      have "\<exists>w. \<forall>x. backlogged x d \<and> backlogged x d' \<longrightarrow> gets_credit x ?e + had_turn x d - had_turn x d' = w"
        using stay [OF f] d' by auto
      moreover have "sends_bytes fr x ?e = ?C * gets_credit x ?e + deficit x d - deficit x d'" for x
        using def_d' [OF f, of x] def_d d'(1) v(2) by auto
      ultimately show ?thesis by blast
    next
      case True
      define t2 where "t2 = taken fr t1"
      define d1 where "d1 = d\<lparr>flows := xs @ (?a, t2) # ys, drrTableRR_var := var, DrrPacketTotal := DrrPacketTotal d - 1\<rparr>"
      have k2: "flow_ok fr t2" using taken_ok g(1) True by (simp add: t2_def)
      have t2: "pkts_of t2 = ps" using taken_pkts g(2) p by (simp add: t2_def)
      have o: "out = Some p" "d' = (if ps = [] \<or> Priority t2 < pkt_length t2 then next_round (ys @ xs @ [(?a, t2)]) d1 else d1)"
        using u True p t2 by (auto simp: upcall_def gc Let_def t2_def [symmetric] d1_def [symmetric])
      note fo = flows_upd_ok [OF assms(1) r(1) k2]
      have f: "flow_table (flows d')" "flows d' = xs @ (?a, t2) # ys" using fo o(2) by (simp_all add: d1_def)
      have "\<exists>w. \<forall>x. backlogged x d \<and> backlogged x d' \<longrightarrow> gets_credit x ?e + had_turn x d - had_turn x d' = w"
      proof (cases "ps = [] \<or> Priority t2 < pkt_length t2")
        case True
        then have "d' = next_round (ys @ xs @ [(?a, t2)]) d1" using o(2) by simp
        from round_moves [OF fo refl _ this] have "\<exists>w. \<forall>x. backlogged x d' \<longrightarrow>
            (if x = ?a \<or> x \<in> fst ` set xs then 1 else 0) - had_turn x d' = (w :: int)" by (simp add: d1_def)
        then show ?thesis unfolding h by blast
      next
        case False
        then show ?thesis using stay [OF f] o(2) by (simp add: d1_def)
      qed
      moreover have "sends_bytes fr x ?e = ?C * gets_credit x ?e + deficit x d - deficit x d'" if b: "backlogged x d'" for x
      proof (cases "x = ?a")
        case True
        have "map_of (flows d') ?a = Some t2" using flow_table_map_of f by metis
        then have "ps \<noteq> []" using b True t2 by (simp add: backlogged_def)
        then have "Priority t2 = Priority t1 - pkt_length t1" using g(2) p by (simp add: t2_def taken_def)
        moreover have "pkt_length t1 = flen fr p" using g(4) r(3) p by (simp add: flow_ok_def)
        ultimately show ?thesis using True def_d' [OF f, of x] def_d o(1) v(2) by simp
      next
        case False
        then show ?thesis using def_d' [OF f, of x] o(1) by simp
      qed
      ultimately show ?thesis by blast
    qed
  qed
  then show "\<exists>w. \<forall>x. backlogged x d \<and> backlogged x d' \<longrightarrow> gets_credit x ?e + had_turn x d - had_turn x d' = w"
    "backlogged x d \<Longrightarrow> backlogged x d' \<Longrightarrow> sends_bytes fr x ?e = ?C * gets_credit x ?e + deficit x d - deficit x d'"
    by blast+
qed

lemma drr_pick_credit: "drr_ok fr d \<Longrightarrow> drr_pick (flen fr) d = Some (Inr (out, d')) \<Longrightarrow>
    drr_ok fr d' \<and> CreditAddedPerRound d' = CreditAddedPerRound d \<and> drr_obj d' = drr_obj d"
proof (cases "held (flows d) = []")
  case False
  assume a: "drr_ok fr d" "drr_pick (flen fr) d = Some (Inr (out, d'))"
  obtain xs t ys where r: "flows d = xs @ (drrTableRR d, t) # ys" "pkts_of t \<noteq> []" using round_split [OF a(1) False] .
  have u: "upcall fr d xs t ys = (out, d')" using drr_pick_upcall [OF a(1) r] a(2) by simp
  then have "CreditAddedPerRound d' = CreditAddedPerRound d \<and> drr_obj d' = drr_obj d"
    by (auto simp: upcall_def Let_def split: prod.splits if_splits)
  then show ?thesis using upcall_ok(1) [OF a(1) r u] by blast
qed (simp add: drr_pick_idle)

lemma drr_step_ok:
  assumes "drr_ok fr d" "drr_step fr d e d'"
  shows "drr_ok fr d' \<and> CreditAddedPerRound d' = CreditAddedPerRound d"
  using assms(2)
proof (cases rule: drr_stepE [consumes 1, case_names queued freed served])
  case (queued junk p)
  then show ?thesis using drr_queue_ok [OF assms(1) queued(2) new_addr_fresh]
      drr_queue_keeps(1) [OF assms(1) queued(2) new_addr_fresh] by blast
next
  case freed
  then show ?thesis using assms(1) by simp
next
  case (served out)
  then show ?thesis using drr_pick_credit assms(1) by blast
qed

lemma step_share:
  assumes "drr_ok fr d" "drr_step fr d e d'"
  shows "\<exists>w. \<forall>x. backlogged x d \<and> backlogged x d' \<longrightarrow> gets_credit x e + had_turn x d - had_turn x d' = w"
    "backlogged x d \<Longrightarrow> backlogged x d' \<Longrightarrow>
      sends_bytes fr x e = CreditAddedPerRound d * gets_credit x e + deficit x d - deficit x d'"
proof -
  have "(\<exists>w. \<forall>x. backlogged x d \<and> backlogged x d' \<longrightarrow> gets_credit x e + had_turn x d - had_turn x d' = w)
    \<and> (\<forall>x. backlogged x d \<and> backlogged x d' \<longrightarrow>
      sends_bytes fr x e = CreditAddedPerRound d * gets_credit x e + deficit x d - deficit x d')"
    using assms(2)
  proof (cases rule: drr_stepE [consumes 1, case_names queued freed served])
    case (queued junk p)
    note k = drr_queue_keeps [OF assms(1) queued(2) new_addr_fresh]
    have "had_turn x d' = had_turn x d" "deficit x d' = deficit x d" if b: "backlogged x d" for x
    proof -
      have h: "held (flows d) \<noteq> []" using backlogged_held b by blast
      obtain t where "map_of (flows d) (drrTableRR d) = Some t" using assms(1) h by (auto simp: drr_ok_def)
      then have "drrTableRR d \<in> set (map fst (flows d))" by (force dest: map_of_SomeD)
      moreover obtain zs where "map fst (flows d') = map fst (flows d) @ zs" using k(5) by blast
      ultimately show "had_turn x d' = had_turn x d" using k(3) [OF h] earlier_append
        by (simp add: had_turn_def del: set_map)
      obtain t where t: "map_of (flows d) x = Some t" "pkts_of t \<noteq> []" using b by (auto simp: backlogged_def)
      then show "deficit x d' = deficit x d" using k(4) [OF t] by (auto simp: deficit_def)
    qed
    then show ?thesis using queued(1) by (auto intro!: exI [of _ 0])
  next
    case freed
    then show ?thesis by auto
  next
    case (served out)
    show ?thesis unfolding served(1) using served_share [OF assms(1) served(2)] by blast
  qed
  then show "\<exists>w. \<forall>x. backlogged x d \<and> backlogged x d' \<longrightarrow> gets_credit x e + had_turn x d - had_turn x d' = w"
    "backlogged x d \<Longrightarrow> backlogged x d' \<Longrightarrow>
      sends_bytes fr x e = CreditAddedPerRound d * gets_credit x e + deficit x d - deficit x d'" by blast+
qed

definition credits_given :: "addr \<Rightarrow> drr_event list \<Rightarrow> int" where
  "credits_given x es = sum_list (map (gets_credit x) es)"

lemma run_end_states: "drr_run fr P d es d' \<Longrightarrow> P d \<and> P d'"
  by (induction rule: drr_run.induct) auto

lemma run_share:
  assumes "drr_run fr P d es d'" "drr_ok fr d" "\<And>s. P s \<Longrightarrow> backlogged x s \<and> backlogged y s"
  shows "drr_ok fr d' \<and> CreditAddedPerRound d' = CreditAddedPerRound d
    \<and> credits_given x es + had_turn x d - had_turn x d' = credits_given y es + had_turn y d - had_turn y d'
    \<and> bytes_sent fr x es = CreditAddedPerRound d * credits_given x es + deficit x d - deficit x d'
    \<and> bytes_sent fr y es = CreditAddedPerRound d * credits_given y es + deficit y d - deficit y d'"
  using assms
proof (induction rule: drr_run.induct)
  case (run_end d)
  then show ?case by (simp add: credits_given_def bytes_sent_def)
next
  case (run_step d e d' es d'')
  have b: "backlogged x d" "backlogged x d'" "backlogged y d" "backlogged y d'"
    using run_step.prems(2) run_step.hyps(1) run_end_states [OF run_step.hyps(3)] by blast+
  note k = drr_step_ok [OF run_step.prems(1) run_step.hyps(2)]
  obtain w where "gets_credit x e + had_turn x d - had_turn x d' = w" "gets_credit y e + had_turn y d - had_turn y d' = w"
    using step_share(1) [OF run_step.prems(1) run_step.hyps(2)] b by blast
  moreover note step_share(2) [OF run_step.prems(1) run_step.hyps(2) b(1,2)]
    step_share(2) [OF run_step.prems(1) run_step.hyps(2) b(3,4)] run_step.IH [OF conjunct1 [OF k] run_step.prems(2)]
  ultimately show ?case using k by (simp add: credits_given_def bytes_sent_def algebra_simps)
qed

text \<open>
  The deficit of a flow with packets stays below the longest packet; that of the flow at which the round
  stands may exceed it by the credit it was just given.
\<close>

definition deficits_bounded :: "int \<Rightarrow> drr \<Rightarrow> bool" where
  "deficits_bounded L d \<longleftrightarrow> (\<forall>(a, t)\<in>set (flows d). pkts_of t \<noteq> [] \<longrightarrow>
     Priority t \<le> L + (if a = drrTableRR d \<and> drrTableRR_var d \<noteq> 1 then CreditAddedPerRound d else 0))"

lemma deficits_boundedD:
  assumes "deficits_bounded L d" "(a, t) \<in> set (flows d)" "pkts_of t \<noteq> []"
  shows "Priority t \<le> L + (if a = drrTableRR d \<and> drrTableRR_var d \<noteq> 1 then CreditAddedPerRound d else 0)"
  using assms unfolding deficits_bounded_def by blast

lemma turn_range:
  assumes "drr_ok fr d" "deficits_bounded L d" "backlogged x d"
  shows "- CreditAddedPerRound d \<le> deficit x d - CreditAddedPerRound d * had_turn x d"
    "deficit x d - CreditAddedPerRound d * had_turn x d \<le> L"
proof -
  obtain t where t: "map_of (flows d) x = Some t" "pkts_of t \<noteq> []" using assms(3) by (auto simp: backlogged_def)
  have "0 \<le> Priority t" using flow_okD [OF assms(1) t(1)] by (simp add: flow_ok_def)
  moreover have "Priority t \<le> L + (if x = drrTableRR d \<and> drrTableRR_var d \<noteq> 1 then CreditAddedPerRound d else 0)"
    using deficits_boundedD [OF assms(2) map_of_SomeD [OF t(1)] t(2)] .
  moreover have "0 \<le> CreditAddedPerRound d" using assms(1) by (simp add: drr_ok_def)
  ultimately show "- CreditAddedPerRound d \<le> deficit x d - CreditAddedPerRound d * had_turn x d"
    "deficit x d - CreditAddedPerRound d * had_turn x d \<le> L"
    using t(1) by (auto simp: deficit_def had_turn_def split: if_splits)
qed

lemma deficits_boundedI:
  assumes "flows d = xs @ (a, t) # ys" "0 \<le> CreditAddedPerRound d"
    and "\<And>x v. (x, v) \<in> set xs \<union> set ys \<Longrightarrow> pkts_of v \<noteq> [] \<Longrightarrow> Priority v \<le> L"
    and "pkts_of t \<noteq> [] \<Longrightarrow> Priority t \<le> L + (if a = drrTableRR d \<and> drrTableRR_var d \<noteq> 1 then CreditAddedPerRound d else 0)"
  shows "deficits_bounded L d"
proof -
  have "Priority v \<le> L + (if x = drrTableRR d \<and> drrTableRR_var d \<noteq> 1 then CreditAddedPerRound d else 0)"
    if "(x, v) \<in> set (flows d)" "pkts_of v \<noteq> []" for x v
  proof (cases "(x, v) \<in> set xs \<union> set ys")
    case True
    then show ?thesis using assms(2) assms(3) [OF True that(2)] by simp
  next
    case False
    then show ?thesis using assms(1,4) that by auto
  qed
  then show ?thesis by (auto simp: deficits_bounded_def)
qed

lemma pick_bounded:
  assumes "drr_ok fr d" "deficits_bounded L d" "\<And>p. flen fr p \<le> L" "drr_pick (flen fr) d = Some (Inr (out, d'))"
  shows "deficits_bounded L d'"
proof (cases "held (flows d) = []")
  case True
  then show ?thesis using drr_pick_idle [OF assms(1)] assms(2,4) by simp
next
  case False
  let ?a = "drrTableRR d" and ?C = "CreditAddedPerRound d"
  obtain xs t ys where r: "flows d = xs @ (?a, t) # ys" "pkts_of t \<noteq> []" "flow_ok fr t" using round_split [OF assms(1) False] .
  have u: "upcall fr d xs t ys = (out, d')" using drr_pick_upcall [OF assms(1) r(1,2)] assms(4) by simp
  obtain t1 var where gc: "give_credit d t = (t1, var)" by fastforce
  have k: "0 \<le> ?C" using assms(1) by (simp add: drr_ok_def)
  note g = give_credit_ok [OF r(3) k, unfolded gc fst_conv]
  obtain p ps where p: "pkts_of t = p # ps" using r(2) by (cases "pkts_of t") auto
  have ft: "flow_table (flows d)" using assms(1) by (simp add: drr_ok_def)
  have nx: "?a \<notin> fst ` (set xs \<union> set ys)" using ft r(1) by (auto simp: flow_table_def)
  have na: "a \<noteq> ?a" if "(a, v) \<in> set xs \<union> set ys" for a v
    using imageI [OF that, of fst] nx by (metis fst_conv)
  have o: "Priority v \<le> L" if "(a, v) \<in> set xs \<union> set ys" "pkts_of v \<noteq> []" for a v
    using deficits_boundedD [OF assms(2) _ that(2), of a] r(1) that(1) na [OF that(1)] by auto
  have "Counter t \<noteq> 0" using r(3) p by (simp add: flow_ok_def)
  then have b1: "Priority t1 \<le> L + (if var \<noteq> 1 then ?C else 0)" "var \<noteq> 1"
    using gc deficits_boundedD [OF assms(2) _ r(2), of ?a] r(1) by (auto simp: give_credit_def split: if_splits)
  show ?thesis
  proof (cases "pkt_length t1 \<le> Priority t1")
    case False
    then have d': "d' = d\<lparr>flows := xs @ (?a, t1) # ys, drrTableRR_var := var\<rparr>" using u by (auto simp: upcall_def gc Let_def)
    show ?thesis
    proof (rule deficits_boundedI)
      show "flows d' = xs @ (?a, t1) # ys" "0 \<le> CreditAddedPerRound d'" using d' k by simp_all
      show "Priority t1 \<le> L + (if ?a = drrTableRR d' \<and> drrTableRR_var d' \<noteq> 1 then CreditAddedPerRound d' else 0)"
        using b1 by (simp add: d')
    qed (rule o)
  next
    case True
    define t2 where "t2 = taken fr t1"
    define d1 where "d1 = d\<lparr>flows := xs @ (?a, t2) # ys, drrTableRR_var := var, DrrPacketTotal := DrrPacketTotal d - 1\<rparr>"
    have t2: "pkts_of t2 = ps" using taken_pkts g(2) p by (simp add: t2_def)
    have k2: "flow_ok fr t2" using taken_ok g(1) True by (simp add: t2_def)
    have d': "d' = (if ps = [] \<or> Priority t2 < pkt_length t2 then next_round (ys @ xs @ [(?a, t2)]) d1 else d1)"
      using u True p t2 by (auto simp: upcall_def gc Let_def t2_def [symmetric] d1_def [symmetric])
    have l: "ps \<noteq> [] \<Longrightarrow> pkt_length t2 \<le> L" using k2 t2 assms(3) by (cases ps) (auto simp: flow_ok_def)
    have "0 \<le> pkt_length t1" using g(1,2) p by (simp add: flow_ok_def flen_def)
    then have b2: "ps \<noteq> [] \<Longrightarrow> Priority t2 \<le> L + ?C" using b1 g(2) p by (simp add: t2_def taken_def)
    show ?thesis
    proof (cases "ps = [] \<or> Priority t2 < pkt_length t2")
      case True
      then have "ps \<noteq> [] \<Longrightarrow> Priority t2 \<le> L" using l by auto
      then have "pkts_of t2 \<noteq> [] \<Longrightarrow> Priority t2 \<le> L + (if c then ?C else 0)" for c using k t2 by simp
      note t2L = this
      have e: "flows d' = xs @ (?a, t2) # ys" "CreditAddedPerRound d' = ?C" using d' by (simp_all add: d1_def)
      show ?thesis
      proof (rule deficits_boundedI [OF e(1)])
        show "0 \<le> CreditAddedPerRound d'" using e(2) k by simp
        show "Priority t2 \<le> L + (if ?a = drrTableRR d' \<and> drrTableRR_var d' \<noteq> 1 then CreditAddedPerRound d' else 0)"
          if "pkts_of t2 \<noteq> []" unfolding e(2) by (rule t2L [OF that])
      qed (rule o)
    next
      case False
      then have e: "d' = d1" "ps \<noteq> []" using d' by simp_all
      show ?thesis
      proof (rule deficits_boundedI)
        show "flows d' = xs @ (?a, t2) # ys" "0 \<le> CreditAddedPerRound d'" using e(1) k by (simp_all add: d1_def)
        show "Priority t2 \<le> L + (if ?a = drrTableRR d' \<and> drrTableRR_var d' \<noteq> 1 then CreditAddedPerRound d' else 0)"
          using b1(2) b2 e by (simp add: d1_def)
      qed (rule o)
    qed
  qed
qed

lemma queue_bounded:
  assumes "drr_ok fr d" "deficits_bounded L d" "drr_queue a junk (fr p) p d = Some d'" "a \<notin> fst ` set (flows d)" "a \<noteq> NULL"
    and "0 \<le> L"
  shows "deficits_bounded L d'"
proof -
  note k = drr_queue_keeps [OF assms(1,3-5)]
  have ft: "flow_table (flows d)" and C: "0 \<le> CreditAddedPerRound d" using assms(1) by (simp_all add: drr_ok_def)
  have "Priority u \<le> L + (if x = drrTableRR d' \<and> drrTableRR_var d' \<noteq> 1 then CreditAddedPerRound d' else 0)"
    if m: "(x, u) \<in> set (flows d)" "pkts_of u \<noteq> []" for x u
  proof -
    have "held (flows d) \<noteq> []" using m by (force simp: held_def)
    then have "drrTableRR d' = drrTableRR d" "drrTableRR_var d' = drrTableRR_var d" using k(3) by blast+
    then show ?thesis unfolding k(1) using deficits_boundedD [OF assms(2) m] by (simp only:)
  qed
  note was = this
  show ?thesis
    using assms(1,3-5)
  proof (cases rule: drr_queue_cases [case_names new old])
    case new
    have "Priority (new_flow d (fr p) p junk) = 0" by (simp add: new_flow_def Let_def)
    then show ?thesis using new(2) was assms(6) C k(1) by (auto simp: deficits_bounded_def)
  next
    case (old b t xs ys)
    have "Priority u \<le> L + (if x = drrTableRR d' \<and> drrTableRR_var d' \<noteq> 1 then CreditAddedPerRound d' else 0)"
      if m: "(x, u) \<in> set (flows d')" "pkts_of u \<noteq> []" for x u
    proof (cases "u = add_packet (fr p) p t \<and> x = b")
      case True
      show ?thesis
      proof (cases "pkts_of t = []")
        case e: True
        then show ?thesis using True add_packet_Priority [OF old(4)] assms(6) C k(1) by simp
      next
        case False
        then have "Priority t \<le> L + (if x = drrTableRR d' \<and> drrTableRR_var d' \<noteq> 1 then CreditAddedPerRound d' else 0)"
          using was [of x t] True old(2) by simp
        then show ?thesis using True add_packet_Priority [OF old(4)] False by simp
      qed
    next
      case False
      then show ?thesis using was [of x u] m old(2,3) by auto
    qed
    then show ?thesis by (auto simp: deficits_bounded_def)
  qed
qed

text \<open>
  C7: an upcall never passes a packet by.  When no packet is longer than the credit of a round, any
  number of upcalls, at least as many as packets are queued, takes every packet off the scheduler, each
  exactly once: none is lost, and no flow waits forever.
\<close>

theorem drr_serves_all:
  assumes "drr_ok fr d" "drr_ready fr d" "length (held (flows d)) \<le> n"
  shows "mset (drain drr_take n (fr, jk, d)) = mset (held (flows d))"
  using dq.drain_complete [of "(fr, jk, d)" "mset (held (flows d))" n] assms by (simp add: drr_rep_def)

text \<open>
  C6: the round robin is fair to the byte.  Over any run in which two flows are never without packets,
  whatever arrives and however often the binder asks, the bytes the two flows send differ by at most
  twice a credit and the longest packet.
\<close>

theorem drr_fair:
  assumes "drr_ok fr d" "deficits_bounded L d" "\<forall>p. flen fr p \<le> L"
    and "drr_run fr (\<lambda>s. backlogged x s \<and> backlogged y s) d es d'"
  shows "\<bar>bytes_sent fr x es - bytes_sent fr y es\<bar> \<le> 2 * (CreditAddedPerRound d + L)"
proof -
  let ?C = "CreditAddedPerRound d"
  have L: "0 \<le> L" using spec [OF assms(3), of NULL] by (auto simp: flen_def intro: order_trans [OF uint_ge_0])
  have "deficits_bounded L d'"
    using assms(4,1,2)
  proof (induction rule: drr_run.induct)
    case (run_step d e d' es d'')
    have "deficits_bounded L d'"
      using run_step.hyps(2)
    proof (cases rule: drr_stepE [consumes 1, case_names queued freed served])
      case (queued junk p)
      then show ?thesis using queue_bounded [OF run_step.prems queued(2) new_addr_fresh L] by simp
    next
      case freed
      then show ?thesis using run_step.prems by simp
    next
      case (served out)
      then show ?thesis using pick_bounded [OF run_step.prems _ served(2)] assms(3) by blast
    qed
    then show ?case using run_step.IH drr_step_ok [OF run_step.prems(1) run_step.hyps(2)] by blast
  qed
  moreover note s = run_share [OF assms(4,1), of x y]
  moreover have b: "backlogged x d" "backlogged x d'" "backlogged y d" "backlogged y d'"
    using run_end_states [OF assms(4)] by blast+
  moreover have ok: "drr_ok fr d'" "CreditAddedPerRound d' = ?C" using s by blast+
  ultimately have r: "- ?C \<le> deficit z d - ?C * had_turn z d" "deficit z d - ?C * had_turn z d \<le> L"
    "- ?C \<le> deficit z d' - ?C * had_turn z d'" "deficit z d' - ?C * had_turn z d' \<le> L" if "z = x \<or> z = y" for z
    using turn_range [of fr d L z] turn_range [of fr d' L z] assms(1,2) that by auto
  have "bytes_sent fr x es - bytes_sent fr y es = ?C * (credits_given x es - credits_given y es)
    + (deficit x d - deficit x d') - (deficit y d - deficit y d')"
    using s by (simp add: algebra_simps)
  also have "credits_given x es - credits_given y es = had_turn x d' - had_turn x d - (had_turn y d' - had_turn y d)"
    using s by simp
  finally have "bytes_sent fr x es - bytes_sent fr y es =
    (deficit x d - ?C * had_turn x d) - (deficit x d' - ?C * had_turn x d')
    - ((deficit y d - ?C * had_turn y d) - (deficit y d' - ?C * had_turn y d'))" by (simp add: algebra_simps)
  then show ?thesis using r [of x] r [of y] by simp
qed

text \<open>
  C35: a packet longer than the credit of a round stops the scheduler.  When the round comes to a flow
  whose first packet exceeds what the flow has with its credit, the upcall sends nothing, and neither
  does any later one, although the other flows have packets.
\<close>

theorem long_packet_stops_service:
  assumes "drr_ok fr d" "map_of (flows d) (drrTableRR d) = Some t" "pkts_of t \<noteq> []" "drrTableRR_var d = 1"
    and "Priority t + CreditAddedPerRound d < pkt_length t"
  shows "\<exists>d'. drr_pick (flen fr) d = Some (Inr (None, d')) \<and> drr_pick (flen fr) d' = Some (Inr (None, d'))
    \<and> held (flows d') = held (flows d)"
proof -
  let ?a = "drrTableRR d"
  obtain xs ys where r: "flows d = xs @ (?a, t) # ys" using map_of_SomeD [OF assms(2)] by (meson split_list)
  have ft: "flow_table (flows d)" "0 \<le> CreditAddedPerRound d" and ok: "flow_ok fr t"
    using assms(1) flow_okD [OF assms(1,2)] by (simp_all add: drr_ok_def)
  have "Counter t \<noteq> 0" using ok assms(3) by (simp add: flow_ok_def)
  then have g: "give_credit d t = (t\<lparr>Priority := Priority t + CreditAddedPerRound d\<rparr>, 0)"
    using assms(4) by (simp add: give_credit_def)
  define t1 where "t1 = t\<lparr>Priority := Priority t + CreditAddedPerRound d\<rparr>"
  define d' where "d' = d\<lparr>flows := xs @ (?a, t1) # ys, drrTableRR_var := 0\<rparr>"
  have p: "drr_pick (flen fr) d = Some (Inr (None, d'))"
    using drr_pick_upcall [OF assms(1) r assms(3)] assms(5) g by (simp add: upcall_def d'_def t1_def)
  have ok': "drr_ok fr d'" using credit_ok [OF assms(1) r assms(3), of 0] g by (simp add: d'_def t1_def)
  have g': "give_credit d' t1 = (t1, 0)" by (simp add: give_credit_def d'_def)
  have "flows d' = xs @ (drrTableRR d', t1) # ys" "pkts_of t1 \<noteq> []" using assms(3) by (simp_all add: d'_def t1_def)
  from drr_pick_upcall [OF ok' this] have "drr_pick (flen fr) d' = Some (Inr (None, d'))"
    using assms(5) g' by (simp add: upcall_def d'_def t1_def)
  then show ?thesis using p r by (auto simp: d'_def t1_def flow_simps)
qed

end
