(* ===== verification/DrrModule.thy ===== *)
theory DrrModule
  imports DrrService
begin

text \<open>
  The module \<open>drr\<close> in its place above a binder: what \<open>send\<close> does with a packet while the binder is full,
  how the upcall \<open>intrq\<close> refills the binder, the masks \<open>init\<close> reads, and the timer of the idle flows.
\<close>

subsection \<open>Masks\<close>

text \<open>The dotted decimal form of four numbers.\<close>

fun dec :: "nat \<Rightarrow> string" where
  "dec n = (if n < 10 then [char_of (48 + n)] else dec (n div 10) @ [char_of (48 + n mod 10)])"

declare dec.simps [simp del]

definition dotted :: "nat \<Rightarrow> nat \<Rightarrow> nat \<Rightarrow> nat \<Rightarrow> string" where
  "dotted a b c d = dec a @ CHR ''.'' # dec b @ CHR ''.'' # dec c @ CHR ''.'' # dec d"

lemma dec_Nil [simp]: "dec n \<noteq> []"
  by (subst dec.simps) simp

lemma digit_char:
  assumes "n < 10"
  shows "is_digit (char_of (48 + n :: nat))" "of_char (char_of (48 + n) :: char) = (48 + n :: nat)"
  using assms by (simp_all add: is_digit_def)

lemma dec_digits: "\<forall>c\<in>set (dec n). is_digit c"
proof (induction n rule: dec.induct)
  case (1 n)
  have "n mod 10 < 10" by simp
  then show ?case using 1 digit_char(1) by (subst dec.simps) auto
qed

lemma digits_value_append: "\<forall>c\<in>set s. is_digit c \<Longrightarrow> digits_value k (s @ u) = digits_value (digits_value k s) u"
  by (induction s arbitrary: k) auto

lemma digits_value_dec: "digits_value 0 (dec n) = n"
proof (induction n rule: dec.induct)
  case (1 n)
  have m: "n mod 10 < 10" by simp
  show ?case
  proof (cases "n < 10")
    case True
    then show ?thesis using digit_char [OF True] by (subst dec.simps) simp
  next
    case False
    then have "digits_value 0 (dec n) = digits_value (n div 10) [char_of (48 + n mod 10)]"
      using 1 digits_value_append [OF dec_digits] by (subst dec.simps) simp
    then show ?thesis unfolding digits_value.simps digit_char(2) [OF m] using digit_char(1) [OF m] by simp
  qed
qed

lemma atol_dec: "atol (dec n) = of_nat n" "atol (dec n @ CHR ''.'' # s) = of_nat n"
  using digits_value_append [OF dec_digits, of 0 n "CHR ''.'' # s"]
  by (simp_all add: atol_def digits_value_dec is_digit_def)

lemma dot_not_digit: "\<not> is_digit (CHR ''.'')"
  by (simp add: is_digit_def)

lemma next_dot_append:
  assumes "\<forall>c\<in>set u. is_digit c" "p = length s"
  shows "next_dot (s @ u @ CHR ''.'' # v) p = Inr (length s + length u)"
proof -
  have "takeWhile (\<lambda>c. c \<noteq> CHR ''.'') (u @ CHR ''.'' # v) = u"
    using assms(1) dot_not_digit by (subst takeWhile_append2) auto
  then show ?thesis using assms(2) by (simp add: next_dot_def Let_def)
qed

text \<open>
  \<open>init\<close> reads a mask back from its dotted decimal form, whatever the four numbers are; numbers
  above 255 carry into the next higher byte.
\<close>

theorem parse_mask_dotted:
  "parse_mask (dotted a b c d) = Inr (of_nat (a * 16777216 + b * 65536 + c * 256 + d))"
proof -
  obtain x u where x: "dec a = x # u" by (cases "dec a") auto
  define s1 where "s1 = dec a @ [CHR ''.'']"
  define s2 where "s2 = s1 @ dec b @ [CHR ''.'']"
  define s3 where "s3 = s2 @ dec c @ [CHR ''.'']"
  have s: "dotted a b c d = [x] @ u @ CHR ''.'' # dec b @ CHR ''.'' # dec c @ CHR ''.'' # dec d"
    "dotted a b c d = s1 @ dec b @ CHR ''.'' # dec c @ CHR ''.'' # dec d"
    "dotted a b c d = s2 @ dec c @ CHR ''.'' # dec d" "dotted a b c d = s3 @ dec d"
    unfolding s3_def s2_def s1_def by (simp_all add: dotted_def x)
  have l: "1 + length u = length (dec a)" by (simp add: x)
  have n1: "next_dot (dotted a b c d) 1 = Inr (length (dec a))"
    unfolding s(1) using next_dot_append [of u 1 "[x]"] dec_digits [of a] l by (simp add: x)
  have l: "length (dec a) + 1 = length s1" "length s1 + length (dec b) + 1 = length s2"
    "length s2 + length (dec c) + 1 = length s3" by (simp_all add: s1_def s2_def s3_def)
  have n2: "next_dot (dotted a b c d) (length s1) = Inr (length s1 + length (dec b))"
    unfolding s(2) by (rule next_dot_append) (simp_all add: dec_digits)
  have n3: "next_dot (dotted a b c d) (length s2) = Inr (length s2 + length (dec c))"
    unfolding s(3) by (rule next_dot_append) (simp_all add: dec_digits)
  have d: "drop (length s1) (dotted a b c d) = dec b @ CHR ''.'' # dec c @ CHR ''.'' # dec d" unfolding s(2) by simp
  have d2: "drop (length s2) (dotted a b c d) = dec c @ CHR ''.'' # dec d" unfolding s(3) by simp
  have d3: "drop (length s3) (dotted a b c d) = dec d" unfolding s(4) by simp
  have "atol (dotted a b c d) = of_nat a" by (simp add: dotted_def atol_dec)
  then show ?thesis unfolding parse_mask_def n1 sum_bind.simps l n2 n3 d d2 d3 by (simp add: atol_dec)
qed

lemma empty_tbl_Counter [simp]: "Counter (empty_tbl t) = 0"
  by (simp add: empty_tbl_def)

text \<open>
  After \<open>init\<close> with the masks in dotted form the scheduler holds nothing, its invariant holds, and
  the binder below calls it back when it has room.
\<close>

theorem drr_start_ok:
  assumes "0 \<le> CreditAddedPerRound (drrs st a)"
  shows "\<exists>st'. drr_start now up (Some (dotted a1 a2 a3 a4)) (Some (dotted b1 b2 b3 b4)) proto sport dport a st
      = Inr (now + 10000000, st')
    \<and> drr_ok fr (drrs st' a) \<and> drr_ready fr (drrs st' a) \<and> held (flows (drrs st' a)) = []
    \<and> s_mask_long (drrs st' a) = of_nat (a1 * 16777216 + a2 * 65536 + a3 * 256 + a4)
    \<and> co_type (mbq st' (sendtarget (drr_obj (drrs st a)))) = MEMB_UPCALL"
  using assms
  by (simp add: drr_start_def drr_init_def parse_mask_dotted Let_def drr_ok_def drr_ready_def flow_table_def held_def
      set_upcall_memb_def upd_mb_def upd_drr_def)

subsection \<open>send\<close>

lemma find_flow_counts: "find_flow d f = Some (b, t) \<Longrightarrow> (b, t) \<in> set (flows d) \<and> Grades d f t = 5"
  by (auto simp: find_flow_def dest!: find_Some_in_set)

lemma upd_drr_fields [simp]:
  "drrs (upd_drr a g st) a = g (drrs st a)" "frame_of (upd_drr a g st) = frame_of st" "mbs (upd_drr a g st) = mbs st"
  "pkts (upd_drr a g st) = pkts st" "freed_pkts (upd_drr a g st) = freed_pkts st" "MBH (upd_drr a g st) = MBH st"
  by (simp_all add: upd_drr_def frame_of_def fun_eq_iff)

lemma upd_drr_upd [simp]: "upd_drr a g (upd_drr a h st) = upd_drr a (\<lambda>d. g (h d)) st"
  by (simp add: upd_drr_def)

lemma upd_drr_same: "g (drrs st a) = h (drrs st a) \<Longrightarrow> upd_drr a g st = upd_drr a h st"
  by (simp add: upd_drr_def)

lemma frame_of_freed [simp]: "frame_of (st\<lparr>freed_pkts := F\<rparr>) = frame_of st"
  by (simp add: frame_of_def fun_eq_iff)

text \<open>
  C30: an IP packet that comes while the binder below is full is held by the scheduler, exactly once,
  unless all the buffers are taken or its flow has its share of them; then it is freed.  \<open>send\<close> reports
  success in both cases, leaves the binders alone and keeps the invariant.
\<close>

theorem drr_send_holds:
  assumes "pkt \<noteq> NULL" "DataInfo (pkts st pkt) \<noteq> NULL" "drr_ok (frame_of st) (drrs st a)"
    and "ether_type (frame_of st pkt) = 0x0800" "MB_QFULL (mbq st (sendtarget (drr_obj (drrs st a))))"
  shows "\<exists>st'. drr_send V a pkt st = Some (Inr (1, st')) \<and> mbs st' = mbs st \<and> pkts st' = pkts st
    \<and> drr_ok (frame_of st') (drrs st' a)
    \<and> (if DrrPacketTotal (drrs st a) \<ge> DrrMaxBufSpaceForAllFlows (drrs st a)
          \<or> (\<exists>b t. find_flow (drrs st a) (frame_of st pkt) = Some (b, t) \<and> Counter t \<ge> DrrMaxQueLenForEachFlow (drrs st a))
       then drrs st' a = drrs st a \<and> freed_pkts st' = insert pkt (freed_pkts st)
       else mset (held (flows (drrs st' a))) = add_mset pkt (mset (held (flows (drrs st a)))) \<and> freed_pkts st' = freed_pkts st)"
proof -
  let ?d = "drrs st a" and ?f = "frame_of st pkt"
  let ?a = "new_addr (flows (drrs st a))"
  let ?q = "drr_queue ?a (malloc_junk st ?a) ?f pkt ?d"
  have n: "?q = None \<longleftrightarrow> DrrPacketTotal ?d \<ge> DrrMaxBufSpaceForAllFlows ?d
      \<or> (\<exists>b t. find_flow ?d ?f = Some (b, t) \<and> Counter t \<ge> DrrMaxQueLenForEachFlow ?d)"
    by (auto simp: drr_queue_def split: option.splits prod.splits)
  have s: "drr_send V a pkt st = Some (Inr (1, case ?q of None \<Rightarrow> st\<lparr>freed_pkts := insert pkt (freed_pkts st)\<rparr>
      | Some d' \<Rightarrow> upd_drr a (\<lambda>_. d') st))"
    using assms by (simp add: drr_send_def Let_def split: option.splits)
  show ?thesis
  proof (cases ?q)
    case None
    then show ?thesis using s n assms(3) by simp
  next
    case (Some d')
    note k = drr_queue_ok [OF assms(3) Some new_addr_fresh]
    have "\<not> (DrrPacketTotal ?d \<ge> DrrMaxBufSpaceForAllFlows ?d
      \<or> (\<exists>b t. find_flow ?d ?f = Some (b, t) \<and> Counter t \<ge> DrrMaxQueLenForEachFlow ?d))" using Some n by simp
    then show ?thesis unfolding s using k Some by auto
  qed
qed

text \<open>
  control packets that come while the binder is full are lost.  The counter of the table they are
  put into stays 0: a second one replaces the first, and the upcall of an otherwise empty scheduler
  does nothing.
\<close>

theorem control_packets_lost:
  assumes "p1 \<noteq> NULL" "DataInfo (pkts st p1) \<noteq> NULL" "ether_type (frame_of st p1) = 0x0001"
    and "p2 \<noteq> NULL" "DataInfo (pkts st p2) \<noteq> NULL" "ether_type (frame_of st p2) = 0x0001"
    and "MB_QFULL (mbq st (sendtarget (drr_obj (drrs st a))))"
    and "Counter (SpanningTbl (drrs st a)) = 0" "Counter (SpecialTbl (drrs st a)) = 0" "DrrPacketTotal (drrs st a) = 0"
  shows "run_bind (drr_send V a p1 st) (\<lambda>(r, st1). run_bind (drr_send V a p2 st1) (\<lambda>(r, st2). drr_intrq nidf a st2))
    = Some (Inr (1, upd_drr a (\<lambda>d. d\<lparr>SpanningTbl := (SpanningTbl d)\<lparr>pkts_of := [p2]\<rparr>\<rparr>) st))"
proof -
  have s1: "drr_send V a p1 st = Some (Inr (1, upd_drr a (\<lambda>d. d\<lparr>SpanningTbl := keep_control p1 (SpanningTbl d)\<rparr>) st))"
    using assms by (simp add: drr_send_def Let_def)
  let ?st2 = "upd_drr a (\<lambda>d. d\<lparr>SpanningTbl := (SpanningTbl d)\<lparr>pkts_of := [p2]\<rparr>\<rparr>) st"
  have "upd_drr a (\<lambda>d. d\<lparr>SpanningTbl := keep_control p2 (SpanningTbl d)\<rparr>)
      (upd_drr a (\<lambda>d. d\<lparr>SpanningTbl := keep_control p1 (SpanningTbl d)\<rparr>) st) = ?st2"
    unfolding upd_drr_upd using assms(8) by (intro upd_drr_same) (simp add: keep_control_def)
  then have s2: "drr_send V a p2 (upd_drr a (\<lambda>d. d\<lparr>SpanningTbl := keep_control p1 (SpanningTbl d)\<rparr>) st) = Some (Inr (1, ?st2))"
    using assms by (simp add: drr_send_def Let_def del: upd_drr_upd)
  have "upd_drr a (\<lambda>_. drrs ?st2 a) ?st2 = ?st2" unfolding upd_drr_upd by (rule upd_drr_same) simp
  moreover have "drr_pick (ip_length ?st2) (drrs ?st2 a) = Some (Inr (None, drrs ?st2 a))"
    using assms by (simp add: drr_pick_def)
  ultimately have "drr_intrq nidf a ?st2 = Some (Inr (1, ?st2))"
    by (simp only: drr_intrq_def run_bind_def Let_def) simp
  then show ?thesis using s1 s2 by (simp add: run_bind_def)
qed

subsection \<open>The upcall\<close>

lemma drr_ok_cong: "(\<And>p. p \<in> set (held (flows d)) \<Longrightarrow> flen fr p = flen fr' p) \<Longrightarrow> drr_ok fr d \<Longrightarrow> drr_ok fr' d"
proof -
  assume e: "\<And>p. p \<in> set (held (flows d)) \<Longrightarrow> flen fr p = flen fr' p" and ok: "drr_ok fr d"
  have "flow_ok fr' t" if t: "t \<in> snd ` set (flows d)" for t
  proof -
    have "set (pkts_of t) \<subseteq> set (held (flows d))" using t by (auto simp: held_def)
    moreover have "flow_ok fr t" using ok t unfolding drr_ok_def by blast
    ultimately show ?thesis using e by (cases "pkts_of t") (auto simp: flow_ok_def)
  qed
  then show ?thesis using ok by (simp add: drr_ok_def)
qed

lemma drrs_more: "mbstate.more st' = mbstate.more st \<Longrightarrow> drrs st' = drrs st \<and> frames st' = frames st"
  for st :: "'x drr_state_scheme"
  by (cases st; cases st') simp

lemma ip_length_flen: "ip_length st = flen (frame_of st)"
  by (simp add: ip_length_def flen_def fun_eq_iff)


subsection \<open>The timer\<close>

definition aged :: "drrTbl \<Rightarrow> drrTbl" where
  "aged t = (if Counter t \<le> 0 then t\<lparr>Timer := Timer t + 1\<rparr> else t)"

lemma age_flows_Cons: "age_flows ((a, t) # fl) =
    (if 5 \<le> Timer (aged t) then Inl FreedDeref else sum_bind (age_flows fl) (\<lambda>fl'. Inr ((a, aged t) # fl')))"
  by (simp add: aged_def Let_def)

lemma age_flows_eq:
  "age_flows fl = (if \<exists>(a, t)\<in>set fl. 5 \<le> Timer (aged t) then Inl FreedDeref else Inr (map (\<lambda>(a, t). (a, aged t)) fl))"
proof (induction fl)
  case (Cons z fl)
  then show ?case by (cases z) (simp add: age_flows_Cons del: age_flows.simps)
qed simp

text \<open>
  The timer removes no flow without reading freed memory.  It ages the flows that are empty; when one
  of them has been empty for five periods, its memory is freed and then read for the link to the next
  flow.
\<close>

theorem Delete_que_reads_freed_flow:
  "Delete_que now d = (if \<exists>(a, t)\<in>set (flows d). 5 \<le> Timer (aged t) then Inl FreedDeref
     else Inr (now + 10000000, d\<lparr>flows := map (\<lambda>(a, t). (a, aged t)) (flows d)\<rparr>))"
  by (simp add: Delete_que_def age_flows_eq)

definition delete_ticks :: "u64 list \<Rightarrow> drr \<Rightarrow> abort + drr" where
  "delete_ticks = sum_fold (\<lambda>now d. map_sum id snd (Delete_que now d))"

lemma delete_ticks_simps: "delete_ticks [] d = Inr d"
  "delete_ticks (now # tks) d = (if \<exists>(a, t)\<in>set (flows d). 5 \<le> Timer (aged t) then Inl FreedDeref
     else delete_ticks tks (d\<lparr>flows := map (\<lambda>(a, t). (a, aged t)) (flows d)\<rparr>))"
  by (simp_all add: delete_ticks_def Delete_que_def age_flows_eq)

text \<open>
  a flow that stays empty for five ticks of the timer makes the fifth one, at the latest, read freed
  memory.
\<close>

theorem idle_flow_ends_in_freed_memory:
  assumes "(a, t) \<in> set (flows d)" "Counter t \<le> 0" "0 \<le> Timer t" "5 \<le> length ticks"
  shows "delete_ticks ticks d = Inl FreedDeref"
proof -
  have "5 \<le> Timer t + int (length tks) \<Longrightarrow> tks \<noteq> [] \<Longrightarrow> (a, t) \<in> set (flows d) \<Longrightarrow> Counter t \<le> 0 \<Longrightarrow>
    delete_ticks tks d = Inl FreedDeref" for tks
  proof (induction tks arbitrary: t d)
    case (Cons now tks)
    let ?d = "d\<lparr>flows := map (\<lambda>(a, t). (a, aged t)) (flows d)\<rparr>"
    show ?case
    proof (cases "\<exists>(a, t)\<in>set (flows d). 5 \<le> Timer (aged t)")
      case True
      then show ?thesis by (simp add: delete_ticks_simps)
    next
      case False
      have m: "(a, aged t) \<in> set (flows ?d)" using Cons.prems(3) by force
      have g: "Timer (aged t) = Timer t + 1" "Counter (aged t) \<le> 0" using Cons.prems(4) by (simp_all add: aged_def)
      have "\<not> 5 \<le> Timer (aged t)" using False Cons.prems(3) by blast
      then have "tks \<noteq> []" using g(1) Cons.prems(1) by auto
      then have "delete_ticks tks ?d = Inl FreedDeref" using Cons.IH [OF _ _ m g(2)] g(1) Cons.prems(1) by simp
      then show ?thesis using False by (simp add: delete_ticks_simps)
    qed
  qed simp
  then show ?thesis using assms by (cases ticks) auto
qed

subsection \<open>A concrete scheduler\<close>

text \<open>
  Two UDP flows at addresses 1 and 2, of two packets each; those of the first are 1000 bytes long, the
  others 700.
\<close>

definition udp_frame :: "u16 \<Rightarrow> u16 \<Rightarrow> ip_frame" where
  "udp_frame l port = \<lparr>ether_type = 0x0800, ip_src = 0x01000102, ip_dst = 0x01000203, ip_p = 17, ip_len = l,
     th_sport = port, th_dport = 80\<rparr>"

definition two_frames :: "addr \<Rightarrow> ip_frame" where
  "two_frames p = (if p \<le> 4 then udp_frame 1000 7 else udp_frame 700 8)"

definition udp_flow :: "int \<Rightarrow> addr list \<Rightarrow> int \<Rightarrow> drrTbl" where
  "udp_flow port ps l = \<lparr>s_ip = 0x01000102, d_ip = 0x01000203, s_portn = port, d_portn = 80, Protocol = 17,
     Counter = int (length ps), Priority = 0, pkt_length = l, Timer = 0, pkts_of = ps\<rparr>"

definition two_flows :: "int \<Rightarrow> drr" where
  "two_flows c = \<lparr>drr_obj = \<lparr>s_flowctl = DISABLED, r_flowctl = DISABLED, recvtarget = 2, sendtarget = 1\<rparr>,
     DrrPacketTotal = 4, DrrMaxBufSpaceForAllFlows = 200, DrrMaxQueLenForEachFlow = 50, CreditAddedPerRound = c,
     DrrTableAllMax = 2, flows_Counter = 2, flows = [(1, udp_flow 7 [3, 4] 1000), (2, udp_flow 8 [5, 6] 700)],
     drrTableRR = 1, SpecialTbl = udp_flow 0 [] 0, SpanningTbl = udp_flow 0 [] 0, drrTableRR_var = 1,
     protocol_care = ''on'', s_portn_care = ''on'', d_portn_care = ''on'',
     s_mask_long = 0xffffffff, d_mask_long = 0xffffffff\<rparr>"

lemma two_flows_ok: "0 \<le> c \<Longrightarrow> drr_ok two_frames (two_flows c)" "held (flows (two_flows c)) = [3, 4, 5, 6]"
  by (simp_all add: drr_ok_def two_flows_def flow_table_def udp_flow_def flow_ok_def flow_simps flen_def two_frames_def
      udp_frame_def)

lemma two_flows_ready: "drr_ready two_frames (two_flows 1500)"
  by (simp add: drr_ready_def two_flows_ok(2)) (simp add: two_flows_def flen_def two_frames_def udp_frame_def)

theorem drr_serves_all_witness: "mset (drain drr_take 4 (two_frames, \<lambda>_. udp_flow 0 [] 0, two_flows 1500)) = {#3, 4, 5, 6#}"
  using drr_serves_all [OF two_flows_ok(1) two_flows_ready, of 4] by (simp add: two_flows_ok(2) add_mset_commute)

lemma two_flows_backlogged: "backlogged 1 (two_flows c)" "backlogged 2 (two_flows c)"
  by (simp_all add: backlogged_def two_flows_def udp_flow_def)

lemma two_flows_bounded: "0 \<le> c \<Longrightarrow> deficits_bounded 1000 (two_flows c)"
  by (simp add: deficits_bounded_def two_flows_def udp_flow_def)

text \<open>One upcall of the two flows.\<close>

definition one_served :: drr where
  "one_served = (two_flows 1500)\<lparr>DrrPacketTotal := 3,
     flows := [(1, (udp_flow 7 [4] 1000)\<lparr>Priority := 500\<rparr>), (2, udp_flow 8 [5, 6] 700)], drrTableRR := 2\<rparr>"

lemma two_flows_pick: "drr_pick (flen two_frames) (two_flows 1500) = Some (Inr (Some 3, one_served))"
proof -
  have "drr_pick (flen two_frames) (two_flows 1500)
    = Some (Inr (upcall two_frames (two_flows 1500) [] (udp_flow 7 [3, 4] 1000) [(2, udp_flow 8 [5, 6] 700)]))"
    using drr_pick_upcall [OF two_flows_ok(1), of 1500 "[]" "udp_flow 7 [3, 4] 1000" "[(2, udp_flow 8 [5, 6] 700)]"]
    by (simp add: two_flows_def udp_flow_def)
  also have "upcall two_frames (two_flows 1500) [] (udp_flow 7 [3, 4] 1000) [(2, udp_flow 8 [5, 6] 700)] = (Some 3, one_served)"
    by (simp add: upcall_def two_flows_def udp_flow_def give_credit_def taken_def one_served_def flen_def two_frames_def
        udp_frame_def next_round_def Let_def)
  finally show ?thesis .
qed

theorem drr_fair_witness: "\<bar>bytes_sent two_frames 1 [Served 1 True (Some 3)] - bytes_sent two_frames 2 [Served 1 True (Some 3)]\<bar> \<le> 5000"
proof -
  have "drr_step two_frames (two_flows 1500) (Served (drrTableRR (two_flows 1500)) (credited (two_flows 1500)) (Some 3)) one_served"
    using two_flows_pick by (rule drr_step.served)
  moreover have "drrTableRR (two_flows 1500) = 1" "credited (two_flows 1500)"
    by (simp_all add: credited_def two_flows_ok(2)) (simp_all add: two_flows_def)
  moreover have "backlogged 1 one_served \<and> backlogged 2 one_served"
    by (simp add: backlogged_def one_served_def two_flows_def udp_flow_def)
  ultimately have s: "drr_step two_frames (two_flows 1500) (Served 1 True (Some 3)) one_served"
    "backlogged 1 one_served \<and> backlogged 2 one_served" by simp_all
  have r: "drr_run two_frames (\<lambda>s. backlogged 1 s \<and> backlogged 2 s) (two_flows 1500) [Served 1 True (Some 3)] one_served"
  proof (rule run_step)
    show "backlogged 1 (two_flows 1500) \<and> backlogged 2 (two_flows 1500)" using two_flows_backlogged by blast
    show "drr_run two_frames (\<lambda>s. backlogged 1 s \<and> backlogged 2 s) one_served [] one_served" using s(2) by (rule run_end)
  qed (rule s(1))
  have "\<forall>p. flen two_frames p \<le> 1000" by (simp add: flen_def two_frames_def udp_frame_def)
  from drr_fair [OF two_flows_ok(1) two_flows_bounded this r] show ?thesis by (simp add: two_flows_def)
qed

theorem long_packet_stops_service_witness:
  "\<exists>d'. drr_pick (flen two_frames) (two_flows 900) = Some (Inr (None, d')) \<and> drr_pick (flen two_frames) d' = Some (Inr (None, d'))"
  using long_packet_stops_service [OF two_flows_ok(1), of 900 "udp_flow 7 [3, 4] 1000"]
  by (simp add: two_flows_def udp_flow_def) blast

theorem idle_flow_ends_in_freed_memory_witness:
  "delete_ticks [1, 2, 3, 4, 5] ((two_flows 1500)\<lparr>flows := [(1, udp_flow 7 [] 1000)]\<rparr>) = Inl FreedDeref"
  by (rule idle_flow_ends_in_freed_memory [of 1 "udp_flow 7 [] 1000"]) (simp_all add: udp_flow_def)

text \<open>The module 20 with these flows, above binder 1, which is full, or above binder 2, which has room.\<close>

definition one_drr :: "addr \<Rightarrow> (addr \<Rightarrow> ip_frame) \<Rightarrow> drr \<Rightarrow> drr_state" where
  "one_drr b fr d = \<lparr>pkts = (\<lambda>p. (pkts full_binder p)\<lparr>DataInfo := p\<rparr>), mbs = mbs full_binder, MBH = MBH full_binder,
     pflags = pflags full_binder,
     drrs = (\<lambda>_. d\<lparr>drr_obj := \<lparr>s_flowctl = DISABLED, r_flowctl = DISABLED, recvtarget = 2, sendtarget = b\<rparr>\<rparr>),
     frames = fr, malloc_junk = (\<lambda>_. udp_flow 0 [] 0), freed_pkts = {}\<rparr>"

lemma one_drr_fields:
  "frame_of (one_drr b fr d) = fr" "MB_QFULL (mbq (one_drr 1 fr d) 1)" "sendtarget (drr_obj (drrs (one_drr b fr d) a)) = b"
  "drr_ok fr' (drrs (one_drr b fr d) a) = drr_ok fr' d" "drr_ready fr' (drrs (one_drr b fr d) a) = drr_ready fr' d"
  "flows (drrs (one_drr b fr d) a) = flows d" "DataInfo (pkts (one_drr b fr d) p) = p"
  by (simp_all add: frame_of_def one_drr_def fun_eq_iff full_binder_def MBinder_def MB_QFULL_def drr_ok_def drr_ready_def)

theorem drr_send_holds_witness:
  "\<exists>st'. drr_send (answer_env 1) 20 7 (one_drr 1 two_frames (two_flows 1500)) = Some (Inr (1, st'))
     \<and> mset (held (flows (drrs st' 20))) = {#3, 4, 5, 6, 7#}"
proof -
  let ?st = "one_drr 1 two_frames (two_flows 1500)"
  have l: "\<not> 200 \<le> DrrPacketTotal (two_flows 1500)" "DrrMaxBufSpaceForAllFlows (two_flows 1500) = 200"
    "DrrMaxQueLenForEachFlow (two_flows 1500) = 50" by (simp_all add: two_flows_def)
  have c: "(b, t) \<in> set (flows (two_flows 1500)) \<Longrightarrow> \<not> 50 \<le> Counter t" for b t
    by (auto simp: two_flows_def udp_flow_def)
  have o: "DrrPacketTotal (drrs (one_drr 1 two_frames (two_flows 1500)) 20) = DrrPacketTotal (two_flows 1500)"
    "DrrMaxBufSpaceForAllFlows (drrs (one_drr 1 two_frames (two_flows 1500)) 20) = 200"
    "DrrMaxQueLenForEachFlow (drrs (one_drr 1 two_frames (two_flows 1500)) 20) = 50" by (simp_all add: one_drr_def l)
  have f: "\<not> (\<exists>b t. find_flow (drrs (one_drr 1 two_frames (two_flows 1500)) 20) (two_frames 7) = Some (b, t) \<and> 50 \<le> Counter t)"
    using c find_flow_counts by (fastforce simp: one_drr_fields)
  have e: "ether_type (two_frames 7) = 0x0800" by (simp add: two_frames_def udp_frame_def)
  from drr_send_holds [of 7 ?st 20 "answer_env 1"] obtain st' where
    "drr_send (answer_env 1) 20 7 ?st = Some (Inr (1, st'))"
    "mset (held (flows (drrs st' 20))) = add_mset 7 (mset (held (flows (drrs ?st 20))))"
    using o f l e by (auto simp: one_drr_fields two_flows_ok simp del: One_nat_def split: if_splits)
  then show ?thesis by (auto simp: one_drr_fields two_flows_ok)
qed


theorem control_packets_lost_witness:
  "\<exists>st'. run_bind (drr_send (answer_env 1) 20 7 (one_drr 1 (\<lambda>_. (udp_frame 60 0)\<lparr>ether_type := 1\<rparr>) ((two_flows 1500)\<lparr>DrrPacketTotal := 0, flows := []\<rparr>)))
      (\<lambda>(r, st1). run_bind (drr_send (answer_env 1) 20 8 st1) (\<lambda>(r, st2). drr_intrq (\<lambda>_. 1) 20 st2)) = Some (Inr (1, st'))
    \<and> pkts_of (SpanningTbl (drrs st' 20)) = [8]"
proof -
  let ?d = "(two_flows 1500)\<lparr>DrrPacketTotal := 0, flows := []\<rparr>"
  let ?st = "one_drr 1 (\<lambda>_. (udp_frame 60 0)\<lparr>ether_type := 1\<rparr>) ?d"
  have "Counter (SpanningTbl (drrs ?st 20)) = 0" "Counter (SpecialTbl (drrs ?st 20)) = 0" "DrrPacketTotal (drrs ?st 20) = 0"
    by (simp_all add: one_drr_def two_flows_def udp_flow_def)
  then have "run_bind (drr_send (answer_env 1) 20 7 ?st)
      (\<lambda>(r, st1). run_bind (drr_send (answer_env 1) 20 8 st1) (\<lambda>(r, st2). drr_intrq (\<lambda>_. 1) 20 st2))
    = Some (Inr (1, upd_drr 20 (\<lambda>d. d\<lparr>SpanningTbl := (SpanningTbl d)\<lparr>pkts_of := [8]\<rparr>\<rparr>) ?st))"
    by (intro control_packets_lost) (simp_all add: one_drr_fields del: One_nat_def)
  then show ?thesis by auto
qed

theorem drr_start_ok_witness:
  "\<exists>st'. drr_start 0 99 (Some (dotted 255 255 0 0)) (Some (dotted 255 0 0 0)) None None None 20 (one_drr 1 two_frames (two_flows 1500))
      = Inr (10000000, st') \<and> s_mask_long (drrs st' 20) = 0xffff0000"
  using drr_start_ok [of "one_drr 1 two_frames (two_flows 1500)" 20 0 99 255 255 0 0 255 0 0 0 None None None]
  by (fastforce simp: one_drr_def two_flows_def)

end
