(* ===== verification/SwitchTable.thy ===== *)
theory SwitchTable
  imports ModuleObject
begin

text \<open>
  The address tables of the switch of \<open>module/sw/sw.cc\<close>, its ports and its data.  A table is the linked
  list of its records in order of insertion, with the count \<open>entrys\<close> the code keeps beside it; an
  element of the list is named by its position.  The normal table ages, the permanent one, which access
  points use, does not.  \<open>findport\<close> gives \<open>NULL\<close> for an address it does not know.
\<close>

type_synonym mac = "u8 list"

definition SW_TBL_MAX_ENTRYS :: int where "SW_TBL_MAX_ENTRYS = 256"

record mapTbl =
  mt_mac :: mac
  mt_port :: addr
  mt_portNum :: u8
  mt_timestamp :: u64

record swTbl =
  mt_list :: "mapTbl list"
  entrys :: int

record SwPort =
  PortState :: u8
  SwSignal :: u8
  RootID :: int
  Cost :: int
  Bridge :: int
  Age :: u8
  portNum :: u8
  port :: addr

record SpanTreeTbl =
  st_RootID :: int
  st_Cost :: int
  st_Bridge :: int
  st_RootPort :: u8

record sw =
  sw_nid :: int
  PortList :: "SwPort list"
  num_port :: nat
  swTable :: swTbl
  pmntSwTable :: swTbl
  SWITCH_MODE :: "string option"
  flushInterval :: int
  flushInterval_tick :: u64
  SpanningTreeProtocol :: string
  HelloTime :: int
  MaxAge :: int
  ForwardDelay :: int
  HelloTimeTick :: u64
  ForwardDelayTick :: u64
  SpanTimeOutTick :: u64
  STABLE :: bool
  STABLEage :: int
  RootDeath :: int
  SpanTreeTbl0 :: SpanTreeTbl
  FlushSwTblFlag :: bool
  TCNFlag :: bool
  TCAFlag :: bool

datatype which = Normal | Permanent

definition tbl :: "which \<Rightarrow> sw \<Rightarrow> swTbl" where
  "tbl w s = (case w of Normal \<Rightarrow> swTable s | Permanent \<Rightarrow> pmntSwTable s)"

definition set_tbl :: "which \<Rightarrow> swTbl \<Rightarrow> sw \<Rightarrow> sw" where
  "set_tbl w t s = (case w of Normal \<Rightarrow> s\<lparr>swTable := t\<rparr> | Permanent \<Rightarrow> s\<lparr>pmntSwTable := t\<rparr>)"

text \<open>The ports a loop over \<open>PortList\<close> visits.\<close>

definition ports :: "sw \<Rightarrow> SwPort list" where
  "ports s = take (num_port s) (PortList s)"

text \<open>The position of the first record for an address.\<close>

definition entry_index :: "mac \<Rightarrow> mapTbl list \<Rightarrow> nat option" where
  "entry_index m xs =
     (let k = length (takeWhile (\<lambda>e. mt_mac e \<noteq> m) xs) in if k < length xs then Some k else None)"

definition delSwTbl :: "nat \<Rightarrow> swTbl \<Rightarrow> int \<times> swTbl" where
  "delSwTbl k t =
     (if entrys t \<le> 0 then (-1, t)
      else if entrys t = 1 then (1, t\<lparr>mt_list := [], entrys := 0\<rparr>)
      else (1, t\<lparr>mt_list := take k (mt_list t) @ drop (Suc k) (mt_list t), entrys := entrys t - 1\<rparr>))"

definition findSwTbl :: "u64 \<Rightarrow> mac \<Rightarrow> addr \<Rightarrow> which \<Rightarrow> sw \<Rightarrow> int \<times> sw" where
  "findSwTbl now m p w s =
     (case entry_index m (mt_list (tbl w s)) of
        None \<Rightarrow> (0, s)
      | Some k \<Rightarrow>
          let e = mt_list (tbl w s) ! k in
          if mt_port e = p then
            (1, if w = Normal
                then set_tbl w ((tbl w s)\<lparr>mt_list := (mt_list (tbl w s))
                       [k := e\<lparr>mt_timestamp := now + flushInterval_tick s\<rparr>]\<rparr>) s
                else s)
          else (0, set_tbl w (snd (delSwTbl k (tbl w s))) s))"

definition findport :: "mac \<Rightarrow> swTbl \<Rightarrow> addr" where
  "findport m t =
     (case entry_index m (mt_list t) of None \<Rightarrow> NULL | Some k \<Rightarrow> mt_port (mt_list t ! k))"

text \<open>The first port a loop finds.\<close>

definition port_with :: "(SwPort \<Rightarrow> bool) \<Rightarrow> sw \<Rightarrow> SwPort option" where
  "port_with P s = List.find P (ports s)"

definition addSwTbl :: "u64 \<Rightarrow> mac \<Rightarrow> addr \<Rightarrow> which \<Rightarrow> sw \<Rightarrow> abort + (int \<times> sw)" where
  "addSwTbl now m p w s =
     (if entrys (tbl w s) \<ge> SW_TBL_MAX_ENTRYS then Inr (-1, s)
      else let (r1, s1) = findSwTbl now m p w s in
        if r1 \<noteq> 0 then Inr (1, s1)
        else let (r2, s2) = findSwTbl now m p Permanent s1 in
          if r2 \<noteq> 0 then Inr (1, s2)
          else case port_with (\<lambda>q. port q \<noteq> NULL \<and> port q = p) s2 of
            None \<Rightarrow> Inl NullDeref
          | Some q \<Rightarrow>
              (let t = tbl w s2;
                   e = \<lparr>mt_mac = m, mt_port = p, mt_portNum = portNum q,
                        mt_timestamp = now + flushInterval_tick s2\<rparr>
               in Inr (1, set_tbl w (t\<lparr>mt_list := mt_list t @ [e], entrys := entrys t + 1\<rparr>) s2)))"

text \<open>The loop of \<open>flushSwTbl\<close> over the records, \<open>k\<close> of which were kept.\<close>

fun flush_loop :: "u64 \<Rightarrow> mapTbl list \<Rightarrow> nat \<Rightarrow> swTbl \<Rightarrow> swTbl" where
  "flush_loop now [] k t = t"
| "flush_loop now (e # es) k t =
     (if now \<ge> mt_timestamp e then flush_loop now es k (snd (delSwTbl k t))
      else flush_loop now es (Suc k) t)"

definition flush_table :: "u64 \<Rightarrow> sw \<Rightarrow> sw" where
  "flush_table now s = s\<lparr>swTable := flush_loop now (mt_list (swTable s)) 0 (swTable s)\<rparr>"

text \<open>The command \<open>port\<close> in front of the list; \<open>g\<close> is what the new block held.\<close>

definition add_port :: "u8 \<Rightarrow> addr \<Rightarrow> SwPort \<Rightarrow> sw \<Rightarrow> sw" where
  "add_port n b g s = s\<lparr>num_port := num_port s + 1, PortList := g\<lparr>portNum := n, port := b\<rparr> # PortList s\<rparr>"

subsection \<open>The tables as maps\<close>

definition tbl_ok :: "swTbl \<Rightarrow> bool" where
  "tbl_ok t \<longleftrightarrow> distinct (map mt_mac (mt_list t)) \<and> entrys t = int (length (mt_list t))
     \<and> entrys t \<le> SW_TBL_MAX_ENTRYS"

text \<open>The record of an address.\<close>

definition record_of :: "swTbl \<Rightarrow> mac \<rightharpoonup> mapTbl" where
  "record_of t m = map_of (map (\<lambda>e. (mt_mac e, e)) (mt_list t)) m"

lemma entry_index_Some:
  "entry_index m xs = Some k \<Longrightarrow> k < length xs \<and> mt_mac (xs ! k) = m \<and> (\<forall>j<k. mt_mac (xs ! j) \<noteq> m)"
proof -
  assume a: "entry_index m xs = Some k"
  then have k: "k = length (takeWhile (\<lambda>e. mt_mac e \<noteq> m) xs)" "k < length xs"
    by (auto simp: entry_index_def Let_def split: if_splits)
  have "mt_mac (xs ! k) = m" using nth_length_takeWhile [of "\<lambda>e. mt_mac e \<noteq> m" xs] k by simp
  moreover have "mt_mac (xs ! j) \<noteq> m" if "j < k" for j
  proof -
    have j: "j < length (takeWhile (\<lambda>e. mt_mac e \<noteq> m) xs)" using that k(1) by simp
    then show ?thesis using set_takeWhileD [OF nth_mem [OF j]] takeWhile_nth [OF j] by simp
  qed
  ultimately show ?thesis using k(2) by blast
qed

lemma entry_index_None: "entry_index m xs = None \<longleftrightarrow> m \<notin> mt_mac ` set xs"
proof -
  have "length (takeWhile P xs) < length xs \<longleftrightarrow> (\<exists>x\<in>set xs. \<not> P x)" for P
    by (induction xs) auto
  then show ?thesis by (auto simp: entry_index_def Let_def)
qed

lemma record_of_index:
  "record_of t m = (case entry_index m (mt_list t) of None \<Rightarrow> None | Some k \<Rightarrow> Some (mt_list t ! k))"
proof -
  have "map_of (map (\<lambda>e. (mt_mac e, e)) xs) m
      = (case entry_index m xs of None \<Rightarrow> None | Some k \<Rightarrow> Some (xs ! k))" for xs
    by (induction xs) (auto simp: entry_index_def Let_def split: option.splits if_splits)
  then show ?thesis by (simp add: record_of_def)
qed

lemma findport_record: "findport m t = (case record_of t m of None \<Rightarrow> NULL | Some e \<Rightarrow> mt_port e)"
  by (simp add: findport_def record_of_index split: option.split)

lemma tbl_set_tbl [simp]: "tbl w (set_tbl w t s) = t" "tbl Normal (set_tbl Permanent t s) = tbl Normal s"
  "tbl Permanent (set_tbl Normal t s) = tbl Permanent s"
  by (auto simp: tbl_def set_tbl_def split: which.splits)

lemma set_tbl_fields [simp]: "ports (set_tbl w t s) = ports s" "flushInterval_tick (set_tbl w t s) = flushInterval_tick s"
  "SWITCH_MODE (set_tbl w t s) = SWITCH_MODE s" "SpanningTreeProtocol (set_tbl w t s) = SpanningTreeProtocol s"
  by (auto simp: ports_def set_tbl_def split: which.splits)

lemma del_nth_filter: "distinct (map f xs) \<Longrightarrow> k < length xs \<Longrightarrow>
    take k xs @ drop (Suc k) xs = filter (\<lambda>x. f x \<noteq> f (xs ! k)) xs"
proof (induction xs arbitrary: k)
  case (Cons x xs)
  show ?case
  proof (cases k)
    case 0
    have "f y \<noteq> f x" if "y \<in> set xs" for y using Cons.prems(1) that by (auto dest: not_in_image)
    then have "filter (\<lambda>y. f y \<noteq> f x) xs = xs" by (intro filter_True) blast
    then show ?thesis using 0 by simp
  next
    case (Suc j)
    then have "f x \<noteq> f (xs ! j)" using Cons.prems by auto
    then show ?thesis using Cons Suc by simp
  qed
qed simp

lemma record_of_Some: "distinct (map mt_mac (mt_list t)) \<Longrightarrow> record_of t m = Some e \<longleftrightarrow> e \<in> set (mt_list t) \<and> mt_mac e = m"
  by (auto simp: record_of_def map_of_eq_Some_iff distinct_map comp_def inj_on_def)

lemma record_of_filter:
  "distinct (map mt_mac (mt_list t)) \<Longrightarrow> record_of (t\<lparr>mt_list := filter (\<lambda>e. mt_mac e \<noteq> m) (mt_list t), entrys := n\<rparr>) m'
    = (if m' = m then None else record_of t m')"
proof -
  have "map_of (map (\<lambda>e. (mt_mac e, e)) (filter (\<lambda>e. mt_mac e \<noteq> m) xs)) m'
      = (if m' = m then None else map_of (map (\<lambda>e. (mt_mac e, e)) xs) m')" for xs :: "mapTbl list"
    by (induction xs) auto
  then show ?thesis by (simp add: record_of_def)
qed

lemma record_of_snoc:
  "record_of (t\<lparr>mt_list := mt_list t @ [e], entrys := n\<rparr>) m
    = (case record_of t m of Some r \<Rightarrow> Some r | None \<Rightarrow> if mt_mac e = m then Some e else None)"
  by (auto simp: record_of_def map_add_def split: option.split)

lemma record_of_update:
  "k < length (mt_list t) \<Longrightarrow> mt_mac e = mt_mac (mt_list t ! k) \<Longrightarrow> distinct (map mt_mac (mt_list t)) \<Longrightarrow>
    record_of (t\<lparr>mt_list := (mt_list t)[k := e]\<rparr>) m = (if m = mt_mac e then Some e else record_of t m)"
proof -
  assume k: "k < length (mt_list t)" "mt_mac e = mt_mac (mt_list t ! k)" "distinct (map mt_mac (mt_list t))"
  have "k < length xs \<Longrightarrow> mt_mac e = mt_mac (xs ! k) \<Longrightarrow> distinct (map mt_mac xs) \<Longrightarrow>
    map_of (map (\<lambda>e. (mt_mac e, e)) (xs[k := e])) m
      = (if m = mt_mac e then Some e else map_of (map (\<lambda>e. (mt_mac e, e)) xs) m)" for xs
  proof (induction xs arbitrary: k)
    case (Cons x xs)
    show ?case
    proof (cases k)
      case (Suc j)
      then have "mt_mac x \<noteq> mt_mac (xs ! j)" using Cons.prems by auto
      then show ?thesis using Cons Suc by auto
    qed (use Cons.prems in auto)
  qed simp
  from this [OF k] show ?thesis by (simp add: record_of_def)
qed

lemma delSwTbl_ok:
  assumes "tbl_ok t" "entry_index m (mt_list t) = Some k"
  shows "fst (delSwTbl k t) = 1 \<and> tbl_ok (snd (delSwTbl k t)) \<and> entrys (snd (delSwTbl k t)) = entrys t - 1
    \<and> record_of (snd (delSwTbl k t)) m' = (if m' = m then None else record_of t m')"
proof -
  have k: "k < length (mt_list t)" "mt_mac (mt_list t ! k) = m" using entry_index_Some [OF assms(2)] by auto
  have d: "distinct (map mt_mac (mt_list t))" "entrys t = int (length (mt_list t))" "entrys t \<le> SW_TBL_MAX_ENTRYS"
    using assms(1) by (auto simp: tbl_ok_def)
  have f: "take k (mt_list t) @ drop (Suc k) (mt_list t) = filter (\<lambda>e. mt_mac e \<noteq> m) (mt_list t)"
    using del_nth_filter [OF d(1) k(1)] k(2) by simp
  have l: "length (filter (\<lambda>e. mt_mac e \<noteq> m) (mt_list t)) = length (mt_list t) - 1"
    using k(1) by (simp flip: f)
  have one: "filter (\<lambda>e. mt_mac e \<noteq> m) (mt_list t) = []" if "entrys t = 1"
    using l d(2) that by simp
  have e: "delSwTbl k t = (1, t\<lparr>mt_list := filter (\<lambda>e. mt_mac e \<noteq> m) (mt_list t), entrys := entrys t - 1\<rparr>)"
    using k(1) d(2) one by (auto simp: delSwTbl_def f)
  then show ?thesis using k(1) d l record_of_filter [OF d(1)] distinct_map_filter [OF d(1)]
    by (simp add: tbl_ok_def of_nat_diff Suc_leI)
qed

lemma findSwTbl_spec:
  assumes "tbl_ok (tbl w s)" and s': "findSwTbl now m p w s = (r, s')"
  shows "tbl_ok (tbl w s')" "w' \<noteq> w \<Longrightarrow> tbl w' s' = tbl w' s" "ports s' = ports s"
    "flushInterval_tick s' = flushInterval_tick s" "entrys (tbl w s') \<le> entrys (tbl w s)"
    "case record_of (tbl w s) m of
       Some e \<Rightarrow> if mt_port e = p
         then r = 1 \<and> record_of (tbl w s') = (record_of (tbl w s))
           (m \<mapsto> (if w = Normal then e\<lparr>mt_timestamp := now + flushInterval_tick s\<rparr> else e))
         else r = 0 \<and> record_of (tbl w s') = (record_of (tbl w s))(m := None)
     | None \<Rightarrow> r = 0 \<and> s' = s"
proof -
  have o: "w' \<noteq> v \<Longrightarrow> tbl w' (set_tbl v t s) = tbl w' s" for w' v t
    by (cases v; cases w') (auto simp: tbl_def set_tbl_def)
  show "w' \<noteq> w \<Longrightarrow> tbl w' s' = tbl w' s" "ports s' = ports s" "flushInterval_tick s' = flushInterval_tick s"
    using s' by (auto simp: findSwTbl_def Let_def o split: option.splits if_splits)
  have "tbl_ok (tbl w s') \<and> entrys (tbl w s') \<le> entrys (tbl w s) \<and> (case record_of (tbl w s) m of
       Some e \<Rightarrow> if mt_port e = p
         then r = 1 \<and> record_of (tbl w s') = (record_of (tbl w s))
           (m \<mapsto> (if w = Normal then e\<lparr>mt_timestamp := now + flushInterval_tick s\<rparr> else e))
         else r = 0 \<and> record_of (tbl w s') = (record_of (tbl w s))(m := None)
     | None \<Rightarrow> r = 0 \<and> s' = s)"
  proof (cases "entry_index m (mt_list (tbl w s))")
    case None
    then show ?thesis using assms by (simp add: record_of_index findSwTbl_def)
  next
    case (Some k)
    define e where "e = mt_list (tbl w s) ! k"
    have k: "k < length (mt_list (tbl w s))" "mt_mac e = m" using entry_index_Some [OF Some] by (auto simp: e_def)
    have d: "distinct (map mt_mac (mt_list (tbl w s)))" using assms(1) by (simp add: tbl_ok_def)
    have re: "record_of (tbl w s) m = Some e" using Some by (simp add: record_of_index e_def)
    show ?thesis
    proof (cases "mt_port e = p")
      case False
      then have "findSwTbl now m p w s = (0, set_tbl w (snd (delSwTbl k (tbl w s))) s)"
        using Some by (simp add: findSwTbl_def e_def)
      then show ?thesis using re s' False delSwTbl_ok [OF assms(1) Some] by (auto simp: fun_eq_iff)
    next
      case True
      let ?e = "e\<lparr>mt_timestamp := now + flushInterval_tick s\<rparr>"
      let ?t = "(tbl w s)\<lparr>mt_list := (mt_list (tbl w s))[k := ?e]\<rparr>"
      have f: "findSwTbl now m p w s = (1, if w = Normal then set_tbl w ?t s else s)"
        using Some True by (simp add: findSwTbl_def e_def)
      have "map mt_mac (mt_list ?t) = map mt_mac (mt_list (tbl w s))"
        using k by (simp add: map_update e_def list_update_same_conv)
      then have "tbl_ok ?t" using assms(1) by (simp add: tbl_ok_def)
      moreover have "record_of ?t = (record_of (tbl w s))(m \<mapsto> ?e)"
        using record_of_update [OF k(1) _ d, of ?e] k(2) by (auto simp: fun_eq_iff e_def)
      moreover have "(record_of (tbl w s))(m \<mapsto> e) = record_of (tbl w s)" using re by (simp add: fun_upd_idem)
      ultimately show ?thesis using f True re assms by auto
    qed
  qed
  then show "tbl_ok (tbl w s')" "entrys (tbl w s') \<le> entrys (tbl w s)"
    "case record_of (tbl w s) m of
       Some e \<Rightarrow> if mt_port e = p
         then r = 1 \<and> record_of (tbl w s') = (record_of (tbl w s))
           (m \<mapsto> (if w = Normal then e\<lparr>mt_timestamp := now + flushInterval_tick s\<rparr> else e))
         else r = 0 \<and> record_of (tbl w s') = (record_of (tbl w s))(m := None)
     | None \<Rightarrow> r = 0 \<and> s' = s" by blast+
qed

lemma snoc_ok:
  assumes "tbl_ok t" "record_of t (mt_mac e) = None" "entrys t < SW_TBL_MAX_ENTRYS"
  shows "tbl_ok (t\<lparr>mt_list := mt_list t @ [e], entrys := entrys t + 1\<rparr>)"
proof -
  have "mt_mac e \<notin> mt_mac ` set (mt_list t)" using assms(2)
    by (simp add: record_of_index entry_index_None split: option.splits)
  then show ?thesis using assms(1,3) by (auto simp: tbl_ok_def)
qed

lemma addSwTbl_spec:
  assumes "tbl_ok (swTable s)" "tbl_ok (pmntSwTable s)" "entrys (swTable s) < SW_TBL_MAX_ENTRYS"
    and "p \<noteq> NULL" "port_with (\<lambda>q. port q \<noteq> NULL \<and> port q = p) s = Some q"
  shows "\<exists>s'. addSwTbl now m p Normal s = Inr (1, s') \<and> tbl_ok (swTable s') \<and> tbl_ok (pmntSwTable s')
    \<and> ((\<exists>e. record_of (swTable s') m = Some e \<and> mt_port e = p \<and> mt_timestamp e = now + flushInterval_tick s)
        \<or> findport m (pmntSwTable s') = p)
    \<and> (\<forall>m'. m' \<noteq> m \<longrightarrow> record_of (swTable s') m' = record_of (swTable s) m')"
proof -
  have n: "tbl_ok (tbl Normal s)" "tbl_ok (tbl Permanent s)" using assms(1,2) by (simp_all add: tbl_def)
  obtain r1 s1 where f1: "findSwTbl now m p Normal s = (r1, s1)" by fastforce
  note a = findSwTbl_spec [OF n(1) f1]
  have P1: "tbl_ok (tbl Permanent s1)" using a(2) [of Permanent] n(2) by simp
  obtain r2 s2 where f2: "findSwTbl now m p Permanent s1 = (r2, s2)" by fastforce
  note b = findSwTbl_spec [OF P1 f2]
  have N2: "tbl Normal s2 = tbl Normal s1" using b(2) [of Normal] by simp
  have full: "\<not> entrys (tbl Normal s) \<ge> SW_TBL_MAX_ENTRYS" using assms(3) by (simp add: tbl_def)
  show ?thesis
  proof (cases "r1 = 0")
    case False
    then have e: "addSwTbl now m p Normal s = Inr (1, s1)" using full f1 by (simp add: addSwTbl_def)
    from False a(6) obtain e where "record_of (tbl Normal s) m = Some e" "mt_port e = p"
      "record_of (tbl Normal s1) = (record_of (tbl Normal s))(m \<mapsto> e\<lparr>mt_timestamp := now + flushInterval_tick s\<rparr>)"
      by (auto split: option.splits if_splits)
    then show ?thesis using e a(1) P1 by (simp add: tbl_def)
  next
    case True
    have r1: "record_of (tbl Normal s1) = (record_of (tbl Normal s))(m := None)"
      using True a(6) by (auto simp: fun_eq_iff split: option.splits if_splits)
    show ?thesis
    proof (cases "r2 = 0")
      case False
      then have e: "addSwTbl now m p Normal s = Inr (1, s2)" using full f1 f2 True by (simp add: addSwTbl_def)
      from False b(6) obtain e where "mt_port e = p"
        "record_of (tbl Permanent s2) = (record_of (tbl Permanent s1))(m \<mapsto> e)"
        by (auto split: option.splits if_splits)
      then have "findport m (pmntSwTable s2) = p" by (simp add: findport_record tbl_def)
      then show ?thesis using e a(1) b(1) N2 r1 by (simp add: tbl_def)
    next
      case r2: True
      let ?e = "\<lparr>mt_mac = m, mt_port = p, mt_portNum = portNum q, mt_timestamp = now + flushInterval_tick s2\<rparr>"
      let ?t = "tbl Normal s2"
      let ?t' = "?t\<lparr>mt_list := mt_list ?t @ [?e], entrys := entrys ?t + 1\<rparr>"
      have "port_with (\<lambda>q. port q \<noteq> NULL \<and> port q = p) s2 = Some q" using assms(5) a(3) b(3) by (simp add: port_with_def)
      then have e: "addSwTbl now m p Normal s = Inr (1, set_tbl Normal ?t' s2)"
        using full f1 f2 True r2 by (simp add: addSwTbl_def Let_def)
      have z: "record_of ?t m = None" using r1 N2 by simp
      have "tbl_ok ?t'" by (rule snoc_ok) (use z a(1,5) N2 assms(3) in \<open>simp_all add: tbl_def\<close>)
      moreover have "record_of ?t' m' = (if m' = m then Some ?e else record_of (tbl Normal s) m')" for m'
        using z r1 N2 by (auto simp: record_of_snoc split: option.split)
      moreover have "tbl Permanent (set_tbl Normal ?t' s2) = tbl Permanent s2" by simp
      ultimately show ?thesis using e a(4) b(1,4) by (auto simp: tbl_def set_tbl_def)
    qed
  qed
qed

text \<open>
  C27: learning an address.  When the table has room, \<open>addSwTbl\<close> on a port of the switch succeeds, keeps
  both tables in order, and afterwards the address is known at that port: in the normal table, valid
  for one flush interval from now, unless the permanent table already had it there.  What the normal
  table knows of other addresses does not change.
\<close>

theorem addSwTbl_learns:
  assumes "tbl_ok (swTable s)" "tbl_ok (pmntSwTable s)" "entrys (swTable s) < SW_TBL_MAX_ENTRYS"
    and "p \<noteq> NULL" "port_with (\<lambda>q. port q \<noteq> NULL \<and> port q = p) s = Some q"
  shows "\<exists>s'. addSwTbl now m p Normal s = Inr (1, s') \<and> tbl_ok (swTable s') \<and> tbl_ok (pmntSwTable s')
    \<and> ((\<exists>e. record_of (swTable s') m = Some e \<and> mt_port e = p \<and> mt_timestamp e = now + flushInterval_tick s)
        \<or> findport m (pmntSwTable s') = p)
    \<and> (\<forall>m'. m' \<noteq> m \<longrightarrow> record_of (swTable s') m' = record_of (swTable s) m')"
  using assms by (rule addSwTbl_spec)

text \<open>A switch with two ports, bound to binders 1 and 2; it knows nothing yet.\<close>

definition blank_port :: SwPort where
  "blank_port = \<lparr>PortState = 0, SwSignal = 0, RootID = 0, Cost = 0, Bridge = 0, Age = 0, portNum = 0, port = NULL\<rparr>"

definition two_ports :: sw where
  "two_ports = add_port 1 1 blank_port (add_port 2 2 blank_port
     \<lparr>sw_nid = 5, PortList = [], num_port = 0, swTable = \<lparr>mt_list = [], entrys = 0\<rparr>,
      pmntSwTable = \<lparr>mt_list = [], entrys = 0\<rparr>, SWITCH_MODE = Some ''RunLearningBridgeProtocol'',
      flushInterval = 3000, flushInterval_tick = 30000000, SpanningTreeProtocol = ''off'', HelloTime = 1,
      MaxAge = 3, ForwardDelay = 15, HelloTimeTick = 0, ForwardDelayTick = 0, SpanTimeOutTick = 0,
      STABLE = False, STABLEage = 0, RootDeath = 0,
      SpanTreeTbl0 = \<lparr>st_RootID = 5, st_Cost = 0, st_Bridge = 5, st_RootPort = 0\<rparr>,
      FlushSwTblFlag = False, TCNFlag = False, TCAFlag = False\<rparr>)"

theorem addSwTbl_learns_witness:
  "\<exists>s'. addSwTbl 10 [1,2,3,4,5,6] 1 Normal two_ports = Inr (1, s') \<and> tbl_ok (swTable s')"
proof -
  have "tbl_ok (swTable two_ports)" "tbl_ok (pmntSwTable two_ports)" "entrys (swTable two_ports) < SW_TBL_MAX_ENTRYS"
    "\<exists>q. port_with (\<lambda>q. port q \<noteq> NULL \<and> port q = 1) two_ports = Some q"
    by (simp_all add: two_ports_def add_port_def tbl_ok_def SW_TBL_MAX_ENTRYS_def port_with_def ports_def blank_port_def)
  then show ?thesis using addSwTbl_learns [of two_ports 1 _ 10 "[1,2,3,4,5,6]"] by auto
qed

text \<open>
  a full table learns nothing: \<open>addSwTbl\<close> gives -1 and does not even renew the record of an address
  it has, which is then flushed while the address is in use, nor move it to the port the address is at
  now.
\<close>

theorem full_table_keeps_stale:
  assumes "entrys (swTable s) = SW_TBL_MAX_ENTRYS" "record_of (swTable s) m = Some e"
  shows "addSwTbl now m p Normal s = Inr (-1, s) \<and> findport m (swTable s) = mt_port e"
  using assms by (simp add: addSwTbl_def tbl_def findport_record)

definition full_switch :: sw where
  "full_switch = two_ports\<lparr>swTable := \<lparr>mt_list = map (\<lambda>k. \<lparr>mt_mac = [0, 0, 0, 0, 0, of_nat k], mt_port = 1,
     mt_portNum = 1, mt_timestamp = 30\<rparr>) [0..<256], entrys = 256\<rparr>\<rparr>"

theorem full_table_keeps_stale_witness:
  "addSwTbl 20 [0,0,0,0,0,0] 2 Normal full_switch = Inr (-1, full_switch) \<and> findport [0,0,0,0,0,0] (swTable full_switch) = 1"
proof -
  have "record_of (swTable full_switch) [0,0,0,0,0,0]
      = Some \<lparr>mt_mac = [0,0,0,0,0,0], mt_port = 1, mt_portNum = 1, mt_timestamp = 30\<rparr>"
    by (simp add: full_switch_def record_of_def upt_conv_Cons del: upt_Suc)
  moreover have "entrys (swTable full_switch) = SW_TBL_MAX_ENTRYS"
    by (simp add: full_switch_def SW_TBL_MAX_ENTRYS_def)
  ultimately show ?thesis using full_table_keeps_stale [of full_switch "[0,0,0,0,0,0]" _ 20 2] by simp
qed

lemma flush_loop_spec:
  "mt_list t = ks @ es \<Longrightarrow> k = length ks \<Longrightarrow> entrys t = int (length (mt_list t)) \<Longrightarrow>
    flush_loop now es k t = t\<lparr>mt_list := ks @ filter (\<lambda>e. now < mt_timestamp e) es,
      entrys := int (length ks + length (filter (\<lambda>e. now < mt_timestamp e) es))\<rparr>"
proof (induction es arbitrary: k t ks)
  case Nil
  then show ?case by simp
next
  case (Cons e es)
  show ?case
  proof (cases "now < mt_timestamp e")
    case True
    then show ?thesis using Cons.IH [of t "ks @ [e]" "Suc k"] Cons.prems by (simp add: not_le [symmetric])
  next
    case False
    let ?t = "t\<lparr>mt_list := ks @ es, entrys := int (length (ks @ es))\<rparr>"
    have "entrys t = 1 \<longleftrightarrow> ks = [] \<and> es = []" "0 < entrys t"
      using Cons.prems by (cases ks; cases es; simp)+
    then have "snd (delSwTbl k t) = ?t" using Cons.prems by (cases "entrys t = 1") (simp_all add: delSwTbl_def)
    then show ?thesis using Cons.IH [of ?t ks k] Cons.prems False by (simp add: not_less)
  qed
qed

text \<open>
  flushing takes the records that have expired out of the normal table, and only those; the others
  keep their order, and the table stays in order.
\<close>

theorem flush_removes_expired:
  assumes "tbl_ok (swTable s)"
  shows "mt_list (swTable (flush_table now s)) = filter (\<lambda>e. now < mt_timestamp e) (mt_list (swTable s))
    \<and> tbl_ok (swTable (flush_table now s)) \<and> pmntSwTable (flush_table now s) = pmntSwTable s"
proof -
  have d: "distinct (map mt_mac (mt_list (swTable s)))" "entrys (swTable s) = int (length (mt_list (swTable s)))"
    "entrys (swTable s) \<le> SW_TBL_MAX_ENTRYS" using assms by (auto simp: tbl_ok_def)
  have "int (length (filter P (mt_list (swTable s)))) \<le> SW_TBL_MAX_ENTRYS" for P
    using d(2,3) length_filter_le [of P "mt_list (swTable s)"] by linarith
  then show ?thesis using flush_loop_spec [of "swTable s" "[]" "mt_list (swTable s)" 0 now] d distinct_map_filter [OF d(1)]
    by (simp add: flush_table_def tbl_ok_def)
qed

definition aging_switch :: sw where
  "aging_switch = two_ports\<lparr>swTable := \<lparr>mt_list = [\<lparr>mt_mac = [1], mt_port = 1, mt_portNum = 1, mt_timestamp = 30\<rparr>,
     \<lparr>mt_mac = [2], mt_port = 2, mt_portNum = 2, mt_timestamp = 50\<rparr>], entrys = 2\<rparr>\<rparr>"

theorem flush_removes_expired_witness:
  "map mt_mac (mt_list (swTable (flush_table 30 aging_switch))) = [[2]]"
proof -
  have "tbl_ok (swTable aging_switch)" by (simp add: aging_switch_def tbl_ok_def SW_TBL_MAX_ENTRYS_def)
  from flush_removes_expired [OF this, of 30] show ?thesis by (simp add: aging_switch_def)
qed

text \<open>Learning leaves the ports and the mode alone, and the permanent table when it does not know the address.\<close>

lemma findSwTbl_frame:
  "findSwTbl now m p w s = (r, s') \<Longrightarrow> ports s' = ports s \<and> SpanningTreeProtocol s' = SpanningTreeProtocol s
    \<and> SWITCH_MODE s' = SWITCH_MODE s \<and> (w = Normal \<longrightarrow> pmntSwTable s' = pmntSwTable s)"
  by (auto simp: findSwTbl_def Let_def set_tbl_def tbl_def ports_def split: option.splits if_splits which.splits)

lemma addSwTbl_frame:
  assumes "addSwTbl now m p Normal s = Inr (r, s')" "record_of (pmntSwTable s) m = None"
  shows "pmntSwTable s' = pmntSwTable s" "ports s' = ports s" "SpanningTreeProtocol s' = SpanningTreeProtocol s"
    "SWITCH_MODE s' = SWITCH_MODE s"
proof -
  obtain r1 s1 where f: "findSwTbl now m p Normal s = (r1, s1)" by fastforce
  note fr = findSwTbl_frame [OF f]
  have "entry_index m (mt_list (tbl Permanent s1)) = None" using fr assms(2)
    by (simp add: tbl_def record_of_index split: option.splits)
  then have "findSwTbl now m p Permanent s1 = (0, s1)" by (simp add: findSwTbl_def)
  then have "s' = s \<or> s' = s1 \<or> (\<exists>t. s' = set_tbl Normal t s1)" using assms(1) f
    by (auto simp: addSwTbl_def Let_def split: if_splits option.splits)
  then show "pmntSwTable s' = pmntSwTable s" "ports s' = ports s" "SpanningTreeProtocol s' = SpanningTreeProtocol s"
    "SWITCH_MODE s' = SWITCH_MODE s" using fr by (auto simp: set_tbl_def ports_def)
qed

end
