(* ===== verification/Switch.thy ===== *)
theory Switch
  imports SwitchTable
begin

text \<open>
  The switch module of \<open>module/sw/sw.cc\<close>: forwarding of frames with a learning bridge, and its
  spanning tree.  The state is that of one switch, \<open>me\<close>, beside the binders and packets.  Of the packet
  an event carries it holds what the switch reads: the Ethernet addresses, the names of its pieces of
  information, the length behind the Ethernet header and what stands there when it is read as a
  \<open>SpanINFO\<close>.  \<open>put\<close> is that of \<open>NslObject\<close>.  Calls of the scheduler are recorded in \<open>sched_calls\<close>.
\<close>

definition ETHER_BROADCAST :: mac where "ETHER_BROADCAST = replicate 6 0xff"
definition ETHER_MULTICAST1 :: mac where "ETHER_MULTICAST1 = [0xff, 0, 0, 0, 0, 0]"
definition SPAN_MULTICAST :: mac where "SPAN_MULTICAST = [0xff, 0xff, 0, 0, 0, 0]"

lemmas switch_macs = ETHER_BROADCAST_def ETHER_MULTICAST1_def SPAN_MULTICAST_def

record SpanINFO =
  si_RootID :: int
  si_Cost :: int
  si_Bridge :: int
  si_TCAReservedTC :: u8

record frame =
  ether_shost :: mac
  ether_dhost :: mac
  finfos :: "string set"
  body_len :: int
  span :: SpanINFO

text \<open>The sizes of the two messages of the spanning tree.\<close>

definition sizeof_TopChangeINFO :: int where "sizeof_TopChangeINFO = 4"
definition sizeof_SpanINFO :: int where "sizeof_SpanINFO = 40"

datatype sched_call = FlushTimer u64 | SpanTimer u64 u64 | TimeOutTimer u64 u64 | OpenAt u64 u8

record sw_state = mbstate +
  me :: sw
  frames :: "addr \<Rightarrow> frame"
  ev_fresh :: addr
  ev_freed :: "addr set"
  sw_now :: u64
  sched_calls :: "sched_call list"

definition upd_sw :: "(sw \<Rightarrow> sw) \<Rightarrow> 'x sw_state_scheme \<Rightarrow> 'x sw_state_scheme" where
  "upd_sw f st = st\<lparr>me := f (me st)\<rparr>"

definition sched :: "sched_call \<Rightarrow> 'x sw_state_scheme \<Rightarrow> 'x sw_state_scheme" where
  "sched c st = st\<lparr>sched_calls := sched_calls st @ [c]\<rparr>"

text \<open>\<open>pkt_copy\<close> and \<open>freePacket\<close>; the new packet object is named like its event.\<close>

definition sw_copy :: "addr \<Rightarrow> 'x sw_state_scheme \<Rightarrow> addr \<times> 'x sw_state_scheme" where
  "sw_copy pkt st =
     (let e = ev_fresh st in
      (e, st\<lparr>ev_fresh := e + 1, pkts := (pkts st)(e := pkt_copy_event (pkts st e) e (pkts st pkt)),
           pflags := (pflags st)(e := pflags st pkt), frames := (frames st)(e := frames st pkt)\<rparr>))"

definition sw_free :: "addr \<Rightarrow> 'x sw_state_scheme \<Rightarrow> 'x sw_state_scheme" where
  "sw_free pkt st = st\<lparr>ev_freed := insert pkt (ev_freed st)\<rparr>"

text \<open>Copying a packet and putting the copy to a port.\<close>

definition put_copy :: "'x sw_state_ext mb_env \<Rightarrow> addr \<Rightarrow> addr \<Rightarrow> 'x sw_state_scheme \<Rightarrow> 'x sw_state_scheme run" where
  "put_copy V pkt b st =
     (let (e, st1) = sw_copy pkt st in run_bind (nsl_put V e b st1) (\<lambda>(_, st2). Some (Inr st2)))"

definition STP_off :: "sw \<Rightarrow> bool" where "STP_off s \<longleftrightarrow> SpanningTreeProtocol s = ''off''"
definition STP_on :: "sw \<Rightarrow> bool" where "STP_on s \<longleftrightarrow> SpanningTreeProtocol s = ''on''"

text \<open>The port whose binder binds to the module that the packet comes from.\<close>

definition from_port :: "addr \<Rightarrow> 'x sw_state_scheme \<Rightarrow> SwPort option" where
  "from_port frm st = port_with (\<lambda>q. frmObj (mbq st frm) = toObj (mbq st (port q))) (me st)"

definition open_port :: "sw \<Rightarrow> SwPort \<Rightarrow> bool" where
  "open_port s q \<longleftrightarrow> STP_off s \<or> PortState q \<noteq> 0"

subsection \<open>Forwarding\<close>

text \<open>The loop that floods, over the positions of the ports.\<close>

primrec flood_loop :: "'x sw_state_ext mb_env \<Rightarrow> addr \<Rightarrow> addr \<Rightarrow> nat list \<Rightarrow> 'x sw_state_scheme \<Rightarrow> 'x sw_state_scheme run" where
  "flood_loop V pkt frmport [] st = Some (Inr st)"
| "flood_loop V pkt frmport (i # is) st =
     (let q = PortList (me st) ! i in
      run_bind (if port q \<noteq> NULL \<and> frmport \<noteq> port q \<and> open_port (me st) q then put_copy V pkt (port q) st
                else Some (Inr st))
        (flood_loop V pkt frmport is))"

definition learn :: "mac \<Rightarrow> addr \<Rightarrow> which \<Rightarrow> 'x sw_state_scheme \<Rightarrow> 'x sw_state_scheme run" where
  "learn m p w st = Some (map_sum id (\<lambda>(_, s). st\<lparr>me := s\<rparr>) (addSwTbl (sw_now st) m p w (me st)))"

text \<open>Deleting the record of an address from the permanent table.\<close>

definition forget :: "mac \<Rightarrow> sw \<Rightarrow> sw" where
  "forget m s =
     (case entry_index m (mt_list (pmntSwTable s)) of
        None \<Rightarrow> s | Some k \<Rightarrow> s\<lparr>pmntSwTable := snd (delSwTbl k (pmntSwTable s))\<rparr>)"

text \<open>The second half of \<open>send\<close>, after learning.\<close>

definition forward :: "'x sw_state_ext mb_env \<Rightarrow> addr \<Rightarrow> addr \<Rightarrow> 'x sw_state_scheme \<Rightarrow> (int \<times> 'x sw_state_scheme) run" where
  "forward V pkt frmport st =
     (let d = ether_dhost (frames st pkt);
          p1 = findport d (pmntSwTable (me st)); p2 = findport d (swTable (me st))
      in if p1 \<noteq> NULL then run_bind (nsl_put V pkt p1 st) (\<lambda>(_, st1). Some (Inr (1, st1)))
         else if p2 \<noteq> NULL then
           (if p2 \<noteq> frmport then
              run_bind
                (case port_with (\<lambda>q. port q \<noteq> NULL \<and> p2 = port q) (me st) of
                   None \<Rightarrow> Some (Inr st)
                 | Some q \<Rightarrow> if open_port (me st) q then put_copy V pkt p2 st else Some (Inr st))
                (\<lambda>st1. Some (Inr (1, sw_free pkt st1)))
            else Some (Inr (1, sw_free pkt st)))
         else if SWITCH_MODE (me st) = Some ''KnowInAdvance'' \<and> d \<noteq> ETHER_BROADCAST
           then Some (Inr (1, sw_free pkt st))
         else run_bind (flood_loop V pkt frmport [0..<length (ports (me st))] st)
                (\<lambda>st1. Some (Inr (1, sw_free pkt st1))))"

definition sw_send :: "'x sw_state_ext mb_env \<Rightarrow> addr \<Rightarrow> addr \<Rightarrow> 'x sw_state_scheme \<Rightarrow> (int \<times> 'x sw_state_scheme) run" where
  "sw_send V pkt frm st =
     (if DataInfo (pkts st pkt) = NULL then Some (Inl AssertFailed)
      else let src = ether_shost (frames st pkt); dst = ether_dhost (frames st pkt);
               frmport = (case from_port frm st of None \<Rightarrow> NULL | Some q \<Rightarrow> port q) in
        if dst = ETHER_MULTICAST1 then
          (if ''AddEn'' \<in> finfos (frames st pkt) then
             run_bind (learn src frmport Permanent st) (\<lambda>st1. Some (Inr (1, st1)))
           else if ''DelEn'' \<in> finfos (frames st pkt) then Some (Inr (1, upd_sw (forget src) st))
           else Some (Inr (1, st)))
        else
          run_bind (if SWITCH_MODE (me st) = Some ''RunLearningBridgeProtocol'' then learn src frmport Normal st
                    else Some (Inr st))
            (forward V pkt frmport))"

definition flushSwTbl :: "'x sw_state_scheme \<Rightarrow> 'x sw_state_scheme" where
  "flushSwTbl st =
     (let st1 = upd_sw (flush_table (sw_now st)) st
      in sched (FlushTimer (flushInterval_tick (me st1))) st1)"

subsection \<open>The spanning tree\<close>

definition upd_port :: "nat \<Rightarrow> (SwPort \<Rightarrow> SwPort) \<Rightarrow> sw \<Rightarrow> sw" where
  "upd_port i f s = s\<lparr>PortList := (PortList s)[i := f (PortList s ! i)]\<rparr>"

text \<open>A new event with a new packet of \<open>n\<close> bytes behind an Ethernet header for \<open>SPAN_MULTICAST\<close>.\<close>

definition new_frame :: "int \<Rightarrow> (SpanINFO \<Rightarrow> SpanINFO) \<Rightarrow> 'x sw_state_scheme \<Rightarrow> addr \<times> 'x sw_state_scheme" where
  "new_frame n f st =
     (let e = ev_fresh st in
      (e, st\<lparr>ev_fresh := e + 1, pkts := (pkts st)(e := (createEvent (pkts st e))\<lparr>DataInfo := e\<rparr>),
           pflags := (pflags st)(e := PF_SEND),
           frames := (frames st)(e := (frames st e)\<lparr>ether_dhost := SPAN_MULTICAST, finfos := {},
             body_len := n, span := f (span (frames st e))\<rparr>)\<rparr>))"

definition SpanTreeChange :: "'x sw_state_ext mb_env \<Rightarrow> 'x sw_state_scheme \<Rightarrow> 'x sw_state_scheme run" where
  "SpanTreeChange V st =
     (let st1 = upd_sw (\<lambda>s. s\<lparr>STABLE := False, STABLEage := 0\<rparr>) st;
          (ep, st2) = new_frame sizeof_TopChangeINFO id st1
      in run_bind
           (if st_RootPort (SpanTreeTbl0 (me st2)) \<noteq> 0 then
              (case port_with (\<lambda>q. portNum q = st_RootPort (SpanTreeTbl0 (me st2))) (me st2) of
                 None \<Rightarrow> Some (Inl NullDeref)
               | Some q \<Rightarrow> put_copy V ep (port q) st2)
            else Some (Inr st2))
           (\<lambda>st3. Some (Inr (sw_free ep st3))))"

text \<open>Asking for port \<open>q\<close> to be opened after the forwarding delay.\<close>

definition open_later :: "SwPort \<Rightarrow> 'x sw_state_scheme \<Rightarrow> 'x sw_state_scheme" where
  "open_later q st =
     (if PortState q = 0 then sched (OpenAt (sw_now st + ForwardDelayTick (me st)) (portNum q)) st else st)"

text \<open>The switch's own message is better than the one port \<open>q\<close> heard last.\<close>

definition better_than_port :: "sw \<Rightarrow> SwPort \<Rightarrow> bool" where
  "better_than_port s q \<longleftrightarrow> (let t = SpanTreeTbl0 s in
     st_RootID t < RootID q \<or> st_RootID t = RootID q \<and> st_Cost t < Cost q
     \<or> st_RootID t = RootID q \<and> st_Cost t = Cost q \<and> sw_nid s < Bridge q)"

text \<open>The body of the loop of \<open>SendSpanTreePacket\<close> for the port at position \<open>i\<close>.\<close>

definition span_port :: "'x sw_state_ext mb_env \<Rightarrow> addr \<Rightarrow> nat \<Rightarrow> 'x sw_state_scheme \<Rightarrow> 'x sw_state_scheme run" where
  "span_port V ep i st =
     (let s = me st; q = PortList s ! i; t = SpanTreeTbl0 s in
      if st_RootID t = sw_nid s \<or> RootID q = 0 \<and> Cost q = 0 \<and> Bridge q = 0 then
        run_bind (put_copy V ep (port q) st) (\<lambda>st1. Some (Inr (open_later (PortList (me st1) ! i) st1)))
      else if st_RootPort t \<noteq> portNum q then
        (if better_than_port s q then
           run_bind (put_copy V ep (port q) st) (\<lambda>st1. Some (Inr (open_later (PortList (me st1) ! i) st1)))
         else if PortState q = 1 then
           SpanTreeChange V (upd_sw (\<lambda>s. (upd_port i (\<lambda>q. q\<lparr>PortState := 0\<rparr>) s)\<lparr>TCNFlag := True\<rparr>) st)
         else Some (Inr st))
      else Some (Inr (open_later q st)))"

primrec span_loop :: "'x sw_state_ext mb_env \<Rightarrow> addr \<Rightarrow> nat list \<Rightarrow> 'x sw_state_scheme \<Rightarrow> 'x sw_state_scheme run" where
  "span_loop V ep [] st = Some (Inr st)"
| "span_loop V ep (i # is) st = run_bind (span_port V ep i st) (span_loop V ep is)"

definition SendSpanTreePacket :: "'x sw_state_ext mb_env \<Rightarrow> 'x sw_state_scheme \<Rightarrow> 'x sw_state_scheme run" where
  "SendSpanTreePacket V st =
     run_bind
       (if TCNFlag (me st) then
          run_bind (if st_RootPort (SpanTreeTbl0 (me st)) \<noteq> 0 then SpanTreeChange V st else Some (Inr st))
            (\<lambda>st1. Some (Inr (upd_sw (\<lambda>s. s\<lparr>TCAFlag := True\<rparr>) st1)))
        else Some (Inr (upd_sw (\<lambda>s. s\<lparr>TCAFlag := False\<rparr>) st)))
       (\<lambda>st1. let s = me st1; t = SpanTreeTbl0 s;
              tca = (if TCAFlag s then 128 else 0) + (if FlushSwTblFlag s then 1 else 0);
              (ep, st2) = new_frame sizeof_SpanINFO (\<lambda>i. i\<lparr>si_RootID := st_RootID t, si_Cost := st_Cost t,
                 si_Bridge := sw_nid s, si_TCAReservedTC := tca\<rparr>) st1;
              st3 = upd_sw (\<lambda>s. s\<lparr>FlushSwTblFlag := False\<rparr>) st2
          in run_bind (span_loop V ep [0..<length (ports (me st3))] st3) (\<lambda>st4.
               let st5 = upd_sw (\<lambda>s. if st_RootPort (SpanTreeTbl0 s) = 0
                           then s\<lparr>TCNFlag := False, TCAFlag := False, FlushSwTblFlag := False\<rparr> else s) st4;
                   st6 = upd_sw (\<lambda>s. s\<lparr>RootDeath := 0\<rparr>) st5
               in Some (Inr (sw_free ep st6))))"

text \<open>\<open>GetSpanTreeChange\<close>, on the message of a switch below.\<close>

definition GetSpanTreeChange :: "'x sw_state_scheme \<Rightarrow> 'x sw_state_scheme" where
  "GetSpanTreeChange st =
     (let st1 = upd_sw (\<lambda>s. s\<lparr>TCNFlag := True\<rparr>) st in
      if st_RootPort (SpanTreeTbl0 (me st1)) = 0
      then upd_sw (\<lambda>s. s\<lparr>FlushSwTblFlag := True, TCNFlag := True\<rparr>) (flushSwTbl st1) else st1)"

text \<open>
  \<open>GetSpanTreePacket\<close> in its three parts: the flags a parent sends down, the record of the port at
  position \<open>i\<close>, the record of the switch.
\<close>

definition parent_flags :: "nat \<Rightarrow> u8 \<Rightarrow> 'x sw_state_scheme \<Rightarrow> 'x sw_state_scheme" where
  "parent_flags i tca st =
     (if st_RootPort (SpanTreeTbl0 (me st)) = portNum (PortList (me st) ! i) then
        (let st1 = (if tca div 128 = 1 then upd_sw (\<lambda>s. s\<lparr>TCNFlag := False\<rparr>) st else st)
         in if tca mod 128 = 1 then upd_sw (\<lambda>s. s\<lparr>FlushSwTblFlag := True\<rparr>) (flushSwTbl st1) else st1)
      else st)"

definition port_record :: "SpanINFO \<Rightarrow> nat \<Rightarrow> sw \<Rightarrow> sw" where
  "port_record si i s =
     (let q = PortList s ! i; r = si_RootID si; c = si_Cost si; b = si_Bridge si;
          upd = upd_port i (\<lambda>q. q\<lparr>RootID := r, Cost := c, Bridge := b\<rparr>) s
      in if Bridge q = 0 then upd
         else if Bridge q = b then
           (if portNum q = st_RootPort (SpanTreeTbl0 s)
            then upd\<lparr>SpanTreeTbl0 := (SpanTreeTbl0 upd)\<lparr>st_RootID := r, st_Cost := c + 1\<rparr>\<rparr> else upd)
         else if RootID q > r \<or> RootID q = r \<and> Cost q > c \<or> RootID q = r \<and> Cost q = c \<and> Bridge q > b
           then upd
         else s)"

definition choose_root :: "nat \<Rightarrow> sw \<Rightarrow> sw" where
  "choose_root i s =
     (let q = PortList s ! i; t = SpanTreeTbl0 s in
      if Bridge q \<noteq> 0 \<and> (st_RootID t > RootID q \<or> st_RootID t = RootID q \<and> st_Cost t > Cost q + 1
            \<or> st_RootID t = RootID q \<and> st_Cost t = Cost q + 1 \<and> st_Bridge t > Bridge q)
      then s\<lparr>SpanTreeTbl0 := \<lparr>st_RootID = RootID q, st_Cost = Cost q + 1, st_Bridge = Bridge q,
                            st_RootPort = portNum q\<rparr>\<rparr>
      else s)"

definition GetSpanTreePacket :: "SpanINFO \<Rightarrow> nat \<Rightarrow> 'x sw_state_scheme \<Rightarrow> 'x sw_state_scheme" where
  "GetSpanTreePacket si i st =
     (let st1 = upd_sw (upd_port i (\<lambda>q. q\<lparr>SwSignal := 1, Age := 0\<rparr>)) st;
          st2 = parent_flags i (si_TCAReservedTC si) st1
      in upd_sw (choose_root i) (upd_sw (port_record si i) st2))"

text \<open>The event \<open>ep\<close> carries the number \<open>n\<close> of the port.\<close>

definition OpenSpanTreePort :: "'x sw_state_ext mb_env \<Rightarrow> addr \<Rightarrow> u8 \<Rightarrow> 'x sw_state_scheme \<Rightarrow> 'x sw_state_scheme run" where
  "OpenSpanTreePort V ep n st =
     (let s = me st; t = SpanTreeTbl0 s; i = length (takeWhile (\<lambda>q. portNum q \<noteq> n) (ports s)) in
      if i \<ge> length (ports s) then Some (Inl NullDeref)
      else let q = PortList s ! i;
               no_data = (RootID q = 0 \<and> Cost q = 0 \<and> Bridge q = 0);
               high = (st_RootID t < RootID q \<or> st_RootID t = RootID q \<and> st_Cost t < RootID q
                       \<or> st_RootID t = RootID q \<and> st_Cost t = RootID q \<and> st_Bridge t < Bridge q)
           in run_bind
             (if (st_RootPort t = n \<or> st_RootID t = sw_nid s \<or> no_data \<or> high) \<and> PortState q = 0
              then SpanTreeChange V (upd_sw (\<lambda>s. (upd_port i (\<lambda>q. q\<lparr>PortState := 1\<rparr>) s)\<lparr>TCNFlag := True\<rparr>) st)
              else Some (Inr st))
             (\<lambda>st1. Some (Inr (sw_free ep st1))))"

text \<open>The loop of \<open>CheckTimeOut\<close>; \<open>dead\<close> is \<open>RootPortDeath\<close>.\<close>

definition time_out_port :: "'x sw_state_ext mb_env \<Rightarrow> nat \<Rightarrow> bool \<times> 'x sw_state_scheme \<Rightarrow> (bool \<times> 'x sw_state_scheme) run" where
  "time_out_port V i = (\<lambda>(dead, st).
     if int (unat (Age (PortList (me st) ! i))) < MaxAge (me st) then
       (let st1 = upd_sw (upd_port i (\<lambda>q. q\<lparr>Age := Age q + 1\<rparr>)) st in
        if int (unat (Age (PortList (me st1) ! i))) \<ge> MaxAge (me st1) then
          run_bind (if PortState (PortList (me st1) ! i) = 0
                    then SpanTreeChange V (upd_sw (\<lambda>s. (upd_port i (\<lambda>q. q\<lparr>PortState := 1\<rparr>) s)\<lparr>TCNFlag := True\<rparr>) st1)
                    else Some (Inr st1))
            (\<lambda>st2. let st3 = upd_sw (\<lambda>s. upd_port i (\<lambda>q. q\<lparr>RootID := 0, Cost := 0, Bridge := 0,
                              Age := word_of_int (MaxAge s), SwSignal := 0\<rparr>) s) st2
                   in Some (Inr (dead \<or> st_RootPort (SpanTreeTbl0 (me st3)) = portNum (PortList (me st3) ! i), st3)))
        else Some (Inr (dead, st1)))
     else Some (Inr (dead, st)))"

primrec time_out_loop :: "'x sw_state_ext mb_env \<Rightarrow> nat list \<Rightarrow> bool \<times> 'x sw_state_scheme \<Rightarrow> (bool \<times> 'x sw_state_scheme) run" where
  "time_out_loop V [] x = Some (Inr x)"
| "time_out_loop V (i # is) x = run_bind (time_out_port V i x) (time_out_loop V is)"

definition CheckTimeOut :: "'x sw_state_ext mb_env \<Rightarrow> 'x sw_state_scheme \<Rightarrow> 'x sw_state_scheme run" where
  "CheckTimeOut V st =
     (let st1 = upd_sw (\<lambda>s. if STABLEage s < MaxAge s then s\<lparr>STABLEage := STABLEage s + 1\<rparr> else s) st;
          st2 = upd_sw (\<lambda>s. if \<not> STABLE s \<and> STABLEage s \<ge> MaxAge s then s\<lparr>STABLE := True\<rparr> else s) st1
      in run_bind (time_out_loop V [0..<length (ports (me st2))] (False, st2)) (\<lambda>(dead, st3).
           Some (Inr (if dead
             then upd_sw (\<lambda>s. s\<lparr>SpanTreeTbl0 := \<lparr>st_RootID = sw_nid s, st_Cost = 0, st_Bridge = sw_nid s,
                                              st_RootPort = 0\<rparr>\<rparr>) st3
             else st3))))"

subsection \<open>Receiving\<close>

definition sw_get :: "'x sw_state_ext mb_env \<Rightarrow> addr \<Rightarrow> addr \<Rightarrow> 'x sw_state_scheme \<Rightarrow> (int \<times> 'x sw_state_scheme) run" where
  "sw_get V pkt frm st =
     (let s = me st;
          i = length (takeWhile (\<lambda>q. frmObj (mbq st frm) \<noteq> toObj (mbq st (port q))) (ports s));
          found = i < length (ports s)
      in if pkt = NULL \<or> DataInfo (pkts st pkt) = NULL then Some (Inl AssertFailed)
         else if ether_dhost (frames st pkt) = SPAN_MULTICAST then
           (if body_len (frames st pkt) = 4 then Some (Inr (0, sw_free pkt (GetSpanTreeChange st)))
            else if \<not> found then Some (Inl NullDeref)
            else Some (Inr (0, sw_free pkt (GetSpanTreePacket (span (frames st pkt)) i st))))
         else if \<not> STP_off s \<and> \<not> found then Some (Inl NullDeref)
         else if STP_off s \<or> PortState (PortList s ! i) \<noteq> 0 then
           (if STP_on s \<and> \<not> STABLE s then Some (Inr (0, sw_free pkt st))
            else sw_send V pkt frm (st\<lparr>pflags := (pflags st)
                   (pkt := (pflags st pkt AND NOT PF_RECV) OR PF_SEND)\<rparr>))
         else Some (Inr (0, sw_free pkt st)))"

subsection \<open>Initialisation\<close>

text \<open>
  \<open>init\<close>, for a system with \<open>tick\<close> nanoseconds to the tick.  \<open>lines\<close> are the lines of the table file
  that \<open>parseLine\<close> accepts, \<open>None\<close> when the file cannot be read.  The quotients of doubles of the time
  macros are those of integers wherever they are exact.
\<close>

definition MILLI_TO_TICK :: "u64 \<Rightarrow> int \<Rightarrow> u64" where
  "MILLI_TO_TICK tick t = word_of_int (t * 1000000 div uint tick)"

definition SEC_TO_TICK :: "u64 \<Rightarrow> int \<Rightarrow> u64" where
  "SEC_TO_TICK tick t = word_of_int (t * 1000000000 div uint tick)"

primrec load_table :: "u64 \<Rightarrow> (mac \<times> u8) list \<Rightarrow> sw \<Rightarrow> abort + sw" where
  "load_table now [] s = Inr s"
| "load_table now (l # ls) s =
     (case port_with (\<lambda>q. portNum q = snd l) s of
        None \<Rightarrow> Inl NullDeref
      | Some q \<Rightarrow>
          (case addSwTbl now (fst l) (port q) Normal s of
             Inl a \<Rightarrow> Inl a | Inr (_, s') \<Rightarrow> load_table now ls s'))"

text \<open>The mode and the interval, and the table of a switch that knows it in advance.\<close>

definition init_table :: "u64 \<Rightarrow> u64 \<Rightarrow> (mac \<times> u8) list option \<Rightarrow> sw \<Rightarrow> abort + sw" where
  "init_table tick now lines s =
     (let s1 = (if SWITCH_MODE s = None then s\<lparr>SWITCH_MODE := Some ''RunLearningBridgeProtocol''\<rparr> else s);
          s2 = (if flushInterval s1 = 0 then s1\<lparr>flushInterval := 3000\<rparr> else s1);
          s3 = s2\<lparr>flushInterval_tick := MILLI_TO_TICK tick (flushInterval s2)\<rparr>
      in if SWITCH_MODE s3 = Some ''KnowInAdvance'' then
           (case lines of
              None \<Rightarrow> Inr (s3\<lparr>SWITCH_MODE := Some ''RunLearningBridgeProtocol'', flushInterval := 6000,
                            flushInterval_tick := MILLI_TO_TICK tick 6000\<rparr>)
            | Some ls \<Rightarrow> load_table now ls s3)
         else Inr s3)"

definition init_span :: "u64 \<Rightarrow> sw \<Rightarrow> sw" where
  "init_span tick s =
     (let s1 = s\<lparr>STABLE := False, STABLEage := 0, RootDeath := 0,
            MaxAge := (if MaxAge s = 0 then 3 else MaxAge s),
            HelloTime := (if HelloTime s = 0 then 1 else HelloTime s),
            ForwardDelay := (if ForwardDelay s = 0 then 15 else ForwardDelay s)\<rparr>
      in s1\<lparr>SpanTimeOutTick := SEC_TO_TICK tick (1 * HelloTime s1), HelloTimeTick := SEC_TO_TICK tick (HelloTime s1),
           ForwardDelayTick := MILLI_TO_TICK tick (ForwardDelay s1),
           TCNFlag := False, TCAFlag := False, FlushSwTblFlag := False,
           PortList := map (\<lambda>q. q\<lparr>PortState := 0, SwSignal := 0, RootID := 0, Cost := 0, Bridge := 0, Age := 0\<rparr>)
                         (ports s1) @ drop (num_port s1) (PortList s1),
           SpanTreeTbl0 := \<lparr>st_RootID = sw_nid s1, st_Cost = 0, st_Bridge = sw_nid s1, st_RootPort = 0\<rparr>\<rparr>)"

definition sw_init :: "u64 \<Rightarrow> (mac \<times> u8) list option \<Rightarrow> 'x sw_state_scheme \<Rightarrow> abort + (int \<times> 'x sw_state_scheme)" where
  "sw_init tick lines st =
     (case init_table tick (sw_now st) lines (me st) of
        Inl a \<Rightarrow> Inl a
      | Inr s1 \<Rightarrow>
          let st1 = upd_sw (\<lambda>_. s1) st;
              run = (SWITCH_MODE s1 = Some ''RunLearningBridgeProtocol'');
              st2 = (if run then sched (FlushTimer (flushInterval_tick s1)) st1 else st1)
          in Inr (1, if run \<and> STP_on s1
               then (let st3 = upd_sw (init_span tick) st2
                     in sched (TimeOutTimer (sw_now st3 + SpanTimeOutTick (me st3)) (SpanTimeOutTick (me st3)))
                          (sched (SpanTimer (sw_now st3 + 100) (HelloTimeTick (me st3))) st3))
               else st2))"

subsection \<open>Where a frame goes\<close>

text \<open>
  \<open>egress s frm d\<close>: the ports to which a frame for \<open>d\<close> that came in at \<open>frm\<close> goes.  It is what a bridge
  promises: to the port that is known, otherwise to every open port but the one it came from.
\<close>

definition egress :: "sw \<Rightarrow> addr \<Rightarrow> mac \<Rightarrow> addr list" where
  "egress s frm d =
     (if findport d (pmntSwTable s) \<noteq> NULL then [findport d (pmntSwTable s)]
      else if findport d (swTable s) \<noteq> NULL then
        (case port_with (\<lambda>q. port q \<noteq> NULL \<and> findport d (swTable s) = port q) s of
           None \<Rightarrow> [] | Some q \<Rightarrow> if findport d (swTable s) \<noteq> frm \<and> open_port s q then [port q] else [])
      else if SWITCH_MODE s = Some ''KnowInAdvance'' \<and> d \<noteq> ETHER_BROADCAST then []
      else map port (filter (\<lambda>q. port q \<noteq> NULL \<and> frm \<noteq> port q \<and> open_port s q) (ports s)))"

text \<open>Neighbours that take every frame and note it.\<close>

record log_state = sw_state +
  delivered :: "(addr \<times> frame) list"

definition accept_env :: "unit log_state_ext sw_state_ext mb_env" where
  "accept_env = \<lparr>nid_of = (\<lambda>_. 1),
     mod_get = (\<lambda>ob pkt mo st. Some (Inr (1, st\<lparr>delivered := delivered st @ [(ob, frames st pkt)]\<rparr>))),
     memb_upcall = (\<lambda>_ _ _ st. Some (Inr st)), func_upcall = (\<lambda>_ _ st. Some (Inr st))\<rparr>"

text \<open>
  \<open>sent st st' pkt bs\<close>: between the two states copies of the packet, or the packet, were delivered to the
  modules bound to the binders \<open>bs\<close>, and the switch and the packet are as before.
\<close>

definition sent :: "log_state \<Rightarrow> log_state \<Rightarrow> addr \<Rightarrow> addr list \<Rightarrow> bool" where
  "sent st st' pkt bs \<longleftrightarrow> delivered st' = delivered st @ map (\<lambda>b. (toObj (mbq st b), frames st pkt)) bs
     \<and> me st' = me st \<and> mbs st' = mbs st \<and> frames st' pkt = frames st pkt \<and> pflags st' pkt = pflags st pkt
     \<and> ev_fresh st \<le> ev_fresh st' \<and> ev_freed st' = ev_freed st \<and> sw_now st' = sw_now st"

definition bound :: "log_state \<Rightarrow> addr \<Rightarrow> bool" where
  "bound st b \<longleftrightarrow> toObj (mbq st b) \<noteq> NULL \<and> co_type (mbq st b) = NO_UPCALL"

lemma sent_refl: "sent st st pkt []"
  by (simp add: sent_def)

lemma sent_trans: "sent st st1 pkt bs \<Longrightarrow> sent st1 st2 pkt cs \<Longrightarrow> sent st st2 pkt (bs @ cs)"
  by (simp add: sent_def)

lemma put_accept:
  assumes "bound st b" "pflags st pkt AND PF_SEND \<noteq> 0"
  shows "\<exists>st'. nsl_put accept_env pkt b st = Some (Inr (1, st')) \<and> sent st st' pkt [b]"
  using assms by (simp add: nsl_put_def accept_env_def bound_def run_bind_def try_upcall_def sent_def)

lemma put_copy_accept:
  assumes "bound st b" "pflags st pkt AND PF_SEND \<noteq> 0" "pkt < ev_fresh st"
  shows "\<exists>st'. put_copy accept_env pkt b st = Some (Inr st') \<and> sent st st' pkt [b]"
proof -
  obtain e st1 where c: "sw_copy pkt st = (e, st1)" by fastforce
  then have s: "e \<noteq> pkt" "pflags st1 e = pflags st pkt" "frames st1 e = frames st pkt" "mbs st1 = mbs st"
    "delivered st1 = delivered st" "sent st st1 pkt []"
    using assms(3) by (auto simp: sw_copy_def Let_def sent_def)
  then obtain st2 where p: "nsl_put accept_env e b st1 = Some (Inr (1, st2))" "sent st1 st2 e [b]"
    using put_accept [of st1 b e] assms by (auto simp: bound_def)
  have "frames st2 = frames st1" "pflags st2 = pflags st1" using p(1) s assms(1,2)
    by (auto simp: nsl_put_def accept_env_def bound_def run_bind_def try_upcall_def)
  then have "sent st st2 pkt [b]" using s p(2) by (simp add: sent_def)
  then show ?thesis using c p(1) by (simp add: put_copy_def run_bind_def)
qed

lemma flood_loop_accept:
  assumes "\<forall>i\<in>set is. bound st (port (PortList (me st) ! i))" "pflags st pkt AND PF_SEND \<noteq> 0" "pkt < ev_fresh st"
  shows "\<exists>st'. flood_loop accept_env pkt frm is st = Some (Inr st')
    \<and> sent st st' pkt (map port (filter (\<lambda>q. port q \<noteq> NULL \<and> frm \<noteq> port q \<and> open_port (me st) q)
         (map (\<lambda>i. PortList (me st) ! i) is)))"
  using assms
proof (induction "is" arbitrary: st)
  case Nil
  then show ?case by (simp add: sent_refl)
next
  case (Cons i "is")
  let ?q = "PortList (me st) ! i"
  let ?go = "port ?q \<noteq> NULL \<and> frm \<noteq> port ?q \<and> open_port (me st) ?q"
  obtain st1 where p: "(if ?go then put_copy accept_env pkt (port ?q) st else Some (Inr st)) = Some (Inr st1)"
    "sent st st1 pkt (if ?go then [port ?q] else [])"
    using put_copy_accept [of st "port ?q" pkt] Cons.prems sent_refl [of st pkt] by (cases ?go) auto
  have "me st1 = me st" "mbs st1 = mbs st" "pflags st1 pkt = pflags st pkt" "ev_fresh st \<le> ev_fresh st1"
    using p(2) by (simp_all add: sent_def)
  then obtain st2 where l: "flood_loop accept_env pkt frm is st1 = Some (Inr st2)"
    "sent st1 st2 pkt (map port (filter (\<lambda>q. port q \<noteq> NULL \<and> frm \<noteq> port q \<and> open_port (me st) q)
         (map (\<lambda>i. PortList (me st) ! i) is)))"
    using Cons.IH [of st1] Cons.prems by (auto simp: bound_def)
  have "flood_loop accept_env pkt frm (i # is) st = Some (Inr st2)"
    using p(1) l(1) by (simp add: Let_def run_bind_def)
  then show ?case using sent_trans [OF p(2) l(2)] by (cases ?go) auto
qed

lemma port_with_Some: "port_with P s = Some q \<Longrightarrow> P q \<and> q \<in> set (ports s)"
  by (auto simp: port_with_def dest: find_Some_in_set)

lemma ports_nth: "map (\<lambda>i. PortList s ! i) [0..<length (ports s)] = ports s"
  by (rule nth_equalityI) (simp_all add: ports_def)

lemma forward_egress:
  assumes "\<forall>q\<in>set (ports (me st)). bound st (port q)" "pflags st pkt AND PF_SEND \<noteq> 0" "pkt < ev_fresh st"
    and "findport (ether_dhost (frames st pkt)) (pmntSwTable (me st)) \<noteq> NULL
      \<longrightarrow> bound st (findport (ether_dhost (frames st pkt)) (pmntSwTable (me st)))"
  shows "\<exists>st'. forward accept_env pkt frm st = Some (Inr (1, st')) \<and> me st' = me st
    \<and> delivered st' = delivered st
        @ map (\<lambda>b. (toObj (mbq st b), frames st pkt)) (egress (me st) frm (ether_dhost (frames st pkt)))"
proof -
  let ?d = "ether_dhost (frames st pkt)"
  let ?s = "me st"
  have fl: "\<exists>st'. flood_loop accept_env pkt frm [0..<length (ports ?s)] st = Some (Inr st')
    \<and> sent st st' pkt (map port (filter (\<lambda>q. port q \<noteq> NULL \<and> frm \<noteq> port q \<and> open_port ?s q) (ports ?s)))"
  proof -
    have "PortList ?s ! i \<in> set (ports ?s)" if "i < length (ports ?s)" for i
      using that nth_mem [OF that] by (simp add: ports_def)
    then have "\<forall>i\<in>set [0..<length (ports ?s)]. bound st (port (PortList ?s ! i))" using assms(1) by simp
    from flood_loop_accept [OF this assms(2,3), of frm] show ?thesis by (simp add: ports_nth)
  qed
  consider (pm) "findport ?d (pmntSwTable ?s) \<noteq> NULL"
    | (known) "findport ?d (pmntSwTable ?s) = NULL" "findport ?d (swTable ?s) \<noteq> NULL"
    | (unknown) "findport ?d (pmntSwTable ?s) = NULL" "findport ?d (swTable ?s) = NULL" by blast
  then show ?thesis
  proof cases
    case pm
    then show ?thesis using put_accept [of st "findport ?d (pmntSwTable ?s)" pkt] assms(2,4)
      by (auto simp: forward_def Let_def egress_def run_bind_def sent_def)
  next
    case known
    show ?thesis
    proof (cases "port_with (\<lambda>q. port q \<noteq> NULL \<and> findport ?d (swTable ?s) = port q) ?s")
      case None
      then show ?thesis using known by (simp add: forward_def Let_def egress_def run_bind_def sw_free_def)
    next
      case (Some q)
      then have q: "findport ?d (swTable ?s) = port q" "bound st (port q)" using port_with_Some assms(1) by auto
      then show ?thesis using known Some put_copy_accept [of st "port q" pkt] assms(2,3)
        by (cases "open_port ?s q") (auto simp: forward_def Let_def egress_def run_bind_def sent_def sw_free_def)
    qed
  next
    case unknown
    then show ?thesis using fl by (auto simp: forward_def Let_def egress_def run_bind_def sent_def sw_free_def)
  qed
qed


text \<open>
  The switch of two ports between modules 11 and 12; packet 30 comes in from module 11, which is behind
  binder 21.
\<close>

definition two_neighbours :: log_state where
  "two_neighbours = \<lparr>pkts = (\<lambda>_. blank_event\<lparr>DataInfo := 90\<rparr>),
     mbs = (\<lambda>b. if b = 21 then MBinder 11 1 else (MBinder 5 1)\<lparr>toObj := b + 10\<rparr>),
     MBH = (\<lambda>_. NULL), pflags = (\<lambda>_. PF_SEND), me = two_ports,
     frames = (\<lambda>_. \<lparr>ether_shost = [1], ether_dhost = [2], finfos = {}, body_len = 0,
       span = \<lparr>si_RootID = 0, si_Cost = 0, si_Bridge = 0, si_TCAReservedTC = 0\<rparr>\<rparr>),
     ev_fresh = 40, ev_freed = {}, sw_now = 10, sched_calls = [], delivered = []\<rparr>"


end
