(* ===== verification/SpanningTree.thy ===== *)
theory SpanningTree
  imports Switch
begin

text \<open>
  The spanning tree of the switch: which message is the best, what a switch records of the messages of
  its neighbours, and which ports it opens.  A message is compared by root, then cost, then bridge; the
  vectors \<open>pvec\<close> are ordered that way, as an instance of \<open>linorder\<close>.
\<close>

datatype pvec = PVec (vroot: int) (vcost: int) (vbridge: int)

instantiation pvec :: linorder
begin

definition less_eq_pvec :: "pvec \<Rightarrow> pvec \<Rightarrow> bool" where
  "less_eq_pvec a b \<longleftrightarrow> vroot a < vroot b
     \<or> vroot a = vroot b \<and> (vcost a < vcost b \<or> vcost a = vcost b \<and> vbridge a \<le> vbridge b)"

definition less_pvec :: "pvec \<Rightarrow> pvec \<Rightarrow> bool" where
  "less_pvec a b \<longleftrightarrow> vroot a < vroot b
     \<or> vroot a = vroot b \<and> (vcost a < vcost b \<or> vcost a = vcost b \<and> vbridge a < vbridge b)"

instance
  by standard (auto simp: less_eq_pvec_def less_pvec_def intro: pvec.expand)

end

text \<open>The record of the switch, and what the neighbour at a port offers it.\<close>

definition own_vec :: "SpanTreeTbl \<Rightarrow> pvec" where
  "own_vec t = PVec (st_RootID t) (st_Cost t) (st_Bridge t)"

definition offer :: "SwPort \<Rightarrow> pvec" where
  "offer q = PVec (RootID q) (Cost q + 1) (Bridge q)"

lemma choose_root_min:
  "own_vec (SpanTreeTbl0 (choose_root i s)) = (if Bridge (PortList s ! i) = 0 then own_vec (SpanTreeTbl0 s)
     else min (own_vec (SpanTreeTbl0 s)) (offer (PortList s ! i)))"
  by (auto simp: choose_root_def Let_def own_vec_def offer_def min_def less_eq_pvec_def)

lemma choose_root_fields [simp]: "PortList (choose_root i s) = PortList s" "sw_nid (choose_root i s) = sw_nid s"
  by (simp_all add: choose_root_def Let_def)

lemma flush_table_fields [simp]: "PortList (flush_table n s) = PortList s" "SpanTreeTbl0 (flush_table n s) = SpanTreeTbl0 s"
  "sw_nid (flush_table n s) = sw_nid s"
  by (simp_all add: flush_table_def)

lemma parent_flags_fields [simp]: "PortList (me (parent_flags i c st)) = PortList (me st)"
  "SpanTreeTbl0 (me (parent_flags i c st)) = SpanTreeTbl0 (me st)" "sw_nid (me (parent_flags i c st)) = sw_nid (me st)"
  by (auto simp: parent_flags_def upd_sw_def flushSwTbl_def sched_def Let_def)

lemma upd_port_nth: "i < length (PortList s) \<Longrightarrow> PortList (upd_port i f s) ! j = (if j = i then f (PortList s ! i) else PortList s ! j)"
  by (simp add: upd_port_def)

lemma upd_port_fields [simp]: "SpanTreeTbl0 (upd_port i f s) = SpanTreeTbl0 s" "sw_nid (upd_port i f s) = sw_nid s"
  "length (PortList (upd_port i f s)) = length (PortList s)"
  by (simp_all add: upd_port_def)

text \<open>A message from the bridge that the switch has its root from, at its root port.\<close>

definition from_parent :: "SpanINFO \<Rightarrow> nat \<Rightarrow> sw \<Rightarrow> bool" where
  "from_parent si i s \<longleftrightarrow> Bridge (PortList s ! i) \<noteq> 0 \<and> Bridge (PortList s ! i) = si_Bridge si
     \<and> portNum (PortList s ! i) = st_RootPort (SpanTreeTbl0 s)"

lemma GetSpanTreePacket_me:
  "me (GetSpanTreePacket si i st) = choose_root i (port_record si i (me (parent_flags i (si_TCAReservedTC si)
     (upd_sw (upd_port i (\<lambda>q. q\<lparr>SwSignal := 1, Age := 0\<rparr>)) st))))"
  by (simp add: GetSpanTreePacket_def upd_sw_def Let_def)



text \<open>
  when the parent of a switch announces a root with a higher identifier than the switch's own, the
  switch takes it for its root instead of becoming the root itself, as the rules of the protocol would
  have it.
\<close>

theorem worse_root_accepted:
  assumes "i < length (PortList (me st))" "from_parent si i (me st)" "st_Bridge (SpanTreeTbl0 (me st)) = si_Bridge si"
    and "sw_nid (me st) < si_RootID si"
  shows "let s' = me (GetSpanTreePacket si i st) in st_RootID (SpanTreeTbl0 s') = si_RootID si
    \<and> sw_nid s' < st_RootID (SpanTreeTbl0 s') \<and> st_RootPort (SpanTreeTbl0 s') = st_RootPort (SpanTreeTbl0 (me st))"
proof -
  let ?s1 = "me (parent_flags i (si_TCAReservedTC si) (upd_sw (upd_port i (\<lambda>q. q\<lparr>SwSignal := 1, Age := 0\<rparr>)) st))"
  let ?s2 = "port_record si i ?s1"
  have q1: "PortList ?s1 ! i = (PortList (me st) ! i)\<lparr>SwSignal := 1, Age := 0\<rparr>" "i < length (PortList ?s1)"
    "SpanTreeTbl0 ?s1 = SpanTreeTbl0 (me st)" "sw_nid ?s1 = sw_nid (me st)"
    using assms(1) by (simp_all add: upd_sw_def upd_port_nth)
  have t: "SpanTreeTbl0 ?s2 = (SpanTreeTbl0 (me st))\<lparr>st_RootID := si_RootID si, st_Cost := si_Cost si + 1\<rparr>"
    "RootID (PortList ?s2 ! i) = si_RootID si" "Cost (PortList ?s2 ! i) = si_Cost si"
    "Bridge (PortList ?s2 ! i) = si_Bridge si" "sw_nid ?s2 = sw_nid (me st)"
    using assms(2) q1 by (auto simp: port_record_def Let_def from_parent_def upd_port_nth)
  then have "choose_root i ?s2 = ?s2" using assms(3) by (simp add: choose_root_def Let_def)
  then show ?thesis using t assms(4) by (simp add: GetSpanTreePacket_me Let_def)
qed

text \<open>A switch with identifier 5 whose root is bridge 2, at its first port.\<close>

definition child_of_2 :: log_state where
  "child_of_2 = two_neighbours\<lparr>me := two_ports\<lparr>SpanningTreeProtocol := ''on'',
     SpanTreeTbl0 := \<lparr>st_RootID = 2, st_Cost = 1, st_Bridge = 2, st_RootPort = 1\<rparr>,
     PortList := [blank_port\<lparr>portNum := 1, port := 1, RootID := 2, Bridge := 2, PortState := 1\<rparr>,
       blank_port\<lparr>portNum := 2, port := 2, RootID := 2, Cost := 0, Bridge := 3\<rparr>]\<rparr>\<rparr>"

theorem worse_root_accepted_witness:
  "st_RootID (SpanTreeTbl0 (me (GetSpanTreePacket \<lparr>si_RootID = 9, si_Cost = 4, si_Bridge = 2, si_TCAReservedTC = 0\<rparr> 0
     child_of_2))) = 9 \<and> sw_nid (me child_of_2) = 5"
proof -
  let ?si = "\<lparr>si_RootID = 9, si_Cost = 4, si_Bridge = 2, si_TCAReservedTC = 0\<rparr>"
  have "0 < length (PortList (me child_of_2))" "from_parent ?si 0 (me child_of_2)"
    "st_Bridge (SpanTreeTbl0 (me child_of_2)) = si_Bridge ?si" "sw_nid (me child_of_2) < si_RootID ?si"
    by (simp_all add: child_of_2_def from_parent_def two_ports_def add_port_def)
  from worse_root_accepted [OF this] show ?thesis
    by (simp add: Let_def child_of_2_def two_ports_def add_port_def)
qed

lemma SpanTreeChange_accept:
  assumes "\<forall>q\<in>set (ports (me st)). bound st (port q)"
    and "st_RootPort (SpanTreeTbl0 (me st)) \<noteq> 0 \<longrightarrow> (\<exists>q\<in>set (ports (me st)). portNum q = st_RootPort (SpanTreeTbl0 (me st)))"
  shows "\<exists>st'. SpanTreeChange accept_env st = Some (Inr st') \<and> PortList (me st') = PortList (me st)
    \<and> \<not> STABLE (me st') \<and> TCNFlag (me st') = TCNFlag (me st) \<and> mbs st' = mbs st
    \<and> (st_RootPort (SpanTreeTbl0 (me st)) \<noteq> 0 \<longrightarrow> length (delivered st') = length (delivered st) + 1)"
proof -
  let ?st1 = "upd_sw (\<lambda>s. s\<lparr>STABLE := False, STABLEage := 0\<rparr>) st"
  obtain ep st2 where n: "new_frame sizeof_TopChangeINFO id ?st1 = (ep, st2)" by fastforce
  have f: "me st2 = me ?st1" "pflags st2 ep AND PF_SEND \<noteq> 0" "ep < ev_fresh st2" "mbs st2 = mbs st"
    "delivered st2 = delivered st" "ports (me st2) = ports (me st)"
    "SpanTreeTbl0 (me st2) = SpanTreeTbl0 (me st)"
    using n by (auto simp: new_frame_def Let_def upd_sw_def packet_flags ports_def)
  show ?thesis
  proof (cases "st_RootPort (SpanTreeTbl0 (me st)) = 0")
    case True
    then show ?thesis using n f by (simp add: SpanTreeChange_def Let_def run_bind_def sw_free_def upd_sw_def)
  next
    case False
    then obtain q where q: "port_with (\<lambda>q. portNum q = st_RootPort (SpanTreeTbl0 (me st))) (me st2) = Some q"
      using assms(2) f(6) unfolding port_with_def by (metis (mono_tags, lifting) find_None_iff not_Some_eq)
    from port_with_Some [OF q] have "bound st2 (port q)" using assms(1) f(4,6) by (auto simp: bound_def)
    then obtain st3 where "put_copy accept_env ep (port q) st2 = Some (Inr st3)" "sent st2 st3 ep [port q]"
      using put_copy_accept f(2,3) by blast
    then show ?thesis using False n f q by (simp add: SpanTreeChange_def Let_def run_bind_def sw_free_def sent_def upd_sw_def)
  qed
qed

text \<open>
  \<open>OpenSpanTreePort\<close> compares the cost of the switch with the root identifier that the port heard,
  not with its cost.  So it opens a port on which a neighbour offers a better way to the root, a port
  that \<open>SendSpanTreePacket\<close> keeps closed, whenever the cost of the switch is below that identifier.
\<close>

theorem blocked_port_opened:
  assumes "\<forall>q\<in>set (ports (me st)). bound st (port q)" "ports (me st) = PortList (me st)"
    and "\<exists>q\<in>set (ports (me st)). portNum q = st_RootPort (SpanTreeTbl0 (me st))"
    and i: "i < length (PortList (me st))" "portNum (PortList (me st) ! i) = n" "distinct (map portNum (PortList (me st)))"
    and q: "PortState (PortList (me st) ! i) = 0" "RootID (PortList (me st) ! i) = st_RootID (SpanTreeTbl0 (me st))"
      "Cost (PortList (me st) ! i) < st_Cost (SpanTreeTbl0 (me st))"
      "st_Cost (SpanTreeTbl0 (me st)) < st_RootID (SpanTreeTbl0 (me st))"
  shows "\<not> better_than_port (me st) (PortList (me st) ! i)
    \<and> (\<exists>st'. OpenSpanTreePort accept_env ep n st = Some (Inr st') \<and> PortState (PortList (me st') ! i) = 1
        \<and> TCNFlag (me st'))"
proof -
  let ?ps = "PortList (me st)"
  have k: "length (takeWhile (\<lambda>q. portNum q \<noteq> n) ?ps) = i"
  proof -
    have "portNum (?ps ! j) \<noteq> n" if "j < i" for j
      using that i nth_eq_iff_index_eq [OF i(3), of j i] by auto
    then have "takeWhile (\<lambda>q. portNum q \<noteq> n) ?ps = take i ?ps" using i by (intro takeWhile_eq_take_P_nth) auto
    then show ?thesis using i(1) by simp
  qed
  let ?st1 = "upd_sw (\<lambda>s. (upd_port i (\<lambda>q. q\<lparr>PortState := 1\<rparr>) s)\<lparr>TCNFlag := True\<rparr>) st"
  have num: "num_port (me st) \<ge> length ?ps" using assms(2) by (simp add: ports_def)
  have p1: "ports (me ?st1) = ?ps[i := (?ps ! i)\<lparr>PortState := 1\<rparr>]" using num
    by (simp add: ports_def upd_sw_def upd_port_def)
  have b1: "\<forall>q\<in>set (ports (me ?st1)). bound ?st1 (port q)"
  proof
    fix q assume "q \<in> set (ports (me ?st1))"
    then have "q = (?ps ! i)\<lparr>PortState := 1\<rparr> \<or> q \<in> set ?ps" using set_update_subset_insert unfolding p1 by fast
    then show "bound ?st1 (port q)" using assms(1,2) i(1) by (auto simp: bound_def upd_sw_def)
  qed
  have "portNum ` set (?ps[i := (?ps ! i)\<lparr>PortState := 1\<rparr>]) = portNum ` set ?ps"
  proof -
    have "map portNum (?ps[i := (?ps ! i)\<lparr>PortState := 1\<rparr>]) = map portNum ?ps" using i(1)
      by (simp add: map_update list_update_same_conv)
    then show ?thesis by (metis set_map)
  qed
  then have im: "portNum ` set (ports (me ?st1)) = portNum ` set (ports (me st))" by (simp only: p1 assms(2))
  obtain r where r: "r \<in> set (ports (me st))" "portNum r = st_RootPort (SpanTreeTbl0 (me st))" using assms(3) by blast
  have "portNum r \<in> portNum ` set (ports (me ?st1))" unfolding im using r(1) by (rule imageI)
  then obtain r' where r': "portNum r = portNum r'" "r' \<in> set (ports (me ?st1))" by (rule imageE)
  have "SpanTreeTbl0 (me ?st1) = SpanTreeTbl0 (me st)" by (simp add: upd_sw_def)
  then have r1: "\<exists>q\<in>set (ports (me ?st1)). portNum q = st_RootPort (SpanTreeTbl0 (me ?st1))"
    using r(2) r'(1) by (intro bexI [OF _ r'(2)]) simp
  from SpanTreeChange_accept [OF b1] r1 obtain st' where
    c: "SpanTreeChange accept_env ?st1 = Some (Inr st')" "PortList (me st') = PortList (me ?st1)" "TCNFlag (me st')"
    by (auto simp: upd_sw_def)
  have "OpenSpanTreePort accept_env ep n st = Some (Inr (sw_free ep st'))"
    using c(1) k i q assms(2) by (simp add: OpenSpanTreePort_def Let_def run_bind_def)
  moreover have "PortState (PortList (me st') ! i) = 1" unfolding c(2) using i(1) by (simp add: upd_sw_def upd_port_def)
  ultimately show ?thesis using c(3) q by (auto simp: better_than_port_def Let_def sw_free_def)
qed

text \<open>The switch with root 9 at cost 3, at its first port; the neighbour at the second offers cost 1.\<close>

definition blocked_second :: log_state where
  "blocked_second = two_neighbours\<lparr>me := two_ports\<lparr>sw_nid := 20, SpanningTreeProtocol := ''on'',
     SpanTreeTbl0 := \<lparr>st_RootID = 9, st_Cost = 3, st_Bridge = 12, st_RootPort = 1\<rparr>,
     PortList := [blank_port\<lparr>portNum := 1, port := 1, RootID := 9, Cost := 2, Bridge := 12, PortState := 1\<rparr>,
       blank_port\<lparr>portNum := 2, port := 2, RootID := 9, Cost := 1, Bridge := 13\<rparr>]\<rparr>\<rparr>"

theorem blocked_port_opened_witness:
  "\<exists>st'. OpenSpanTreePort accept_env 33 2 blocked_second = Some (Inr st') \<and> PortState (PortList (me st') ! 1) = 1"
proof -
  let ?st = blocked_second
  have "\<forall>q\<in>set (ports (me ?st)). bound ?st (port q)" "ports (me ?st) = PortList (me ?st)"
    "\<exists>q\<in>set (ports (me ?st)). portNum q = st_RootPort (SpanTreeTbl0 (me ?st))"
    "1 < length (PortList (me ?st))" "portNum (PortList (me ?st) ! 1) = 2" "distinct (map portNum (PortList (me ?st)))"
    "PortState (PortList (me ?st) ! 1) = 0" "RootID (PortList (me ?st) ! 1) = st_RootID (SpanTreeTbl0 (me ?st))"
    "Cost (PortList (me ?st) ! 1) < st_Cost (SpanTreeTbl0 (me ?st))"
    "st_Cost (SpanTreeTbl0 (me ?st)) < st_RootID (SpanTreeTbl0 (me ?st))"
    by (simp_all add: blocked_second_def two_neighbours_def two_ports_def add_port_def blank_port_def ports_def
        bound_def MBinder_def)
  from blocked_port_opened [OF this, of 33] show ?thesis by blast
qed

end
