(* ===== verification/GaloisField.thy ===== *)
theory GaloisField
  imports Prelude
begin

text \<open>
  The arithmetic of \<open>rs_code.cc\<close> in the field of 256 elements: the tables of powers and logarithms that
  \<open>galois_tables\<close> fills, multiplication and inversion by them.  The type \<open>gf\<close> is a byte with that
  arithmetic; it is an instance of the class \<open>field\<close>, so the algebra of the library applies.  An
  \<open>int\<close> array is a list; an entry the code has not written is 0.
\<close>

definition field_size :: nat where "field_size = 255"

subsection \<open>The tables\<close>

text \<open>\<open>digit\<close> is a shift register of nine binary digits; entry 1 is the lowest digit of the power.\<close>

definition shift_digits :: "int list \<Rightarrow> int list" where
  "shift_digits d =
     (let d = d[0 := d ! 8];
          d = d[8 := d ! 7];
          d = d[7 := d ! 6];
          d = d[6 := d ! 5];
          d = d[5 := d ! 4 XOR d ! 0];
          d = d[4 := d ! 3 XOR d ! 0];
          d = d[3 := d ! 2 XOR d ! 0];
          d = d[2 := d ! 1]
      in d[1 := d ! 0])"

definition digit_value :: "int list \<Rightarrow> int" where
  "digit_value d = d ! 1 + d ! 2 * 2 + d ! 3 * 4 + d ! 4 * 8 + d ! 5 * 16 + d ! 6 * 32 + d ! 7 * 64 + d ! 8 * 128"

definition exp_step :: "nat \<Rightarrow> int list \<times> int list \<Rightarrow> int list \<times> int list" where
  "exp_step i = (\<lambda>(d, ex).
     let d' = shift_digits d; ex = ex[i := digit_value d'] in (d', ex[i + field_size := ex ! i]))"

definition exp_table :: "int list" where
  "exp_table =
     (let d = (replicate 9 0)[1 := 1];
          ex = (replicate 512 0)[0 := 1];
          ex = ex[field_size := ex ! 0]
      in snd (fold exp_step [1..<256] (d, ex)))"

text \<open>\<open>gen_log[i]\<close> is the first index at which the table of powers has \<open>i\<close>.\<close>

definition log_step :: "int list \<Rightarrow> nat \<Rightarrow> int list \<Rightarrow> int list" where
  "log_step ex i lg =
     (case List.find (\<lambda>z. ex ! z = int i) [0..<256] of None \<Rightarrow> lg | Some z \<Rightarrow> lg[i := int z])"

definition log_table :: "int list \<Rightarrow> int list" where
  "log_table ex = fold (log_step ex) [1..<256] ((replicate 256 0)[0 := 0])"

record gf_tables =
  gen_exp :: "int list"
  gen_log :: "int list"

definition galois_tables :: gf_tables where
  "galois_tables = \<lparr>gen_exp = exp_table, gen_log = log_table exp_table\<rparr>"

definition gen_mul_by :: "gf_tables \<Rightarrow> int \<Rightarrow> int \<Rightarrow> int" where
  "gen_mul_by t a b =
     (if a = 0 then 0 else if b = 0 then 0
      else gen_exp t ! nat (gen_log t ! nat a + gen_log t ! nat b))"

definition gen_inverse_by :: "gf_tables \<Rightarrow> int \<Rightarrow> int" where
  "gen_inverse_by t elt = gen_exp t ! nat (int field_size - gen_log t ! nat elt)"

definition gen_mul :: "int \<Rightarrow> int \<Rightarrow> int" where "gen_mul = gen_mul_by galois_tables"
definition gen_inverse :: "int \<Rightarrow> int" where "gen_inverse = gen_inverse_by galois_tables"

subsection \<open>Powers of the generator\<close>

text \<open>Multiplication by the generator of the field, on bytes.\<close>

definition xtime :: "u8 \<Rightarrow> u8" where
  "xtime w = push_bit 1 w XOR (if bit w 7 then 0x1D else 0)"

primrec pow_alpha :: "nat \<Rightarrow> u8" where
  "pow_alpha 0 = 1"
| "pow_alpha (Suc n) = xtime (pow_alpha n)"

lemma xtime_xor: "xtime (v XOR w) = xtime v XOR xtime w"
  by (simp add: xtime_def push_bit_xor bit_xor_iff ac_simps)

definition digits_of :: "u8 \<Rightarrow> int list" where
  "digits_of w = map (\<lambda>k. of_bool (bit w k)) [0..<8]"

lemma upt_8: "[0..<8] = [0, 1, 2, 3, 4, 5, 6, 7::nat]"
  by (simp add: upt_rec)

lemma value_digits_of: "digit_value (c # digits_of w) = uint w"
proof -
  have "uint w = horner_sum of_bool 2 (map (bit (uint w)) [0..<8])"
    using uint_lt2p [of w] by (simp add: horner_sum_bit_eq_take_bit take_bit_int_eq_self)
  also have "map (bit (uint w)) [0..<8] = map (bit w) [0..<8]"
    by (simp add: bit_uint_iff)
  finally show ?thesis by (simp add: digit_value_def digits_of_def upt_8)
qed

lemma bit_xtime: "bit (xtime w) n = (if n < 8 then (0 < n \<and> bit w (n - 1)) \<noteq> (bit w 7 \<and> n \<in> {0, 2, 3, 4}) else False)"
proof (cases "n < 8")
  case True
  have "n \<in> {0, 1, 2, 3, 4, 5, 6, 7}" using True by auto
  then show ?thesis by (auto simp: xtime_def bit_simps bit_times_2)
next
  case False
  then show ?thesis by (auto dest: bit_imp_le_length)
qed

lemma shift_digits_of: "\<exists>c'. shift_digits (c # digits_of w) = c' # digits_of (xtime w)"
  by (simp add: shift_digits_def digits_of_def upt_8 Let_def bit_xtime)

lemma uint_one_8 [simp]: "uint (1 :: u8) = 1" by simp

text \<open>The table of powers, up to entry 510: the powers of the generator, twice.\<close>

lemma exp_steps:
  assumes "n \<le> 255"
  shows "case fold exp_step [1..<Suc n] (0 # digits_of 1, (replicate 512 0)[0 := 1, field_size := 1]) of
    (d, ex) \<Rightarrow> (\<exists>c. d = c # digits_of (pow_alpha n)) \<and> length ex = 512
      \<and> (\<forall>i\<le>n. ex ! i = uint (pow_alpha i)) \<and> (\<forall>i\<le>n. 0 < i \<longrightarrow> ex ! (i + field_size) = uint (pow_alpha i))
      \<and> ((n < 255) \<longrightarrow> ex ! field_size = 1)"
  using assms
proof (induction n)
  case 0
  then show ?case by (simp add: field_size_def)
next
  case (Suc n)
  obtain d ex where r: "fold exp_step [1..<Suc n] (0 # digits_of 1, (replicate 512 0)[0 := 1, field_size := 1]) = (d, ex)"
    by fastforce
  with Suc obtain c where c: "d = c # digits_of (pow_alpha n)" "length ex = 512"
    "\<forall>i\<le>n. ex ! i = uint (pow_alpha i)" "\<forall>i\<le>n. 0 < i \<longrightarrow> ex ! (i + field_size) = uint (pow_alpha i)"
    "ex ! field_size = 1" by auto
  obtain c' where c': "shift_digits d = c' # digits_of (pow_alpha (Suc n))"
    using shift_digits_of [of c "pow_alpha n"] c(1) by auto
  have f: "fold exp_step [1..<Suc (Suc n)] (0 # digits_of 1, (replicate 512 0)[0 := 1, field_size := 1])
      = exp_step (Suc n) (d, ex)"
    using r by simp
  have v: "digit_value (c' # digits_of (pow_alpha (Suc n))) = uint (pow_alpha (Suc n))"
    by (rule value_digits_of)
  show ?case unfolding f using c c' v Suc.prems
    by (auto simp: exp_step_def Let_def nth_list_update field_size_def le_Suc_eq)
qed

lemma exp_table: "i \<le> 254 \<Longrightarrow> exp_table ! i = uint (pow_alpha i)"
  and exp_table_twice: "i < 256 \<Longrightarrow> 0 < i \<Longrightarrow> exp_table ! (i + 255) = uint (pow_alpha i)"
  and exp_table_255: "exp_table ! 255 = uint (pow_alpha 255)"
proof -
  have "(replicate 9 0)[1 := 1] = 0 # digits_of 1"
    by (simp add: digits_of_def upt_8 numeral_eq_Suc)
  then have "exp_table = snd (fold exp_step [1..<Suc 255] (0 # digits_of 1, (replicate 512 0)[0 := 1, field_size := 1]))"
    by (simp add: exp_table_def Let_def field_size_def)
  with exp_steps [of 255] show "i \<le> 254 \<Longrightarrow> exp_table ! i = uint (pow_alpha i)"
    "i < 256 \<Longrightarrow> 0 < i \<Longrightarrow> exp_table ! (i + 255) = uint (pow_alpha i)"
    "exp_table ! 255 = uint (pow_alpha 255)"
    by (auto split: prod.splits simp: field_size_def)
qed

text \<open>The generator has order 255, and its powers are all the bytes but 0.\<close>

primrec pows :: "nat \<Rightarrow> u8 \<Rightarrow> u8 list" where
  "pows 0 w = []"
| "pows (Suc n) w = w # pows n (xtime w)"

lemma pows_pow_alpha: "pows n (pow_alpha k) = map pow_alpha [k..<k + n]"
  by (induction n arbitrary: k) (simp_all add: upt_rec flip: pow_alpha.simps(2))

lemma pow_alpha_values: "pow_alpha 255 = 1 \<and> list_all (\<lambda>w. w \<noteq> 0 \<and> w \<noteq> 1) (map pow_alpha [1..<255])"
proof -
  have "pows 255 (xtime 1) ! 254 = 1 \<and> list_all (\<lambda>w. w \<noteq> 0 \<and> w \<noteq> 1) (take 254 (pows 255 (xtime 1)))"
    by code_simp
  moreover have "pows 255 (xtime 1) = map pow_alpha [1..<256]"
    using pows_pow_alpha [of 255 1] by simp
  ultimately show ?thesis by (simp add: take_map)
qed

lemma xtime_0 [simp]: "xtime 0 = 0" by (simp add: xtime_def)

lemma xtime_eq_0: "xtime w = 0 \<Longrightarrow> w = 0"
proof (rule bit_word_eqI)
  fix n assume "xtime w = 0" "n < LENGTH(8)"
  then have b: "\<not> bit (xtime w) k" for k by simp
  have 7: "\<not> bit w 7" using b [of 0] by (simp add: bit_xtime)
  have "\<not> bit w m" if "m < 7" for m using b [of "Suc m"] that 7 by (simp add: bit_xtime)
  moreover have "n < 7 \<or> n = 7" using \<open>n < LENGTH(8)\<close> by auto
  ultimately show "bit w n = bit 0 n" using 7 by auto
qed

lemma xtime_inj: "xtime v = xtime w \<Longrightarrow> v = w"
proof -
  assume "xtime v = xtime w"
  then have "xtime (v XOR w) = 0" by (simp add: xtime_xor)
  then have "v XOR w = 0" by (rule xtime_eq_0)
  then have "(v XOR w) XOR w = w" by simp
  then show "v = w" by (simp add: ac_simps)
qed

lemma pow_alpha_add: "pow_alpha (m + n) = (xtime ^^ m) (pow_alpha n)"
  by (induction m) simp_all

lemma xtime_pow_xor: "(xtime ^^ m) (v XOR w) = (xtime ^^ m) v XOR (xtime ^^ m) w"
  by (induction m) (simp_all add: xtime_xor)

lemma xtime_pow_0 [simp]: "(xtime ^^ m) 0 = 0"
  by (induction m) simp_all

lemma xtime_pow_inj: "(xtime ^^ m) v = (xtime ^^ m) w \<Longrightarrow> v = w"
  by (induction m) (auto dest: xtime_inj)

lemma pow_alpha_nz [simp]: "pow_alpha n \<noteq> 0"
  by (induction n) (auto dest: xtime_eq_0)

lemma pow_alpha_255_plus: "pow_alpha (n + 255) = pow_alpha n"
proof -
  have "pow_alpha (n + 0) = (xtime ^^ n) (pow_alpha 0)" by (rule pow_alpha_add)
  then show ?thesis using pow_alpha_values by (simp add: pow_alpha_add)
qed

lemma pow_alpha_mod: "pow_alpha (n mod 255) = pow_alpha n"
proof (induction n rule: less_induct)
  case (less n)
  then show ?case
  proof (cases "n < 255")
    case False
    then have "pow_alpha ((n - 255) mod 255) = pow_alpha (n - 255)" using less by simp
    with False show ?thesis using pow_alpha_255_plus [of "n - 255"] by (simp add: mod_if [of n])
  qed simp
qed

lemma pow_alpha_inj_less: "i < j \<Longrightarrow> j < 255 \<Longrightarrow> pow_alpha i \<noteq> pow_alpha j"
proof
  assume a: "i < j" "j < 255" "pow_alpha i = pow_alpha j"
  have "(xtime ^^ i) (pow_alpha (j - i)) = (xtime ^^ i) (pow_alpha 0)"
    using a(1,3) pow_alpha_add [of i "j - i"] pow_alpha_add [of i 0] by simp
  then have "pow_alpha (j - i) = 1" by (auto dest: xtime_pow_inj)
  moreover have "j - i \<in> set [1..<255]" using a by auto
  ultimately show False using pow_alpha_values by (auto simp: list_all_iff)
qed

lemma pow_alpha_eq: "pow_alpha i = pow_alpha j \<longleftrightarrow> i mod 255 = j mod 255"
proof
  assume "pow_alpha i = pow_alpha j"
  then have "pow_alpha (i mod 255) = pow_alpha (j mod 255)" by (simp add: pow_alpha_mod)
  then show "i mod 255 = j mod 255"
    using pow_alpha_inj_less [of "i mod 255" "j mod 255"] pow_alpha_inj_less [of "j mod 255" "i mod 255"]
    by (cases "i mod 255" "j mod 255" rule: linorder_cases) simp_all
qed (metis pow_alpha_mod)

lemma pow_alpha_surj: "w \<noteq> 0 \<Longrightarrow> \<exists>i<255. pow_alpha i = w"
proof -
  assume w: "w \<noteq> 0"
  have "inj_on pow_alpha {..<255}"
    by (rule inj_onI) (simp add: pow_alpha_eq)
  then have c: "card (pow_alpha ` {..<255}) = 255" by (simp add: card_image)
  have "card (UNIV :: u8 set) = 256" by (simp add: card_word)
  then have "card (UNIV - {0} :: u8 set) = 255" by (simp add: card_Diff_singleton)
  then have "pow_alpha ` {..<255} = UNIV - {0}" using c
    by (intro card_subset_eq) auto
  with w show ?thesis by (metis (no_types, lifting) DiffI UNIV_I imageE lessThan_iff singletonD)
qed

lemma exp_table_all: "k \<le> 510 \<Longrightarrow> exp_table ! k = uint (pow_alpha k)"
proof -
  assume k: "k \<le> 510"
  consider "k \<le> 254" | "k = 255" | "255 < k" by linarith
  then show ?thesis
  proof cases
    case 3
    then have "exp_table ! (k - 255 + 255) = uint (pow_alpha (k - 255))" using k
      by (intro exp_table_twice) auto
    with 3 show ?thesis using pow_alpha_255_plus [of "k - 255"] by simp
  qed (simp_all add: exp_table exp_table_255)
qed

lemma fold_log_step:
  "fold (log_step ex) is lg ! i =
     (if i \<in> set is \<and> i < length lg then (case List.find (\<lambda>z. ex ! z = int i) [0..<256] of None \<Rightarrow> lg ! i | Some z \<Rightarrow> int z)
      else lg ! i)"
proof (induction "is" arbitrary: lg)
  case (Cons j js)
  have l: "length (log_step ex j lg) = length lg" by (simp add: log_step_def split: option.splits)
  have "log_step ex j lg ! i = (if i = j \<and> i < length lg then (case List.find (\<lambda>z. ex ! z = int i) [0..<256] of None \<Rightarrow> lg ! i | Some z \<Rightarrow> int z) else lg ! i)"
    by (auto simp: log_step_def nth_list_update list_update_beyond split: option.splits)
  then show ?case using Cons.IH [of "log_step ex j lg"] l by (auto split: option.splits)
qed simp

definition dlog :: "u8 \<Rightarrow> nat" where "dlog w = nat (log_table exp_table ! unat w)"

lemma log_table:
  assumes "w \<noteq> 0"
  shows "log_table exp_table ! unat w = int (dlog w) \<and> dlog w < 255 \<and> pow_alpha (dlog w) = w"
proof -
  have w: "unat w < 256" "0 < unat w" using assms unsigned_less [of w] by (auto simp: unat_gt_0)
  then have *: "log_table exp_table ! unat w = (case List.find (\<lambda>z. exp_table ! z = int (unat w)) [0..<256] of
      None \<Rightarrow> (replicate 256 0)[0 := 0] ! unat w | Some z \<Rightarrow> int z)"
    unfolding log_table_def fold_log_step by auto
  obtain i where i: "i < 255" "pow_alpha i = w" using pow_alpha_surj [OF assms] by blast
  then have "exp_table ! i = int (unat w)" using exp_table_all [of i] by simp
  then obtain z where z: "List.find (\<lambda>z. exp_table ! z = int (unat w)) [0..<256] = Some z"
    using i(1) by (cases "List.find (\<lambda>z. exp_table ! z = int (unat w)) [0..<256]") (auto simp: find_None_iff)
  then obtain n where n: "n < 256" "z = [0..<256] ! n" "exp_table ! ([0..<256] ! n) = int (unat w)"
    "\<forall>j<n. exp_table ! ([0..<256] ! j) \<noteq> int (unat w)" by (auto simp: find_Some_iff)
  have "n \<le> i" using n(1,4) i \<open>exp_table ! i = int (unat w)\<close>
    by (metis add_0 diff_zero le_less_linear less_trans nth_upt)
  with n i have "z < 255" "exp_table ! z = int (unat w)" by auto
  then have "uint (pow_alpha z) = uint w" using exp_table_all [of z] by simp
  then have "pow_alpha z = w" by (simp add: word_uint_eq_iff)
  with z \<open>z < 255\<close> * show ?thesis by (simp add: dlog_def)
qed

lemma dlog_pow_alpha [simp]: "dlog (pow_alpha k) = k mod 255"
proof -
  have "dlog (pow_alpha k) < 255" "dlog (pow_alpha k) mod 255 = k mod 255"
    using log_table [of "pow_alpha k"] by (simp_all add: pow_alpha_eq)
  then show ?thesis by simp
qed

subsection \<open>The field\<close>

lemma gen_mul_uint:
  "gen_mul (uint v) (uint w) = (if v = 0 \<or> w = 0 then 0 else uint (pow_alpha (dlog v + dlog w)))"
proof (cases "v = 0 \<or> w = 0")
  case False
  then have "log_table exp_table ! nat (uint v) = int (dlog v)" "log_table exp_table ! nat (uint w) = int (dlog w)"
    "dlog v + dlog w \<le> 510"
    using log_table [of v] log_table [of w] by (auto simp flip: unat_eq_nat_uint)
  then show ?thesis using False exp_table_all [of "dlog v + dlog w"]
    by (simp add: gen_mul_def gen_mul_by_def galois_tables_def uint_0_iff nat_add_distrib)
qed (auto simp: gen_mul_def gen_mul_by_def)

lemma gen_inverse_uint: "w \<noteq> 0 \<Longrightarrow> gen_inverse (uint w) = uint (pow_alpha (255 - dlog w))"
proof -
  assume w: "w \<noteq> 0"
  then have "log_table exp_table ! nat (uint w) = int (dlog w)" "nat (255 - int (dlog w)) = 255 - dlog w"
    using log_table [of w] by (auto simp flip: unat_eq_nat_uint)
  then show ?thesis using exp_table_all [of "255 - dlog w"]
    by (simp add: gen_inverse_def gen_inverse_by_def galois_tables_def field_size_def)
qed

datatype gf = GF (byte_of: u8)

instantiation gf :: "{zero, one, plus, minus, uminus, times, inverse}"
begin

definition zero_gf :: gf where "0 = GF 0"
definition one_gf :: gf where "1 = GF 1"
definition plus_gf :: "gf \<Rightarrow> gf \<Rightarrow> gf" where "x + y = GF (byte_of x XOR byte_of y)"
definition minus_gf :: "gf \<Rightarrow> gf \<Rightarrow> gf" where "x - y = (x + y :: gf)"
definition uminus_gf :: "gf \<Rightarrow> gf" where "- x = (x :: gf)"
definition times_gf :: "gf \<Rightarrow> gf \<Rightarrow> gf" where
  "x * y = GF (word_of_int (gen_mul (uint (byte_of x)) (uint (byte_of y))))"
definition inverse_gf :: "gf \<Rightarrow> gf" where
  "inverse x = (if byte_of x = 0 then GF 0 else GF (word_of_int (gen_inverse (uint (byte_of x)))))"
definition divide_gf :: "gf \<Rightarrow> gf \<Rightarrow> gf" where "x div y = (x * inverse y :: gf)"

instance ..

end

lemmas gf_defs = zero_gf_def one_gf_def plus_gf_def minus_gf_def uminus_gf_def

lemma times_gf: "GF v * GF w = GF (if v = 0 \<or> w = 0 then 0 else pow_alpha (dlog v + dlog w))"
  by (simp add: times_gf_def gen_mul_uint)

lemma times_gf_pow: "GF (pow_alpha m) * GF w = GF ((xtime ^^ m) w)"
proof (cases "w = 0")
  case False
  then have "pow_alpha (m mod 255 + dlog w) = (xtime ^^ m) w"
    using log_table [OF False] pow_alpha_add [of m "dlog w"] pow_alpha_mod [of "m mod 255 + dlog w"]
      pow_alpha_mod [of "m + dlog w"]
    by (simp add: mod_add_left_eq)
  with False show ?thesis by (simp add: times_gf)
qed (simp add: times_gf)

lemma gf_cases [case_names zero pow]:
  obtains "x = GF 0" | m where "x = GF (pow_alpha m)"
  by (cases x) (metis pow_alpha_surj)

lemma gf_zero_times: "GF 0 * x = GF 0" and gf_times_zero: "x * GF 0 = GF 0"
  by (cases x; simp add: times_gf)+

lemma pow_alpha_times: "GF (pow_alpha m) * GF (pow_alpha n) = GF (pow_alpha (m + n))"
  by (simp add: times_gf_pow pow_alpha_add)

instance gf :: field
proof
  fix x y z :: gf
  show "x * y * z = x * (y * z)"
    by (cases x rule: gf_cases; cases y rule: gf_cases; cases z rule: gf_cases)
      (simp_all add: gf_zero_times gf_times_zero pow_alpha_times add.assoc)
  show "x * y = y * x"
    by (cases x; cases y) (auto simp: times_gf add.commute)
  show "1 * x = x"
    using times_gf_pow [of 0 "byte_of x"] by (simp add: gf_defs)
  show "(x + y) * z = x * z + y * z"
  proof -
    have "z * (x + y) = z * x + z * y"
      by (cases z rule: gf_cases; cases x; cases y)
        (simp_all add: times_gf_pow xtime_pow_xor gf_defs, simp add: times_gf)
    moreover have "a * b = b * a" for a b :: gf by (cases a; cases b) (auto simp: times_gf add.commute)
    ultimately show ?thesis by metis
  qed
  show "x \<noteq> 0 \<Longrightarrow> inverse x * x = 1"
  proof -
    assume "x \<noteq> 0"
    then have w: "byte_of x \<noteq> 0" by (cases x) (simp add: gf_defs)
    then have "inverse x * x = GF (pow_alpha (255 - dlog (byte_of x))) * GF (pow_alpha (dlog (byte_of x)))"
      using log_table [OF w] by (cases x) (simp add: inverse_gf_def gen_inverse_uint)
    also have "\<dots> = GF (pow_alpha 255)" unfolding pow_alpha_times using log_table [OF w] by simp
    also have "\<dots> = 1" using pow_alpha_values by (simp add: gf_defs)
    finally show ?thesis .
  qed
  show "x div y = x * inverse y" by (simp add: divide_gf_def)
  show "inverse (0 :: gf) = 0" by (simp add: inverse_gf_def gf_defs)
qed (auto simp: gf_defs ac_simps)

subsection \<open>The integers of the code as elements of the field\<close>

definition byte :: "int \<Rightarrow> bool" where "byte i \<longleftrightarrow> 0 \<le> i \<and> i < 256"
definition g :: "int \<Rightarrow> gf" where "g i = GF (word_of_int i)"
definition alpha :: gf where "alpha = GF 2"

named_theorems byte_intros \<open>what stays in the range of a byte\<close>

lemma byte_uint [simp]: "byte (uint (w :: u8))"
  using uint_lt2p [of w] by (simp add: byte_def)

lemma byteE:
  assumes "byte i" obtains w where "i = uint (w :: u8)"
  using assms that [of "word_of_int i"] by (simp add: byte_def uint_word_of_int)

lemma byte_0 [simp]: "byte 0" and byte_1 [simp]: "byte 1" by (simp_all add: byte_def)

lemma g_uint [simp]: "g (uint w) = GF w" by (simp add: g_def)

lemma byte_xor [byte_intros]: "byte a \<Longrightarrow> byte b \<Longrightarrow> byte (a XOR b)"
  by (elim byteE) (simp flip: uint_xor)

lemma byte_gen_mul [byte_intros]: "byte a \<Longrightarrow> byte b \<Longrightarrow> byte (gen_mul a b)"
  by (elim byteE) (simp add: gen_mul_uint)

lemma byte_gen_inverse [byte_intros]: "byte a \<Longrightarrow> a \<noteq> 0 \<Longrightarrow> byte (gen_inverse a)"
  by (elim byteE) (auto simp: gen_inverse_uint uint_0_iff)

lemma g_0 [simp]: "g 0 = 0" and g_1 [simp]: "g 1 = 1" by (simp_all add: g_def gf_defs)

lemma g_xor [simp]: "g (a XOR b) = g a + g b"
  by (simp add: g_def gf_defs xor_int_def [symmetric] of_int_xor_eq)

lemma g_gen_mul [simp]: "byte a \<Longrightarrow> byte b \<Longrightarrow> g (gen_mul a b) = g a * g b"
  by (elim byteE) (simp add: times_gf gen_mul_uint gf_defs)

lemma g_eq: "byte a \<Longrightarrow> byte b \<Longrightarrow> g a = g b \<longleftrightarrow> a = b"
  by (elim byteE) (simp add: word_uint_eq_iff)

lemma g_eq_0: "byte a \<Longrightarrow> g a = 0 \<longleftrightarrow> a = 0"
  using g_eq [of a 0] by simp

lemma g_gen_inverse: "byte a \<Longrightarrow> a \<noteq> 0 \<Longrightarrow> g (gen_inverse a) = inverse (g a)"
  by (elim byteE) (auto simp: inverse_gf_def gen_inverse_uint uint_0_iff)

lemma gf_plus_self [simp]: "x + x = (0 :: gf)" by (simp add: gf_defs)

lemma gf_two [simp]: "2 = (0 :: gf)"
  using gf_plus_self [of 1] by (simp only: one_add_one)

lemma gf_uminus [simp]: "- x = (x :: gf)" and gf_minus: "x - y = (x + y :: gf)"
  by (simp_all add: gf_defs)

lemma gf_eq_iff: "x = y \<longleftrightarrow> x + y = (0 :: gf)"
  by (metis gf_minus right_minus_eq)

lemma alpha_power: "alpha ^ n = GF (pow_alpha n)"
proof (induction n)
  case (Suc n)
  have "GF (pow_alpha 1) * GF (pow_alpha n) = GF (pow_alpha (1 + n))" by (rule pow_alpha_times)
  moreover have "pow_alpha 1 = 2" by code_simp
  ultimately show ?case using Suc by (simp add: alpha_def)
qed (simp add: gf_defs)

lemma alpha_nz [simp]: "alpha \<noteq> 0" by (simp add: alpha_def gf_defs)

lemma alpha_255: "alpha ^ 255 = 1"
  using pow_alpha_values by (simp add: alpha_power gf_defs)

lemma alpha_power_eq: "alpha ^ i = alpha ^ j \<longleftrightarrow> i mod 255 = j mod 255"
  by (simp add: alpha_power pow_alpha_eq)

lemma alpha_power_mod: "alpha ^ (n mod 255) = alpha ^ n"
  by (simp add: alpha_power_eq)

definition gexp :: "nat \<Rightarrow> int" where "gexp k = gen_exp galois_tables ! k"

lemma g_gexp [simp]: "k \<le> 510 \<Longrightarrow> g (gexp k) = alpha ^ k"
  and byte_gexp [simp]: "k \<le> 510 \<Longrightarrow> byte (gexp k)"
  by (simp_all add: gexp_def galois_tables_def exp_table_all alpha_power)

subsection \<open>A reference definition of the multiplication\<close>

text \<open>Shift and add: the product of two polynomials modulo $x^8 + x^4 + x^3 + x^2 + 1$.\<close>

primrec shift_add :: "nat \<Rightarrow> u8 \<Rightarrow> u8 \<Rightarrow> u8" where
  "shift_add 0 a b = 0"
| "shift_add (Suc n) a b = (if bit a 0 then b else 0) XOR shift_add n (drop_bit 1 a) (xtime b)"

lemma alpha_times: "alpha * GF w = GF (xtime w)"
proof -
  have "pow_alpha 1 = 2" by code_simp
  then show ?thesis using times_gf_pow [of 1 w] by (simp add: alpha_def)
qed

lemma split_low_bit: "a = (if bit a 0 then 1 else 0) XOR xtime (drop_bit 1 (a :: u8))"
proof (rule bit_word_eqI)
  fix n assume "n < LENGTH(8)"
  then have "n = 0 \<or> (\<exists>m. n = Suc m \<and> m < 7)" by (cases n) auto
  moreover have "\<not> bit a 8" by (auto dest: bit_imp_le_length)
  ultimately show "bit a n = bit ((if bit a 0 then 1 else 0) XOR xtime (drop_bit 1 a)) n"
    by (auto simp: bit_xtime bit_xor_iff bit_drop_bit_eq bit_1_iff simp del: bit_0 dest: bit_imp_le_length)
qed

lemma shift_add_gf: "(\<And>k. n \<le> k \<Longrightarrow> \<not> bit a k) \<Longrightarrow> GF a * GF b = GF (shift_add n a b)"
proof (induction n arbitrary: a b)
  case 0
  then have "a = 0" by (intro bit_word_eqI) simp
  then show ?case by (simp add: times_gf)
next
  case (Suc n)
  have "\<not> bit (drop_bit 1 a) k" if "n \<le> k" for k
    using Suc.prems [of "Suc k"] that by (simp add: bit_drop_bit_eq del: drop_bit_Suc)
  then have "GF (drop_bit 1 a) * GF (xtime b) = GF (shift_add n (drop_bit 1 a) (xtime b))"
    by (rule Suc.IH)
  moreover have "GF a = GF (if bit a 0 then 1 else 0) + alpha * GF (drop_bit 1 a)"
    using split_low_bit [of a] by (simp add: alpha_times plus_gf_def)
  moreover have "GF (if bit a 0 then 1 else 0) * GF b = GF (if bit a 0 then b else 0)"
    using mult_1_left [of "GF b"] gf_zero_times [of "GF b"] by (cases "bit a 0") (simp_all only: one_gf_def if_True if_False)
  ultimately have "GF a * GF b = GF (if bit a 0 then b else 0) + GF (shift_add n (drop_bit 1 a) (xtime b))"
  proof -
    assume 1: "GF (drop_bit 1 a) * GF (xtime b) = GF (shift_add n (drop_bit 1 a) (xtime b))"
      and 2: "GF a = GF (if bit a 0 then 1 else 0) + alpha * GF (drop_bit 1 a)"
      and 3: "GF (if bit a 0 then 1 else 0) * GF b = GF (if bit a 0 then b else 0)"
    have "alpha * GF (drop_bit 1 a) * GF b = GF (drop_bit 1 a) * GF (xtime b)"
      by (simp only: ac_simps flip: alpha_times)
    then show ?thesis unfolding 2 distrib_right 3 1 by simp
  qed
  then show ?case by (simp add: plus_gf_def)
qed

text \<open>
  C20: the multiplication by tables of logarithms is the multiplication of polynomials over the field of
  two elements modulo $x^8 + x^4 + x^3 + x^2 + 1$, computed by shifting and adding.
\<close>

theorem gen_mul_is_shift_add: "gen_mul (uint a) (uint b) = uint (shift_add 8 a b)"
proof -
  have "GF a * GF b = GF (shift_add 8 a b)" by (rule shift_add_gf) (auto dest: bit_imp_le_length)
  then have "g (gen_mul (uint a) (uint b)) = g (uint (shift_add 8 a b))" by simp
  then show ?thesis by (rule g_eq [THEN iffD1, rotated 2]) (simp_all add: byte_intros)
qed

subsection \<open>The tables by value\<close>

text \<open>
  The powers of the generator and their logarithms in rows of 16, for evaluating the code on concrete
  words.
\<close>

definition exp_rows :: "int list list" where
  "exp_rows = [
     [1, 2, 4, 8, 16, 32, 64, 128, 29, 58, 116, 232, 205, 135, 19, 38],
     [76, 152, 45, 90, 180, 117, 234, 201, 143, 3, 6, 12, 24, 48, 96, 192],
     [157, 39, 78, 156, 37, 74, 148, 53, 106, 212, 181, 119, 238, 193, 159, 35],
     [70, 140, 5, 10, 20, 40, 80, 160, 93, 186, 105, 210, 185, 111, 222, 161],
     [95, 190, 97, 194, 153, 47, 94, 188, 101, 202, 137, 15, 30, 60, 120, 240],
     [253, 231, 211, 187, 107, 214, 177, 127, 254, 225, 223, 163, 91, 182, 113, 226],
     [217, 175, 67, 134, 17, 34, 68, 136, 13, 26, 52, 104, 208, 189, 103, 206],
     [129, 31, 62, 124, 248, 237, 199, 147, 59, 118, 236, 197, 151, 51, 102, 204],
     [133, 23, 46, 92, 184, 109, 218, 169, 79, 158, 33, 66, 132, 21, 42, 84],
     [168, 77, 154, 41, 82, 164, 85, 170, 73, 146, 57, 114, 228, 213, 183, 115],
     [230, 209, 191, 99, 198, 145, 63, 126, 252, 229, 215, 179, 123, 246, 241, 255],
     [227, 219, 171, 75, 150, 49, 98, 196, 149, 55, 110, 220, 165, 87, 174, 65],
     [130, 25, 50, 100, 200, 141, 7, 14, 28, 56, 112, 224, 221, 167, 83, 166],
     [81, 162, 89, 178, 121, 242, 249, 239, 195, 155, 43, 86, 172, 69, 138, 9],
     [18, 36, 72, 144, 61, 122, 244, 245, 247, 243, 251, 235, 203, 139, 11, 22],
     [44, 88, 176, 125, 250, 233, 207, 131, 27, 54, 108, 216, 173, 71, 142, 1]]"

definition log_rows :: "int list list" where
  "log_rows = [
     [0, 0, 1, 25, 2, 50, 26, 198, 3, 223, 51, 238, 27, 104, 199, 75],
     [4, 100, 224, 14, 52, 141, 239, 129, 28, 193, 105, 248, 200, 8, 76, 113],
     [5, 138, 101, 47, 225, 36, 15, 33, 53, 147, 142, 218, 240, 18, 130, 69],
     [29, 181, 194, 125, 106, 39, 249, 185, 201, 154, 9, 120, 77, 228, 114, 166],
     [6, 191, 139, 98, 102, 221, 48, 253, 226, 152, 37, 179, 16, 145, 34, 136],
     [54, 208, 148, 206, 143, 150, 219, 189, 241, 210, 19, 92, 131, 56, 70, 64],
     [30, 66, 182, 163, 195, 72, 126, 110, 107, 58, 40, 84, 250, 133, 186, 61],
     [202, 94, 155, 159, 10, 21, 121, 43, 78, 212, 229, 172, 115, 243, 167, 87],
     [7, 112, 192, 247, 140, 128, 99, 13, 103, 74, 222, 237, 49, 197, 254, 24],
     [227, 165, 153, 119, 38, 184, 180, 124, 17, 68, 146, 217, 35, 32, 137, 46],
     [55, 63, 209, 91, 149, 188, 207, 205, 144, 135, 151, 178, 220, 252, 190, 97],
     [242, 86, 211, 171, 20, 42, 93, 158, 132, 60, 57, 83, 71, 109, 65, 162],
     [31, 45, 67, 216, 183, 123, 164, 118, 196, 23, 73, 236, 127, 12, 111, 246],
     [108, 161, 59, 82, 41, 157, 85, 170, 251, 96, 134, 177, 187, 204, 62, 90],
     [203, 89, 95, 176, 156, 169, 160, 81, 11, 245, 22, 235, 122, 117, 44, 215],
     [79, 174, 213, 233, 230, 231, 173, 232, 116, 214, 244, 234, 168, 80, 88, 175]]"

definition at_rows :: "int list list \<Rightarrow> int \<Rightarrow> int" where
  "at_rows t i = t ! nat (i div 16) ! nat (i mod 16)"

lemma pows_rows: "map uint (pows 256 1) = concat exp_rows"
  unfolding exp_rows_def by code_simp

lemma logs_rows: "list_all (\<lambda>i. at_rows log_rows (at_rows exp_rows i) = i) [0..254]"
  by code_simp

lemma at_rows_concat:
  "\<forall>r\<in>set t. length r = 16 \<Longrightarrow> k < 16 * length t \<Longrightarrow> at_rows t (int k) = concat t ! k"
proof (induction t arbitrary: k)
  case (Cons r t)
  show ?case
  proof (cases "k < 16")
    case False
    then obtain m where m: "k = m + 16" by (metis add.commute le_Suc_ex not_less)
    then have "int k div 16 = int m div 16 + 1" "int k mod 16 = int m mod 16" by simp_all
    then have "at_rows (r # t) (int k) = at_rows t (int m)"
      by (simp add: at_rows_def nat_add_distrib)
    with Cons m show ?thesis by (simp add: nth_append)
  qed (use Cons in \<open>simp add: at_rows_def nth_append\<close>)
qed simp

lemma exp_rows: "k < 256 \<Longrightarrow> at_rows exp_rows (int k) = uint (pow_alpha k)"
proof -
  assume k: "k < 256"
  have "at_rows exp_rows (int k) = concat exp_rows ! k"
    by (rule at_rows_concat) (use k in \<open>auto simp: exp_rows_def\<close>)
  moreover have "pows 256 1 = map pow_alpha [0..<256]" using pows_pow_alpha [of 256 0] by simp
  ultimately show ?thesis using k by (simp flip: pows_rows)
qed

lemma log_rows: "w \<noteq> 0 \<Longrightarrow> at_rows log_rows (uint w) = int (dlog w)"
proof -
  assume w: "w \<noteq> 0"
  then have "int (dlog w) \<in> set [0..254]" using log_table [OF w] by auto
  then have "at_rows log_rows (at_rows exp_rows (int (dlog w))) = int (dlog w)"
    using logs_rows unfolding list_all_iff by blast
  then show ?thesis using log_table [OF w] exp_rows [of "dlog w"] by simp
qed

text \<open>
  The equations for evaluation apply to literals only, so that evaluation does not unfold them below a
  binder.
\<close>

definition mul_rows :: "int \<Rightarrow> int \<Rightarrow> int" where
  "mul_rows a b =
     (if byte a \<and> byte b then at_rows exp_rows ((at_rows log_rows a + at_rows log_rows b) mod 255)
      else gen_mul_by galois_tables a b)"

lemma gen_mul_rows: "a \<noteq> 0 \<Longrightarrow> b \<noteq> 0 \<Longrightarrow> gen_mul a b = mul_rows a b"
proof (cases "byte a \<and> byte b")
  assume 0: "a \<noteq> 0" "b \<noteq> 0"
  case True
  then obtain v w where vw: "a = uint (v :: u8)" "b = uint (w :: u8)" "v \<noteq> 0" "w \<noteq> 0"
    using 0 by (metis byteE uint_0_iff)
  have "at_rows exp_rows (int ((dlog v + dlog w) mod 255)) = uint (pow_alpha ((dlog v + dlog w) mod 255))"
    by (rule exp_rows) simp
  then show ?thesis using True vw by (simp add: mul_rows_def gen_mul_uint log_rows pow_alpha_mod zmod_int)
qed (auto simp: mul_rows_def gen_mul_def)

lemma gen_mul_code [code]:
  "gen_mul 0 b = 0" "gen_mul a 0 = 0"
  "gen_mul (Int.Pos m) (Int.Pos n) = mul_rows (Int.Pos m) (Int.Pos n)"
  "gen_mul (Int.Neg m) (Int.Pos n) = mul_rows (Int.Neg m) (Int.Pos n)"
  "gen_mul (Int.Pos m) (Int.Neg n) = mul_rows (Int.Pos m) (Int.Neg n)"
  "gen_mul (Int.Neg m) (Int.Neg n) = mul_rows (Int.Neg m) (Int.Neg n)"
  by (simp_all add: gen_mul_rows) (simp_all add: gen_mul_def gen_mul_by_def)

definition inverse_row :: "int \<Rightarrow> int" where
  "inverse_row a = (if byte a \<and> a \<noteq> 0 then at_rows exp_rows (255 - at_rows log_rows a) else gen_inverse_by galois_tables a)"

lemma gen_inverse_row: "gen_inverse a = inverse_row a"
proof (cases "byte a \<and> a \<noteq> 0")
  case True
  then obtain w where w: "a = uint (w :: u8)" "w \<noteq> 0" by (metis byteE uint_0_iff)
  have "at_rows exp_rows (int (255 - dlog w)) = uint (pow_alpha (255 - dlog w))" by (rule exp_rows) simp
  then show ?thesis using True w log_table [OF w(2)]
    by (simp add: inverse_row_def gen_inverse_uint log_rows of_nat_diff)
qed (auto simp: inverse_row_def gen_inverse_def)

lemma gen_inverse_code [code]:
  "gen_inverse 0 = inverse_row 0" "gen_inverse (Int.Pos m) = inverse_row (Int.Pos m)"
  "gen_inverse (Int.Neg m) = inverse_row (Int.Neg m)"
  by (simp_all add: gen_inverse_row)

definition exp_row :: "nat \<Rightarrow> int" where
  "exp_row k = (if k < 256 then at_rows exp_rows (int k) else gen_exp galois_tables ! k)"

lemma gexp_row: "gexp k = exp_row k"
  using exp_rows [of k] by (simp add: exp_row_def gexp_def galois_tables_def exp_table_all)

lemma gexp_code [code]: "gexp 0 = exp_row 0" "gexp (Suc k) = exp_row (Suc k)"
  by (simp_all add: gexp_row)

end
