(* ===== verification/ReedSolomon.thy ===== *)
theory ReedSolomon
  imports GaloisField
begin

text \<open>
  The Reed-Solomon code of \<open>module/wimax/phy/fec/rs/rs_code.cc\<close>: 16 parity bytes, of which fewer may be
  sent.  Polynomials are \<open>int\<close> arrays, coefficient of the lowest power first; the arrays the code
  declares longer than \<open>MAXDEG\<close> and only uses up to there have \<open>MAXDEG\<close> entries.
\<close>

definition NPAR :: nat where "NPAR = 16"
definition MAXDEG :: nat where "MAXDEG = NPAR * 2"

subsection \<open>Polynomials\<close>

definition zero_poly :: "int list" where "zero_poly = replicate MAXDEG 0"

definition add_polys :: "int list \<Rightarrow> int list \<Rightarrow> int list" where
  "add_polys to from = map (\<lambda>i. to ! i XOR from ! i) [0..<MAXDEG]"

definition scale_poly :: "int \<Rightarrow> int list \<Rightarrow> int list" where
  "scale_poly number poly = map (\<lambda>i. gen_mul number (poly ! i)) [0..<MAXDEG]"

definition mul_z_poly :: "int list \<Rightarrow> int list" where
  "mul_z_poly from = map (\<lambda>i. if i = 0 then 0 else from ! (i - 1)) [0..<MAXDEG]"

text \<open>\<open>mult_step p1 p2 i to\<close> adds \<open>p1[i]\<close> times \<open>p2\<close>, shifted right by \<open>i\<close>, into \<open>to\<close>.\<close>

definition mult_step :: "int list \<Rightarrow> int list \<Rightarrow> nat \<Rightarrow> int list \<Rightarrow> int list" where
  "mult_step p1 p2 i to =
     (let tmp1 = map (\<lambda>j. if j < MAXDEG then gen_mul (p2 ! j) (p1 ! i) else 0) [0..<MAXDEG * 2];
          tmp1 = map (\<lambda>j. if j \<ge> i then tmp1 ! (j - i) else 0) [0..<MAXDEG * 2]
      in map (\<lambda>j. to ! j XOR tmp1 ! j) [0..<MAXDEG * 2])"

definition mult_polys :: "int list \<Rightarrow> int list \<Rightarrow> int list" where
  "mult_polys p1 p2 = fold (mult_step p1 p2) [0..<MAXDEG] (replicate (MAXDEG * 2) 0)"

text \<open>The generator polynomial: the product of \<open>x + a^n\<close> for \<open>n = 1\<close> to \<open>nbytes\<close>.\<close>

definition genpoly_step :: "nat \<Rightarrow> int list \<times> int list \<Rightarrow> int list \<times> int list" where
  "genpoly_step i = (\<lambda>(genpoly, tp1).
     let tp = zero_poly[0 := gexp i, 1 := 1]; genpoly = mult_polys tp tp1 in (genpoly, take MAXDEG genpoly))"

definition compute_genpoly :: "nat \<Rightarrow> int list \<Rightarrow> int list" where
  "compute_genpoly nbytes genpoly = fst (fold genpoly_step [1..<nbytes + 1] (genpoly, zero_poly[0 := 1]))"

definition genPoly :: "int list" where "genPoly = compute_genpoly NPAR (replicate (MAXDEG * 2) 0)"

subsection \<open>The encoder\<close>

text \<open>One byte through the shift register; entry \<open>NPAR\<close> of the register is not used.\<close>

definition shift_in :: "int list \<Rightarrow> u8 \<Rightarrow> int list \<Rightarrow> int list" where
  "shift_in gp b reg =
     (let dbyte = uint b XOR reg ! (NPAR - 1)
      in gen_mul (gp ! 0) dbyte # map (\<lambda>j. reg ! (j - 1) XOR gen_mul (gp ! j) dbyte) [1..<NPAR] @ [reg ! NPAR])"

text \<open>
  The bytes that \<open>encode\<close> writes to \<open>output\<close>; with no parity it copies the input there.
\<close>

definition rs_encode :: "u8 list \<Rightarrow> nat \<Rightarrow> abort + u8 list" where
  "rs_encode input parityLen =
     (if parityLen > NPAR then Inl (Exit 1)
      else if parityLen = 0 then Inr input
      else let reg = fold (shift_in genPoly) input (replicate (NPAR + 1) 0)
           in Inr (map (\<lambda>i. word_of_int (reg ! (NPAR - 1 - i))) [0..<parityLen]))"

subsection \<open>The decoder\<close>

definition init_gamma :: "nat list \<Rightarrow> int list" where
  "init_gamma erasures =
     fold (\<lambda>e gamma. add_polys gamma (scale_poly 8 (scale_poly (gexp e) gamma))) erasures (zero_poly[0 := 1])"

definition compute_discrepancy :: "int list \<Rightarrow> int list \<Rightarrow> int \<Rightarrow> int \<Rightarrow> int" where
  "compute_discrepancy lambda S L n =
     fold (\<lambda>i sum. sum XOR gen_mul (lambda ! nat i) (S ! nat (n - i))) [0..L] 0"

fun bm_step :: "int list \<Rightarrow> int \<Rightarrow> int list \<times> int list \<times> int \<times> int \<Rightarrow> int list \<times> int list \<times> int \<times> int" where
  "bm_step S n (psi, D, L, k) =
     (let delta = compute_discrepancy psi S L n;
         (psi, D, L, k) =
           (if delta \<noteq> 0 then
              let psi2 = map (\<lambda>i. psi ! i XOR gen_mul delta (D ! i)) [0..<MAXDEG];
                  (D, L, k) =
                    (if L < n - k
                     then (map (\<lambda>i. gen_mul (psi ! i) (gen_inverse delta)) [0..<MAXDEG], n - k, n - L)
                     else (D, L, k))
              in (psi2, D, L, k)
            else (psi, D, L, k))
     in (psi, mul_z_poly D, L, k))"

declare bm_step.simps [simp del]

definition Berlekamp_Massey :: "nat list \<Rightarrow> int list \<Rightarrow> int list \<times> int list" where
  "Berlekamp_Massey erasures S =
     (let gamma = init_gamma erasures; nerasures = int (length erasures);
          (psi, D, L, k) = fold (bm_step S) [nerasures..int NPAR - 1] (gamma, mul_z_poly gamma, nerasures, -1);
          product = mult_polys psi S
      in (psi, map (\<lambda>i. if i < NPAR then product ! i else 0) [0..<MAXDEG]))"

definition root_sum :: "int list \<Rightarrow> nat \<Rightarrow> int" where
  "root_sum Lambda r =
     fold (\<lambda>k sum. sum XOR gen_mul (gexp (k * r mod field_size)) (Lambda ! k)) [0..<NPAR + 1] 0"

definition Find_Roots :: "int list \<Rightarrow> nat list" where
  "Find_Roots Lambda = map (\<lambda>r. field_size - r) (filter (\<lambda>r. root_sum Lambda r = 0) [1..<256])"

text \<open>What is added to the codeword at error location \<open>i\<close>.\<close>

definition magnitude :: "int list \<Rightarrow> int list \<Rightarrow> nat \<Rightarrow> int" where
  "magnitude Lambda Omega i =
     (let num = fold (\<lambda>j num. num XOR gen_mul (Omega ! j) (gexp ((field_size - i) * j mod field_size)))
                  [0..<MAXDEG] 0;
          denom = fold (\<lambda>j denom. denom XOR gen_mul (Lambda ! j) (gexp ((field_size - i) * (j - 1) mod field_size)))
                    (filter odd [1..<MAXDEG]) 0
      in gen_mul num (gen_inverse denom))"

definition correct_errors :: "u8 list \<Rightarrow> nat list \<Rightarrow> int list \<Rightarrow> int \<times> u8 list" where
  "correct_errors codeword erasures S =
     (let (Lambda, Omega) = Berlekamp_Massey erasures S;
          ErrorLocs = Find_Roots Lambda
      in if length ErrorLocs \<le> NPAR \<and> 0 < length ErrorLocs then
           (if \<exists>r\<in>set ErrorLocs. r \<ge> length codeword then (0, codeword)
            else (1, fold (\<lambda>i cw. let p = length codeword - i - 1
                                  in cw[p := cw ! p XOR word_of_int (magnitude Lambda Omega i)])
                       ErrorLocs codeword))
         else (0, codeword))"

text \<open>The received word at \<open>a^(j+1)\<close>.\<close>

definition syndrome :: "u8 list \<Rightarrow> nat \<Rightarrow> int" where
  "syndrome data j = fold (\<lambda>b sum. uint b XOR gen_mul (gexp (j + 1)) sum) data 0"

definition synBytes :: "u8 list \<Rightarrow> int list" where
  "synBytes data = map (\<lambda>j. if j < NPAR then syndrome data j else 0) [0..<MAXDEG]"

text \<open>
  \<open>input\<close> is the parity, then the data.  A parity longer than \<open>NPAR\<close> or than the input writes behind
  the end of \<open>data\<close>.
\<close>

definition rs_decode :: "u8 list \<Rightarrow> nat \<Rightarrow> abort + u8 list" where
  "rs_decode input parityLen =
     (if parityLen > NPAR \<or> parityLen > length input then Inl OutOfBounds
      else let inputLen = length input; ML = inputLen - parityLen + NPAR;
               data = drop parityLen input @ take parityLen input @ replicate (NPAR - parityLen) 0;
               erasures = map (\<lambda>i. ML - inputLen - i - 1) [0..<NPAR - parityLen];
               S = synBytes data;
               data = (if \<exists>i<NPAR. S ! i \<noteq> 0 then snd (correct_errors data erasures S) else data)
           in Inr (take (inputLen - parityLen) data))"

subsection \<open>Polynomials over the field\<close>

definition bytes :: "int list \<Rightarrow> bool" where "bytes p \<longleftrightarrow> (\<forall>x\<in>set p. byte x)"

lemma bytes_nth: "bytes p \<Longrightarrow> i < length p \<Longrightarrow> byte (p ! i)"
  by (simp add: bytes_def)

lemma bytes_map: "bytes (map f is) \<longleftrightarrow> (\<forall>i\<in>set is. byte (f i))"
  by (auto simp: bytes_def)

lemma bytes_upd: "bytes p \<Longrightarrow> byte x \<Longrightarrow> bytes (p[i := x])"
  using set_update_subset_insert [of p i x] by (auto simp: bytes_def)

lemma bytes_Cons [simp]: "bytes (x # p) \<longleftrightarrow> byte x \<and> bytes p"
  and bytes_append [simp]: "bytes (p @ q) \<longleftrightarrow> bytes p \<and> bytes q"
  and bytes_Nil [simp]: "bytes []" and bytes_replicate [simp]: "byte x \<Longrightarrow> bytes (replicate n x)"
  by (auto simp: bytes_def)

lemma bytes_take: "bytes p \<Longrightarrow> bytes (take n p)"
  by (auto simp: bytes_def dest: in_set_takeD)

lemma length_zero_poly [simp]: "length zero_poly = MAXDEG" and bytes_zero_poly [simp]: "bytes zero_poly"
  by (simp_all add: zero_poly_def)

lemma g_xor_fold: "g (fold (\<lambda>i sum. sum XOR f i) is s) = g s + (\<Sum>i\<leftarrow>is. g (f i))"
  by (induction "is" arbitrary: s) (simp_all add: ac_simps)

lemma byte_xor_fold:
  "(\<And>i. i \<in> set is \<Longrightarrow> byte (f i)) \<Longrightarrow> byte s \<Longrightarrow> byte (fold (\<lambda>i sum. sum XOR f i) is s)"
  by (induction "is" arbitrary: s) (simp_all add: byte_xor)

definition conv :: "int list \<Rightarrow> int list \<Rightarrow> nat \<Rightarrow> nat \<Rightarrow> gf" where
  "conv p q i j = (if i \<le> j \<and> j - i < MAXDEG then g (p ! i) * g (q ! (j - i)) else 0)"

lemma mult_step_spec:
  assumes "bytes p" "bytes q" "length p = MAXDEG" "length q = MAXDEG" "bytes to" "length to = MAXDEG * 2" "i < MAXDEG"
  shows "length (mult_step p q i to) = MAXDEG * 2 \<and> bytes (mult_step p q i to)
    \<and> (\<forall>j<MAXDEG * 2. g (mult_step p q i to ! j) = g (to ! j) + conv p q i j)"
proof -
  have "byte (gen_mul (q ! j) (p ! i))" if "j < MAXDEG" for j
    using assms that by (intro byte_gen_mul bytes_nth) auto
  then have "mult_step p q i to ! j = to ! j XOR (if i \<le> j \<and> j - i < MAXDEG then gen_mul (q ! (j - i)) (p ! i) else 0)"
    and "byte (mult_step p q i to ! j)" if "j < MAXDEG * 2" for j
    using that assms by (auto simp: mult_step_def intro!: byte_xor bytes_nth)
  moreover have "length (mult_step p q i to) = MAXDEG * 2" by (simp add: mult_step_def Let_def)
  ultimately show ?thesis using assms
    by (auto simp: conv_def bytes_nth bytes_def in_set_conv_nth mult.commute)
qed

lemma mult_polys_upto:
  assumes "bytes p" "bytes q" "length p = MAXDEG" "length q = MAXDEG" "n \<le> MAXDEG"
  shows "let to = fold (mult_step p q) [0..<n] (replicate (MAXDEG * 2) 0) in
    length to = MAXDEG * 2 \<and> bytes to \<and> (\<forall>j<MAXDEG * 2. g (to ! j) = (\<Sum>i<n. conv p q i j))"
  using assms(5)
proof (induction n)
  case (Suc n)
  then show ?case
    using mult_step_spec [OF assms(1-4), of "fold (mult_step p q) [0..<n] (replicate (MAXDEG * 2) 0)" n]
    by (simp add: Let_def)
qed simp

lemma mult_polys:
  assumes "bytes p" "bytes q" "length p = MAXDEG" "length q = MAXDEG"
  shows "length (mult_polys p q) = MAXDEG * 2" "bytes (mult_polys p q)"
    "j < MAXDEG * 2 \<Longrightarrow> g (mult_polys p q ! j) = (\<Sum>i<MAXDEG. conv p q i j)"
  using mult_polys_upto [OF assms order_refl] by (simp_all add: mult_polys_def Let_def)

text \<open>Multiplication by a polynomial of degree 1.\<close>

lemma mult_polys_linear:
  assumes "bytes p" "bytes q" "length p = MAXDEG" "length q = MAXDEG" "\<And>i. 1 < i \<Longrightarrow> i < MAXDEG \<Longrightarrow> p ! i = 0" "j < MAXDEG"
  shows "g (mult_polys p q ! j) = g (p ! 0) * g (q ! j) + (if 0 < j then g (p ! 1) * g (q ! (j - 1)) else 0)"
proof -
  have "g (mult_polys p q ! j) = (\<Sum>i\<in>{0, 1}. conv p q i j)"
    unfolding mult_polys(3) [OF assms(1-4), of j, OF trans_less_add1 [OF assms(6), of MAXDEG, folded mult_2_right]]
    by (rule sum.mono_neutral_right) (use assms(5) in \<open>auto simp: MAXDEG_def NPAR_def conv_def\<close>)
  then show ?thesis using assms(6) by (auto simp: conv_def)
qed

lemma poly_eqI:
  assumes "bytes p" "length p = MAXDEG" "bytes q" "length q = MAXDEG" "\<And>i. i < MAXDEG \<Longrightarrow> g (p ! i) = g (q ! i)"
  shows "p = q"
proof (rule nth_equalityI)
  show "length p = length q" using assms by simp
  fix i assume "i < length p"
  then show "p ! i = q ! i" using assms(2,4,5) g_eq bytes_nth [OF assms(1)] bytes_nth [OF assms(3)] by metis
qed

subsection \<open>The generator polynomial\<close>

definition peval :: "int list \<Rightarrow> gf \<Rightarrow> gf" where
  "peval p x = (\<Sum>i<MAXDEG. g (p ! i) * x ^ i)"

lemma peval_shift:
  assumes "\<And>j. j < MAXDEG \<Longrightarrow> h j = c * g (p ! j) + (if 0 < j then g (p ! (j - 1)) else 0)" "p ! (MAXDEG - 1) = 0"
  shows "(\<Sum>j<MAXDEG. h j * x ^ j) = (c + x) * peval p x"
proof -
  have M: "MAXDEG = Suc 31" by (simp add: MAXDEG_def NPAR_def)
  have p: "p ! 31 = 0" using assms(2) by (simp add: M)
  have "(\<Sum>j<MAXDEG. h j * x ^ j) = (\<Sum>j<MAXDEG. c * (g (p ! j) * x ^ j) + (if 0 < j then g (p ! (j - 1)) else 0) * x ^ j)"
    by (rule sum.cong) (simp_all add: assms(1) distrib_right mult.assoc)
  also have "\<dots> = c * peval p x + (\<Sum>j<MAXDEG. (if 0 < j then g (p ! (j - 1)) else 0) * x ^ j)"
    by (simp add: sum.distrib peval_def sum_distrib_left)
  also have "(\<Sum>j<MAXDEG. (if 0 < j then g (p ! (j - 1)) else 0) * x ^ j) = (\<Sum>j<31. x * (g (p ! j) * x ^ j))"
    unfolding M sum.lessThan_Suc_shift by (simp add: ac_simps)
  also have "\<dots> = (\<Sum>j<MAXDEG. x * (g (p ! j) * x ^ j))"
    unfolding M sum.lessThan_Suc by (simp add: p)
  also have "\<dots> = x * peval p x" by (simp add: peval_def sum_distrib_left)
  finally show ?thesis by (simp add: distrib_right)
qed

definition genpoly_ok :: "nat \<Rightarrow> int list \<Rightarrow> bool" where
  "genpoly_ok n p \<longleftrightarrow> bytes p \<and> length p = MAXDEG \<and> p ! n = 1 \<and> (\<forall>i<MAXDEG. n < i \<longrightarrow> p ! i = 0)
     \<and> (\<forall>j\<in>{1..n}. peval p (alpha ^ j) = 0)"

lemma genpoly_step_ok:
  assumes "genpoly_ok n p" "n < NPAR"
  shows "genpoly_ok (Suc n) (take MAXDEG (mult_polys (zero_poly[0 := gexp (Suc n), 1 := 1]) p))"
proof -
  let ?tp = "zero_poly[0 := gexp (Suc n), 1 := 1]"
  define q where "q = take MAXDEG (mult_polys ?tp p)"
  note D = MAXDEG_def NPAR_def
  have p: "bytes p" "length p = MAXDEG" "p ! n = 1" "\<And>i. i < MAXDEG \<Longrightarrow> n < i \<Longrightarrow> p ! i = 0"
    "\<And>j. j \<in> {1..n} \<Longrightarrow> peval p (alpha ^ j) = 0" using assms(1) by (auto simp: genpoly_ok_def)
  have tp: "bytes ?tp" "length ?tp = MAXDEG" "\<And>i. 1 < i \<Longrightarrow> i < MAXDEG \<Longrightarrow> ?tp ! i = 0"
    "?tp ! 0 = gexp (Suc n)" "?tp ! 1 = 1"
    using assms(2) by (auto simp: zero_poly_def nth_list_update D intro!: bytes_upd)
  note m = mult_polys [OF tp(1) p(1) tp(2) p(2)]
  have q: "bytes q" "length q = MAXDEG" using m by (auto simp: q_def bytes_take)
  have c: "g (q ! j) = alpha ^ Suc n * g (p ! j) + (if 0 < j then g (p ! (j - 1)) else 0)" if "j < MAXDEG" for j
    using mult_polys_linear [OF tp(1) p(1) tp(2) p(2) tp(3) that] that assms(2)
    by (simp add: q_def D tp(4,5) del: power_Suc)
  have "q ! Suc n = 1"
    using c [of "Suc n"] p(3,4) assms(2) bytes_nth [OF q(1), of "Suc n"] q(2) g_eq [of "q ! Suc n" 1] by (simp add: D)
  moreover have "q ! i = 0" if "i < MAXDEG" "Suc n < i" for i
    using c [of i] p(4) [of i] p(4) [of "i - 1"] that bytes_nth [OF q(1), of i] q(2) g_eq_0 [of "q ! i"] by auto
  moreover have "peval q (alpha ^ j) = 0" if "j \<in> {1..Suc n}" for j
  proof -
    have "peval q (alpha ^ j) = (alpha ^ Suc n + alpha ^ j) * peval p (alpha ^ j)"
      unfolding peval_def [of q] using c p(4) assms(2) by (intro peval_shift) (auto simp: D)
    with p(5) [of j] that show ?thesis by (cases "j = Suc n") auto
  qed
  ultimately show ?thesis unfolding q_def [symmetric] genpoly_ok_def using q by blast
qed

lemma genpoly_upto:
  "n \<le> NPAR \<Longrightarrow> genpoly_ok n (snd (fold genpoly_step [1..<n + 1] (gp, zero_poly[0 := 1])))"
proof (induction n)
  case 0
  then show ?case by (auto simp: genpoly_ok_def zero_poly_def nth_list_update MAXDEG_def NPAR_def intro: bytes_upd)
next
  case (Suc n)
  then show ?case using genpoly_step_ok [of n] by (simp add: genpoly_step_def split_beta Let_def)
qed

lemma take_genPoly:
  "take MAXDEG genPoly = snd (fold genpoly_step [1..<NPAR + 1] (replicate (MAXDEG * 2) 0, zero_poly[0 := 1]))"
proof -
  have "[1..<NPAR + 1] = [1..<NPAR] @ [NPAR]"
    unfolding Suc_eq_plus1 [symmetric] by (rule upt_Suc_append) (simp add: NPAR_def)
  then show ?thesis unfolding genPoly_def compute_genpoly_def
    by (simp add: genpoly_step_def split_beta Let_def)
qed

lemma genPoly_ok: "genpoly_ok NPAR (take MAXDEG genPoly)"
  unfolding take_genPoly by (rule genpoly_upto) simp

text \<open>The generator polynomial by value, from its factors.\<close>

definition times_linear :: "int \<Rightarrow> int list \<Rightarrow> int list" where
  "times_linear c p = map2 (\<lambda>a b. gen_mul c a XOR b) (p @ [0]) (0 # p)"

lemma length_times_linear [simp]: "length (times_linear c p) = Suc (length p)"
  by (simp add: times_linear_def)

lemma genpoly_step_value:
  assumes "bytes p" "length p = Suc n" "n < NPAR"
  shows "take MAXDEG (mult_polys (zero_poly[0 := gexp (Suc n), 1 := 1]) (p @ replicate (MAXDEG - Suc n) 0))
    = times_linear (gexp (Suc n)) p @ replicate (MAXDEG - Suc (Suc n)) 0"
    and "bytes (times_linear (gexp (Suc n)) p)"
proof -
  define tp where "tp = zero_poly[0 := gexp (Suc n), 1 := 1]"
  let ?p = "p @ replicate (MAXDEG - Suc n) 0"
  note D = MAXDEG_def NPAR_def
  have tp: "bytes tp" "length tp = MAXDEG" "\<And>i. 1 < i \<Longrightarrow> i < MAXDEG \<Longrightarrow> tp ! i = 0"
    "tp ! 0 = gexp (Suc n)" "tp ! 1 = 1"
    using assms(3) by (auto simp: tp_def zero_poly_def nth_list_update D intro!: bytes_upd)
  have p: "bytes ?p" "length ?p = MAXDEG" using assms by (auto simp: D)
  have c: "byte (gexp (Suc n))" "g (gexp (Suc n)) = alpha ^ Suc n" using assms(3) by (simp_all add: D del: power_Suc)
  have l: "times_linear (gexp (Suc n)) p ! i = gen_mul (gexp (Suc n)) ((p @ [0]) ! i) XOR (0 # p) ! i" if "i \<le> Suc n" for i
    using that assms(2) by (simp add: times_linear_def)
  have pb: "byte ((p @ [0]) ! i) \<and> byte ((0 # p) ! i)" if "i \<le> Suc n" for i
    using that assms bytes_nth [of "p @ [0]" i] bytes_nth [of "0 # p" i] by auto
  have len: "length (times_linear (gexp (Suc n)) p) = Suc (Suc n)" using assms(2) by (simp add: times_linear_def)
  show b: "bytes (times_linear (gexp (Suc n)) p)"
    using l len pb c by (auto simp: bytes_def in_set_conv_nth less_Suc_eq_le intro!: byte_xor byte_gen_mul)
  show "take MAXDEG (mult_polys (zero_poly[0 := gexp (Suc n), 1 := 1]) ?p) = times_linear (gexp (Suc n)) p @ replicate (MAXDEG - Suc (Suc n)) 0"
    unfolding tp_def [symmetric]
  proof (rule poly_eqI)
    fix i assume i: "i < MAXDEG"
    have "g (mult_polys tp ?p ! i) = alpha ^ Suc n * g (?p ! i) + (if 0 < i then g (?p ! (i - 1)) else 0)"
      using mult_polys_linear [OF tp(1) p(1) tp(2) p(2) tp(3) i] c
      by (simp add: tp(4) tp(5) [unfolded One_nat_def] del: power_Suc)
    also have "\<dots> = g ((times_linear (gexp (Suc n)) p @ replicate (MAXDEG - Suc (Suc n)) 0) ! i)"
      using i c l pb assms(2) len by (auto simp: nth_append nth_Cons' simp del: power_Suc)
    finally show "g (take MAXDEG (mult_polys tp ?p) ! i)
        = g ((times_linear (gexp (Suc n)) p @ replicate (MAXDEG - Suc (Suc n)) 0) ! i)" using i by simp
  qed (use mult_polys [OF tp(1) p(1) tp(2) p(2)] b len assms(3) in \<open>auto simp: bytes_take D\<close>)
qed

lemma genpoly_value:
  "n \<le> NPAR \<Longrightarrow> let p = fold (\<lambda>i. times_linear (gexp i)) [1..<n + 1] [1] in bytes p \<and> length p = Suc n
    \<and> snd (fold genpoly_step [1..<n + 1] (gp, zero_poly[0 := 1])) = p @ replicate (MAXDEG - Suc n) 0"
proof (induction n)
  case 0
  have "MAXDEG = Suc (MAXDEG - Suc 0)" by (simp add: MAXDEG_def NPAR_def)
  then have "zero_poly[0 := 1] = 1 # replicate (MAXDEG - Suc 0) 0"
    unfolding zero_poly_def by (metis list_update_code(2) replicate_Suc)
  then show ?case by simp
next
  case (Suc n)
  define p where "p = fold (\<lambda>i. times_linear (gexp i)) [1..<n + 1] [1]"
  define r where "r = fold genpoly_step [1..<n + 1] (gp, zero_poly[0 := 1])"
  have IH: "bytes p" "length p = Suc n" "snd r = p @ replicate (MAXDEG - Suc n) 0" "n < NPAR"
    using Suc by (simp_all add: p_def r_def Let_def)
  have "[1..<Suc n + 1] = [1..<n + 1] @ [Suc n]" by simp
  then have eq: "fold (\<lambda>i. times_linear (gexp i)) [1..<Suc n + 1] [1] = times_linear (gexp (Suc n)) p"
    "fold genpoly_step [1..<Suc n + 1] (gp, zero_poly[0 := 1]) = genpoly_step (Suc n) r"
    by (simp_all only: fold_append p_def r_def fold_simps comp_apply)
  show ?case unfolding Let_def eq
    using genpoly_step_value [OF IH(1,2,4)] IH(2,3) by (simp add: genpoly_step_def split_beta Let_def)
qed

definition generator_coeffs :: "int list" where
  "generator_coeffs = [79, 44, 81, 100, 49, 183, 56, 17, 232, 187, 126, 104, 31, 103, 52, 118, 1]"

lemma genPoly_value:
  "i < NPAR \<Longrightarrow> genPoly ! i = generator_coeffs ! i"
proof -
  assume i: "i < NPAR"
  have v: "fold (\<lambda>i. times_linear (gexp i)) [1..<NPAR + 1] [1]
      = generator_coeffs" by code_simp
  have "take MAXDEG genPoly = generator_coeffs
      @ replicate (MAXDEG - Suc NPAR) 0"
    using genpoly_value [OF order_refl, of "replicate (MAXDEG * 2) 0"] unfolding Let_def take_genPoly v by (elim conjE)
  then have "take MAXDEG genPoly ! i = (generator_coeffs
      @ replicate (MAXDEG - Suc NPAR) 0) ! i" by (rule arg_cong)
  moreover have "length generator_coeffs = Suc NPAR" by (simp add: generator_coeffs_def NPAR_def)
  ultimately show ?thesis using i by (simp add: MAXDEG_def nth_append)
qed

subsection \<open>The codeword\<close>

text \<open>The value of a word, first byte the highest coefficient, at a point of the field.\<close>

primrec word_at :: "gf \<Rightarrow> u8 list \<Rightarrow> gf" where
  "word_at x [] = 0"
| "word_at x (b # bs) = GF b * x ^ length bs + word_at x bs"

lemma word_at_append: "word_at x (bs @ cs) = word_at x bs * x ^ length cs + word_at x cs"
  by (induction bs) (simp_all add: power_add algebra_simps)

lemma word_at_rev_map:
  "word_at x (map (\<lambda>i. f (n - 1 - i)) [0..<n]) = (\<Sum>i<n. GF (f i) * x ^ i)"
proof (induction n)
  case (Suc n)
  have "map (\<lambda>i. f (Suc n - 1 - i)) [0..<Suc n] = f n # map (\<lambda>i. f (n - 1 - i)) [0..<n]"
    by (simp add: upt_conv_Cons o_def del: upt_Suc flip: map_Suc_upt)
  then show ?case using Suc by (simp add: ac_simps)
qed simp

lemma syndrome_word_at:
  assumes "j < NPAR"
  shows "byte (syndrome bs j)" "g (syndrome bs j) = word_at (alpha ^ (j + 1)) bs"
proof -
  have e: "byte (gexp (j + 1))" "g (gexp (j + 1)) = alpha ^ (j + 1)"
    using assms by (simp_all add: NPAR_def del: power_Suc)
  let ?f = "\<lambda>b sum. uint b XOR gen_mul (gexp (j + 1)) sum"
  have "byte (fold ?f bs s) \<and> g (fold ?f bs s) = g s * (alpha ^ (j + 1)) ^ length bs + word_at (alpha ^ (j + 1)) bs"
    if "byte s" for s
    using that
  proof (induction bs arbitrary: s)
    case (Cons b bs)
    have "byte (?f b s)" using e Cons.prems by (intro byte_xor byte_gen_mul) simp_all
    from Cons.IH [OF this] show ?case using e Cons.prems
      by (simp add: algebra_simps)
  qed simp
  from this [of 0] show "byte (syndrome bs j)" "g (syndrome bs j) = word_at (alpha ^ (j + 1)) bs"
    by (simp_all add: syndrome_def)
qed

definition reg_at :: "int list \<Rightarrow> gf \<Rightarrow> gf" where
  "reg_at reg x = (\<Sum>i<NPAR. g (reg ! i) * x ^ i)"

lemma shift_in_reg_at:
  assumes "bytes reg" "length reg = NPAR + 1" "j \<in> {1..NPAR}"
  shows "bytes (shift_in genPoly b reg) \<and> length (shift_in genPoly b reg) = NPAR + 1
    \<and> reg_at (shift_in genPoly b reg) (alpha ^ j) = alpha ^ j * reg_at reg (alpha ^ j) + GF b * (alpha ^ j) ^ NPAR"
proof -
  let ?x = "alpha ^ j"
  define db where "db = uint b XOR reg ! (NPAR - 1)"
  note D = MAXDEG_def NPAR_def
  have gp: "byte (genPoly ! i)" if "i < MAXDEG" for i
    using genPoly_ok that bytes_nth [of "take MAXDEG genPoly" i] by (simp add: genpoly_ok_def)
  have db: "byte db" "g db = GF b + g (reg ! (NPAR - 1))"
    using assms bytes_nth [of reg "NPAR - 1"] by (auto simp: db_def D intro!: byte_xor)
  have s: "shift_in genPoly b reg = gen_mul (genPoly ! 0) db
      # map (\<lambda>j. reg ! (j - 1) XOR gen_mul (genPoly ! j) db) [1..<NPAR] @ [reg ! NPAR]"
    by (simp add: shift_in_def db_def Let_def)
  have root: "(\<Sum>i<NPAR. g (genPoly ! i) * ?x ^ i) = ?x ^ NPAR"
  proof -
    have r: "peval (take MAXDEG genPoly) ?x = 0" "genPoly ! NPAR = 1" "\<And>i. i < MAXDEG \<Longrightarrow> NPAR < i \<Longrightarrow> genPoly ! i = 0"
      using genPoly_ok assms(3) by (auto simp: genpoly_ok_def D)
    have s: "peval (take MAXDEG genPoly) x = (\<Sum>i<Suc NPAR. g (genPoly ! i) * x ^ i)" for x
    proof -
      have "peval (take MAXDEG genPoly) x = (\<Sum>i<MAXDEG. g (genPoly ! i) * x ^ i)" by (simp add: peval_def)
      also have "\<dots> = (\<Sum>i<Suc NPAR. g (genPoly ! i) * x ^ i)"
      proof (rule sum.mono_neutral_right)
        show "{..<Suc NPAR} \<subseteq> {..<MAXDEG}" by (simp add: D)
        show "\<forall>i\<in>{..<MAXDEG} - {..<Suc NPAR}. g (genPoly ! i) * x ^ i = 0"
          using r(3) by simp
      qed simp
      finally show ?thesis .
    qed
    have "(\<Sum>i<NPAR. g (genPoly ! i) * ?x ^ i) + ?x ^ NPAR = 0"
      using s [of ?x] unfolding r(1) sum.lessThan_Suc r(2) g_1 mult_1_left by (rule sym)
    then show ?thesis unfolding gf_eq_iff [of "sum _ _"] .
  qed
  have n: "g (shift_in genPoly b reg ! i) = g (genPoly ! i) * g db + (if 0 < i then g (reg ! (i - 1)) else 0)" if "i < NPAR" for i
    using that gp [of i] db(1) by (auto simp: s nth_Cons' nth_append D ac_simps)
  have "reg_at (shift_in genPoly b reg) ?x
      = (\<Sum>i<NPAR. g db * (g (genPoly ! i) * ?x ^ i) + (if 0 < i then g (reg ! (i - 1)) else 0) * ?x ^ i)"
    unfolding reg_at_def by (rule sum.cong) (simp_all add: n algebra_simps)
  also have "\<dots> = g db * ?x ^ NPAR + (\<Sum>i<NPAR. (if 0 < i then g (reg ! (i - 1)) else 0) * ?x ^ i)"
    by (simp add: sum.distrib root flip: sum_distrib_left)
  also have "(\<Sum>i<NPAR. (if 0 < i then g (reg ! (i - 1)) else 0) * ?x ^ i) = (\<Sum>i<15. ?x * (g (reg ! i) * ?x ^ i))"
  proof -
    have "NPAR = Suc 15" by (simp add: NPAR_def)
    then show ?thesis unfolding \<open>NPAR = Suc 15\<close> sum.lessThan_Suc_shift by (simp add: ac_simps)
  qed
  also have "\<dots> = ?x * (reg_at reg ?x + g (reg ! 15) * ?x ^ 15)"
  proof -
    have "NPAR = Suc 15" by (simp add: NPAR_def)
    then show ?thesis unfolding reg_at_def \<open>NPAR = Suc 15\<close> sum.lessThan_Suc by (simp add: sum_distrib_left)
  qed
  also have "g db * ?x ^ NPAR + \<dots> = ?x * reg_at reg ?x + GF b * ?x ^ NPAR"
  proof -
    have "?x ^ NPAR = ?x * ?x ^ 15" by (simp add: NPAR_def flip: power_Suc)
    then show ?thesis by (simp add: db(2) NPAR_def distrib_left distrib_right ac_simps)
  qed
  finally show ?thesis using assms gp db bytes_nth [OF assms(1)]
    by (auto simp: s bytes_map D intro!: byte_xor byte_gen_mul)
qed

lemma register:
  assumes "j \<in> {1..NPAR}"
  shows "let reg = fold (shift_in genPoly) bs (replicate (NPAR + 1) 0) in
    bytes reg \<and> length reg = NPAR + 1 \<and> reg_at reg (alpha ^ j) = word_at (alpha ^ j) bs * (alpha ^ j) ^ NPAR"
proof (induction bs rule: rev_induct)
  case Nil
  then show ?case by (simp add: reg_at_def NPAR_def)
next
  case (snoc b bs)
  then show ?case
    using shift_in_reg_at [of "fold (shift_in genPoly) bs (replicate (NPAR + 1) 0)" j b] assms
    by (simp add: Let_def word_at_append algebra_simps)
qed

text \<open>The parity of the encoder, and that of a word whose syndromes are zero.\<close>

lemma rs_encode_full:
  assumes "rs_encode bs NPAR = Inr par"
  shows "length par = NPAR" "j < NPAR \<Longrightarrow> syndrome (bs @ par) j = 0"
proof -
  define reg where "reg = fold (shift_in genPoly) bs (replicate (NPAR + 1) 0)"
  have par: "par = map (\<lambda>i. word_of_int (reg ! (NPAR - 1 - i))) [0..<NPAR]"
    using assms by (simp add: rs_encode_def reg_def NPAR_def split: if_splits)
  then show len: "length par = NPAR" by simp
  assume j: "j < NPAR"
  let ?x = "alpha ^ (j + 1)"
  have r: "bytes reg" "length reg = NPAR + 1" "reg_at reg ?x = word_at ?x bs * ?x ^ NPAR"
    using register [of "j + 1" bs] j by (simp_all add: reg_def Let_def del: power_Suc)
  have "word_at ?x par = (\<Sum>i<NPAR. GF (word_of_int (reg ! i)) * ?x ^ i)"
    unfolding par by (rule word_at_rev_map)
  also have "\<dots> = reg_at reg ?x" by (simp add: reg_at_def g_def)
  finally have "word_at ?x (bs @ par) = 0"
    using r(3) len by (simp add: word_at_append del: power_Suc)
  then show "syndrome (bs @ par) j = 0"
    using syndrome_word_at [OF j, of "bs @ par"] g_eq_0 by simp
qed

subsection \<open>The decoder on a codeword\<close>

lemma g_xor_fold_set: "distinct is \<Longrightarrow> g (fold (\<lambda>i sum. sum XOR f i) is 0) = (\<Sum>i\<in>set is. g (f i))"
  by (simp add: g_xor_fold sum_list_distinct_conv_sum_set)

lemma g_8: "g 8 = alpha ^ 3"
proof -
  have "pow_alpha 3 = 8" by code_simp
  then show ?thesis by (simp add: alpha_power g_def)
qed

lemma byte_8: "byte 8" by (simp add: byte_def)

text \<open>
  \<open>init_gamma\<close> scales where it should multiply by \<open>z\<close>, so the locator of the erasures is a constant.
\<close>

lemma init_gamma_const:
  assumes "\<forall>e\<in>set er. e < 252"
  shows "\<exists>c. init_gamma er = zero_poly[0 := c] \<and> byte c \<and> c \<noteq> 0"
  using assms
proof (induction er rule: rev_induct)
  case Nil
  then show ?case by (auto simp: init_gamma_def intro: exI [of _ 1])
next
  case (snoc e er)
  then obtain c where c: "init_gamma er = zero_poly[0 := c]" "byte c" "c \<noteq> 0" "e < 252" by auto
  define c' where "c' = c XOR gen_mul 8 (gen_mul (gexp e) c)"
  have b: "byte (gexp e)" "g (gexp e) = alpha ^ e" using c(4) by simp_all
  have c': "byte c'" using c(2) b by (auto simp: c'_def byte_8 intro!: byte_xor byte_gen_mul)
  have "g c' = g c * (1 + alpha ^ (e + 3))"
    using c(2) b by (simp add: c'_def byte_8 g_8 byte_gen_mul power_add algebra_simps)
  moreover have "alpha ^ (e + 3) \<noteq> alpha ^ 0" using c(4) unfolding alpha_power_eq by simp
  ultimately have "c' \<noteq> 0"
    using c(2,3) g_eq_0 [of c] gf_eq_iff [of 1 "alpha ^ (e + 3)"] by auto
  moreover have "init_gamma (er @ [e]) = zero_poly[0 := c']"
  proof -
    have "init_gamma (er @ [e]) = add_polys (zero_poly[0 := c]) (scale_poly 8 (scale_poly (gexp e) (zero_poly[0 := c])))"
      using c(1) by (simp add: init_gamma_def)
    also have "\<dots> = zero_poly[0 := c']"
      by (rule nth_equalityI)
        (auto simp: add_polys_def scale_poly_def zero_poly_def nth_list_update c'_def gen_mul_def gen_mul_by_def)
    finally show ?thesis .
  qed
  ultimately show ?case using c' by blast
qed

lemma rs_decode_full:
  assumes "rs_encode bs NPAR = Inr par"
  shows "rs_decode (par @ bs) NPAR = Inr bs"
proof -
  note par = rs_encode_full [OF assms]
  have "synBytes (bs @ par) ! i = 0" if "i < NPAR" for i
    using par(2) [OF that] that by (simp add: synBytes_def MAXDEG_def)
  then have "(\<exists>i<NPAR. synBytes (bs @ par) ! i \<noteq> 0) = False" by blast
  then show ?thesis using par(1) by (auto simp: rs_decode_def Let_def)
qed

lemma root_sum_const:
  assumes "byte c" "c \<noteq> 0" "0 < r" shows "root_sum (zero_poly[0 := c]) r \<noteq> 0"
proof -
  have "root_sum (zero_poly[0 := c]) r = fold (\<lambda>k sum. sum XOR (if k = 0 then c else 0)) [0..<NPAR + 1] 0"
    unfolding root_sum_def
  proof (rule fold_cong [OF refl refl])
    fix k assume k: "k \<in> set [0..<NPAR + 1]"
    have "g (gen_mul (gexp 0) c) = g c" using assms(1) by simp
    then have "gen_mul (gexp 0) c = c" using assms(1) by (subst (asm) g_eq) (simp_all add: byte_gen_mul)
    then show "(\<lambda>sum. sum XOR gen_mul (gexp (k * r mod field_size)) (zero_poly[0 := c] ! k)) = (\<lambda>sum. sum XOR (if k = 0 then c else 0))"
      using k by (auto simp: zero_poly_def MAXDEG_def NPAR_def nth_list_update gen_mul_def gen_mul_by_def)
  qed
  then have "g (root_sum (zero_poly[0 := c]) r) = g c"
  proof -
    assume "root_sum (zero_poly[0 := c]) r = fold (\<lambda>k sum. sum XOR (if k = 0 then c else 0)) [0..<NPAR + 1] 0"
    then have "g (root_sum (zero_poly[0 := c]) r) = (\<Sum>k\<in>{0..<NPAR + 1}. g (if k = 0 then c else 0))"
      by (simp only: g_xor_fold_set [OF distinct_upt] set_upt)
    also have "\<dots> = (\<Sum>k\<in>{0..<NPAR + 1}. if k = 0 then g c else 0)" by (rule sum.cong) simp_all
    also have "\<dots> = g c" by (subst sum.delta) simp_all
    finally show ?thesis .
  qed
  then show ?thesis using assms g_eq_0 [of c] by auto
qed

lemma rs_decode_none:
  shows "rs_decode bs 0 = Inr bs"
proof -
  define er where "er = map (\<lambda>i. NPAR - i - 1) [0..<NPAR]"
  obtain c where c: "init_gamma er = zero_poly[0 := c]" "byte c" "c \<noteq> 0"
  proof -
    have "\<forall>e\<in>set er. e < 252" by (auto simp: er_def NPAR_def)
    from init_gamma_const [OF this] that show ?thesis by blast
  qed
  have "fst (Berlekamp_Massey er S) = zero_poly[0 := c]" for S
  proof -
    have "[int (length er)..int NPAR - 1] = []" by (simp add: er_def)
    then show ?thesis by (simp add: Berlekamp_Massey_def Let_def c(1) del: One_nat_def)
  qed
  moreover have "Find_Roots (zero_poly[0 := c]) = []"
    using root_sum_const [OF c(2,3)] by (auto simp: Find_Roots_def filter_empty_conv)
  ultimately have e: "snd (correct_errors cw er S) = cw" for cw S
    by (simp add: correct_errors_def split_beta Let_def del: One_nat_def)
  have "map (\<lambda>i. length bs - 0 + NPAR - length bs - i - 1) [0..<NPAR - 0] = er" by (simp add: er_def)
  then show ?thesis unfolding rs_decode_def Let_def by (simp only: e if_cancel) simp
qed

subsection \<open>One damaged byte\<close>

text \<open>
  The word that differs from a codeword by \<open>e\<close> at the byte \<open>l\<close> places before its end.  Its syndromes
  are those of \<open>e x^l\<close>, and the locator is \<open>1 + a^l z\<close>.
\<close>

definition locator :: "nat \<Rightarrow> int list" where "locator l = zero_poly[0 := 1, 1 := gexp l]"

definition one_error :: "gf \<Rightarrow> nat \<Rightarrow> int list \<Rightarrow> bool" where
  "one_error e l S \<longleftrightarrow> e \<noteq> 0 \<and> l < 255 \<and> bytes S \<and> length S = MAXDEG
     \<and> (\<forall>j<NPAR. g (S ! j) = e * (alpha ^ l) ^ (j + 1))"

lemma nth_one_coeff:
  "length zero_poly = MAXDEG" "0 < MAXDEG" "1 < MAXDEG"
  by (simp_all add: MAXDEG_def NPAR_def zero_poly_def)

lemma locator_nth: "i < MAXDEG \<Longrightarrow> locator l ! i = (if i = 0 then 1 else if i = 1 then gexp l else 0)"
  by (auto simp: locator_def zero_poly_def nth_list_update MAXDEG_def NPAR_def)

lemma length_locator [simp]: "length (locator l) = MAXDEG"
  by (simp add: locator_def)

lemma bytes_locator: "l < 255 \<Longrightarrow> bytes (locator l)"
  by (auto simp: locator_def intro!: bytes_upd)

lemma g_discrepancy:
  assumes "\<And>i. 0 \<le> i \<Longrightarrow> i \<le> L \<Longrightarrow> byte (p ! nat i)" "\<And>i. 0 \<le> i \<Longrightarrow> i \<le> L \<Longrightarrow> byte (S ! nat (n - i))"
  shows "g (compute_discrepancy p S L n) = (\<Sum>i\<in>{0..L}. g (p ! nat i) * g (S ! nat (n - i)))"
    "byte (compute_discrepancy p S L n)"
proof -
  show "g (compute_discrepancy p S L n) = (\<Sum>i\<in>{0..L}. g (p ! nat i) * g (S ! nat (n - i)))"
    unfolding compute_discrepancy_def g_xor_fold_set [OF distinct_upto] set_upto
    by (rule sum.cong) (simp_all add: assms)
  show "byte (compute_discrepancy p S L n)"
    unfolding compute_discrepancy_def by (rule byte_xor_fold) (auto intro: byte_gen_mul assms)
qed

text \<open>The state of the algorithm before iteration \<open>n\<close>.\<close>

definition bm_state :: "nat \<Rightarrow> int list \<Rightarrow> nat \<Rightarrow> int list \<times> int list \<times> int \<times> int \<Rightarrow> bool" where
  "bm_state l S n = (\<lambda>(psi, D, L, k).
     if n = 0 then psi = zero_poly[0 := 1] \<and> D = mul_z_poly (zero_poly[0 := 1]) \<and> L = 0 \<and> k = -1
     else if n = 1 then psi = zero_poly[0 := 1, 1 := S ! 0] \<and> L = 1 \<and> k = 0 \<and> bytes D \<and> length D = MAXDEG
       \<and> (\<forall>i<MAXDEG. g (D ! i) = (if i = 1 then inverse (g (S ! 0)) else 0))
     else psi = locator l \<and> L = 1)"

lemma bm_step_0:
  assumes "one_error e l S" "bm_state l S 0 st" shows "bm_state l S 1 (bm_step S 0 st)"
proof -
  note D = MAXDEG_def NPAR_def
  obtain psi D L k where st: "st = (psi, D, L, k)" by (cases st)
  have S: "bytes S" "length S = MAXDEG" "g (S ! 0) = e * alpha ^ l" "e \<noteq> 0"
    using assms(1) by (auto simp: one_error_def NPAR_def)
  have S0: "byte (S ! 0)" "S ! 0 \<noteq> 0" using bytes_nth [OF S(1), of 0] S by (auto simp: D)
  have g1: "gen_mul 1 x = x" "gen_mul x 1 = x" "gen_mul x 0 = 0" "gen_mul 0 x = 0" if "byte x" for x
    using that g_eq [of "gen_mul 1 x" x] g_eq [of "gen_mul x 1" x]
    by (simp_all add: byte_gen_mul, simp_all add: gen_mul_def gen_mul_by_def)
  have delta: "compute_discrepancy (zero_poly[0 := 1]) S 0 0 = S ! 0"
    using S0 g1 by (simp add: compute_discrepancy_def nth_one_coeff)
  have dk: "gen_mul 1 (gen_inverse (S ! 0)) = gen_inverse (S ! 0)" by (simp add: g1 byte_gen_inverse S0)
  have psi: "map (\<lambda>i. zero_poly[0 := 1] ! i XOR gen_mul (S ! 0) (mul_z_poly (zero_poly[0 := 1]) ! i)) [0..<MAXDEG]
      = zero_poly[0 := 1, 1 := S ! 0]"
    by (rule nth_equalityI) (auto simp: zero_poly_def mul_z_poly_def nth_list_update g1 S0(1))
  define D' where "D' = mul_z_poly (map (\<lambda>i. gen_mul (zero_poly[0 := 1] ! i) (gen_inverse (S ! 0))) [0..<MAXDEG])"
  have Dn: "D' ! i
      = (if i = 1 then gen_inverse (S ! 0) else 0)" if "i < MAXDEG" for i
    using that by (auto simp: D'_def zero_poly_def mul_z_poly_def nth_list_update dk g1(4) byte_gen_inverse S0)
  have lD: "length D' = MAXDEG" by (simp add: D'_def mul_z_poly_def)
  have bD: "bytes D'" unfolding bytes_def
  proof
    fix x assume "x \<in> set D'"
    then obtain i where "i < MAXDEG" "x = D' ! i" by (auto simp: in_set_conv_nth lD)
    then show "byte x" using Dn byte_gen_inverse [OF S0] by simp
  qed
  have st: "st = (zero_poly[0 := 1], mul_z_poly (zero_poly[0 := 1]), 0, -1)" using assms(2) st by (simp add: bm_state_def)
  have b: "bm_step S 0 st = (zero_poly[0 := 1, 1 := S ! 0],
      D', 1, 0)"
    unfolding st bm_step.simps delta Let_def psi D'_def using S0(2) by simp
  have "g (D' ! i)
     = (if i = 1 then inverse (g (S ! 0)) else 0)" if "i < MAXDEG" for i
    using Dn [OF that] g_gen_inverse [OF S0] by simp
  then show ?thesis unfolding b bm_state_def using bD lD by simp
qed

lemma one_error_nth:
  assumes "one_error e l S" "j < NPAR"
  shows "byte (S ! j)" "g (S ! j) = e * (alpha ^ l) ^ (j + 1)"
  using assms bytes_nth [of S j] by (auto simp: one_error_def MAXDEG_def)

lemma one_error_step:
  assumes "one_error e l S" "0 < n" "n < NPAR" shows "g (S ! n) + alpha ^ l * g (S ! (n - 1)) = 0"
proof -
  obtain m where "n = Suc m" "m < NPAR" using assms by (cases n) auto
  then show ?thesis
    using one_error_nth(2) [OF assms(1,3)] one_error_nth(2) [OF assms(1), of m] by (simp add: ac_simps)
qed

lemma set_0_1: "{0..1::int} = {0, 1}" by auto

text \<open>Adding a multiple of \<open>D\<close> to the locator.\<close>

lemma g_psi2:
  assumes "bytes p" "length p = MAXDEG" "bytes D" "length D = MAXDEG" "byte d" "i < MAXDEG"
  shows "g (map (\<lambda>i. p ! i XOR gen_mul d (D ! i)) [0..<MAXDEG] ! i) = g (p ! i) + g d * g (D ! i)"
    "byte (map (\<lambda>i. p ! i XOR gen_mul d (D ! i)) [0..<MAXDEG] ! i)"
  using assms bytes_nth [of p i] bytes_nth [of D i] by (auto intro!: byte_xor byte_gen_mul)

lemma bm_step_1:
  assumes "one_error e l S" "bm_state l S 1 st" shows "bm_state l S 2 (bm_step S 1 st)"
proof -
  let ?p = "zero_poly[0 := 1, 1 := S ! 0]"
  obtain D where st: "st = (?p, D, 1, 0)" and D: "bytes D" "length D = MAXDEG"
    "\<And>i. i < MAXDEG \<Longrightarrow> g (D ! i) = (if i = 1 then inverse (g (S ! 0)) else 0)"
    using assms(2) by (cases st) (auto simp: bm_state_def)
  have e: "e \<noteq> 0" "l < 255" using assms(1) by (auto simp: one_error_def)
  have S: "byte (S ! 0)" "g (S ! 0) = e * alpha ^ l" "byte (S ! 1)" "g (S ! 1) = e * (alpha ^ l) ^ 2"
    using one_error_nth [OF assms(1), of 0] one_error_nth [OF assms(1), of 1] by (simp_all add: NPAR_def power2_eq_square)
  have p: "bytes ?p" "length ?p = MAXDEG" "?p ! 0 = 1" "?p ! 1 = S ! 0"
    "\<And>i. i < MAXDEG \<Longrightarrow> i \<noteq> 0 \<Longrightarrow> i \<noteq> 1 \<Longrightarrow> ?p ! i = 0"
    using S(1) nth_one_coeff by (auto simp: zero_poly_def nth_list_update intro!: bytes_upd)
  define d where "d = compute_discrepancy ?p S 1 1"
  have bytes2: "\<And>i. 0 \<le> i \<Longrightarrow> i \<le> 1 \<Longrightarrow> byte (?p ! nat i)" "\<And>i. 0 \<le> i \<Longrightarrow> i \<le> 1 \<Longrightarrow> byte (S ! nat (1 - i))"
  proof -
    fix i :: int assume "0 \<le> i" "i \<le> 1"
    then have "i = 0 \<or> i = 1" by linarith
    then show "byte (?p ! nat i)" "byte (S ! nat (1 - i))" using S p(3,4) by auto
  qed
  have d: "byte d" "g d = g (S ! 1) + g (S ! 0) * g (S ! 0)"
    using g_discrepancy [of 1 ?p S 1, OF bytes2] p(3,4) by (simp_all add: d_def set_0_1)
  define psi' where "psi' = (if d \<noteq> 0 then map (\<lambda>i. ?p ! i XOR gen_mul d (D ! i)) [0..<MAXDEG] else ?p)"
  have b: "bm_step S 1 st = (psi', mul_z_poly D, 1, 0)"
    unfolding st bm_step.simps d_def [symmetric] Let_def psi'_def by simp
  have psi': "bytes psi'" "length psi' = MAXDEG" "\<And>i. i < MAXDEG \<Longrightarrow> g (psi' ! i) = g (?p ! i) + g d * g (D ! i)"
    using g_psi2 [OF p(1,2) D(1,2) d(1)] p(1,2) by (auto simp: psi'_def bytes_def in_set_conv_nth)
  have "psi' = locator l"
  proof (rule poly_eqI)
    fix i assume i: "i < MAXDEG"
    have "g (?p ! 1) + g d * g (D ! 1) = alpha ^ l"
    proof -
      have "g (?p ! 1) + g d * g (D ! 1) = e * alpha ^ l + (e * (alpha ^ l) ^ 2 + e * alpha ^ l * (e * alpha ^ l)) / (e * alpha ^ l)"
        using D(3) [of 1] nth_one_coeff d S(2,4) p(4) by (simp add: divide_inverse)
      also have "\<dots> = alpha ^ l"
        using e by (simp add: add_divide_distrib power2_eq_square)
      finally show ?thesis .
    qed
    then show "g (psi' ! i) = g (locator l ! i)"
      using psi'(3) [OF i] locator_nth [OF i] D(3) [OF i] p(3,5) i e by auto
  qed (use psi' bytes_locator [OF e(2)] in auto)
  then show ?thesis unfolding b bm_state_def by simp
qed

lemma bm_step_later:
  assumes "one_error e l S" "2 \<le> n" "n < NPAR" "bm_state l S n st" shows "bm_state l S (Suc n) (bm_step S (int n) st)"
proof -
  obtain D k where st: "st = (locator l, D, 1, k)"
    using assms(2,4) by (cases st) (auto simp: bm_state_def)
  have e: "l < 255" using assms(1) by (auto simp: one_error_def)
  note S = one_error_nth [OF assms(1,3)] one_error_nth [OF assms(1), of "n - 1"]
  have n: "n - 1 < NPAR" "nat (int n - 1) = n - 1" "n - 1 + 1 = n" using assms by auto
  have bytes2: "\<And>i. 0 \<le> i \<Longrightarrow> i \<le> 1 \<Longrightarrow> byte (locator l ! nat i)" "\<And>i. 0 \<le> i \<Longrightarrow> i \<le> 1 \<Longrightarrow> byte (S ! nat (int n - i))"
  proof -
    fix i :: int assume "0 \<le> i" "i \<le> 1"
    then have "i = 0 \<or> i = 1" by linarith
    then show "byte (locator l ! nat i)" "byte (S ! nat (int n - i))"
      using S(1,3) n e nth_one_coeff by (auto simp: locator_nth)
  qed
  have "g (compute_discrepancy (locator l) S 1 (int n)) = g (S ! n) + alpha ^ l * g (S ! (n - 1))"
    using g_discrepancy [of 1 "locator l" S "int n", OF bytes2] n e nth_one_coeff by (simp add: set_0_1 locator_nth)
  also have "\<dots> = 0" using one_error_step [OF assms(1) _ assms(3)] assms(2) by simp
  finally have "compute_discrepancy (locator l) S 1 (int n) = 0"
    using g_eq_0 g_discrepancy(2) [of 1 "locator l" S "int n", OF bytes2] by blast
  then have "bm_step S (int n) st = (locator l, mul_z_poly D, 1, k)"
    unfolding st bm_step.simps Let_def by simp
  then show ?thesis using assms(2) by (simp add: bm_state_def)
qed

lemma bm_one_error:
  assumes "one_error e l S"
  shows "Berlekamp_Massey [] S = (locator l, zero_poly[0 := S ! 0])"
proof -
  let ?st = "(zero_poly[0 := 1], mul_z_poly (zero_poly[0 := 1]), 0 :: int, -1 :: int)"
  have "bm_state l S n (fold (bm_step S) [0..int n - 1] ?st)" if "n \<le> NPAR" for n
    using that
  proof (induction n)
    case (Suc n)
    have "[0..int (Suc n) - 1] = [0..int n - 1] @ [int n]"
      using upto_rec2 [of 0 "int n"] by simp
    moreover have "bm_state l S (Suc n) (bm_step S (int n) (fold (bm_step S) [0..int n - 1] ?st))"
    proof -
      note IH = Suc.IH [OF Suc_leD [OF Suc.prems]]
      consider "n = 0" | "n = 1" | "2 \<le> n" by linarith
      then show ?thesis
      proof cases
        case 1 then show ?thesis using bm_step_0 [OF assms] IH by simp
      next
        case 2 then show ?thesis using bm_step_1 [OF assms] IH by (simp add: numeral_2_eq_2)
      next
        case 3 then show ?thesis using bm_step_later [OF assms] IH Suc.prems by simp
      qed
    qed
    ultimately show ?case by simp
  qed (simp add: bm_state_def)
  from this [of NPAR] have "bm_state l S NPAR (fold (bm_step S) [0..int NPAR - 1] ?st)" by simp
  then obtain D k where f: "fold (bm_step S) [0..int NPAR - 1] ?st = (locator l, D, 1, k)"
    by (auto simp: bm_state_def NPAR_def)
  have e: "l < 255" "bytes S" "length S = MAXDEG" using assms by (auto simp: one_error_def)
  note m = mult_polys [OF bytes_locator [OF e(1)] e(2) length_locator e(3)]
  have "map (\<lambda>i. if i < NPAR then mult_polys (locator l) S ! i else 0) [0..<MAXDEG] = zero_poly[0 := S ! 0]"
  proof (rule poly_eqI)
    show "bytes (map (\<lambda>i. if i < NPAR then mult_polys (locator l) S ! i else 0) [0..<MAXDEG])"
      using m by (auto simp: bytes_map bytes_nth MAXDEG_def)
    show "bytes (zero_poly[0 := S ! 0])" using one_error_nth [OF assms, of 0] by (auto simp: NPAR_def intro!: bytes_upd)
    fix i assume i: "i < MAXDEG"
    have "g (mult_polys (locator l) S ! i) = (if i = 0 then g (S ! 0) else 0)" if "i < NPAR"
      using mult_polys_linear [OF bytes_locator [OF e(1)] e(2) length_locator e(3) _ i] one_error_step [OF assms _ that]
        e(1) nth_one_coeff by (auto simp: locator_nth)
    then show "g (map (\<lambda>i. if i < NPAR then mult_polys (locator l) S ! i else 0) [0..<MAXDEG] ! i) = g (zero_poly[0 := S ! 0] ! i)"
      using i by (auto simp: zero_poly_def nth_list_update NPAR_def MAXDEG_def)
  qed (simp_all add: zero_poly_def)
  then show ?thesis by (simp add: Berlekamp_Massey_def init_gamma_def Let_def f)
qed

lemma filter_is: "distinct xs \<Longrightarrow> a \<in> set xs \<Longrightarrow> filter (\<lambda>x. x = a) xs = [a]"
proof (induction xs)
  case (Cons x xs)
  then show ?case by (cases "x = a") (auto simp: filter_empty_conv)
qed simp

lemma sum_two:
  assumes "finite A" "i \<in> A" "j \<in> A" "i \<noteq> j" "\<And>k. k \<in> A \<Longrightarrow> k \<noteq> i \<Longrightarrow> k \<noteq> j \<Longrightarrow> f k = (0 :: gf)"
  shows "sum f A = f i + f j"
proof -
  have "sum f A = sum f {i, j}" by (rule sum.mono_neutral_right) (use assms in auto)
  then show ?thesis using assms(4) by simp
qed

lemma gexp_mod [simp]: "g (gexp (m mod field_size)) = alpha ^ m" "byte (gexp (m mod field_size))"
proof -
  have "m mod 255 \<le> 510" by (rule order_trans [of _ 255]) simp_all
  then show "g (gexp (m mod field_size)) = alpha ^ m" "byte (gexp (m mod field_size))"
    by (simp_all add: field_size_def alpha_power_mod)
qed

lemma root_sum_locator:
  assumes "l < 255" "0 < r" "r < 256" shows "root_sum (locator l) r = 0 \<longleftrightarrow> r = 255 - l"
proof -
  let ?f = "\<lambda>k. gen_mul (gexp (k * r mod field_size)) (locator l ! k)"
  note D = MAXDEG_def NPAR_def field_size_def
  have b: "byte (?f k)" "g (?f k) = alpha ^ (k * r) * (if k = 0 then 1 else if k = 1 then alpha ^ l else 0)"
    if "k \<in> {0..<NPAR + 1}" for k
  proof -
    have k: "k < MAXDEG" using that by (simp add: D)
    then have "byte (locator l ! k)" using assms(1) by (simp add: locator_nth)
    then show "byte (?f k)" "g (?f k) = alpha ^ (k * r) * (if k = 0 then 1 else if k = 1 then alpha ^ l else 0)"
      using k assms(1) by (simp_all add: byte_gen_mul locator_nth)
  qed
  have "g (root_sum (locator l) r) = (\<Sum>k\<in>{0..<NPAR + 1}. g (?f k))"
    unfolding root_sum_def by (simp only: g_xor_fold_set [OF distinct_upt] set_upt)
  also have "\<dots> = g (?f 0) + g (?f 1)"
    using b(2) by (intro sum_two) (auto simp: D)
  also have "\<dots> = alpha ^ 0 + alpha ^ (r + l)" using b(2) [of 0] b(2) [of 1] by (simp add: NPAR_def power_add)
  finally have "g (root_sum (locator l) r) = 0 \<longleftrightarrow> alpha ^ 0 = alpha ^ (r + l)"
    unfolding gf_eq_iff [of "alpha ^ 0" "alpha ^ (r + l)"] by (simp only:)
  moreover have "byte (root_sum (locator l) r)" unfolding root_sum_def by (rule byte_xor_fold) (use b in auto)
  moreover have "(0 :: nat) mod 255 = (r + l) mod 255 \<longleftrightarrow> r = 255 - l" using assms by (auto simp: mod_if)
  ultimately show ?thesis using g_eq_0 alpha_power_eq [of 0 "r + l"] by metis
qed

lemma Find_Roots_locator:
  assumes "l < 255" shows "Find_Roots (locator l) = [l]"
proof -
  have "filter (\<lambda>r. root_sum (locator l) r = 0) [1..<256] = filter (\<lambda>r. r = 255 - l) [1..<256]"
    by (rule filter_cong) (use root_sum_locator [OF assms] in auto)
  also have "\<dots> = [255 - l]" by (rule filter_is) (use assms in auto)
  finally show ?thesis using assms by (simp add: Find_Roots_def field_size_def)
qed

lemma magnitude_one_error:
  assumes "one_error e l S" shows "g (magnitude (locator l) (zero_poly[0 := S ! 0]) l) = e"
    "byte (magnitude (locator l) (zero_poly[0 := S ! 0]) l)"
proof -
  note D = MAXDEG_def NPAR_def field_size_def
  have e: "e \<noteq> 0" "l < 255" using assms by (auto simp: one_error_def)
  have S: "byte (S ! 0)" "g (S ! 0) = e * alpha ^ l" using one_error_nth [OF assms, of 0] by (simp_all add: NPAR_def)
  let ?n = "\<lambda>j. gen_mul (zero_poly[0 := S ! 0] ! j) (gexp ((field_size - l) * j mod field_size))"
  let ?d = "\<lambda>j. gen_mul (locator l ! j) (gexp ((field_size - l) * (j - 1) mod field_size))"
  define num where "num = fold (\<lambda>j num. num XOR ?n j) [0..<MAXDEG] 0"
  define denom where "denom = fold (\<lambda>j num. num XOR ?d j) (filter odd [1..<MAXDEG]) 0"
  have n: "byte (?n j)" "g (?n j) = (if j = 0 then e * alpha ^ l else 0)" if "j < MAXDEG" for j
    using that S by (auto simp: zero_poly_def nth_list_update intro!: byte_gen_mul)
  have d: "byte (?d j)" "g (?d j) = (if j = 1 then alpha ^ l else 0)" if "j < MAXDEG" "0 < j" for j
    using that e by (auto simp: locator_nth intro!: byte_gen_mul)
  have "g num = (\<Sum>j\<in>{0..<MAXDEG}. g (?n j))" unfolding num_def by (simp only: g_xor_fold_set [OF distinct_upt] set_upt)
  also have "\<dots> = (\<Sum>j\<in>{0..<MAXDEG}. if j = 0 then e * alpha ^ l else 0)" by (rule sum.cong) (use n in auto)
  also have "\<dots> = e * alpha ^ l" by (subst sum.delta) (simp_all add: D)
  finally have num: "g num = e * alpha ^ l" "byte num"
    using n(1) by (auto simp: num_def intro!: byte_xor_fold)
  have "g denom = (\<Sum>j\<in>set (filter odd [1..<MAXDEG]). g (?d j))"
    unfolding denom_def by (rule g_xor_fold_set) simp
  also have "\<dots> = (\<Sum>j\<in>set (filter odd [1..<MAXDEG]). if j = 1 then alpha ^ l else 0)"
    by (rule sum.cong) (use d in auto)
  also have "\<dots> = alpha ^ l" by (subst sum.delta) (auto simp: D)
  finally have den: "g denom = alpha ^ l" "byte denom"
    using d(1) by (auto simp: denom_def intro!: byte_xor_fold)
  then have "denom \<noteq> 0" by auto
  then have "g (gen_mul num (gen_inverse denom)) = e" "byte (gen_mul num (gen_inverse denom))"
    using num den by (simp_all add: g_gen_inverse byte_gen_inverse byte_gen_mul)
  then show "g (magnitude (locator l) (zero_poly[0 := S ! 0]) l) = e" "byte (magnitude (locator l) (zero_poly[0 := S ! 0]) l)"
    by (simp_all add: magnitude_def Let_def num_def denom_def)
qed

text \<open>A word in which one byte of a codeword was changed is changed back.\<close>

lemma word_at_upd:
  assumes "p < length cw"
  shows "word_at x (cw[p := b]) = word_at x cw + GF (b XOR cw ! p) * x ^ (length cw - p - 1)"
  using assms
proof (induction cw arbitrary: p)
  case (Cons c cw)
  have "GF b = GF c + GF (b XOR c)" by (simp add: plus_gf_def ac_simps)
  with Cons show ?case by (cases p) (simp_all add: algebra_simps)
qed simp

lemma correct_one_error:
  assumes "length cw < 256" "\<forall>j<NPAR. syndrome cw j = 0" "p < length cw" "b \<noteq> cw ! p"
  shows "correct_errors (cw[p := b]) [] (synBytes (cw[p := b])) = (1, cw)" "synBytes (cw[p := b]) ! 0 \<noteq> 0"
proof -
  define l where "l = length cw - p - 1"
  define e where "e = GF (b XOR cw ! p)"
  have "b XOR cw ! p \<noteq> 0"
  proof
    assume "b XOR cw ! p = 0"
    then have "(b XOR cw ! p) XOR cw ! p = cw ! p" by simp
    with assms(4) show False by (simp add: ac_simps)
  qed
  then have e: "e \<noteq> 0" "l < 255" "l < length cw" "length cw - l - 1 = p" using assms(1,3) by (auto simp: e_def l_def gf_defs)
  have "g (syndrome (cw[p := b]) j) = e * (alpha ^ l) ^ (j + 1)" if "j < NPAR" for j
  proof -
    have "word_at (alpha ^ (j + 1)) cw = 0" using assms(2) syndrome_word_at(2) [OF that, of cw] that by simp
    then show ?thesis
      using syndrome_word_at(2) [OF that, of "cw[p := b]"] word_at_upd [OF assms(3), of "alpha ^ (j + 1)" b]
      by (simp add: e_def l_def ac_simps del: power_Suc flip: power_mult)
  qed
  then have o: "one_error e l (synBytes (cw[p := b]))"
    using e syndrome_word_at(1) [of _ "cw[p := b]"]
    by (auto simp: one_error_def synBytes_def bytes_map MAXDEG_def)
  note m = magnitude_one_error [OF o]
  have "b XOR word_of_int (magnitude (locator l) (zero_poly[0 := synBytes (cw[p := b]) ! 0]) l) = cw ! p"
    using m(1) by (simp add: g_def e_def flip: xor.assoc)
  then show "correct_errors (cw[p := b]) [] (synBytes (cw[p := b])) = (1, cw)"
    using e assms(3)
    by (simp add: correct_errors_def bm_one_error [OF o] Find_Roots_locator [OF e(2)] NPAR_def Let_def list_update_same_conv)
  show "synBytes (cw[p := b]) ! 0 \<noteq> 0"
    using one_error_nth [OF o, of 0] e(1) by (auto simp: NPAR_def)
qed

subsection \<open>A codeword the decoder damages\<close>

text \<open>
  The encoder with the generator polynomial by value, for evaluation.
\<close>

lemma shift_in_genPoly:
  "shift_in genPoly = shift_in generator_coeffs"
proof (intro ext)
  fix b reg
  have "genPoly ! 0 = generator_coeffs ! 0" using genPoly_value [of 0] by (simp add: NPAR_def)
  then show "shift_in genPoly b reg = shift_in generator_coeffs b reg"
    by (auto simp: shift_in_def Let_def genPoly_value)
qed

definition damaged_block :: "u8 list" where "damaged_block = replicate 22 0 @ [29, 2]"
definition damaged_parity :: "u8 list" where "damaged_parity = [190, 68, 174, 242, 228, 139, 72, 153]"
definition damaged_word :: "u8 list" where
  "damaged_word = damaged_block @ damaged_parity @ replicate 8 0"
definition damaged_syndromes :: "int list" where
  "damaged_syndromes = [82, 40, 91, 179, 49, 247, 149, 255, 60, 229, 229, 29, 17, 214, 36, 29] @ replicate 16 0"
definition damaged_locator :: "int list" where
  "damaged_locator = [214, 79, 183, 108, 1] @ replicate 27 0"
definition damaged_evaluator :: "int list" where
  "damaged_evaluator = [243, 17, 134, 217, 132, 222, 3, 103, 60, 184, 34, 76, 0, 0, 0, 0] @ replicate 16 0"

lemma damaged_encode: "rs_encode damaged_block 8 = Inr damaged_parity"
  unfolding rs_encode_def shift_in_genPoly by code_simp

lemma damaged_synBytes: "synBytes damaged_word = damaged_syndromes"
  by code_simp

lemma damaged_locate:
  "Berlekamp_Massey [7, 6, 5, 4, 3, 2, 1, 0] damaged_syndromes = (damaged_locator, damaged_evaluator)"
  by code_simp

lemma damaged_roots: "Find_Roots damaged_locator = [17]"
  by code_simp

lemma upt_MAXDEG:
  "[0..<MAXDEG] = [0, 1, 2, 3, 4, 5, 6, 7, 8, 9, 10, 11, 12, 13, 14, 15, 16, 17, 18, 19, 20, 21, 22, 23, 24,
     25, 26, 27, 28, 29, 30, 31]"
  "filter odd [1..<MAXDEG] = [1, 3, 5, 7, 9, 11, 13, 15, 17, 19, 21, 23, 25, 27, 29, 31]"
  by code_simp+

lemma damaged_magnitude: "magnitude damaged_locator damaged_evaluator 17 = 196"
  unfolding magnitude_def upt_MAXDEG
  by (simp add: field_size_def damaged_locator_def damaged_evaluator_def gen_mul_code(1)) code_simp

subsection \<open>Properties\<close>

text \<open>
  C19: the parity bytes that the encoder appends make the word a codeword: all 16 syndromes that the
  decoder computes of it are zero.
\<close>

theorem rs_codeword_syndromes:
  "\<exists>par. rs_encode bs NPAR = Inr par \<and> length par = NPAR \<and> take NPAR (synBytes (bs @ par)) = replicate NPAR 0"
proof -
  obtain par where par: "rs_encode bs NPAR = Inr par" by (auto simp: rs_encode_def NPAR_def Let_def)
  note p = rs_encode_full [OF this]
  have "take NPAR (synBytes (bs @ par)) = replicate NPAR 0"
    by (rule nth_equalityI) (use p(2) in \<open>auto simp: synBytes_def MAXDEG_def\<close>)
  with par p(1) show ?thesis by blast
qed

text \<open>
  C18: decoding what was encoded with all 16 parity bytes gives the data back, and so does decoding even
  when any one byte of data or parity arrives damaged, for blocks of up to 239 bytes.
\<close>

theorem rs_corrects_one_byte:
  assumes "rs_encode bs NPAR = Inr par" "length bs < 240"
  shows "rs_decode ((par @ bs)[p := b]) NPAR = Inr bs"
proof (cases "p < length (par @ bs) \<and> b \<noteq> (par @ bs) ! p")
  case True
  note par = rs_encode_full [OF assms(1)]
  define q where "q = (if p < NPAR then length bs + p else p - NPAR)"
  have d: "drop NPAR ((par @ bs)[p := b]) @ take NPAR ((par @ bs)[p := b]) = (bs @ par)[q := b]"
    using par(1) True by (auto simp: q_def list_update_append)
  have q: "q < length (bs @ par)" "b \<noteq> (bs @ par) ! q" "length (bs @ par) < 256"
    using par(1) True assms(2) by (auto simp: q_def nth_append NPAR_def split: if_splits)
  note c = correct_one_error [OF q(3) _ q(1,2)]
  have "correct_errors ((bs @ par)[q := b]) [] (synBytes ((bs @ par)[q := b])) = (1, bs @ par)"
    by (rule c) (use par in auto)
  moreover have "\<exists>i<NPAR. synBytes ((bs @ par)[q := b]) ! i \<noteq> 0"
    by (intro exI [of _ 0] conjI c(2)) (use par in \<open>auto simp: NPAR_def\<close>)
  ultimately show ?thesis
    using par(1) True d unfolding rs_decode_def Let_def by auto
next
  case False
  then have "(par @ bs)[p := b] = par @ bs"
    by (cases "p < length (par @ bs)") (auto simp: list_update_beyond simp del: length_append nth_append list_update_append)
  then show ?thesis using rs_decode_full [OF assms(1)] by simp
qed

theorem rs_corrects_one_byte_witness:
  "\<exists>par. rs_encode [1, 2, 3] NPAR = Inr par \<and> rs_decode ((par @ [1, 2, 3])[17 := 99]) NPAR = Inr [1, 2, 3]"
proof -
  obtain par where "rs_encode [1, 2, 3] NPAR = Inr par" by (auto simp: rs_encode_def NPAR_def Let_def)
  then show ?thesis using rs_corrects_one_byte [of "[1, 2, 3]" par 17 99] by auto
qed

text \<open>
  with fewer parity bytes the decoder damages words that arrived intact, because \<open>init_gamma\<close> makes a
  locator of the bytes not sent that is a constant.  The block of 24 bytes that ends in 29 and 2, with
  the 8 parity bytes of the codes for QPSK 1/2 and 16-QAM 3/4, is decoded with 217 in the place of 29.
\<close>

theorem rs_decode_damages:
  "rs_encode damaged_block 8 = Inr damaged_parity
   \<and> rs_decode (damaged_parity @ damaged_block) 8 = Inr (replicate 22 0 @ [217, 2])"
proof -
  have d: "drop 8 (damaged_parity @ damaged_block) @ take 8 (damaged_parity @ damaged_block) @ replicate (NPAR - 8) 0
      = damaged_word"
    by (simp add: damaged_parity_def damaged_word_def NPAR_def)
  have er: "map (\<lambda>i. length (damaged_parity @ damaged_block) - 8 + NPAR - length (damaged_parity @ damaged_block) - i - 1)
      [0..<NPAR - 8] = [7, 6, 5, 4, 3, 2, 1, 0]"
    by code_simp
  have nz: "\<exists>i<NPAR. damaged_syndromes ! i \<noteq> 0"
    by (rule exI [of _ 0]) (simp add: damaged_syndromes_def NPAR_def)
  have c: "correct_errors damaged_word [7, 6, 5, 4, 3, 2, 1, 0] damaged_syndromes
      = (1, damaged_word[22 := damaged_word ! 22 XOR 196])"
  proof -
    have "length damaged_word = 40" by code_simp
    then show ?thesis unfolding correct_errors_def damaged_locate prod.case Let_def damaged_roots
      by (simp add: damaged_magnitude NPAR_def)
  qed
  have "take 24 (damaged_word[22 := damaged_word ! 22 XOR 196]) = replicate 22 0 @ [217, 2]"
    by code_simp
  then have "rs_decode (damaged_parity @ damaged_block) 8 = Inr (replicate 22 0 @ [217, 2])"
    using nz unfolding rs_decode_def Let_def d er damaged_synBytes c
    by (auto simp: NPAR_def damaged_parity_def damaged_block_def)
  with damaged_encode show ?thesis by blast
qed

end
