(* ===== verification/ConvCode.thy ===== *)
theory ConvCode
  imports Prelude
begin

text \<open>
  The convolutional code of \<open>module/wimax/phy/fec/cc/conv_code.cc\<close>: the tables, the encoder with
  puncturing, and the decoder, a search for the path through the trellis of the encoder's states that
  agrees with most of the bits received.  Bits are taken from the highest bit of a byte.  An access
  outside of an array gives \<open>OutOfBounds\<close>.
\<close>

subsection \<open>Tables\<close>

definition BX :: "int \<Rightarrow> int" where
  "BX x = x - (drop_bit 1 x AND 0x77777777) - (drop_bit 2 x AND 0x33333333) - (drop_bit 3 x AND 0x11111111)"

definition BITCOUNT :: "int \<Rightarrow> int" where
  "BITCOUNT x = ((BX x + drop_bit 4 (BX x)) AND 0x0F0F0F0F) mod 255"

record EncoderLookupEntry =
  en_x :: int
  en_y :: int
  en_nextState :: nat

record DecoderLookupEntry =
  de_out :: int
  de_nextState :: int

record ConvoCode =
  GX :: int
  GY :: int
  GLen :: nat
  PX :: int
  PY :: int
  PLen :: nat
  encoderLookupTable :: "EncoderLookupEntry list"
  decoderLookupTable :: "DecoderLookupEntry list"
  encoderState :: nat
  decoderState :: "int list"

definition genEncoderLookupTable :: "ConvoCode \<Rightarrow> EncoderLookupEntry list" where
  "genEncoderLookupTable cc =
     map (\<lambda>i. \<lparr>en_x = BITCOUNT (int i AND GX cc) mod 2, en_y = BITCOUNT (int i AND GY cc) mod 2, en_nextState = i div 2\<rparr>)
       [0..<2 ^ GLen cc]"

text \<open>The entries of the decoder's table that no entry of the encoder's table leads to keep -1.\<close>

definition dec_entry :: "ConvoCode \<Rightarrow> nat \<Rightarrow> DecoderLookupEntry list \<Rightarrow> DecoderLookupEntry list" where
  "dec_entry cc i table =
     (let e = encoderLookupTable cc ! i;
          j = (int i AND (push_bit (GLen cc - 1) 1 - 1))
            OR push_bit (GLen cc) (en_x e) OR push_bit (GLen cc - 1) (en_y e)
      in table[nat j := \<lparr>de_out = int i div 2 ^ (GLen cc - 1), de_nextState = int (en_nextState e)\<rparr>])"

definition genDecoderLookupTable :: "ConvoCode \<Rightarrow> DecoderLookupEntry list" where
  "genDecoderLookupTable cc =
     fold (dec_entry cc) [0..<2 ^ GLen cc] (replicate (2 ^ (GLen cc + 1)) \<lparr>de_out = 0, de_nextState = -1\<rparr>)"

definition resetEncoderState :: "ConvoCode \<Rightarrow> ConvoCode" where
  "resetEncoderState cc = cc\<lparr>encoderState := 0\<rparr>"

definition resetDecoderState :: "ConvoCode \<Rightarrow> ConvoCode" where
  "resetDecoderState cc = cc\<lparr>decoderState := 0 # replicate (2 ^ (GLen cc - 1) - 1) (-1)\<rparr>"

definition ConvoCode_new :: "int \<Rightarrow> int \<Rightarrow> nat \<Rightarrow> int \<Rightarrow> int \<Rightarrow> nat \<Rightarrow> ConvoCode" where
  "ConvoCode_new gx gy glen px py plen =
     resetDecoderState (resetEncoderState
       \<lparr>GX = gx, GY = gy, GLen = glen, PX = px, PY = py, PLen = plen, encoderLookupTable = [],
        decoderLookupTable = [], encoderState = 0, decoderState = []\<rparr>)"

subsection \<open>The encoder\<close>

definition taken :: "int \<Rightarrow> nat \<Rightarrow> bool" where
  "taken pat shift \<longleftrightarrow> drop_bit shift pat AND 1 \<noteq> 0"

text \<open>The bit \<open>i\<close> of a buffer, as the int that the code makes of it.\<close>

definition input_bit :: "u8 list \<Rightarrow> nat \<Rightarrow> int" where
  "input_bit inp i = push_bit (i mod 8) (uint (inp ! (i div 8))) AND 0x80"

definition put_bit :: "int \<Rightarrow> nat \<times> u8 list \<Rightarrow> abort + nat \<times> u8 list" where
  "put_bit x = (\<lambda>(n, out).
     if n div 8 < length out
     then Inr (n + 1, out[n div 8 := push_bit 1 (out ! (n div 8)) OR word_of_int x])
     else Inl OutOfBounds)"

definition cc_encode_bit :: "ConvoCode \<Rightarrow> u8 list \<Rightarrow> nat \<Rightarrow> nat \<times> nat \<times> u8 list \<Rightarrow> abort + nat \<times> nat \<times> u8 list" where
  "cc_encode_bit cc inp i = (\<lambda>(state, n, out).
     if i div 8 \<ge> length inp then Inl OutOfBounds
     else let in' = nat (drop_bit (8 - GLen cc) (input_bit inp i)) OR state;
              e = encoderLookupTable cc ! in';
              shift = PLen cc - i mod PLen cc - 1
          in sum_bind (if taken (PX cc) shift then put_bit (en_x e) (n, out) else Inr (n, out)) (\<lambda>no.
             sum_bind (if taken (PY cc) shift then put_bit (en_y e) no else Inr no) (\<lambda>no.
               Inr (en_nextState e, no))))"

text \<open>What \<open>encode\<close> returns, the output buffer, and the object afterwards.\<close>

definition cc_encode :: "u8 list \<Rightarrow> u8 list \<Rightarrow> nat \<Rightarrow> ConvoCode \<Rightarrow> abort + nat \<times> u8 list \<times> ConvoCode" where
  "cc_encode inp out inputLen cc =
     sum_bind (sum_fold (cc_encode_bit cc inp) [0..<inputLen] (encoderState cc, 0, out)) (\<lambda>(state, n, out).
       Inr (n, out, cc\<lparr>encoderState := state\<rparr>))"

subsection \<open>The decoder\<close>

type_synonym grid = "nat \<Rightarrow> nat \<Rightarrow> int"

definition upd2 :: "grid \<Rightarrow> nat \<Rightarrow> nat \<Rightarrow> int \<Rightarrow> grid" where
  "upd2 a s i v = a(s := (a s)(i := v))"

text \<open>One branch of the trellis: from state \<open>j\<close> in column \<open>i\<close>, with output \<open>m\<close>.\<close>

definition branch :: "ConvoCode \<Rightarrow> nat \<Rightarrow> int \<Rightarrow> int \<Rightarrow> nat \<times> nat \<Rightarrow> grid \<times> grid \<Rightarrow> grid \<times> grid" where
  "branch cc i x y = (\<lambda>(j, m) (metric, from).
     if metric j i \<noteq> -1 then
       let state = push_bit (GLen cc - 1) m OR j;
           nextState = de_nextState (decoderLookupTable cc ! state)
       in if nextState \<noteq> -1 then
            let tmp = metric j i;
                tmp = (if x \<noteq> -1 \<and> x = int (m div 2) then tmp + 1 else tmp);
                tmp = (if y \<noteq> -1 \<and> y = int (m mod 2) then tmp + 1 else tmp)
            in if tmp > metric (nat nextState) (i + 1)
               then (upd2 metric (nat nextState) (i + 1) tmp, upd2 from (nat nextState) (i + 1) (int j))
               else (metric, from)
          else (metric, from)
     else (metric, from))"

definition branches :: "nat \<Rightarrow> (nat \<times> nat) list" where
  "branches sz = List.product [0..<sz] [0..<4]"

text \<open>Taking the next bit of the input, or -1 when the bit was punctured.\<close>

definition take_bit_in :: "u8 list \<Rightarrow> bool \<Rightarrow> nat \<Rightarrow> abort + int \<times> nat" where
  "take_bit_in inp t consumed =
     (if t then (if consumed div 8 < length inp then Inr (drop_bit 7 (input_bit inp consumed), consumed + 1)
                 else Inl OutOfBounds)
      else Inr (-1, consumed))"

text \<open>The columns of the trellis; the arrays have \<open>cols + 1\<close> columns.\<close>

function trellis :: "ConvoCode \<Rightarrow> u8 list \<Rightarrow> nat \<Rightarrow> nat \<Rightarrow> nat \<Rightarrow> nat \<Rightarrow> grid \<times> grid \<Rightarrow> abort + grid \<times> grid" where
  "trellis cc inp limit cols i consumed g =
     (if consumed < limit then
        if i \<ge> cols then Inl OutOfBounds
        else let shift = PLen cc - i mod PLen cc - 1
             in sum_bind (take_bit_in inp (taken (PX cc) shift) consumed) (\<lambda>(x, consumed).
                sum_bind (take_bit_in inp (taken (PY cc) shift) consumed) (\<lambda>(y, consumed).
                  trellis cc inp limit cols (i + 1) consumed
                    (fold (branch cc i x y) (branches (2 ^ (GLen cc - 1))) g)))
      else Inr g)"
  by pat_completeness auto
termination by (relation "measure (\<lambda>(cc, inp, limit, cols, i, consumed, g). cols - i)") auto

declare trellis.simps [simp del]

text \<open>The state with the largest metric in the last column, the last one of equals.\<close>

definition best_state :: "grid \<Rightarrow> nat \<Rightarrow> nat \<Rightarrow> nat option" where
  "best_state metric sz col =
     snd (fold (\<lambda>i (mx, st). if metric i col \<ge> mx then (metric i col, Some i) else (mx, st)) [0..<sz] (0, None))"

definition step_back :: "nat \<Rightarrow> grid \<Rightarrow> nat \<Rightarrow> nat \<Rightarrow> abort + nat" where
  "step_back sz from i state =
     (if 0 \<le> from state i \<and> from state i < int sz then Inr (nat (from state i)) else Inl OutOfBounds)"

definition put_decoded :: "nat \<Rightarrow> nat \<Rightarrow> nat \<Rightarrow> u8 \<Rightarrow> u8" where
  "put_decoded sz prevState state w =
     (let w = drop_bit 1 w
      in if prevState = 0 \<and> state = 0 then w AND 0x7F
         else if prevState = sz - 1 \<and> state = sz - 1 then w OR 0x80
         else if prevState \<ge> state then w AND 0x7F
         else w OR 0x80)"

definition backtrack_bit :: "nat \<Rightarrow> grid \<Rightarrow> nat \<Rightarrow> nat \<times> u8 list \<Rightarrow> abort + nat \<times> u8 list" where
  "backtrack_bit sz from i = (\<lambda>(state, out).
     sum_bind (step_back sz from i state) (\<lambda>prevState.
       if (i - 1) div 8 < length out
       then Inr (prevState, out[(i - 1) div 8 := put_decoded sz prevState state (out ! ((i - 1) div 8))])
       else Inl OutOfBounds))"

text \<open>
  \<open>decode\<close> returns the number of decoded bits, the output buffer, and the object afterwards.  The first
  loop of the backtracking goes down to \<open>skip\<close>, the second one writes.
\<close>

definition cc_decode :: "u8 list \<Rightarrow> u8 list \<Rightarrow> nat \<Rightarrow> nat \<Rightarrow> ConvoCode \<Rightarrow> abort + nat \<times> u8 list \<times> ConvoCode" where
  "cc_decode inp out inputLen lookahead cc =
     (let sz = 2 ^ (GLen cc - 1);
          rate = nat (BITCOUNT (PX cc) + BITCOUNT (PY cc));
          nbits = (inputLen + lookahead) * PLen cc div rate * 2;
          cols = nbits div 2;
          metric = (\<lambda>s c. if c = 0 \<and> s < sz then decoderState cc ! s else -1)
      in sum_bind (trellis cc inp (inputLen + lookahead) cols 0 0 (metric, \<lambda>_ _. -1)) (\<lambda>(metric, from).
         case best_state metric sz cols of
           None \<Rightarrow> Inl OutOfBounds
         | Some state \<Rightarrow>
             (let skip = inputLen * PLen cc div rate * 2
              in sum_bind (sum_fold (step_back sz from) (rev [skip + 1..<cols + 1]) state) (\<lambda>state.
                 sum_bind (sum_fold (backtrack_bit sz from) (rev [1..<min cols skip + 1]) (state, out)) (\<lambda>(state, out).
                   let nbits = inputLen * PLen cc div rate * 2
                   in Inr (nbits div 2, out, cc\<lparr>decoderState := map (\<lambda>i. metric i (nbits div 2) - metric 0 0) [0..<sz]\<rparr>))))))"

subsection \<open>The tables of the standard code\<close>

text \<open>The coders that \<open>channel_coding.cc\<close> makes: generators 171 and 133, octal, and 64 states.\<close>

definition CC :: "int \<Rightarrow> int \<Rightarrow> nat \<Rightarrow> ConvoCode" where
  "CC px py plen =
     (let cc = ConvoCode_new 0x79 0x5B 7 px py plen;
          cc = cc\<lparr>encoderLookupTable := genEncoderLookupTable cc\<rparr>
      in cc\<lparr>decoderLookupTable := genDecoderLookupTable cc\<rparr>)"

definition std :: ConvoCode where "std = CC 0 0 0"

definition std_tables :: "ConvoCode \<Rightarrow> bool" where
  "std_tables cc \<longleftrightarrow> GLen cc = 7 \<and> encoderLookupTable cc = encoderLookupTable std
     \<and> decoderLookupTable cc = decoderLookupTable std"

text \<open>Output and next state for the input bit \<open>b\<close> in state \<open>s\<close>.\<close>

definition xo :: "bool \<Rightarrow> nat \<Rightarrow> int" where "xo b s = en_x (encoderLookupTable std ! (of_bool b * 64 + s))"
definition yo :: "bool \<Rightarrow> nat \<Rightarrow> int" where "yo b s = en_y (encoderLookupTable std ! (of_bool b * 64 + s))"
definition nx :: "bool \<Rightarrow> nat \<Rightarrow> nat" where "nx b s = (of_bool b * 64 + s) div 2"
definition out2 :: "bool \<Rightarrow> nat \<Rightarrow> nat" where "out2 b s = nat (2 * xo b s + yo b s)"

lemma encoder_std: "i < 128 \<Longrightarrow> encoderLookupTable std ! i =
    \<lparr>en_x = BITCOUNT (int i AND 0x79) mod 2, en_y = BITCOUNT (int i AND 0x5B) mod 2, en_nextState = i div 2\<rparr>"
  by (simp add: std_def CC_def Let_def genEncoderLookupTable_def ConvoCode_new_def resetDecoderState_def resetEncoderState_def)

text \<open>Both outputs change with the input bit.\<close>

lemma outputs_toggle:
  "list_all (\<lambda>s. BITCOUNT (s AND 0x79) mod 2 \<in> {0, 1} \<and> BITCOUNT (s AND 0x5B) mod 2 \<in> {0, 1}
     \<and> BITCOUNT (64 + s AND 0x79) mod 2 = 1 - BITCOUNT (s AND 0x79) mod 2
     \<and> BITCOUNT (64 + s AND 0x5B) mod 2 = 1 - BITCOUNT (s AND 0x5B) mod 2) [0..63]"
  by code_simp

lemma std_outputs:
  assumes "s < 64"
  shows "xo b s \<in> {0, 1}" "yo b s \<in> {0, 1}" "xo True s = 1 - xo False s" "yo True s = 1 - yo False s"
proof -
  have "int s \<in> set [0..63]" using assms by auto
  then have "BITCOUNT (int s AND 0x79) mod 2 \<in> {0, 1} \<and> BITCOUNT (int s AND 0x5B) mod 2 \<in> {0, 1}
     \<and> BITCOUNT (64 + int s AND 0x79) mod 2 = 1 - BITCOUNT (int s AND 0x79) mod 2
     \<and> BITCOUNT (64 + int s AND 0x5B) mod 2 = 1 - BITCOUNT (int s AND 0x5B) mod 2"
    using outputs_toggle unfolding list_all_iff by blast
  then show "xo b s \<in> {0, 1}" "yo b s \<in> {0, 1}" "xo True s = 1 - xo False s" "yo True s = 1 - yo False s"
    using assms by (cases b; auto simp: xo_def yo_def encoder_std)+
qed

lemma std_next: "s < 64 \<Longrightarrow> en_nextState (encoderLookupTable std ! (of_bool b * 64 + s)) = nx b s"
  by (cases b) (simp_all add: encoder_std nx_def)

lemma nx_less: "s < 64 \<Longrightarrow> nx b s < 64"
  by (cases b) (auto simp: nx_def)

lemma out2_less: "s < 64 \<Longrightarrow> out2 b s < 4"
  using std_outputs(1,2) [of s b] by (auto simp: out2_def)

lemma out2_inj: "s < 64 \<Longrightarrow> out2 b s = out2 c s \<longleftrightarrow> b = c"
  using std_outputs(1-2) [of s b] std_outputs(1-2) [of s c] std_outputs(3,4) [of s]
  by (cases b; cases c) (auto simp: out2_def)

lemma out2_digits: "s < 64 \<Longrightarrow> int (out2 b s div 2) = xo b s \<and> int (out2 b s mod 2) = yo b s"
  using std_outputs(1,2) [of s b] by (auto simp: out2_def)

lemma fold_updates:
  assumes "distinct is" "inj_on k (set is)" "\<forall>i\<in>set is. k i < length t"
  shows "i \<in> set is \<Longrightarrow> fold (\<lambda>i t. t[k i := v i]) is t ! k i = v i"
    and "p \<notin> k ` set is \<Longrightarrow> fold (\<lambda>i t. t[k i := v i]) is t ! p = t ! p"
proof -
  show 2: "p \<notin> k ` set is \<Longrightarrow> fold (\<lambda>i t. t[k i := v i]) is t ! p = t ! p" for p "is" t
    by (induction "is" arbitrary: t) auto
  show "i \<in> set is \<Longrightarrow> fold (\<lambda>i t. t[k i := v i]) is t ! k i = v i"
    using assms
  proof (induction "is" arbitrary: t)
    case (Cons j js)
    show ?case
    proof (cases "i = j")
      case True
      have "k j \<notin> k ` set js" using Cons.prems by (auto simp: inj_on_def)
      from 2 [OF this, of "t[k j := v j]"] show ?thesis using True Cons.prems by simp
    next
      case False
      then show ?thesis using Cons by simp
    qed
  qed simp
qed

lemma or_push_bit_int: "0 \<le> s \<Longrightarrow> s < 2 ^ n \<Longrightarrow> (s :: int) OR push_bit n k = s + push_bit n k"
proof -
  assume "0 \<le> s" "s < 2 ^ n"
  then have "take_bit n s = s" by (simp add: take_bit_int_eq_self)
  then have "\<not> bit s m" if "n \<le> m" for m using that by (metis bit_take_bit_iff not_less)
  then have "s AND push_bit n k = 0"
    by (intro bit_eqI) (auto simp: bit_and_iff bit_push_bit_iff)
  then show ?thesis by (simp add: disjunctive_add_eq_or)
qed

lemma or_push_bit_nat: "s < 2 ^ n \<Longrightarrow> push_bit n k OR s = s + push_bit n (k :: nat)"
proof -
  assume "s < 2 ^ n"
  then have "int s OR push_bit n (int k) = int s + push_bit n (int k)" by (intro or_push_bit_int) (simp_all add: of_nat_less_numeral_power_cancel_iff)
  then have "int (push_bit n k OR s) = int (s + push_bit n k)"
    by (simp add: of_nat_or_eq of_nat_push_bit ac_simps)
  then show ?thesis by (simp only: of_nat_eq_iff)
qed

definition dec_index :: "nat \<Rightarrow> nat" where
  "dec_index i = push_bit 6 (out2 (64 \<le> i) (i mod 64)) OR i mod 64"

lemma dec_index: "dec_index i = i mod 64 + 64 * out2 (64 \<le> i) (i mod 64)"
  using or_push_bit_nat [of "i mod 64" 6] by (simp add: dec_index_def push_bit_eq_mult)

lemma split_128: "i < 128 \<Longrightarrow> i = of_bool (64 \<le> i) * 64 + i mod 64" for i :: nat
  by (cases "64 \<le> i") (auto simp: mod_if)

lemma or_index:
  assumes "0 \<le> t" "t < 64" "x \<in> {0, 1}" "y \<in> {0, 1::int}"
  shows "t OR push_bit 7 x OR push_bit 6 y = t + 128 * x + 64 * y"
proof -
  have k: "t OR push_bit 6 k = t + push_bit 6 k" for k by (rule or_push_bit_int) (use assms in simp_all)
  have "push_bit 7 x OR push_bit 6 y = push_bit 6 (2 * x + y)" using assms(3,4) by auto
  then show ?thesis using k [of "2 * x + y"] by (simp add: push_bit_eq_mult)
qed

lemma and_63: "int i AND (push_bit 6 1 - 1) = int (i mod 64)"
proof -
  have "int i AND (push_bit 6 1 - 1) = int i AND mask 6" by (simp add: mask_eq_exp_minus_1)
  then show ?thesis by (simp add: take_bit_eq_mod zmod_int flip: take_bit_eq_mask)
qed

lemma dec_entry_std:
  assumes "i < 128" "encoderLookupTable cc = encoderLookupTable std" "GLen cc = 7"
  shows "dec_entry cc i table = table[dec_index i := \<lparr>de_out = int i div 2 ^ 6, de_nextState = int (nx (64 \<le> i) (i mod 64))\<rparr>]"
proof -
  define b where "b = (64 \<le> i)"
  define s where "s = i mod 64"
  have i: "of_bool b * 64 + s = i" using split_128 [OF assms(1)] by (simp add: b_def s_def)
  have s: "s < 64" by (simp add: s_def)
  have x: "en_x (encoderLookupTable std ! i) = xo b s" "en_y (encoderLookupTable std ! i) = yo b s"
    "en_nextState (encoderLookupTable std ! i) = nx b s"
    using std_next [OF s, of b] by (simp_all only: xo_def yo_def i)
  have "int s OR push_bit 7 (xo b s) OR push_bit 6 (yo b s) = int s + 128 * xo b s + 64 * yo b s"
    by (rule or_index) (use s std_outputs(1,2) [OF s, of b] in auto)
  also have "\<dots> = int (s + 64 * out2 b s)" using std_outputs(1,2) [OF s, of b] by (auto simp: out2_def)
  finally have n: "nat (int s OR push_bit 7 (xo b s) OR push_bit 6 (yo b s)) = dec_index i"
    by (simp only: nat_int dec_index b_def s_def)
  have six: "7 - 1 = (6 :: nat)" by simp
  show ?thesis
    unfolding dec_entry_def assms(2,3) Let_def x six and_63 n s_def [symmetric] b_def [symmetric] ..
qed

lemma add_64_inj: "s < 64 \<Longrightarrow> t < 64 \<Longrightarrow> s + 64 * a = t + 64 * b \<Longrightarrow> s = t \<and> a = (b :: nat)"
proof -
  assume a: "s < 64" "t < 64" "s + 64 * a = t + 64 * b"
  then have "s mod 64 = t mod 64" by (metis mod_mult_self2)
  then have "s = t" using a(1,2) by simp
  with a(3) show "s = t \<and> a = b" by simp
qed

lemma decoder_std:
  assumes "s < 64" "m < 4"
  shows "de_nextState (decoderLookupTable std ! (push_bit 6 m OR s))
    = (if m = out2 False s then int (nx False s) else if m = out2 True s then int (nx True s) else -1)"
proof -
  let ?v = "\<lambda>i. \<lparr>de_out = int i div 2 ^ 6, de_nextState = int (nx (64 \<le> i) (i mod 64))\<rparr>"
  let ?t = "replicate 256 \<lparr>de_out = 0, de_nextState = -1\<rparr>"
  define cc where "cc = (let cc = ConvoCode_new 0x79 0x5B 7 0 0 0 in cc\<lparr>encoderLookupTable := genEncoderLookupTable cc\<rparr>)"
  have cc: "encoderLookupTable cc = encoderLookupTable std" "GLen cc = 7" "decoderLookupTable std = genDecoderLookupTable cc"
    by (simp_all add: cc_def std_def CC_def Let_def ConvoCode_new_def resetDecoderState_def resetEncoderState_def)
  have "decoderLookupTable std = fold (dec_entry cc) [0..<128] ?t"
    by (simp add: cc(3) genDecoderLookupTable_def cc(2))
  also have "\<dots> = fold (\<lambda>i t. t[dec_index i := ?v i]) [0..<128] ?t"
    by (rule fold_cong) (auto simp: dec_entry_std [OF _ cc(1,2)])
  finally have D: "decoderLookupTable std = fold (\<lambda>i t. t[dec_index i := ?v i]) [0..<128] ?t" .
  have eq: "dec_index i = dec_index j \<Longrightarrow> i mod 64 = j mod 64 \<and> out2 (64 \<le> i) (i mod 64) = out2 (64 \<le> j) (j mod 64)" for i j
    unfolding dec_index using add_64_inj [of "i mod 64" "j mod 64"] by simp
  have inj: "inj_on dec_index (set [0..<128])"
  proof (rule inj_onI)
    fix i j :: nat assume i: "i \<in> set [0..<128]" "j \<in> set [0..<128]" "dec_index i = dec_index j"
    from eq [OF i(3)] have "i mod 64 = j mod 64" "(64 \<le> i) = (64 \<le> j)"
      using out2_inj [of "i mod 64" "64 \<le> i" "64 \<le> j"] by auto
    moreover have "i < 128" "j < 128" using i by auto
    ultimately show "i = j" by (subst split_128, simp, subst (2) split_128, simp_all)
  qed
  have len: "\<forall>i\<in>set [0..<128]. dec_index i < length ?t"
  proof
    fix i :: nat
    have "out2 (64 \<le> i) (i mod 64) < 4" "i mod 64 < 64" by (simp_all add: out2_less)
    then show "dec_index i < length ?t" by (simp add: dec_index)
  qed
  note f = fold_updates [OF distinct_upt inj len, of _ ?v]
  have p: "push_bit 6 m OR s = s + 64 * m" using or_push_bit_nat [of s 6 m] assms by (simp add: push_bit_eq_mult)
  show ?thesis
  proof (cases "\<exists>b. m = out2 b s")
    case True
    then obtain b where b: "m = out2 b s" by blast
    define i where "i = of_bool b * 64 + s"
    have i: "i < 128" "i mod 64 = s" "(64 \<le> i) = b" using assms(1) by (cases b; simp add: i_def)+
    then have "push_bit 6 m OR s = dec_index i" using b p by (simp add: dec_index)
    then have "de_nextState (decoderLookupTable std ! (push_bit 6 m OR s)) = int (nx b s)"
      using f(1) [of i] i D by simp
    then show ?thesis using b out2_inj [OF assms(1)] by (cases b) auto
  next
    case False
    have "s + 64 * m \<notin> dec_index ` set [0..<128]"
    proof
      assume "s + 64 * m \<in> dec_index ` set [0..<128]"
      then obtain i where "s + 64 * m = i mod 64 + 64 * out2 (64 \<le> i) (i mod 64)" by (auto simp: dec_index)
      from add_64_inj [OF assms(1) _ this] have "m = out2 (64 \<le> i) (i mod 64)" "s = i mod 64" by simp_all
      with False show False by blast
    qed
    then show ?thesis using f(2) False D p assms by (auto simp: nth_replicate)
  qed
qed

subsection \<open>Bits of a buffer\<close>

definition bitat :: "u8 list \<Rightarrow> nat \<Rightarrow> bool" where
  "bitat bs p = bit (bs ! (p div 8)) (7 - p mod 8)"

lemma input_bit: "input_bit inp i = (if bitat inp i then 0x80 else 0)"
proof -
  have 128: "bit (128 :: int) n \<longleftrightarrow> n = 7" for n
    using bit_exp_iff [of 7 n, where 'a = int] by auto
  show ?thesis unfolding input_bit_def bitat_def
    by (rule bit_eqI) (auto simp: bit_and_iff bit_push_bit_iff 128 bit_uint_iff)
qed

text \<open>What the first \<open>n\<close> calls of \<open>put_bit\<close> have written.\<close>

definition written :: "nat \<Rightarrow> u8 list \<Rightarrow> bool list \<Rightarrow> bool" where
  "written n out L \<longleftrightarrow> length L = n
     \<and> (\<forall>p<n. bit (out ! (p div 8)) (min n (8 * (p div 8) + 8) - Suc p) = L ! p)"

lemma bit_put: "bit (push_bit 1 w OR of_bool v :: u8) n \<longleftrightarrow> (if n = 0 then v else n < 8 \<and> bit w (n - 1))"
  by (cases v) (auto simp: bit_or_iff bit_1_iff bit_times_2)

lemma less_8: "n < 8 * (n div 8) + 8" for n :: nat
  using mult_div_mod_eq [of 8 n] mod_less_divisor [of 8 n] by linarith

lemma put_bit_written:
  assumes "written n out L" "n div 8 < length out"
  shows "\<exists>out'. put_bit (of_bool v) (n, out) = Inr (n + 1, out') \<and> written (n + 1) out' (L @ [v])
    \<and> length out' = length out"
proof -
  define out' where "out' = out[n div 8 := push_bit 1 (out ! (n div 8)) OR of_bool v]"
  have "bit (out' ! (p div 8)) (min (n + 1) (8 * (p div 8) + 8) - Suc p) = (L @ [v]) ! p" if p: "p < n + 1" for p
  proof (cases "p div 8 = n div 8")
    case True
    have n8: "n < 8 * (n div 8) + 8" by (rule less_8)
    have "out' ! (p div 8) = push_bit 1 (out ! (n div 8)) OR of_bool v"
      using True assms(2) by (simp add: out'_def)
    then have o: "bit (out' ! (p div 8)) m \<longleftrightarrow> (if m = 0 then v else m < 8 \<and> bit (out ! (n div 8)) (m - 1))" for m
      by (simp only: bit_put)
    show ?thesis
    proof (cases "p = n")
      case True
      then show ?thesis using n8 o assms(1) by (simp add: written_def nth_append)
    next
      case False
      then have "p < n" using p by simp
      then have "bit (out ! (p div 8)) (n - Suc p) = L ! p"
        using assms(1) n8 True unfolding written_def by (metis min.strict_order_iff)
      moreover have "n - p < 8" using n8 True times_div_less_eq_dividend [of 8 p] by linarith
      ultimately show ?thesis
        using \<open>p < n\<close> n8 o True assms(1) by (simp add: written_def nth_append)
    qed
  next
    case False
    then have "p < n" using p by (cases "p = n") simp_all
    moreover have "p div 8 \<le> n div 8" using p by (intro div_le_mono) simp
    then have "8 * (p div 8) + 8 \<le> n" using False times_div_less_eq_dividend [of 8 n] by linarith
    moreover have "out' ! (p div 8) = out ! (p div 8)" using False by (simp add: out'_def)
    moreover have "bit (out ! (p div 8)) (min n (8 * (p div 8) + 8) - Suc p) = L ! p" "length L = n"
      using assms(1) \<open>p < n\<close> by (simp_all add: written_def)
    ultimately show ?thesis by (simp add: nth_append min_absorb2)
  qed
  then have "written (n + 1) out' (L @ [v])" using assms(1) by (simp add: written_def)
  moreover have "word_of_int (of_bool v) = (of_bool v :: u8)" by (cases v) simp_all
  ultimately show ?thesis using assms(2) by (simp add: put_bit_def out'_def)
qed

lemma written_bitat:
  assumes "written n out L" "8 dvd n" "p < n" shows "bitat out p = L ! p"
proof -
  obtain k where k: "n = 8 * k" using assms(2) by (rule dvdE)
  then have "p div 8 < k" using assms(3) by (simp add: div_less_iff_less_mult mult.commute)
  then have "8 * (p div 8) + 8 \<le> n" using k by linarith
  moreover have "8 * (p div 8) + 8 - Suc p = 7 - p mod 8" using mult_div_mod_eq [of 8 p] by linarith
  moreover have "bit (out ! (p div 8)) (min n (8 * (p div 8) + 8) - Suc p) = L ! p"
    using assms(1,3) by (simp add: written_def)
  ultimately show ?thesis by (simp only: bitat_def min_absorb2)
qed

subsection \<open>The coded stream\<close>

primrec path :: "(nat \<Rightarrow> bool) \<Rightarrow> nat \<Rightarrow> nat \<Rightarrow> nat" where
  "path b t 0 = t"
| "path b t (Suc i) = nx (b i) (path b t i)"

lemma path_less: "t < 64 \<Longrightarrow> path b t i < 64"
  by (induction i) (simp_all add: nx_less)

definition phase :: "ConvoCode \<Rightarrow> nat \<Rightarrow> nat" where "phase cc i = PLen cc - i mod PLen cc - 1"

definition emitted :: "ConvoCode \<Rightarrow> nat \<Rightarrow> bool \<Rightarrow> nat \<Rightarrow> bool list" where
  "emitted cc i b s = (if taken (PX cc) (phase cc i) then [xo b s = 1] else [])
     @ (if taken (PY cc) (phase cc i) then [yo b s = 1] else [])"

primrec coded :: "ConvoCode \<Rightarrow> (nat \<Rightarrow> bool) \<Rightarrow> nat \<Rightarrow> nat \<Rightarrow> bool list" where
  "coded cc b t 0 = []"
| "coded cc b t (Suc i) = coded cc b t i @ emitted cc i (b i) (path b t i)"

lemma of_bool_01: "z \<in> {0, 1} \<Longrightarrow> of_bool (z = 1) = (z :: int)"
  by auto

lemma cc_encode_bit_spec:
  assumes "std_tables cc" "s < 64" "i div 8 < length inp" "written n out L"
    and "n + length (emitted cc i (bitat inp i) s) \<le> 8 * length out"
  shows "\<exists>out'. cc_encode_bit cc inp i (s, n, out)
      = Inr (nx (bitat inp i) s, n + length (emitted cc i (bitat inp i) s), out')
    \<and> written (n + length (emitted cc i (bitat inp i) s)) out' (L @ emitted cc i (bitat inp i) s) \<and> length out' = length out"
proof -
  let ?b = "bitat inp i"
  have t: "GLen cc = 7" "encoderLookupTable cc = encoderLookupTable std" using assms(1) by (simp_all add: std_tables_def)
  have "nat (drop_bit (8 - 7) (input_bit inp i)) OR s = of_bool ?b * 64 + s"
    using or_push_bit_nat [of s 6 1] assms(2) by (simp add: input_bit drop_bit_eq_div)
  note idx = this
  have e: "en_x (encoderLookupTable std ! (of_bool ?b * 64 + s)) = of_bool (xo ?b s = 1)"
    "en_y (encoderLookupTable std ! (of_bool ?b * 64 + s)) = of_bool (yo ?b s = 1)"
    "en_nextState (encoderLookupTable std ! (of_bool ?b * 64 + s)) = nx ?b s"
    using std_outputs(1,2) [OF assms(2), of ?b] std_next [OF assms(2)]
    by (simp_all only: of_bool_01 flip: xo_def yo_def)
  have r: "cc_encode_bit cc inp i (s, n, out) =
      sum_bind (if taken (PX cc) (phase cc i) then put_bit (of_bool (xo ?b s = 1)) (n, out) else Inr (n, out)) (\<lambda>no.
      sum_bind (if taken (PY cc) (phase cc i) then put_bit (of_bool (yo ?b s = 1)) no else Inr no) (\<lambda>no. Inr (nx ?b s, no)))"
    unfolding cc_encode_bit_def prod.case Let_def t idx e phase_def using assms(3) by simp
  show ?thesis
  proof (cases "taken (PX cc) (phase cc i)")
    case True
    then have "n div 8 < length out" using assms(5) by (intro div_8_less) (simp add: emitted_def)
    from put_bit_written [OF assms(4) this] obtain o1 where
      o1: "put_bit (of_bool (xo ?b s = 1)) (n, out) = Inr (n + 1, o1)" "written (n + 1) o1 (L @ [xo ?b s = 1])"
        "length o1 = length out" by blast
    show ?thesis
    proof (cases "taken (PY cc) (phase cc i)")
      case T2: True
      then have "(n + 1) div 8 < length o1" using assms(5) True o1(3) by (intro div_8_less) (simp add: emitted_def)
      from put_bit_written [OF o1(2) this, of "yo ?b s = 1"] obtain o2 where
        "put_bit (of_bool (yo ?b s = 1)) (n + 1, o1) = Inr (n + 1 + 1, o2)"
        "written (n + 1 + 1) o2 ((L @ [xo ?b s = 1]) @ [yo ?b s = 1])" "length o2 = length o1" by blast
      then show ?thesis using True T2 o1 unfolding r by (intro exI [of _ o2]) (simp add: emitted_def del: of_bool_eq_1_iff)
    next
      case F2: False
      then show ?thesis using True o1 unfolding r by (intro exI [of _ o1]) (simp add: emitted_def)
    qed
  next
    case False
    show ?thesis
    proof (cases "taken (PY cc) (phase cc i)")
      case True
      then have "n div 8 < length out" using assms(5) False by (intro div_8_less) (simp add: emitted_def)
      from put_bit_written [OF assms(4) this, of "yo ?b s = 1"] obtain o2 where
        "put_bit (of_bool (yo ?b s = 1)) (n, out) = Inr (n + 1, o2)" "written (n + 1) o2 (L @ [yo ?b s = 1])"
        "length o2 = length out" by blast
      then show ?thesis using True False unfolding r by (intro exI [of _ o2]) (simp add: emitted_def)
    next
      case F2: False
      then show ?thesis using False assms(4) unfolding r by (intro exI [of _ out]) (simp add: emitted_def)
    qed
  qed
qed

lemma encode_run:
  assumes "std_tables cc" "t < 64"
  shows "n \<le> 8 * length inp \<Longrightarrow> length (coded cc (bitat inp) t n) \<le> 8 * length out \<Longrightarrow>
    \<exists>out'. sum_fold (cc_encode_bit cc inp) [0..<n] (t, 0, out)
        = Inr (path (bitat inp) t n, length (coded cc (bitat inp) t n), out')
      \<and> written (length (coded cc (bitat inp) t n)) out' (coded cc (bitat inp) t n) \<and> length out' = length out"
proof (induction n)
  case 0
  then show ?case by (simp add: written_def)
next
  case (Suc n)
  let ?b = "bitat inp"
  obtain o1 where o1: "sum_fold (cc_encode_bit cc inp) [0..<n] (t, 0, out)
      = Inr (path ?b t n, length (coded cc ?b t n), o1)"
    "written (length (coded cc ?b t n)) o1 (coded cc ?b t n)" "length o1 = length out"
    using Suc by auto
  have n: "n div 8 < length inp" using Suc.prems(1) by (intro div_8_less) simp
  have l: "length (coded cc ?b t n) + length (emitted cc n (?b n) (path ?b t n)) \<le> 8 * length o1"
    using Suc.prems(2) o1(3) by simp
  from cc_encode_bit_spec [OF assms(1) path_less [OF assms(2)] n o1(2) l] o1(3)
  show ?case by (auto simp: sum_fold_append o1(1))
qed

lemma cc_encode_spec:
  assumes "std_tables cc" "encoderState cc < 64" "n \<le> 8 * length inp"
    and "length (coded cc (bitat inp) (encoderState cc) n) \<le> 8 * length out"
  shows "\<exists>out'. cc_encode inp out n cc = Inr (length (coded cc (bitat inp) (encoderState cc) n), out',
        cc\<lparr>encoderState := path (bitat inp) (encoderState cc) n\<rparr>)
    \<and> written (length (coded cc (bitat inp) (encoderState cc) n)) out' (coded cc (bitat inp) (encoderState cc) n)
    \<and> length out' = length out"
  using encode_run [OF assms] by (auto simp: cc_encode_def)

end
