(* ===== verification/Viterbi.thy ===== *)
theory Viterbi
  imports ConvCode
begin

text \<open>
  The decoder of \<open>ConvCode\<close> finds the path that the encoder took: on a stream without errors the state
  of the encoder has a strictly larger metric than every other state, in every column.
\<close>

subsection \<open>One column\<close>

definition lead :: "grid \<Rightarrow> nat \<Rightarrow> nat \<Rightarrow> int \<Rightarrow> bool" where
  "lead metric i t M \<longleftrightarrow> metric t i = M \<and> (\<forall>s<64. s \<noteq> t \<longrightarrow> metric s i < M)"

definition gain :: "int \<Rightarrow> int \<Rightarrow> nat \<Rightarrow> int" where
  "gain x y m = of_bool (x \<noteq> -1 \<and> x = int (m div 2)) + of_bool (y \<noteq> -1 \<and> y = int (m mod 2))"

lemma branch_std:
  assumes "std_tables cc" "j < 64" "m < 4"
  shows "branch cc i x y (j, m) (metric, from) =
    (if metric j i = -1 then (metric, from)
     else if m = out2 False j then
       (if metric j i + gain x y m > metric (nx False j) (i + 1)
        then (upd2 metric (nx False j) (i + 1) (metric j i + gain x y m), upd2 from (nx False j) (i + 1) (int j))
        else (metric, from))
     else if m = out2 True j then
       (if metric j i + gain x y m > metric (nx True j) (i + 1)
        then (upd2 metric (nx True j) (i + 1) (metric j i + gain x y m), upd2 from (nx True j) (i + 1) (int j))
        else (metric, from))
     else (metric, from))"
proof -
  have t: "GLen cc = 7" "decoderLookupTable cc = decoderLookupTable std" using assms(1) by (simp_all add: std_tables_def)
  have six: "7 - 1 = (6 :: nat)" by simp
  have g: "(let tmp = v; tmp = (if x \<noteq> -1 \<and> x = int (m div 2) then tmp + 1 else tmp);
                tmp = (if y \<noteq> -1 \<and> y = int (m mod 2) then tmp + 1 else tmp) in f tmp) = f (v + gain x y m)"
    for v and f :: "int \<Rightarrow> grid \<times> grid"
    by (auto simp: gain_def Let_def add.commute)
  show ?thesis
    unfolding branch_def prod.case t six Let_def [of "push_bit 6 m OR j"] decoder_std [OF assms(2,3)] g
    unfolding Let_def by simp
qed

text \<open>What of a branch matters: a branch from \<open>j\<close> reaches at most \<open>metric j i + gain\<close>.\<close>

lemma gain_path:
  assumes "t < 64" "x \<in> {-1, xo b t}" "y \<in> {-1, yo b t}"
  shows "gain x y (out2 b t) = of_bool (x \<noteq> -1) + of_bool (y \<noteq> -1)" "gain x y (out2 (\<not> b) t) = 0"
proof -
  define X Y where "X = xo b t" and "Y = yo b t"
  have o: "xo (\<not> b) t = 1 - X" "yo (\<not> b) t = 1 - Y" using std_outputs(3,4) [OF assms(1)]
    by (cases b; simp add: X_def Y_def)+
  have d: "int (out2 b t div 2) = X" "int (out2 b t mod 2) = Y"
    "int (out2 (\<not> b) t div 2) = 1 - X" "int (out2 (\<not> b) t mod 2) = 1 - Y"
    using out2_digits [OF assms(1)] by (simp_all add: o[unfolded X_def Y_def] X_def Y_def)
  have "X \<in> {0, 1}" "Y \<in> {0, 1}" using std_outputs(1,2) [OF assms(1)] by (simp_all only: X_def Y_def)
  moreover have "x \<in> {-1, X}" "y \<in> {-1, Y}" using assms(2,3) by (simp_all only: X_def Y_def)
  ultimately show "gain x y (out2 b t) = of_bool (x \<noteq> -1) + of_bool (y \<noteq> -1)" "gain x y (out2 (\<not> b) t) = 0"
    unfolding gain_def d by auto
qed

lemma gain_le: "gain x y m \<le> of_bool (x \<noteq> -1) + of_bool (y \<noteq> -1)"
  by (auto simp: gain_def)

definition column :: "grid \<times> grid \<Rightarrow> nat \<Rightarrow> nat \<Rightarrow> int \<Rightarrow> nat \<Rightarrow> bool \<Rightarrow> grid \<times> grid \<Rightarrow> bool" where
  "column g0 i t N t' d g \<longleftrightarrow>
     (\<forall>s c. c \<noteq> i + 1 \<longrightarrow> fst g s c = fst g0 s c \<and> snd g s c = snd g0 s c)
   \<and> (\<forall>s<64. s \<noteq> t' \<longrightarrow> fst g s (i + 1) < N)
   \<and> (if d then fst g t' (i + 1) = N \<and> snd g t' (i + 1) = int t else fst g t' (i + 1) < N)"

lemma column_update:
  assumes "column g0 i t N t' d g" "v < N"
  shows "column g0 i t N t' d (if v > fst g s (i + 1) then (upd2 (fst g) s (i + 1) v, upd2 (snd g) s (i + 1) w) else g)"
  using assms by (cases g) (auto simp: column_def upd2_def)

lemma column_branch:
  assumes "std_tables cc" "t < 64" "j < 64" "m < 4"
    and l: "lead (fst g0) i t M" "M \<ge> 0"
    and x: "x \<in> {-1, xo b t}" "y \<in> {-1, yo b t}"
    and N: "N = M + of_bool (x \<noteq> -1) + of_bool (y \<noteq> -1)" "M < N"
    and col: "column g0 i t N (nx b t) d g" "\<not> ((j, m) = (t, out2 b t) \<and> d)"
  shows "column g0 i t N (nx b t) (d \<or> (j, m) = (t, out2 b t)) (branch cc i x y (j, m) g)"
proof -
  obtain metric fr where g: "g = (metric, fr)" by (cases g)
  have m: "metric j i = fst g0 j i" using col(1) by (simp add: column_def g)
  show ?thesis
  proof (cases "(j, m) = (t, out2 b t)")
    case True
    have "metric t i + gain x y (out2 b t) = N" "metric t i \<noteq> -1"
      using gain_path(1) [OF assms(2) x] l m True by (auto simp: lead_def N)
    moreover have "metric (nx b t) (i + 1) < N" using col True by (simp add: column_def g)
    ultimately have "branch cc i x y (j, m) g
      = (upd2 metric (nx b t) (i + 1) N, upd2 fr (nx b t) (i + 1) (int t))"
      using True out2_inj [OF assms(2), of b] unfolding g
      by (cases b) (simp_all add: branch_std [OF assms(1,2) out2_less [OF assms(2)]])
    then show ?thesis using col(1) True by (auto simp: column_def upd2_def g)
  next
    case False
    have lt: "metric j i + gain x y m < N" if "m = out2 e j" for e
    proof (cases "j = t")
      case True
      then have "e = (\<not> b)" using that False by (cases e; cases b) auto
      then show ?thesis using gain_path(2) [OF assms(2) x] that l m N True by (simp add: lead_def)
    next
      case False
      then have "metric j i < M" using l(1) assms(3) m by (simp add: lead_def)
      then show ?thesis using gain_le [of x y m] N by linarith
    qed
    have u: "column g0 i t N (nx b t) d
        (if metric s (i + 1) < v then (upd2 metric s (i + 1) v, upd2 fr s (i + 1) w) else (metric, fr))" if "v < N" for s v w
      using column_update [OF col(1) that, of s w] unfolding g fst_conv snd_conv .
    have "column g0 i t N (nx b t) d (branch cc i x y (j, m) g)"
    proof (cases "metric j i = -1 \<or> (\<forall>e. m \<noteq> out2 e j)")
      case True
      then show ?thesis using col(1) unfolding g branch_std [OF assms(1,3,4)] by auto
    next
      case c: False
      show ?thesis
      proof (cases "m = out2 False j")
        case True
        from u [OF lt [OF this], of "nx False j" "int j"] show ?thesis
          unfolding g branch_std [OF assms(1,3,4)] using True c by simp
      next
        case F: False
        then have e: "m = out2 True j" using c by (metis (full_types))
        from u [OF lt [OF this], of "nx True j" "int j"] show ?thesis
          unfolding g branch_std [OF assms(1,3,4)] using F c e by simp
      qed
    qed
    moreover have "(d \<or> (j, m) = (t, out2 b t)) = d" using False by blast
    ultimately show ?thesis by (simp only:)
  qed
qed

lemma column_run:
  assumes "std_tables cc" "t < 64" "lead (fst g0) i t M" "M \<ge> 0"
    and x: "x \<in> {-1, xo b t}" "y \<in> {-1, yo b t}"
    and N: "N = M + of_bool (x \<noteq> -1) + of_bool (y \<noteq> -1)" "M < N"
  shows "distinct js \<Longrightarrow> \<forall>(j, m)\<in>set js. j < 64 \<and> m < 4 \<Longrightarrow> column g0 i t N (nx b t) d g \<Longrightarrow>
    \<not> ((t, out2 b t) \<in> set js \<and> d) \<Longrightarrow>
    column g0 i t N (nx b t) (d \<or> (t, out2 b t) \<in> set js) (fold (branch cc i x y) js g)"
proof (induction js arbitrary: d g)
  case (Cons jm js)
  obtain j m where jm: "jm = (j, m)" by (cases jm)
  have "column g0 i t N (nx b t) (d \<or> (j, m) = (t, out2 b t)) (branch cc i x y (j, m) g)"
    by (rule column_branch [OF assms(1,2) _ _ assms(3,4) x N Cons.prems(3)]) (use Cons.prems jm in auto)
  note step = this
  have "column g0 i t N (nx b t) ((d \<or> (j, m) = (t, out2 b t)) \<or> (t, out2 b t) \<in> set js) (fold (branch cc i x y) js (branch cc i x y (j, m) g))"
    by (rule Cons.IH [OF _ _ step]) (use Cons.prems jm in auto)
  moreover have "((d \<or> (j, m) = (t, out2 b t)) \<or> (t, out2 b t) \<in> set js) = (d \<or> (t, out2 b t) \<in> set (jm # js))"
    unfolding jm by auto
  ultimately show ?case by (simp only: fold_Cons jm comp_apply)
qed simp

lemma next_column:
  assumes "std_tables cc" "t < 64" "lead (fst g) i t M" "M \<ge> 0"
    and "x \<in> {-1, xo b t}" "y \<in> {-1, yo b t}"
    and N: "N = M + of_bool (x \<noteq> -1) + of_bool (y \<noteq> -1)" "M < N"
    and "\<forall>s<64. fst g s (i + 1) = -1"
  shows "column g i t N (nx b t) True (fold (branch cc i x y) (branches 64) g)"
proof -
  have "column g i t N (nx b t) False g"
    using assms(4,9) N nx_less [OF assms(2), of b] by (auto simp: column_def)
  from column_run [OF assms(1-6) N _ _ this, of "branches 64"] show ?thesis
    using assms(2) out2_less [OF assms(2), of b]
    by (auto simp: branches_def distinct_product)
qed

subsection \<open>The trellis\<close>

definition covers :: "ConvoCode \<Rightarrow> bool" where
  "covers cc \<longleftrightarrow> (\<forall>i. taken (PX cc) (phase cc i) \<or> taken (PY cc) (phase cc i))"

lemma take_bit_in:
  "take_bit_in inp False p = Inr (-1, p)"
  "p < 8 * length inp \<Longrightarrow> take_bit_in inp True p = Inr (of_bool (bitat inp p), p + 1)"
  by (simp_all add: take_bit_in_def input_bit div_8_less drop_bit_eq_div)

lemma coded_length_mono: "i \<le> n \<Longrightarrow> length (coded cc b t i) \<le> length (coded cc b t n)"
  by (rule lift_Suc_mono_le) simp

lemma coded_prefix: "i \<le> n \<Longrightarrow> take (length (coded cc b t i)) (coded cc b t n) = coded cc b t i"
proof (induction n)
  case (Suc n)
  then show ?case using coded_length_mono [of i n cc b t] by (cases "i = Suc n") auto
qed simp

lemma coded_nth:
  assumes "i < n" "q < length (emitted cc i (b i) (path b t i))"
  shows "coded cc b t n ! (length (coded cc b t i) + q) = emitted cc i (b i) (path b t i) ! q"
proof -
  have "coded cc b t n ! (length (coded cc b t i) + q)
    = take (length (coded cc b t (Suc i))) (coded cc b t n) ! (length (coded cc b t i) + q)"
    using assms by (intro nth_take [symmetric]) simp
  also have "\<dots> = emitted cc i (b i) (path b t i) ! q"
    using coded_prefix [of "Suc i" n cc b t] assms by (simp add: nth_append)
  finally show ?thesis .
qed

definition sent :: "bool \<Rightarrow> int \<Rightarrow> int" where "sent tk v = (if tk then v else -1)"

lemma trellis_step:
  assumes "std_tables cc" "t < 64" "i < n" "n \<le> cols" "length (coded cc b t n) \<le> 8 * length inp"
    and str: "\<forall>p<length (coded cc b t n). bitat inp p = coded cc b t n ! p"
    and lt: "length (coded cc b t i) < length (coded cc b t n)"
  shows "trellis cc inp (length (coded cc b t n)) cols i (length (coded cc b t i)) g
    = trellis cc inp (length (coded cc b t n)) cols (i + 1) (length (coded cc b t (Suc i)))
        (fold (branch cc i (sent (taken (PX cc) (phase cc i)) (xo (b i) (path b t i)))
                           (sent (taken (PY cc) (phase cc i)) (yo (b i) (path b t i)))) (branches 64) g)"
proof -
  let ?s = "path b t i" and ?c = "length (coded cc b t i)" and ?L = "length (coded cc b t n)"
  let ?e = "emitted cc i (b i) ?s" and ?X = "taken (PX cc) (phase cc i)" and ?Y = "taken (PY cc) (phase cc i)"
  have s: "?s < 64" by (rule path_less [OF assms(2)])
  have le: "?c + length ?e \<le> ?L" using coded_length_mono [of "Suc i" n cc b t] assms(3) by simp
  have bit: "bitat inp (?c + q) = ?e ! q" "?c + q < 8 * length inp" if "q < length ?e" for q
    using str coded_nth [OF assms(3) that] le that assms(5) by simp_all
  have x: "take_bit_in inp ?X ?c = Inr (sent ?X (xo (b i) ?s), ?c + of_bool ?X)"
  proof (cases ?X)
    case True
    then have "bitat inp ?c = (xo (b i) ?s = 1)" "?c < 8 * length inp" using bit [of 0] by (simp_all add: emitted_def)
    then show ?thesis using True of_bool_01 [OF std_outputs(1) [OF s, of "b i"]]
      by (simp add: take_bit_in sent_def del: of_bool_eq_1_iff)
  qed (simp add: take_bit_in sent_def)
  have y: "take_bit_in inp ?Y (?c + of_bool ?X) = Inr (sent ?Y (yo (b i) ?s), ?c + length ?e)"
  proof (cases ?Y)
    case True
    then have "bitat inp (?c + of_bool ?X) = (yo (b i) ?s = 1)" "?c + of_bool ?X < 8 * length inp"
      using bit [of "of_bool ?X"] by (auto simp: emitted_def)
    then show ?thesis using True of_bool_01 [OF std_outputs(2) [OF s, of "b i"]]
      by (simp add: take_bit_in sent_def emitted_def del: of_bool_eq_1_iff)
  qed (simp add: take_bit_in sent_def emitted_def)
  have "2 ^ (GLen cc - 1) = (64 :: nat)" using assms(1) by (simp add: std_tables_def)
  moreover have "PLen cc - i mod PLen cc - 1 = phase cc i" by (simp add: phase_def)
  moreover have "\<not> i \<ge> cols" using assms(3,4) by simp
  moreover have "?c + length ?e = length (coded cc b t (Suc i))" by simp
  ultimately show ?thesis using lt unfolding trellis.simps [of cc inp ?L cols i ?c g]
    by (simp only: if_True if_False Let_def x y sum_bind.simps prod.case)
qed

lemma trellis_run:
  assumes cc: "std_tables cc" "covers cc" "t < 64" and n: "n \<le> cols" "length (coded cc b t n) \<le> 8 * length inp"
    and str: "\<forall>p<length (coded cc b t n). bitat inp p = coded cc b t n ! p"
  shows "i \<le> n \<Longrightarrow> lead (fst g) i (path b t i) M \<Longrightarrow> M \<ge> 0 \<Longrightarrow> \<forall>s<64. \<forall>c>i. fst g s c = -1 \<Longrightarrow>
    \<exists>g'. trellis cc inp (length (coded cc b t n)) cols i (length (coded cc b t i)) g = Inr g'
      \<and> (\<forall>l. i \<le> l \<and> l \<le> n \<longrightarrow> lead (fst g') l (path b t l) (M + int (length (coded cc b t l)) - int (length (coded cc b t i))))
      \<and> (\<forall>l. i < l \<and> l \<le> n \<longrightarrow> snd g' (path b t l) l = int (path b t (l - 1)))
      \<and> (\<forall>s c. c \<le> i \<longrightarrow> fst g' s c = fst g s c \<and> snd g' s c = snd g s c)"
proof (induction "n - i" arbitrary: i g M)
  case 0
  then have "i = n" by simp
  then show ?case using 0 by (subst trellis.simps) auto
next
  case (Suc d)
  let ?len = "\<lambda>i. length (coded cc b t i)" and ?s = "path b t i"
  let ?e = "emitted cc i (b i) ?s"
  define x where "x = sent (taken (PX cc) (phase cc i)) (xo (b i) ?s)"
  define y where "y = sent (taken (PY cc) (phase cc i)) (yo (b i) ?s)"
  define h where "h = fold (branch cc i x y) (branches 64) g"
  have i: "i < n" using Suc.hyps(2) by simp
  have s: "?s < 64" by (rule path_less [OF cc(3)])
  have "taken (PX cc) (phase cc i) \<or> taken (PY cc) (phase cc i)" using cc(2) by (simp add: covers_def)
  then have e: "0 < length ?e" by (auto simp: emitted_def)
  have "?len (Suc i) \<le> ?len n" using i by (intro coded_length_mono) simp
  moreover have "?len (Suc i) = ?len i + length ?e" by simp
  ultimately have lt: "?len i < ?len n" using e by linarith
  have st: "trellis cc inp (?len n) cols i (?len i) g = trellis cc inp (?len n) cols (i + 1) (?len (Suc i)) h"
    unfolding h_def x_def y_def by (rule trellis_step [OF cc(1,3) i n str lt])
  have "xo (b i) ?s \<noteq> -1" "yo (b i) ?s \<noteq> -1" using std_outputs(1,2) [OF s, of "b i"] by auto
  then have N: "M + int (length ?e) = M + of_bool (x \<noteq> -1) + of_bool (y \<noteq> -1)"
    "x \<in> {-1, xo (b i) ?s}" "y \<in> {-1, yo (b i) ?s}"
    by (auto simp: x_def y_def sent_def emitted_def)
  have "column g i ?s (M + int (length ?e)) (nx (b i) ?s) True h" unfolding h_def
    by (rule next_column [OF cc(1) s Suc.prems(2,3) N(2,3,1)]) (use e Suc.prems(4) in auto)
  then have c: "\<forall>s c. c \<noteq> i + 1 \<longrightarrow> fst h s c = fst g s c \<and> snd h s c = snd g s c"
    "lead (fst h) (Suc i) (path b t (Suc i)) (M + int (length ?e))" "snd h (path b t (Suc i)) (Suc i) = int ?s"
    by (simp_all add: column_def lead_def)
  have c4: "\<forall>s<64. \<forall>c>Suc i. fst h s c = -1" using c(1) Suc.prems(4) by simp
  have d: "d = n - Suc i" and M: "0 \<le> M + int (length ?e)" using Suc.hyps(2) Suc.prems(3) by simp_all
  from Suc.hyps(1) [OF d Suc_leI [OF i] c(2) M c4] obtain g' where
    g': "trellis cc inp (?len n) cols (Suc i) (?len (Suc i)) h = Inr g'"
    "\<forall>l. Suc i \<le> l \<and> l \<le> n \<longrightarrow> lead (fst g') l (path b t l) (M + int (length ?e) + int (?len l) - int (?len (Suc i)))"
    "\<forall>l. Suc i < l \<and> l \<le> n \<longrightarrow> snd g' (path b t l) l = int (path b t (l - 1))"
    "\<forall>s c. c \<le> Suc i \<longrightarrow> fst g' s c = fst h s c \<and> snd g' s c = snd h s c"
    by blast
  have ri: "fst g' s c = fst g s c \<and> snd g' s c = snd g s c" if "c \<le> i" for s c
    using g'(4) c(1) that by simp
  have "lead (fst g') l (path b t l) (M + int (?len l) - int (?len i))" if "i \<le> l" "l \<le> n" for l
  proof (cases "l = i")
    case True
    then show ?thesis using Suc.prems(2) ri [of i] by (simp add: lead_def)
  next
    case False
    then have "M + int (length ?e) + int (?len l) - int (?len (Suc i)) = M + int (?len l) - int (?len i)" by simp
    then show ?thesis using g'(2) False that by (metis le_neq_implies_less Suc_leI)
  qed
  moreover have "snd g' (path b t l) l = int (path b t (l - 1))" if "i < l" "l \<le> n" for l
    using g'(3,4) c(3) that by (cases "l = Suc i") auto
  ultimately show ?case using g'(1) st ri by auto
qed

subsection \<open>The end of the path\<close>

lemma best_state_lead:
  assumes "lead metric col t M" "M \<ge> 0" "t < 64"
  shows "best_state metric 64 col = Some t"
proof -
  let ?f = "\<lambda>i (mx, st). if metric i col \<ge> mx then (metric i col, Some i) else (mx, st)"
  have l: "metric t col = M" "\<And>s. s < 64 \<Longrightarrow> s \<noteq> t \<Longrightarrow> metric s col < M" using assms(1) by (auto simp: lead_def)
  have "n \<le> 64 \<Longrightarrow> (if t < n then fold ?f [0..<n] (0, None) = (M, Some t) else fst (fold ?f [0..<n] (0, None)) \<le> M)" for n
  proof (induction n)
    case (Suc n)
    obtain mx st where p: "fold ?f [0..<n] (0, None) = (mx, st)" by (cases "fold ?f [0..<n] (0, None)")
    consider "t < n" | "t = n" | "n < t" by linarith
    then show ?case
    proof cases
      case 1
      then show ?thesis using Suc l(2) [of n] by auto
    next
      case 2
      then show ?thesis using Suc l(1) p by auto
    next
      case 3
      then show ?thesis using Suc l(2) [of n] p by auto
    qed
  qed (use assms(2) in simp)
  from this [of 64] show ?thesis using assms(3) by (simp add: best_state_def)
qed

subsection \<open>Going back\<close>

lemma put_decoded:
  assumes "s < 64"
  shows "bit (put_decoded 64 s (nx b s) w) k \<longleftrightarrow> (if k = 7 then b else k < 7 \<and> bit w (k + 1))"
proof -
  have m: "bit (0x7F :: u8) k \<longleftrightarrow> k < 7" "bit (0x80 :: u8) k \<longleftrightarrow> k = 7" for k
    using bit_mask_iff [of 7 k, where 'a = u8] bit_exp_iff [of 7 k, where 'a = u8] by (auto simp: mask_eq_exp_minus_1)
  have d: "bit (drop_bit 1 w) k \<longleftrightarrow> k < 7 \<and> bit w (k + 1)" for k
    using bit_imp_le_length [of w "k + 1"] by (auto simp: bit_drop_bit_eq)
  have "put_decoded 64 s (nx b s) w = (if b then drop_bit 1 w OR 0x80 else drop_bit 1 w AND 0x7F)"
  proof (cases b)
    case True
    have "nx True s = 32 + s div 2" by (simp add: nx_def)
    then show ?thesis using True assms by (auto simp: put_decoded_def Let_def)
  next
    case False
    have "nx False s = s div 2" by (simp add: nx_def)
    then show ?thesis using False assms by (auto simp: put_decoded_def Let_def)
  qed
  then show ?thesis by (cases b) (simp_all only: if_True if_False bit_or_iff bit_and_iff m d, auto)
qed

text \<open>The bits from \<open>i\<close> up to \<open>n\<close> are in the buffer; a byte that is not complete is shifted to the left end.\<close>

definition decoded :: "nat \<Rightarrow> nat \<Rightarrow> u8 list \<Rightarrow> (nat \<Rightarrow> bool) \<Rightarrow> bool" where
  "decoded i n out b \<longleftrightarrow> (\<forall>p. i \<le> p \<and> p < n \<longrightarrow> bit (out ! (p div 8)) (7 - (p - max i (8 * (p div 8)))) = b p)"

lemma decoded_step:
  assumes "decoded (Suc i) n out b" "i div 8 < length out"
    and w: "\<And>k. bit w k \<longleftrightarrow> (if k = 7 then b i else k < 7 \<and> bit (out ! (i div 8)) (k + 1))"
  shows "decoded i n (out[i div 8 := w]) b"
  unfolding decoded_def
proof (intro allI impI)
  fix p assume p: "i \<le> p \<and> p < n"
  have e: "8 * (i div 8) \<le> i" by (rule times_div_less_eq_dividend)
  have o: "p = i \<or> bit (out ! (p div 8)) (7 - (p - max (Suc i) (8 * (p div 8)))) = b p"
    using assms(1) p by (auto simp: decoded_def)
  show "bit (out[i div 8 := w] ! (p div 8)) (7 - (p - max i (8 * (p div 8)))) = b p"
  proof (cases "p div 8 = i div 8")
    case True
    then have "p < 8 * (i div 8) + 8" "max i (8 * (p div 8)) = i" using less_8 [of p] e by simp_all
    moreover have "p < i + 8" using calculation(1) e by linarith
    moreover have "p \<noteq> i \<Longrightarrow> max (Suc i) (8 * (p div 8)) = Suc i" using True e by simp
    moreover have "p \<noteq> i \<Longrightarrow> 7 - (p - i) < 7 \<and> 7 - (p - i) + 1 = 7 - (p - Suc i)"
      using p calculation(3) by linarith
    moreover have "out[i div 8 := w] ! (p div 8) = w" using True assms(2) by simp
    ultimately show ?thesis
      using o True w [of "7 - (p - i)"] p by (cases "p = i") simp_all
  next
    case False
    then have "i div 8 < p div 8" using div_le_mono [of i p 8] p by simp
    then have "i < 8 * (p div 8)" using less_8 [of i] by linarith
    then have "max i (8 * (p div 8)) = 8 * (p div 8)" "max (Suc i) (8 * (p div 8)) = 8 * (p div 8)" "p \<noteq> i"
      using times_div_less_eq_dividend [of 8 p] False by auto
    then show ?thesis using o False by simp
  qed
qed

lemma backtrack_run:
  assumes "t < 64" and fr: "\<And>l. 0 < l \<Longrightarrow> l \<le> n \<Longrightarrow> fr (path b t l) l = int (path b t (l - 1))"
  shows "n \<le> 8 * length out \<Longrightarrow>
    \<exists>out'. sum_fold (backtrack_bit 64 fr) (rev [Suc i..<Suc n]) (path b t n, out) = Inr (path b t (min i n), out')
      \<and> decoded i n out' b \<and> length out' = length out"
proof (induction "n - i" arbitrary: i)
  case 0
  then show ?case by (auto simp: decoded_def)
next
  case (Suc d)
  have i: "i < n" and d: "d = n - Suc i" using Suc.hyps(2) by simp_all
  obtain o1 where o1: "sum_fold (backtrack_bit 64 fr) (rev [Suc (Suc i)..<Suc n]) (path b t n, out) = Inr (path b t (Suc i), o1)"
    "decoded (Suc i) n o1 b" "length o1 = length out"
    using Suc.hyps(1) [of "Suc i"] d Suc.prems i by (auto simp: min_absorb1 simp del: path.simps upt_Suc)
  have s: "path b t i < 64" by (rule path_less [OF assms(1)])
  have l: "i div 8 < length o1" using Suc.prems i o1(3) by (intro div_8_less) simp
  have "[Suc i..<Suc n] = Suc i # [Suc (Suc i)..<Suc n]" using i by (simp add: upt_conv_Cons)
  then have "sum_fold (backtrack_bit 64 fr) (rev [Suc i..<Suc n]) (path b t n, out)
    = backtrack_bit 64 fr (Suc i) (path b t (Suc i), o1)"
    using o1(1) by (cases "backtrack_bit 64 fr (Suc i) (path b t (Suc i), o1)") (simp_all add: sum_fold_append del: path.simps upt_Suc)
  also have "\<dots> = Inr (path b t i, o1[i div 8 := put_decoded 64 (path b t i) (path b t (Suc i)) (o1 ! (i div 8))])"
    using fr [of "Suc i"] i s l by (simp add: backtrack_bit_def step_back_def)
  finally have r: "sum_fold (backtrack_bit 64 fr) (rev [Suc i..<Suc n]) (path b t n, out)
    = Inr (path b t i, o1[i div 8 := put_decoded 64 (path b t i) (path b t (Suc i)) (o1 ! (i div 8))])" .
  have "decoded i n (o1[i div 8 := put_decoded 64 (path b t i) (path b t (Suc i)) (o1 ! (i div 8))]) b"
    by (rule decoded_step [OF o1(2) l]) (simp only: path.simps put_decoded [OF s])
  then show ?case using r o1(3) i by (simp add: min_absorb1 del: path.simps upt_Suc)
qed

lemma decoded_bitat: "decoded 0 n out b \<Longrightarrow> p < n \<Longrightarrow> bitat out p = b p"
proof -
  assume "decoded 0 n out b" "p < n"
  then have "bit (out ! (p div 8)) (7 - (p - 8 * (p div 8))) = b p" by (simp add: decoded_def)
  then show ?thesis by (simp add: bitat_def minus_mult_div_eq_mod)
qed

lemma skip_run:
  assumes "t < 64" and fr: "\<And>l. 0 < l \<Longrightarrow> l \<le> n \<Longrightarrow> fr (path b t l) l = int (path b t (l - 1))"
  shows "sum_fold (step_back 64 fr) (rev [Suc i..<Suc n]) (path b t n) = Inr (path b t (min i n))"
proof (induction "n - i" arbitrary: i)
  case (Suc d)
  have i: "i < n" using Suc.hyps(2) by simp
  have "[Suc i..<Suc n] = Suc i # [Suc (Suc i)..<Suc n]" using i by (simp add: upt_conv_Cons)
  then have "sum_fold (step_back 64 fr) (rev [Suc i..<Suc n]) (path b t n) = step_back 64 fr (Suc i) (path b t (Suc i))"
    using Suc.hyps(1) [of "Suc i"] Suc.hyps(2) i
    by (cases "step_back 64 fr (Suc i) (path b t (Suc i))") (simp_all add: sum_fold_append min_absorb1 del: path.simps upt_Suc)
  then show ?case using fr [of "Suc i"] i path_less [OF assms(1), of b i]
    by (simp add: step_back_def min_absorb1 del: path.simps upt_Suc)
qed simp

subsection \<open>Whole calls\<close>

definition rate :: "ConvoCode \<Rightarrow> nat" where "rate cc = nat (BITCOUNT (PX cc) + BITCOUNT (PY cc))"

text \<open>The decoder has followed the encoder up to the state \<open>t\<close>.\<close>

definition follows :: "ConvoCode \<Rightarrow> nat \<Rightarrow> bool" where
  "follows cc t \<longleftrightarrow> t < 64 \<and> 0 \<le> decoderState cc ! t \<and> (\<forall>s<64. s \<noteq> t \<longrightarrow> decoderState cc ! s < decoderState cc ! t)"

lemma cc_decode_spec:
  assumes cc: "std_tables cc" "covers cc" "follows cc t"
    and n: "L = length (coded cc b t n)" "L * PLen cc div rate cc = n" "L \<le> 8 * length inp" "inputLen \<le> L"
    and m: "inputLen = length (coded cc b t m)" "inputLen * PLen cc div rate cc = m" "m \<le> n"
    and str: "\<forall>p<L. bitat inp p = coded cc b t n ! p"
    and out: "min n (2 * m) \<le> 8 * length out"
  shows "\<exists>out' ds. cc_decode inp out inputLen (L - inputLen) cc = Inr (m, out', cc\<lparr>decoderState := ds\<rparr>)
    \<and> length out' = length out \<and> (\<forall>p<min n (2 * m). bitat out' p = b p) \<and> follows (cc\<lparr>decoderState := ds\<rparr>) (path b t m)"
proof -
  define g0 :: "grid \<times> grid" where "g0 = (\<lambda>s c. if c = 0 \<and> s < 64 then decoderState cc ! s else -1, \<lambda>_ _. -1)"
  define w where "w = min n (2 * m)"
  have t: "t < 64" "0 \<le> decoderState cc ! t" "\<And>s. s < 64 \<Longrightarrow> s \<noteq> t \<Longrightarrow> decoderState cc ! s < decoderState cc ! t"
    using cc(3) by (auto simp: follows_def)
  have sz: "2 ^ (GLen cc - 1) = (64 :: nat)" using cc(1) by (simp add: std_tables_def)
  have l0: "lead (fst g0) 0 (path b t 0) (decoderState cc ! t)" using t by (simp add: lead_def g0_def)
  have "\<forall>s<64. \<forall>c>0. fst g0 s c = -1" by (simp add: g0_def)
  from trellis_run [OF cc(1,2) t(1) order_refl n(3)[unfolded n(1)] str[unfolded n(1)] le0 l0 t(2) this]
  obtain g where g: "trellis cc inp L n 0 0 g0 = Inr g"
    "\<And>l. l \<le> n \<Longrightarrow> lead (fst g) l (path b t l) (decoderState cc ! t + int (length (coded cc b t l)))"
    "\<And>l. 0 < l \<Longrightarrow> l \<le> n \<Longrightarrow> snd g (path b t l) l = int (path b t (l - 1))"
    "\<And>s. fst g s 0 = fst g0 s 0"
    by (auto simp: n(1))
  define ds where "ds = map (\<lambda>i. fst g i m - fst g 0 0) [0..<64]"
  have best: "best_state (fst g) 64 n = Some (path b t n)"
    using best_state_lead [OF g(2) [OF order_refl]] t(2) path_less [OF t(1)] by simp
  have skip: "sum_fold (step_back 64 (snd g)) (rev [Suc (2 * m)..<Suc n]) (path b t n) = Inr (path b t w)"
    using skip_run [OF t(1), of n "snd g" b "2 * m"] g(3) by (simp only: w_def min.commute)
  have "w \<le> n" by (simp add: w_def)
  then obtain out' where bk: "sum_fold (backtrack_bit 64 (snd g)) (rev [Suc 0..<Suc w]) (path b t w, out) = Inr (t, out')"
    "decoded 0 w out' b" "length out' = length out"
    using backtrack_run [OF t(1), of w "snd g" b out 0] g(3) out by (auto simp: w_def)
  have L: "inputLen + (L - inputLen) = L" using n(4) by simp
  have gg: "(fst g, snd g) = g" by simp
  have "cc_decode inp out inputLen (L - inputLen) cc = Inr (m, out', cc\<lparr>decoderState := ds\<rparr>)"
    unfolding cc_decode_def Let_def sz L rate_def [symmetric] n(2) m(2)
    unfolding nonzero_mult_div_cancel_right [OF zero_neq_numeral [symmetric]] g0_def [symmetric] g(1) sum_bind.simps
    by (subst gg [symmetric], unfold prod.case best option.case)
       (use skip bk(1) in \<open>simp add: w_def mult.commute ds_def del: upt_Suc\<close>)
  moreover have "follows (cc\<lparr>decoderState := ds\<rparr>) (path b t m)"
  proof -
    have "lead (fst g) m (path b t m) (decoderState cc ! t + int inputLen)" using g(2) [OF m(3)] m(1) by simp
    moreover have "fst g 0 0 \<le> decoderState cc ! t" using g(4) t(3) [of 0] by (cases "t = 0") (auto simp: g0_def)
    ultimately show ?thesis using path_less [OF t(1), of b m] by (auto simp: follows_def lead_def ds_def)
  qed
  ultimately show ?thesis using bk(2,3) decoded_bitat [of w out' b] by (auto simp: w_def)
qed

subsection \<open>Puncturing\<close>

text \<open>The number of bits sent in the \<open>q\<close>th step of a period of the puncturing.\<close>

definition weight :: "ConvoCode \<Rightarrow> nat \<Rightarrow> nat" where
  "weight cc q = of_bool (taken (PX cc) (PLen cc - q - 1)) + of_bool (taken (PY cc) (PLen cc - q - 1))"

definition good_code :: "ConvoCode \<Rightarrow> bool" where
  "good_code cc \<longleftrightarrow> std_tables cc \<and> 0 < PLen cc \<and> (\<forall>q<PLen cc. 0 < weight cc q) \<and> (\<Sum>q<PLen cc. weight cc q) = rate cc"

lemma length_emitted: "length (emitted cc i b s) = weight cc (i mod PLen cc)"
  by (simp add: emitted_def weight_def phase_def)

lemma good_covers: "good_code cc \<Longrightarrow> covers cc"
proof -
  assume g: "good_code cc"
  then have "0 < weight cc (i mod PLen cc)" for i by (simp add: good_code_def)
  then show ?thesis by (auto simp: covers_def weight_def phase_def)
qed

lemma length_coded_period:
  assumes "good_code cc"
  shows "length (coded cc b t (k * PLen cc)) = k * rate cc"
proof (induction k)
  case (Suc k)
  have "q \<le> PLen cc \<Longrightarrow> length (coded cc b t (k * PLen cc + q)) = k * rate cc + (\<Sum>j<q. weight cc j)" for q
    by (induction q) (simp_all add: Suc.IH length_emitted)
  from this [of "PLen cc"] assms show ?case by (simp add: good_code_def add.commute)
qed simp

lemma rate_pos: "good_code cc \<Longrightarrow> 0 < rate cc"
proof -
  assume g: "good_code cc"
  then have "weight cc 0 \<le> (\<Sum>q<PLen cc. weight cc q)" by (intro member_le_sum) (auto simp: good_code_def)
  then show ?thesis using g unfolding good_code_def by (metis less_le_trans)
qed

lemma emitted_shift: "n mod PLen cc = 0 \<Longrightarrow> emitted cc (n + i) b s = emitted cc i b s"
  by (simp add: emitted_def phase_def mod_add_eq flip: mod_add_left_eq [of n])

lemma path_add: "path b t (n + i) = path (\<lambda>j. b (n + j)) (path b t n) i"
  by (induction i) simp_all

lemma coded_add:
  "n mod PLen cc = 0 \<Longrightarrow> coded cc b t (n + i) = coded cc b t n @ coded cc (\<lambda>j. b (n + j)) (path b t n) i"
  by (induction i) (simp_all add: emitted_shift path_add)

lemma path_cong: "(\<And>j. j < n \<Longrightarrow> b j = c j) \<Longrightarrow> path b t n = path c t n"
  by (induction n) simp_all

lemma coded_cong: "(\<And>j. j < n \<Longrightarrow> b j = c j) \<Longrightarrow> coded cc b t n = coded cc c t n"
proof (induction n)
  case (Suc n)
  then show ?case using path_cong [of n b c t] by simp
qed simp

lemma good_code_state [simp]:
  "good_code (cc\<lparr>encoderState := s\<rparr>) = good_code cc" "good_code (cc\<lparr>decoderState := d\<rparr>) = good_code cc"
  by (simp_all add: good_code_def std_tables_def weight_def rate_def)

text \<open>Decoding a block with the beginning of the next one behind it.\<close>

lemma cc_decode_block:
  assumes cc: "good_code cc" "follows cc t"
    and str: "\<forall>p<(k + l) * rate cc. bitat inp p = coded cc b t ((k + l) * PLen cc) ! p"
    and len: "(k + l) * rate cc \<le> 8 * length inp" "min (k + l) (2 * k) * PLen cc \<le> 8 * length out"
  shows "\<exists>out' ds. cc_decode inp out (k * rate cc) (l * rate cc) cc = Inr (k * PLen cc, out', cc\<lparr>decoderState := ds\<rparr>)
    \<and> length out' = length out \<and> (\<forall>p<min (k + l) (2 * k) * PLen cc. bitat out' p = b p)
    \<and> follows (cc\<lparr>decoderState := ds\<rparr>) (path b t (k * PLen cc))"
proof -
  have std: "std_tables cc" using cc(1) by (simp add: good_code_def)
  have d: "j * rate cc * PLen cc div rate cc = j * PLen cc" for j
    using rate_pos [OF cc(1)] by simp
  have "(k + l) * rate cc - k * rate cc = l * rate cc" by (simp add: add_mult_distrib)
  moreover have "min ((k + l) * PLen cc) (2 * (k * PLen cc)) = min (k + l) (2 * k) * PLen cc"
    by (simp only: nat_mult_min_left mult.assoc)
  ultimately show ?thesis
    using cc_decode_spec [OF std good_covers [OF cc(1)] cc(2) length_coded_period [OF cc(1), symmetric] d len(1) _
        length_coded_period [OF cc(1), symmetric] d _ str, of k out] len(2) by simp
qed

lemma cc_encode_block:
  assumes cc: "good_code cc" "encoderState cc < 64"
    and len: "k * PLen cc \<le> 8 * length inp" "k * rate cc \<le> 8 * length out" "8 dvd k * rate cc"
  shows "\<exists>out'. cc_encode inp out (k * PLen cc) cc
      = Inr (k * rate cc, out', cc\<lparr>encoderState := path (bitat inp) (encoderState cc) (k * PLen cc)\<rparr>)
    \<and> length out' = length out
    \<and> (\<forall>p<k * rate cc. bitat out' p = coded cc (bitat inp) (encoderState cc) (k * PLen cc) ! p)"
proof -
  have "std_tables cc" using cc(1) by (simp add: good_code_def)
  from cc_encode_spec [OF this cc(2) len(1), of out] written_bitat [OF _ len(3)] len(2) show ?thesis
    unfolding length_coded_period [OF cc(1)] by blast
qed

text \<open>The four codes of \<open>channel_coding.cc\<close>.\<close>

lemma CC_tables: "std_tables (CC px py plen)"
proof -
  let ?c = "\<lambda>px py plen. (ConvoCode_new 0x79 0x5B 7 px py plen)\<lparr>encoderLookupTable := genEncoderLookupTable (ConvoCode_new 0x79 0x5B 7 px py plen)\<rparr>"
  note new = ConvoCode_new_def resetDecoderState_def resetEncoderState_def
  have e: "genEncoderLookupTable (ConvoCode_new 0x79 0x5B 7 px py plen) = genEncoderLookupTable (ConvoCode_new 0x79 0x5B 7 0 0 0)"
    by (simp add: genEncoderLookupTable_def new)
  then have "dec_entry (?c px py plen) = dec_entry (?c 0 0 0)"
    by (intro ext) (simp add: dec_entry_def, simp add: new)
  then have "genDecoderLookupTable (?c px py plen) = genDecoderLookupTable (?c 0 0 0)"
    unfolding genDecoderLookupTable_def by (simp only:) (simp add: new)
  moreover have "GLen (CC px py plen) = 7" by (simp add: CC_def Let_def new)
  ultimately show ?thesis using e by (simp add: std_tables_def std_def CC_def Let_def)
qed

lemma CC_fields [simp]:
  "PX (CC px py plen) = px" "PY (CC px py plen) = py" "PLen (CC px py plen) = plen" "encoderState (CC px py plen) = 0"
  "decoderState (CC px py plen) = 0 # replicate 63 (-1)" "encoderState (resetEncoderState cc) = 0"
  by (simp_all add: CC_def Let_def ConvoCode_new_def resetDecoderState_def resetEncoderState_def)

lemma bitcounts: "BITCOUNT 1 = 1" "BITCOUNT 2 = 1" "BITCOUNT 3 = 2" "BITCOUNT 5 = 2" "BITCOUNT 6 = 2"
  "BITCOUNT 21 = 3" "BITCOUNT 26 = 3"
  by code_simp+

lemma rates: "rate (CC 1 1 1) = 2" "rate (CC 2 3 2) = 3" "rate (CC 5 6 3) = 4" "rate (CC 21 26 5) = 6"
  by (simp_all add: rate_def bitcounts)

lemma good_codes: "good_code (CC 1 1 1)" "good_code (CC 2 3 2)" "good_code (CC 5 6 3)" "good_code (CC 21 26 5)"
proof -
  have s: "{..<1} = {0::nat}" "{..<2} = {0, 1::nat}" "{..<3} = {0, 1, 2::nat}" "{..<5} = {0, 1, 2, 3, 4::nat}" by auto
  have a: "(\<forall>q<n. P q) = (\<forall>q\<in>{..<n}. P q)" for P and n :: nat by auto
  show "good_code (CC 1 1 1)" "good_code (CC 2 3 2)" "good_code (CC 5 6 3)" "good_code (CC 21 26 5)"
    unfolding good_code_def a CC_fields s by (simp_all add: CC_tables rates rates(1) [unfolded One_nat_def] weight_def taken_def)
qed

lemma follows_reset: "GLen cc = 7 \<Longrightarrow> follows (resetDecoderState cc) 0"
  by (auto simp: follows_def resetDecoderState_def nth_Cons')

lemma follows_CC: "follows (CC px py plen) 0"
  by (auto simp: follows_def nth_Cons')

text \<open>
  C5: the decoder of the convolutional code inverts the encoder: a code whose decoder has followed its
  encoder gives the bits back that were encoded, and it still follows afterwards.
\<close>

theorem cc_decode_encode:
  assumes "good_code cc" "follows cc (encoderState cc)"
    and "k * PLen cc \<le> 8 * length inp" "k * rate cc \<le> 8 * length out" "8 dvd k * rate cc" "k * PLen cc \<le> 8 * length res"
  shows "\<exists>out' cc' res' cc''. cc_encode inp out (k * PLen cc) cc = Inr (k * rate cc, out', cc')
    \<and> cc_decode out' res (k * rate cc) 0 cc' = Inr (k * PLen cc, res', cc'')
    \<and> (\<forall>p<k * PLen cc. bitat res' p = bitat inp p) \<and> follows cc'' (encoderState cc'')"
proof -
  let ?t = "encoderState cc" and ?b = "bitat inp"
  define cc' where "cc' = cc\<lparr>encoderState := path ?b ?t (k * PLen cc)\<rparr>"
  have t: "?t < 64" using assms(2) by (simp add: follows_def)
  obtain out' where e: "cc_encode inp out (k * PLen cc) cc = Inr (k * rate cc, out', cc')" "length out' = length out"
    "\<forall>p<k * rate cc. bitat out' p = coded cc ?b ?t (k * PLen cc) ! p"
    using cc_encode_block [OF assms(1) t assms(3,4,5)] unfolding cc'_def by blast
  have c: "good_code cc'" "follows cc' ?t" "PLen cc' = PLen cc" "rate cc' = rate cc"
    using assms(1,2) by (simp_all add: cc'_def follows_def rate_def)
  have "coded cc' b t n = coded cc b t n" for b t n
    by (induction n) (simp_all add: emitted_def phase_def cc'_def)
  then have "\<exists>res' ds. cc_decode out' res (k * rate cc') (0 * rate cc') cc' = Inr (k * PLen cc', res', cc'\<lparr>decoderState := ds\<rparr>)
    \<and> length res' = length res \<and> (\<forall>p<min (k + 0) (2 * k) * PLen cc'. bitat res' p = ?b p)
    \<and> follows (cc'\<lparr>decoderState := ds\<rparr>) (path ?b ?t (k * PLen cc'))"
    by (intro cc_decode_block [OF c(1,2)]) (use e assms(4,6) in \<open>simp_all add: c(3,4)\<close>)
  then obtain res' ds where r: "cc_decode out' res (k * rate cc) 0 cc' = Inr (k * PLen cc, res', cc'\<lparr>decoderState := ds\<rparr>)"
    "\<forall>p<k * PLen cc. bitat res' p = bitat inp p" "follows (cc'\<lparr>decoderState := ds\<rparr>) (path ?b ?t (k * PLen cc))"
    by (auto simp: c(3,4))
  moreover have "encoderState (cc'\<lparr>decoderState := ds\<rparr>) = path ?b ?t (k * PLen cc)" by (simp add: cc'_def)
  ultimately show ?thesis using e(1) by metis
qed

text \<open>Two bytes through the code of rate 5/6, and what comes back.\<close>

theorem cc_decode_encode_witness:
  "\<exists>out' cc' res' cc''. cc_encode (replicate 5 0x35) (replicate 6 0) 40 (CC 21 26 5) = Inr (48, out', cc')
    \<and> cc_decode out' (replicate 5 0) 48 0 cc' = Inr (40, res', cc'')
    \<and> (\<forall>p<40. bitat res' p = bitat (replicate 5 0x35) p) \<and> follows cc'' (encoderState cc'')"
  using cc_decode_encode [OF good_codes(4), of 8 "replicate 5 0x35" "replicate 6 0" "replicate 5 0"]
  by (simp add: rates follows_CC)

end
