(* ===== verification/ChannelCoding.thy ===== *)
theory ChannelCoding
  imports ReedSolomon Viterbi
begin

text \<open>
  \<open>module/wimax/phy/channel_coding.cc\<close>: padding, randomization, Reed-Solomon code, convolutional code and
  interleaving of a burst, block by block, and the way back.  The buffers \<open>buf1\<close> and \<open>buf2\<close> of \<open>encode\<close> and
  \<open>decode\<close> are not initialized; their contents are arguments.  The two coders with their states are
  reached by name, since modes share them.
\<close>

datatype coder = CC_1_2 | CC_2_3 | CC_3_4 | CC_5_6

datatype rate_id_encodings = BPSK_1_2 | QPSK_1_2 | QPSK_3_4 | QAM16_1_2 | QAM16_3_4 | QAM64_2_3 | QAM64_3_4

record coding_mode =
  uncodedBlockSize :: nat
  codedBlockSize :: nat
  T :: nat
  cm_CC :: "coder option"
  Ncbps :: nat
  Ncpc :: nat

record ChannelCoding =
  isBypassing :: bool
  coding :: "rate_id_encodings \<Rightarrow> coding_mode"
  coders :: "coder \<Rightarrow> ConvoCode"

definition initCoding :: "nat \<Rightarrow> nat \<Rightarrow> nat \<Rightarrow> coder option \<Rightarrow> nat \<Rightarrow> nat \<Rightarrow> rate_id_encodings \<Rightarrow> ChannelCoding \<Rightarrow> ChannelCoding" where
  "initCoding u c t cc cbps cpc codeType ch =
     ch\<lparr>coding := (coding ch)(codeType := \<lparr>uncodedBlockSize = u, codedBlockSize = c, T = t, cm_CC = cc, Ncbps = cbps, Ncpc = cpc\<rparr>)\<rparr>"

fun new_coder :: "coder \<Rightarrow> ConvoCode" where
  "new_coder CC_1_2 = CC 1 1 1"
| "new_coder CC_2_3 = CC 2 3 2"
| "new_coder CC_3_4 = CC 5 6 3"
| "new_coder CC_5_6 = CC 21 26 5"

text \<open>The constructor; when the coding is disabled no coder is made.\<close>

definition ChannelCoding_new :: "bool \<Rightarrow> ChannelCoding \<Rightarrow> ChannelCoding" where
  "ChannelCoding_new isEnabled ch =
     (let ch = ch\<lparr>isBypassing := \<not> isEnabled\<rparr>
      in if isBypassing ch then
           initCoding 108 144 6 None 1152 6 QAM64_3_4
          (initCoding 96 144 6 None 1152 6 QAM64_2_3
          (initCoding 72 96 4 None 768 4 QAM16_3_4
          (initCoding 48 96 8 None 768 4 QAM16_1_2
          (initCoding 36 48 2 None 384 2 QPSK_3_4
          (initCoding 24 48 4 None 384 2 QPSK_1_2
          (initCoding 12 24 0 None 192 1 BPSK_1_2 ch))))))
         else
           (let ch = ch\<lparr>coders := new_coder\<rparr>
            in initCoding 108 144 6 (Some CC_5_6) 1152 6 QAM64_3_4
              (initCoding 96 144 6 (Some CC_3_4) 1152 6 QAM64_2_3
              (initCoding 72 96 4 (Some CC_5_6) 768 4 QAM16_3_4
              (initCoding 48 96 8 (Some CC_2_3) 768 4 QAM16_1_2
              (initCoding 36 48 2 (Some CC_5_6) 384 2 QPSK_3_4
              (initCoding 24 48 4 (Some CC_2_3) 384 2 QPSK_1_2
              (initCoding 12 24 0 (Some CC_1_2) 192 1 BPSK_1_2 ch))))))))"

definition getUncodedBlockSize :: "ChannelCoding \<Rightarrow> rate_id_encodings \<Rightarrow> nat" where
  "getUncodedBlockSize ch codeType = uncodedBlockSize (coding ch codeType)"

definition getCodedBlockSize :: "ChannelCoding \<Rightarrow> rate_id_encodings \<Rightarrow> nat" where
  "getCodedBlockSize ch codeType = codedBlockSize (coding ch codeType)"

definition getUncodedBurstLen :: "ChannelCoding \<Rightarrow> nat \<Rightarrow> rate_id_encodings \<Rightarrow> int" where
  "getUncodedBurstLen ch codedBurstLen codeType =
     (let numBlocks = codedBurstLen div codedBlockSize (coding ch codeType)
      in int (numBlocks * uncodedBlockSize (coding ch codeType)) - 1)"

definition getCodedBurstLen :: "ChannelCoding \<Rightarrow> nat \<Rightarrow> rate_id_encodings \<Rightarrow> nat" where
  "getCodedBurstLen ch uncodedBurstLen codeType =
     (let numBlocks = uncodedBurstLen div uncodedBlockSize (coding ch codeType) + 1
      in numBlocks * codedBlockSize (coding ch codeType))"

subsection \<open>Randomization\<close>

definition memset :: "u8 list \<Rightarrow> u8 \<Rightarrow> nat \<Rightarrow> abort + u8 list" where
  "memset out v n = (if n \<le> length out then Inr (replicate n v @ drop n out) else Inl OutOfBounds)"

definition bit_of_input :: "u8 list \<Rightarrow> nat \<Rightarrow> abort + int" where
  "bit_of_input inp i = (if i div 8 < length inp then Inr (drop_bit 7 (input_bit inp i)) else Inl OutOfBounds)"

definition rand_seed :: int where
  "rand_seed = (let bsid = 1; uiuc = 7; fnum = 1 in 0x0610 OR push_bit 11 bsid OR push_bit 5 uiuc OR fnum)"

definition randomize_bit :: "u8 list \<Rightarrow> nat \<Rightarrow> int \<times> u8 list \<Rightarrow> abort + int \<times> u8 list" where
  "randomize_bit inp i = (\<lambda>(seed, out).
     sum_bind (bit_of_input inp i) (\<lambda>b.
       let tmp = (seed AND 1) XOR drop_bit 1 (seed AND 2);
           seed = drop_bit 1 seed OR push_bit 14 tmp
       in sum_bind (put_bit (b XOR tmp) (i, out)) (\<lambda>(_, out). Inr (seed, out))))"

definition randomize :: "u8 list \<Rightarrow> u8 list \<Rightarrow> nat \<Rightarrow> abort + u8 list" where
  "randomize inp out inputLen =
     sum_bind (memset out 0 (inputLen div 8)) (\<lambda>out.
     sum_bind (sum_fold (randomize_bit inp) [0..<inputLen] (rand_seed, out)) (\<lambda>(_, out). Inr out))"

definition derandomize :: "u8 list \<Rightarrow> u8 list \<Rightarrow> nat \<Rightarrow> abort + u8 list" where
  "derandomize inp out inputLen = randomize inp out inputLen"

subsection \<open>Interleaving\<close>

text \<open>The place that bit \<open>k\<close> goes to, and the place that bit \<open>j\<close> comes from.\<close>

definition interleave_pos :: "coding_mode \<Rightarrow> nat \<Rightarrow> nat" where
  "interleave_pos c k =
     (let s = (Ncpc c + 1) div 2;
          m = (Ncbps c div 12) * (k mod 12) + k div 12
      in s * (m div s) + (m + Ncbps c - 12 * m div Ncbps c) mod s)"

definition deinterleave_pos :: "coding_mode \<Rightarrow> nat \<Rightarrow> nat" where
  "deinterleave_pos c j =
     (let s = (Ncpc c + 1) div 2;
          m = s * (j div s) + (j + 12 * j div Ncbps c) mod s
      in 12 * m - (Ncbps c - 1) * (12 * m div Ncbps c))"

definition move_bit :: "(nat \<Rightarrow> nat) \<Rightarrow> u8 list \<Rightarrow> nat \<Rightarrow> u8 list \<Rightarrow> abort + u8 list" where
  "move_bit pos inp k out =
     sum_bind (bit_of_input inp k) (\<lambda>b. let j = pos k in
       if j div 8 < length out
       then Inr (out[j div 8 := out ! (j div 8) OR word_of_int (push_bit (7 - j mod 8) b)])
       else Inl OutOfBounds)"

definition move_bits :: "(nat \<Rightarrow> nat) \<Rightarrow> nat \<Rightarrow> u8 list \<Rightarrow> u8 list \<Rightarrow> abort + u8 list" where
  "move_bits pos n inp out = sum_bind (memset out 0 (n div 8)) (sum_fold (move_bit pos inp) [0..<n])"

definition interleave :: "ChannelCoding \<Rightarrow> u8 list \<Rightarrow> u8 list \<Rightarrow> rate_id_encodings \<Rightarrow> abort + u8 list" where
  "interleave ch inp out codeType =
     (let c = coding ch codeType in move_bits (interleave_pos c) (Ncbps c) inp out)"

definition deinterleave :: "ChannelCoding \<Rightarrow> u8 list \<Rightarrow> u8 list \<Rightarrow> rate_id_encodings \<Rightarrow> abort + u8 list" where
  "deinterleave ch inp out codeType =
     (let c = coding ch codeType in move_bits (deinterleave_pos c) (Ncbps c) inp out)"

subsection \<open>Bursts\<close>

definition store_byte :: "u8 list \<Rightarrow> nat \<Rightarrow> u8 \<Rightarrow> abort + u8 list" where
  "store_byte buf p v = (if p < length buf then Inr (buf[p := v]) else Inl OutOfBounds)"

definition coder_of :: "ChannelCoding \<Rightarrow> rate_id_encodings \<Rightarrow> abort + coder" where
  "coder_of ch codeType = (case cm_CC (coding ch codeType) of None \<Rightarrow> Inl NullDeref | Some k \<Rightarrow> Inr k)"

definition set_coder :: "ChannelCoding \<Rightarrow> coder \<Rightarrow> ConvoCode \<Rightarrow> ChannelCoding" where
  "set_coder ch k co = ch\<lparr>coders := (coders ch)(k := co)\<rparr>"

lemma set_coder [simp]:
  "coding (set_coder ch k co) = coding ch" "isBypassing (set_coder ch k co) = isBypassing ch"
  "coders (set_coder ch k co) j = (if j = k then co else coders ch j)"
  "set_coder (set_coder ch k co) k co' = set_coder ch k co'"
  by (simp_all add: set_coder_def)

text \<open>The four bytes of an \<open>int\<close>, lowest first.\<close>

definition int_bytes :: "int \<Rightarrow> u8 list" where
  "int_bytes n = map (\<lambda>k. word_of_int (drop_bit (8 * k) n)) [0..<4]"

definition bytes_int :: "u8 list \<Rightarrow> int" where
  "bytes_int bs = signed_take_bit 31 (\<Sum>k<4. push_bit (8 * k) (uint (bs ! k)))"

definition encode_block :: "u8 list \<Rightarrow> rate_id_encodings \<Rightarrow> nat \<Rightarrow> nat
    \<Rightarrow> u8 list \<times> u8 list \<times> u8 list \<times> ChannelCoding \<Rightarrow> abort + u8 list \<times> u8 list \<times> u8 list \<times> ChannelCoding" where
  "encode_block input codeType numBlocks i = (\<lambda>(buf1, buf2, output, ch).
     let c = coding ch codeType; U = uncodedBlockSize c; T2 = T c * 2;
         payloadLen = (if i = numBlocks - 1 then length input - i * U else U);
         paddingLen = (if i = numBlocks - 1 then U - 1 - payloadLen else 0);
         inp = drop (i * U) input;
         inp = (if paddingLen \<noteq> 0 then take payloadLen inp @ replicate paddingLen 0xFF else inp)
     in sum_bind (randomize inp (drop T2 buf2) ((payloadLen + paddingLen) * 8)) (\<lambda>r.
        let buf2 = take T2 buf2 @ r
        in sum_bind (if i = numBlocks - 1 then store_byte buf2 (T2 + U - 1) 0 else Inr buf2) (\<lambda>buf2.
        sum_bind (rs_encode (take U (drop T2 buf2)) T2) (\<lambda>parity.
        let buf2 = parity @ drop (length parity) buf2
        in sum_bind (coder_of ch codeType) (\<lambda>k.
        sum_bind (cc_encode buf2 buf1 ((U + T2) * 8) (coders ch k)) (\<lambda>(_, buf1, co).
        let ch = set_coder ch k co
        in sum_bind (interleave ch buf1 buf2 codeType) (\<lambda>buf2.
           Inr (buf1, buf2, output @ take (codedBlockSize c) buf2, ch))))))))"

text \<open>What \<open>encode\<close> returns, what it writes to \<open>output\<close>, and the object afterwards.\<close>

definition ch_encode :: "u8 list \<Rightarrow> rate_id_encodings \<Rightarrow> u8 list \<Rightarrow> u8 list \<Rightarrow> ChannelCoding \<Rightarrow> abort + nat \<times> u8 list \<times> ChannelCoding" where
  "ch_encode input codeType buf1 buf2 ch =
     (let c = coding ch codeType; numBlocks = length input div uncodedBlockSize c + 1
      in if isBypassing ch then Inr (numBlocks * codedBlockSize c, int_bytes (int (length input)) @ input, ch)
         else sum_bind (sum_fold (encode_block input codeType numBlocks) [0..<numBlocks] (buf1, buf2, [], ch))
                (\<lambda>(_, _, output, ch). Inr (numBlocks * codedBlockSize c, output, ch)))"

definition decode_block :: "u8 list \<Rightarrow> rate_id_encodings \<Rightarrow> nat
    \<Rightarrow> u8 list \<times> u8 list \<times> u8 list \<times> ChannelCoding \<Rightarrow> abort + u8 list \<times> u8 list \<times> u8 list \<times> ChannelCoding" where
  "decode_block input codeType i = (\<lambda>(buf1, buf2, output, ch).
     let c = coding ch codeType; U = uncodedBlockSize c; C = codedBlockSize c; T2 = T c * 2
     in sum_bind (deinterleave ch (drop (i * C) input) buf1 codeType) (\<lambda>buf1.
        sum_bind (deinterleave ch (drop ((i + 1) * C) input) (drop C buf1) codeType) (\<lambda>r.
        let buf1 = take C buf1 @ r
        in sum_bind (coder_of ch codeType) (\<lambda>k.
        sum_bind (cc_decode buf1 buf2 (C * 8) (8 * C div 2) (coders ch k)) (\<lambda>(_, buf2, co).
        let ch = set_coder ch k co
        in sum_bind (rs_decode (take (U + T2) buf2) T2) (\<lambda>data.
        let buf1 = data @ drop (length data) buf1
        in sum_bind (derandomize buf1 buf2 (U * 8)) (\<lambda>buf2.
           Inr (buf1, buf2, output @ take U buf2, ch))))))))"

definition decode_last :: "u8 list \<Rightarrow> rate_id_encodings \<Rightarrow> nat
    \<Rightarrow> u8 list \<times> u8 list \<times> u8 list \<times> ChannelCoding \<Rightarrow> abort + u8 list \<times> u8 list \<times> u8 list \<times> ChannelCoding" where
  "decode_last input codeType i = (\<lambda>(buf1, buf2, output, ch).
     let c = coding ch codeType; U = uncodedBlockSize c; C = codedBlockSize c; T2 = T c * 2
     in sum_bind (deinterleave ch (drop (i * C) input) buf1 codeType) (\<lambda>buf1.
        sum_bind (coder_of ch codeType) (\<lambda>k.
        sum_bind (cc_decode buf1 buf2 (C * 8) 0 (coders ch k)) (\<lambda>(_, buf2, co).
        let ch = set_coder ch k co
        in sum_bind (store_byte buf2 (U + T2 - 1) 0) (\<lambda>buf2.
        sum_bind (rs_decode (take (U + T2) buf2) T2) (\<lambda>data.
        let buf1 = data @ drop (length data) buf1; len = U - 1
        in sum_bind (derandomize buf1 buf2 (len * 8)) (\<lambda>buf2.
           Inr (buf1, buf2, output @ take len buf2, ch))))))))"

definition ch_decode :: "u8 list \<Rightarrow> rate_id_encodings \<Rightarrow> u8 list \<Rightarrow> u8 list \<Rightarrow> ChannelCoding \<Rightarrow> abort + int \<times> u8 list \<times> ChannelCoding" where
  "ch_decode input codeType buf1 buf2 ch =
     (let c = coding ch codeType; U = uncodedBlockSize c; numBlocks = length input div codedBlockSize c
      in if isBypassing ch then
           (let burstLen = getUncodedBurstLen ch (length input) codeType; outputLen = bytes_int input
            in if burstLen < 0 \<or> length input < 4 \<or> outputLen < 0 \<or> int (length input) < 4 + outputLen then Inl OutOfBounds
               else let data = take (nat outputLen) (drop 4 input)
                    in Inr (outputLen, data @ drop (length data) (replicate (nat burstLen) 0xFF), ch))
         else
           sum_bind (coder_of ch codeType) (\<lambda>k.
           let ch = set_coder ch k (resetDecoderState (coders ch k))
           in sum_bind (sum_fold (decode_block input codeType) [0..<numBlocks - 1] (buf1, buf2, [], ch)) (\<lambda>st.
              sum_bind (decode_last input codeType (numBlocks - 1) st) (\<lambda>(_, _, output, ch).
                Inr (int (numBlocks * U) - 1, output, ch)))))"

subsection \<open>Buffers as sequences of bits\<close>

definition of_bits :: "(nat \<Rightarrow> bool) \<Rightarrow> nat \<Rightarrow> u8 list" where
  "of_bits f n = map (\<lambda>j. horner_sum of_bool 2 (map (\<lambda>i. f (8 * j + (7 - i))) [0..<8])) [0..<n]"

lemma length_of_bits [simp]: "length (of_bits f n) = n"
  by (simp add: of_bits_def)

lemma bitat_of_bits: "p < 8 * n \<Longrightarrow> bitat (of_bits f n) p = f p"
proof -
  assume "p < 8 * n"
  then have "p div 8 < n" by (rule div_8_less)
  moreover have "7 - p mod 8 < 8" "8 * (p div 8) + (7 - (7 - p mod 8)) = p" by simp_all
  ultimately show ?thesis unfolding bitat_def of_bits_def
    by (simp add: bit_horner_sum_bit_word_iff)
qed

lemma bytes_eqI:
  assumes "length xs = length ys" "\<And>p. p < 8 * length xs \<Longrightarrow> bitat xs p = bitat ys p"
  shows "xs = ys"
proof (rule nth_equalityI [OF assms(1)])
  fix j assume j: "j < length xs"
  show "xs ! j = ys ! j"
  proof (rule bit_word_eqI)
    fix n assume n: "n < LENGTH(8)"
    then have "bitat xs (8 * j + (7 - n)) = bitat ys (8 * j + (7 - n))" using j by (intro assms(2)) simp
    moreover have "(8 * j + (7 - n)) div 8 = j" using n by simp
    moreover have "7 - (8 * j + (7 - n)) mod 8 = n" using n by (subst mod_mult_self4) simp
    ultimately show "bit (xs ! j) n = bit (ys ! j) n" by (simp only: bitat_def)
  qed
qed

lemma bitat_append: "p < 8 * length xs \<Longrightarrow> bitat (xs @ ys) p = bitat xs p"
  by (simp add: bitat_def nth_append div_8_less)

lemma bitat_append2: "bitat (xs @ ys) (8 * length xs + p) = bitat ys p"
  by (simp add: bitat_def nth_append)

lemma bitat_take: "p < 8 * n \<Longrightarrow> bitat (take n xs) p = bitat xs p"
  by (simp add: bitat_def div_8_less)

lemma of_bits_eq: "length xs = n \<Longrightarrow> (\<And>p. p < 8 * n \<Longrightarrow> f p = bitat xs p) \<Longrightarrow> of_bits f n = xs"
  by (rule bytes_eqI) (simp_all add: bitat_of_bits)

lemma take_eq_of_bits: "n \<le> length xs \<Longrightarrow> (\<And>p. p < 8 * n \<Longrightarrow> bitat xs p = f p) \<Longrightarrow> take n xs = of_bits f n"
  by (rule bytes_eqI) (simp_all add: bitat_of_bits bitat_take)

subsection \<open>Randomization is its own inverse\<close>

text \<open>The bits that \<open>randomize\<close> adds; they do not depend on the input.\<close>

definition key_of :: "int \<Rightarrow> bool" where "key_of seed \<longleftrightarrow> bit seed 0 \<noteq> bit seed 1"

primrec seed_at :: "nat \<Rightarrow> int" where
  "seed_at 0 = rand_seed"
| "seed_at (Suc i) = drop_bit 1 (seed_at i) OR push_bit 14 (of_bool (key_of (seed_at i)))"

definition key :: "nat \<Rightarrow> bool" where "key i = key_of (seed_at i)"

definition scramble :: "u8 list \<Rightarrow> u8 list" where
  "scramble xs = of_bits (\<lambda>p. bitat xs p \<noteq> key p) (length xs)"

lemma scramble_scramble: "scramble (scramble xs) = xs"
  unfolding scramble_def by (rule of_bits_eq) (auto simp: bitat_of_bits)

lemma length_scramble [simp]: "length (scramble xs) = length xs"
  by (simp add: scramble_def)

lemma tmp_key: "(seed AND 1) XOR drop_bit 1 (seed AND 2) = of_bool (key_of seed)"
proof (rule bit_eqI)
  fix n
  have 1: "bit (seed AND 1) n \<longleftrightarrow> n = 0 \<and> bit seed 0" by (auto simp: bit_and_iff bit_1_iff)
  have two: "bit (2 :: int) m \<longleftrightarrow> m = 1" for m using bit_exp_iff [of 1 m, where 'a = int] by auto
  have 2: "bit (drop_bit 1 (seed AND 2)) n \<longleftrightarrow> n = 0 \<and> bit seed 1"
    unfolding bit_drop_bit_eq comp_apply bit_and_iff two by (cases n) simp_all
  show "bit ((seed AND 1) XOR drop_bit 1 (seed AND 2)) n = bit (of_bool (key_of seed) :: int) n"
    unfolding bit_xor_iff 1 2 by (auto simp: key_of_def bit_1_iff)
qed

lemma bit_of_input: "p < 8 * length inp \<Longrightarrow> bit_of_input inp p = Inr (of_bool (bitat inp p))"
  by (simp add: bit_of_input_def input_bit drop_bit_eq_div div_8_less)

lemma xor_of_bool: "of_bool a XOR of_bool b = (of_bool (a \<noteq> b) :: int)"
  by (cases a; cases b) simp_all

lemma randomize_run:
  assumes "n \<le> 8 * length inp" "n \<le> 8 * length out"
  shows "\<exists>r. sum_fold (randomize_bit inp) [0..<n] (rand_seed, out) = Inr (seed_at n, r)
    \<and> written n r (map (\<lambda>p. bitat inp p \<noteq> key p) [0..<n]) \<and> length r = length out"
  using assms
proof (induction n)
  case 0
  then show ?case by (simp add: written_def)
next
  case (Suc n)
  then obtain r where r: "sum_fold (randomize_bit inp) [0..<n] (rand_seed, out) = Inr (seed_at n, r)"
    "written n r (map (\<lambda>p. bitat inp p \<noteq> key p) [0..<n])" "length r = length out" by auto
  have "n div 8 < length r" using Suc.prems r(3) by (intro div_8_less) simp
  from put_bit_written [OF r(2) this, of "bitat inp n \<noteq> key n"] obtain o' where
    "put_bit (of_bool (bitat inp n \<noteq> key n)) (n, r) = Inr (n + 1, o')"
    "written (n + 1) o' (map (\<lambda>p. bitat inp p \<noteq> key p) [0..<n] @ [bitat inp n \<noteq> key n])" "length o' = length r"
    by blast
  note o = this
  have "n < 8 * length inp" using Suc.prems(1) by simp
  note inp = bit_of_input [OF this]
  have "randomize_bit inp n (seed_at n, r) = Inr (seed_at (Suc n), o')"
    unfolding randomize_bit_def prod.case inp sum_bind.simps Let_def tmp_key xor_of_bool
      key_def [symmetric] o(1) seed_at.simps by (rule refl)
  then show ?case using r o(2,3) by (simp add: sum_fold_append del: seed_at.simps)
qed

lemma randomize_spec:
  assumes "k \<le> length inp" "k \<le> length out"
  shows "\<exists>r. randomize inp out (k * 8) = Inr r \<and> length r = length out \<and> take k r = scramble (take k inp)"
proof -
  define o1 where "o1 = replicate k 0 @ drop k out"
  have l: "length o1 = length out" using assms(2) by (simp add: o1_def)
  obtain r where r: "sum_fold (randomize_bit inp) [0..<k * 8] (rand_seed, o1) = Inr (seed_at (k * 8), r)"
    "written (k * 8) r (map (\<lambda>p. bitat inp p \<noteq> key p) [0..<k * 8])" "length r = length out"
    using randomize_run [of "k * 8" inp o1] assms l by auto
  have "take k r = scramble (take k inp)" unfolding scramble_def
    by (subst length_take, subst min_absorb2 [OF assms(1)], rule take_eq_of_bits)
       (use assms r(3) written_bitat [OF r(2)] in \<open>simp_all add: bitat_take mult.commute\<close>)
  then show ?thesis using r assms(2) by (simp add: randomize_def memset_def o1_def)
qed

subsection \<open>Deinterleaving inverts interleaving\<close>

definition permuted :: "(nat \<Rightarrow> nat) \<Rightarrow> u8 list \<Rightarrow> u8 list" where
  "permuted pos xs = of_bits (\<lambda>q. \<exists>i<8 * length xs. pos i = q \<and> bitat xs i) (length xs)"

lemma length_permuted [simp]: "length (permuted pos xs) = length xs"
  by (simp add: permuted_def)

lemma permuted_permuted:
  assumes "\<And>k. k < 8 * length xs \<Longrightarrow> f k < 8 * length xs \<and> h (f k) = k"
  shows "permuted h (permuted f xs) = xs"
proof -
  let ?N = "8 * length xs"
  have inj: "inj_on f {..<?N}" by (rule inj_on_inverseI [of _ h]) (use assms in auto)
  then have "f ` {..<?N} = {..<?N}" by (intro endo_inj_surj) (use assms in auto)
  then have sur: "\<exists>k<?N. f k = j" if "j < ?N" for j using that by (metis imageE lessThan_iff)
  show ?thesis
  proof (unfold permuted_def [of h], rule of_bits_eq)
    fix p assume p: "p < 8 * length (permuted f xs)"
    have "(\<exists>j<?N. h j = p \<and> bitat (permuted f xs) j) \<longleftrightarrow> bitat (permuted f xs) (f p)"
      using p sur assms by (metis length_permuted)
    also have "\<dots> \<longleftrightarrow> (\<exists>i<?N. f i = f p \<and> bitat xs i)"
      using assms p by (simp add: permuted_def bitat_of_bits)
    also have "\<dots> \<longleftrightarrow> bitat xs p" using inj p by (auto simp: inj_on_def)
    finally show "(\<exists>i<8 * length (permuted f xs). h i = p \<and> bitat (permuted f xs) i) = bitat xs p" by simp
  qed simp
qed

lemma bit_single: "s < 8 \<Longrightarrow> bit (word_of_int (push_bit s (of_bool v)) :: u8) n \<longleftrightarrow> v \<and> n = s"
  unfolding bit_word_of_int_iff bit_push_bit_iff by (cases v) (auto simp: bit_1_iff)

lemma or_bit:
  assumes "j div 8 < length out"
  shows "bitat (out[j div 8 := out ! (j div 8) OR word_of_int (push_bit (7 - j mod 8) (of_bool v))]) q
    \<longleftrightarrow> bitat out q \<or> (q = j \<and> v)"
proof -
  have m: "7 - q mod 8 = 7 - j mod 8 \<longleftrightarrow> q mod 8 = j mod 8"
    using mod_less_divisor [of 8 q] mod_less_divisor [of 8 j] by linarith
  have j: "q = j" if "q div 8 = j div 8" "q mod 8 = j mod 8" using that by (metis div_mult_mod_eq)
  have s: "7 - j mod 8 < 8" by simp
  show ?thesis
  proof (cases "q div 8 = j div 8")
    case True
    show ?thesis unfolding bitat_def True nth_list_update_eq [OF assms] bit_or_iff bit_single [OF s]
      using m j True by blast
  next
    case False
    then show ?thesis by (auto simp: bitat_def)
  qed
qed

lemma move_bits_run:
  assumes pos: "\<And>i. i < N \<Longrightarrow> pos i < 8 * length out" and inp: "N \<le> 8 * length inp"
  shows "n \<le> N \<Longrightarrow> \<exists>r. sum_fold (move_bit pos inp) [0..<n] out = Inr r \<and> length r = length out
    \<and> (\<forall>q. bitat r q \<longleftrightarrow> bitat out q \<or> (\<exists>i<n. pos i = q \<and> bitat inp i))"
proof (induction n)
  case (Suc n)
  then obtain r where r: "sum_fold (move_bit pos inp) [0..<n] out = Inr r" "length r = length out"
    "\<And>q. bitat r q \<longleftrightarrow> bitat out q \<or> (\<exists>i<n. pos i = q \<and> bitat inp i)" by auto
  define r' where "r' = r[pos n div 8 := r ! (pos n div 8) OR word_of_int (push_bit (7 - pos n mod 8) (of_bool (bitat inp n)))]"
  have p: "pos n div 8 < length r" using pos [of n] Suc.prems r(2) by (intro div_8_less) simp
  have b: "bit_of_input inp n = Inr (of_bool (bitat inp n))" using Suc.prems inp by (intro bit_of_input) simp
  have "move_bit pos inp n r = Inr r'"
    using p unfolding move_bit_def b sum_bind.simps Let_def r'_def by simp
  moreover have "bitat r' q \<longleftrightarrow> bitat out q \<or> (\<exists>i<Suc n. pos i = q \<and> bitat inp i)" for q
    unfolding r'_def or_bit [OF p] r(3) by (auto simp: less_Suc_eq)
  moreover have "length r' = length out" by (simp add: r'_def r(2))
  ultimately show ?case using r(1) by (simp add: sum_fold_append)
qed simp

lemma move_bits_spec:
  assumes "\<And>i. i < 8 * k \<Longrightarrow> pos i < 8 * k" "k \<le> length inp" "k \<le> length out"
  shows "\<exists>r. move_bits pos (8 * k) inp out = Inr r \<and> length r = length out \<and> take k r = permuted pos (take k inp)"
proof -
  define o1 where "o1 = replicate k 0 @ drop k out"
  have l: "length o1 = length out" using assms(3) by (simp add: o1_def)
  have z: "\<not> bitat o1 q" if "q < 8 * k" for q using that by (simp add: bitat_def o1_def nth_append div_8_less)
  have pos: "pos i < 8 * length o1" if "i < 8 * k" for i using assms(1) [OF that] assms(3) l by linarith
  obtain r where r: "sum_fold (move_bit pos inp) [0..<8 * k] o1 = Inr r" "length r = length out"
    "\<And>q. bitat r q \<longleftrightarrow> bitat o1 q \<or> (\<exists>i<8 * k. pos i = q \<and> bitat inp i)"
    using move_bits_run [where N = "8 * k" and pos = pos and out = o1 and inp = inp and n = "8 * k", OF pos] assms(2) l by auto
  have "take k r = permuted pos (take k inp)" unfolding permuted_def
    by (subst (2) length_take, subst min_absorb2 [OF assms(2)], rule take_eq_of_bits)
       (use assms(2,3) r(2,3) z in \<open>auto simp: bitat_take min_absorb2\<close>)
  then show ?thesis using r(1,2) assms(3) by (simp add: move_bits_def memset_def o1_def)
qed

definition mode_ok :: "coding_mode \<Rightarrow> bool" where
  "mode_ok c \<longleftrightarrow> (let s = (Ncpc c + 1) div 2 in 0 < s \<and> 12 dvd Ncbps c \<and> s dvd Ncbps c div 12 \<and> 0 < Ncbps c)"

lemma interleave_inverse:
  assumes "mode_ok c" "k < Ncbps c"
  shows "interleave_pos c k < Ncbps c" "deinterleave_pos c (interleave_pos c k) = k"
proof -
  define s where "s = (Ncpc c + 1) div 2"
  define b where "b = Ncbps c div 12"
  define r where "r = k mod 12"
  define q where "q = k div 12"
  define m where "m = b * r + q"
  define j where "j = interleave_pos c k"
  have s: "0 < s" "s dvd b" "Ncbps c = 12 * b" "0 < b" using assms(1) by (auto simp: mode_ok_def Let_def s_def b_def)
  have r: "r < 12" "k = 12 * q + r" by (simp_all add: r_def q_def)
  have q: "q < b" using assms(2) unfolding q_def s(3) by (simp add: less_mult_imp_div_less mult.commute)
  have mb: "m div b = r" using q by (simp add: m_def)
  have "12 * m div Ncbps c = r" unfolding s(3) using mb by simp
  then have j: "j = s * (m div s) + (m + Ncbps c - r) mod s"
    unfolding j_def interleave_pos_def Let_def s_def [symmetric] b_def [symmetric] r_def [symmetric] q_def [symmetric]
      m_def [symmetric] by simp
  obtain d where d: "b = s * d" using s(2) by (rule dvdE)
  have js: "j div s = m div s" using s(1) by (simp add: j)
  then have jb: "j div b = r" using mb by (simp add: d div_mult2_eq)
  then have "12 * j div Ncbps c = r" by (simp add: s(3))
  moreover have "(j + r) mod s = m mod s"
  proof -
    have "(j + r) mod s = ((m + Ncbps c - r) mod s + r) mod s" by (simp add: j add.assoc)
    also have "\<dots> = (m + Ncbps c - r + r) mod s" by (rule mod_add_left_eq)
    also have "m + Ncbps c - r + r = m + Ncbps c" using r(1) s(3,4) by linarith
    also have "Ncbps c = s * (12 * d)" by (simp add: s(3) d)
    finally show ?thesis by simp
  qed
  ultimately have m': "s * (j div s) + (j + 12 * j div Ncbps c) mod s = m" by (simp add: js)
  have "12 * m = Ncbps c * r + 12 * q" by (simp add: m_def s(3) algebra_simps)
  moreover have "Ncbps c * r = (Ncbps c - 1) * r + r" using s(3,4) by (simp add: diff_mult_distrib)
  ultimately have "12 * m - (Ncbps c - 1) * r = k" using r(2) by simp
  then show "deinterleave_pos c (interleave_pos c k) = k"
    unfolding deinterleave_pos_def Let_def s_def [symmetric] j_def [symmetric] m'
    using \<open>12 * m div Ncbps c = r\<close> by simp
  have "j div b < 12" using jb r(1) by simp
  then show "interleave_pos c k < Ncbps c" using s(4) unfolding j_def [symmetric] s(3)
    by (simp add: div_less_iff_less_mult)
qed

lemma deinterleave_less:
  assumes "mode_ok c" "j < Ncbps c" shows "deinterleave_pos c j < Ncbps c"
proof -
  let ?N = "{..<Ncbps c}"
  have "inj_on (interleave_pos c) ?N"
    by (rule inj_on_inverseI [of _ "deinterleave_pos c"]) (use interleave_inverse(2) [OF assms(1)] in auto)
  then have "interleave_pos c ` ?N = ?N" by (intro endo_inj_surj) (use interleave_inverse(1) [OF assms(1)] in auto)
  then obtain k where "k < Ncbps c" "j = interleave_pos c k" using assms(2) by (metis imageE lessThan_iff)
  then show ?thesis using interleave_inverse(2) [OF assms(1)] by simp
qed

subsection \<open>What is sent\<close>

definition padded :: "nat \<Rightarrow> u8 list \<Rightarrow> u8 list" where
  "padded U input = input @ replicate ((length input div U + 1) * U - 1 - length input) 0xFF"

definition block_data :: "nat \<Rightarrow> u8 list \<Rightarrow> nat \<Rightarrow> u8 list" where
  "block_data U input i = scramble (take U (drop (i * U) (padded U input))) @ (if i = length input div U then [0] else [])"

definition codeword :: "coding_mode \<Rightarrow> u8 list \<Rightarrow> nat \<Rightarrow> u8 list" where
  "codeword c input i =
     (let d = block_data (uncodedBlockSize c) input i in (if T c = 0 then [] else projr (rs_encode d (T c * 2))) @ d)"

definition steps :: "coding_mode \<Rightarrow> nat" where "steps c = 8 * (uncodedBlockSize c + T c * 2)"

primrec enc_state :: "coding_mode \<Rightarrow> u8 list \<Rightarrow> nat \<Rightarrow> nat" where
  "enc_state c input 0 = 0"
| "enc_state c input (Suc i) = path (bitat (codeword c input i)) (enc_state c input i) (steps c)"

definition coded_block :: "ConvoCode \<Rightarrow> coding_mode \<Rightarrow> u8 list \<Rightarrow> nat \<Rightarrow> u8 list" where
  "coded_block co c input i =
     of_bits (\<lambda>p. coded co (bitat (codeword c input i)) (enc_state c input i) (steps c) ! p) (codedBlockSize c)"

definition sent_block :: "ConvoCode \<Rightarrow> coding_mode \<Rightarrow> u8 list \<Rightarrow> nat \<Rightarrow> u8 list" where
  "sent_block co c input i = permuted (interleave_pos c) (coded_block co c input i)"

text \<open>A mode whose blocks fit its convolutional code and whose Reed-Solomon code has all parity bytes or none.\<close>

definition fits :: "coding_mode \<Rightarrow> ConvoCode \<Rightarrow> bool" where
  "fits c co \<longleftrightarrow> good_code co \<and> mode_ok c \<and> Ncbps c = 8 * codedBlockSize c \<and> (T c = 0 \<or> T c = 8)
     \<and> 0 < uncodedBlockSize c \<and> 12 * (uncodedBlockSize c + T c * 2) \<le> 8 * codedBlockSize c
     \<and> (let x = steps c div PLen co in x * PLen co = steps c \<and> x * rate co = 8 * codedBlockSize c \<and> even x)"

lemma length_padded:
  assumes "0 < U"
  shows "length (padded U input) = (length input div U + 1) * U - 1"
    and "(length input div U + 1) * U - 1 - length input = U - 1 - length input mod U"
proof -
  have "length input = length input div U * U + length input mod U" by simp
  moreover have "length input mod U < U" using assms by simp
  moreover have "(length input div U + 1) * U = length input div U * U + U" by simp
  ultimately have a: "length input \<le> (length input div U + 1) * U - 1"
    and b: "(length input div U + 1) * U - 1 - length input = U - 1 - length input mod U" by linarith+
  show "(length input div U + 1) * U - 1 - length input = U - 1 - length input mod U" by (rule b)
  show "length (padded U input) = (length input div U + 1) * U - 1" using a by (simp add: padded_def)
qed

lemma block_bytes:
  assumes "0 < U" "i \<le> length input div U"
  defines "fin \<equiv> i = length input div U"
  defines "payloadLen \<equiv> (if fin then length input - i * U else U)"
  defines "paddingLen \<equiv> (if fin then U - 1 - payloadLen else 0)"
  defines "inp \<equiv> (if paddingLen \<noteq> 0 then take payloadLen (drop (i * U) input) @ replicate paddingLen 0xFF else drop (i * U) input)"
  shows "payloadLen + paddingLen = (if fin then U - 1 else U)" "payloadLen + paddingLen \<le> length inp"
    and "take (payloadLen + paddingLen) inp = take U (drop (i * U) (padded U input))"
    and "length (block_data U input i) = U"
proof -
  have le: "i * U \<le> length input" using assms(2) by (metis div_times_less_eq_dividend le_trans mult_le_mono1)
  have m: "length input mod U < U" using assms(1) by simp
  have "payloadLen + paddingLen = (if fin then U - 1 else U) \<and> payloadLen + paddingLen \<le> length inp
    \<and> take (payloadLen + paddingLen) inp = take U (drop (i * U) (padded U input))
    \<and> length (take U (drop (i * U) (padded U input))) = (if fin then U - 1 else U)"
  proof (cases fin)
    case True
    then have i: "i = length input div U" by (simp add: fin_def)
    then have p: "payloadLen = length input mod U" using True by (simp add: payloadLen_def minus_div_mult_eq_mod)
    have d: "length (drop (i * U) input) = payloadLen" using True by (simp add: payloadLen_def)
    have q: "paddingLen = U - 1 - length input mod U" using True p by (simp add: paddingLen_def)
    have s: "payloadLen + paddingLen = U - 1" using p q m by simp
    have "inp = drop (i * U) input @ replicate paddingLen 0xFF" using d by (simp add: inp_def)
    moreover have "drop (i * U) (padded U input) = drop (i * U) input @ replicate paddingLen 0xFF"
      using le by (simp only: padded_def length_padded(2) [OF assms(1)] q) simp
    moreover have "length (drop (i * U) input @ replicate paddingLen (0xFF :: u8)) = U - 1" using d s by simp
    ultimately show ?thesis using True s by simp
  next
    case False
    then have "i + 1 \<le> length input div U" using assms(2) by (simp add: fin_def)
    then have "(i + 1) * U \<le> length input" by (metis div_times_less_eq_dividend le_trans mult_le_mono1)
    then have l: "U \<le> length (drop (i * U) input)" using le by simp
    moreover have "payloadLen + paddingLen = U" "inp = drop (i * U) input"
      using False by (simp_all add: payloadLen_def paddingLen_def inp_def)
    moreover have "take U (drop (i * U) (padded U input)) = take U (drop (i * U) input)"
      using l le by (simp add: padded_def)
    ultimately show ?thesis using False by simp
  qed
  then show "payloadLen + paddingLen = (if fin then U - 1 else U)" "payloadLen + paddingLen \<le> length inp"
    "take (payloadLen + paddingLen) inp = take U (drop (i * U) (padded U input))"
    "length (block_data U input i) = U"
    using assms(1) by (auto simp: block_data_def fin_def simp del: length_take length_drop)
qed

lemma codeword_props:
  assumes "fits c co" "i \<le> length input div uncodedBlockSize c"
  defines "d \<equiv> block_data (uncodedBlockSize c) input i"
  shows "\<exists>par. rs_encode d (T c * 2) = Inr par \<and> (T c \<noteq> 0 \<longrightarrow> length par = T c * 2)
      \<and> codeword c input i = (if T c = 0 then [] else par) @ d"
    and "length (codeword c input i) = uncodedBlockSize c + T c * 2"
    and "rs_decode (codeword c input i) (T c * 2) = Inr d"
proof -
  have len: "length d = uncodedBlockSize c"
    unfolding d_def using assms(1,2) by (intro block_bytes(4)) (auto simp: fits_def)
  show "\<exists>par. rs_encode d (T c * 2) = Inr par \<and> (T c \<noteq> 0 \<longrightarrow> length par = T c * 2)
      \<and> codeword c input i = (if T c = 0 then [] else par) @ d"
    "length (codeword c input i) = uncodedBlockSize c + T c * 2" "rs_decode (codeword c input i) (T c * 2) = Inr d"
  proof (atomize (full), cases "T c = 0")
    case True
    then have "codeword c input i = d" by (simp add: codeword_def d_def)
    then show "(\<exists>par. rs_encode d (T c * 2) = Inr par \<and> (T c \<noteq> 0 \<longrightarrow> length par = T c * 2)
      \<and> codeword c input i = (if T c = 0 then [] else par) @ d)
      \<and> length (codeword c input i) = uncodedBlockSize c + T c * 2 \<and> rs_decode (codeword c input i) (T c * 2) = Inr d"
      using True len by (simp add: rs_encode_def rs_decode_none)
  next
    case False
    then have t: "T c * 2 = NPAR" using assms(1) by (simp add: fits_def NPAR_def)
    obtain par where par: "rs_encode d NPAR = Inr par" by (auto simp: rs_encode_def NPAR_def Let_def)
    then have "codeword c input i = par @ d" using False by (simp add: codeword_def d_def t Let_def)
    then show "(\<exists>par. rs_encode d (T c * 2) = Inr par \<and> (T c \<noteq> 0 \<longrightarrow> length par = T c * 2)
      \<and> codeword c input i = (if T c = 0 then [] else par) @ d)
      \<and> length (codeword c input i) = uncodedBlockSize c + T c * 2 \<and> rs_decode (codeword c input i) (T c * 2) = Inr d"
      using False par rs_encode_full(1) [OF par] rs_decode_full [OF par] len by (simp add: t)
  qed
qed

subsection \<open>Encoding a burst\<close>

lemma coded_state [simp]:
  "coded (cc\<lparr>encoderState := s\<rparr>) = coded cc" "coded (cc\<lparr>decoderState := d\<rparr>) = coded cc"
  "rate (cc\<lparr>encoderState := s\<rparr>) = rate cc" "rate (cc\<lparr>decoderState := d\<rparr>) = rate cc"
proof -
  have "coded (cc\<lparr>encoderState := s\<rparr>) b t n = coded cc b t n" "coded (cc\<lparr>decoderState := d\<rparr>) b t n = coded cc b t n" for b t n
    by (induction n) (simp_all add: emitted_def phase_def)
  then show "coded (cc\<lparr>encoderState := s\<rparr>) = coded cc" "coded (cc\<lparr>decoderState := d\<rparr>) = coded cc" by blast+
qed (simp_all add: rate_def)

lemma fits_steps:
  assumes "fits c co"
  obtains x where "x * PLen co = steps c" "x * rate co = 8 * codedBlockSize c" "even x"
  using assms that by (auto simp: fits_def Let_def)

lemma enc_state_less: "enc_state c input i < 64"
  by (induction i) (simp_all add: path_less)

lemma encode_parts:
  assumes "fits c co" and i: "i \<le> length input div uncodedBlockSize c"
  defines "U \<equiv> uncodedBlockSize c" and "T2 \<equiv> T c * 2"
  defines "fin \<equiv> i = length input div U"
  defines "payloadLen \<equiv> (if fin then length input - i * U else U)"
  defines "paddingLen \<equiv> (if fin then U - 1 - payloadLen else 0)"
  defines "inp \<equiv> (if paddingLen \<noteq> 0 then take payloadLen (drop (i * U) input) @ replicate paddingLen 0xFF else drop (i * U) input)"
  assumes buf2: "length buf2 = codedBlockSize c"
  shows "\<exists>r buf2' par. randomize inp (drop T2 buf2) ((payloadLen + paddingLen) * 8) = Inr r
    \<and> (if fin then store_byte (take T2 buf2 @ r) (T2 + U - 1) 0 else Inr (take T2 buf2 @ r)) = Inr buf2'
    \<and> rs_encode (take U (drop T2 buf2')) T2 = Inr par
    \<and> take (U + T2) (par @ drop (length par) buf2') = codeword c input i
    \<and> length (par @ drop (length par) buf2') = codedBlockSize c"
proof -
  have U: "0 < U" "U + T2 \<le> codedBlockSize c" using assms(1) by (auto simp: fits_def U_def T2_def)
  note bb = block_bytes [OF U(1) i[folded U_def], folded fin_def, folded payloadLen_def, folded paddingLen_def, folded inp_def]
  let ?K = "payloadLen + paddingLen"
  have K: "?K = (if fin then U - 1 else U)" by (rule bb(1))
  have "?K \<le> length (drop T2 buf2)" using K U buf2 by auto
  from randomize_spec [OF bb(2) this] obtain r where
    r: "randomize inp (drop T2 buf2) (?K * 8) = Inr r" "length r = length (drop T2 buf2)" "take ?K r = scramble (take ?K inp)" by blast
  have lr: "length r = codedBlockSize c - T2" using r(2) buf2 by simp
  define buf2' where "buf2' = (if fin then (take T2 buf2 @ r)[T2 + U - 1 := 0] else take T2 buf2 @ r)"
  have st: "(if fin then store_byte (take T2 buf2 @ r) (T2 + U - 1) 0 else Inr (take T2 buf2 @ r)) = Inr buf2'"
    using lr U buf2 by (auto simp: store_byte_def buf2'_def)
  have l2: "length buf2' = codedBlockSize c" using lr U buf2 by (simp add: buf2'_def)
  have data: "take U (drop T2 buf2') = block_data U input i"
  proof (cases fin)
    case True
    have "\<not> T2 + U - 1 < T2" "T2 + U - 1 - T2 = U - 1" using U(1) by linarith+
    then have "drop T2 buf2' = r[U - 1 := 0]"
      using True U buf2 by (simp add: buf2'_def list_update_append)
    then have "take U (drop T2 buf2') = (take U r)[U - 1 := 0]" by (simp add: take_update_swap)
    also have "\<dots> = take (U - 1) r @ [0]"
    proof -
      have "take U r = take (U - 1) r @ [r ! (U - 1)]" using U lr take_Suc_conv_app_nth [of "U - 1" r] by simp
      moreover have "length (take (U - 1) r) = U - 1" using U lr by simp
      ultimately show ?thesis by (simp add: list_update_append)
    qed
    finally show ?thesis using True r(3) K bb(3) by (simp add: block_data_def fin_def)
  next
    case False
    then show ?thesis using r(3) K bb(3) U buf2 by (simp add: buf2'_def block_data_def fin_def)
  qed
  obtain par where par: "rs_encode (block_data U input i) T2 = Inr par" "T c \<noteq> 0 \<Longrightarrow> length par = T2"
    "codeword c input i = (if T c = 0 then [] else par) @ block_data U input i"
    using codeword_props(1) [OF assms(1) i] by (auto simp: U_def T2_def)
  have p0: "T c = 0 \<Longrightarrow> par = block_data U input i" using par(1) by (simp add: T2_def rs_encode_def)
  have lb: "length (block_data U input i) = U" by (rule bb(4))
  have "take (U + T2) (par @ drop (length par) buf2') = codeword c input i \<and> length par \<le> codedBlockSize c"
  proof (cases "T c = 0")
    case True
    then show ?thesis using par(3) p0 lb U by (simp add: T2_def)
  next
    case False
    have "take U (drop T2 buf2') = block_data U input i" by (rule data)
    then show ?thesis using par(2,3) False U by simp
  qed
  then show ?thesis using r(1) st par(1) data l2 by auto
qed

lemma encode_block_spec:
  assumes fit: "fits c co" "coding ch codeType = c" "cm_CC c = Some k"
    and co: "coders ch k = co\<lparr>encoderState := enc_state c input i, decoderState := d\<rparr>"
    and n: "n = length input div uncodedBlockSize c + 1" "i < n"
    and buf: "length buf1 = codedBlockSize c" "length buf2 = codedBlockSize c"
  shows "\<exists>b1 b2. encode_block input codeType n i (buf1, buf2, out, ch)
      = Inr (b1, b2, out @ sent_block co c input i,
          set_coder ch k (co\<lparr>encoderState := enc_state c input (Suc i), decoderState := d\<rparr>))
    \<and> length b1 = codedBlockSize c \<and> length b2 = codedBlockSize c"
proof -
  let ?U = "uncodedBlockSize c" and ?T2 = "T c * 2" and ?C = "codedBlockSize c"
  have i: "i \<le> length input div ?U" "(i = n - 1) = (i = length input div ?U)" using n by auto
  obtain x where x: "x * PLen co = steps c" "x * rate co = 8 * ?C" using fits_steps [OF fit(1)] by blast
  from encode_parts [OF fit(1) i(1) buf(2)] obtain r buf2' par where p:
    "randomize (if (if i = n - 1 then ?U - 1 - (if i = n - 1 then length input - i * ?U else ?U) else 0) \<noteq> 0
       then take (if i = n - 1 then length input - i * ?U else ?U) (drop (i * ?U) input)
         @ replicate (if i = n - 1 then ?U - 1 - (if i = n - 1 then length input - i * ?U else ?U) else 0) 0xFF
       else drop (i * ?U) input) (drop ?T2 buf2)
       (((if i = n - 1 then length input - i * ?U else ?U)
         + (if i = n - 1 then ?U - 1 - (if i = n - 1 then length input - i * ?U else ?U) else 0)) * 8) = Inr r"
    "(if i = n - 1 then store_byte (take ?T2 buf2 @ r) (?T2 + ?U - 1) 0 else Inr (take ?T2 buf2 @ r)) = Inr buf2'"
    "rs_encode (take ?U (drop ?T2 buf2')) ?T2 = Inr par"
    "take (?U + ?T2) (par @ drop (length par) buf2') = codeword c input i"
    "length (par @ drop (length par) buf2') = ?C"
    unfolding i(2) by blast
  define bf where "bf = par @ drop (length par) buf2'"
  let ?co = "co\<lparr>encoderState := enc_state c input i, decoderState := d\<rparr>"
  have N: "(?U + ?T2) * 8 = x * PLen ?co" "x * rate ?co = 8 * ?C" using x by (simp_all add: steps_def mult.commute)
  have good: "good_code ?co" using fit(1) by (simp add: fits_def)
  have "?U + ?T2 \<le> ?C" using fit(1) by (auto simp: fits_def)
  then have "x * PLen ?co \<le> 8 * length bf" "x * rate ?co \<le> 8 * length buf1" "8 dvd x * rate ?co" "encoderState ?co < 64"
    using p(5) buf(1) N enc_state_less by (auto simp: bf_def)
  from cc_encode_block [OF good this(4,1-3)] obtain b1 where
    b1: "cc_encode bf buf1 ((?U + ?T2) * 8) ?co
      = Inr (8 * ?C, b1, ?co\<lparr>encoderState := path (bitat bf) (enc_state c input i) (steps c)\<rparr>)"
    "length b1 = ?C" "\<forall>p<8 * ?C. bitat b1 p = coded co (bitat bf) (enc_state c input i) (steps c) ! p"
    using N x(1) buf(1) by auto
  have bits: "bitat bf p = bitat (codeword c input i) p" if "p < steps c" for p
    using bitat_take [of p "?U + ?T2" bf] that by (simp add: p(4)[folded bf_def] steps_def)
  have pc: "path (bitat bf) (enc_state c input i) (steps c) = enc_state c input (Suc i)"
    "coded co (bitat bf) (enc_state c input i) (steps c) = coded co (bitat (codeword c input i)) (enc_state c input i) (steps c)"
    using path_cong [OF bits] coded_cong [OF bits] by simp_all
  have cb: "coded_block co c input i = b1"
    unfolding coded_block_def by (rule of_bits_eq) (use b1 pc(2) in simp_all)
  have nc: "Ncbps c = 8 * ?C" "mode_ok c" using fit(1) by (simp_all add: fits_def)
  obtain b2 where b2: "move_bits (interleave_pos c) (8 * ?C) b1 bf = Inr b2" "length b2 = ?C"
    "take ?C b2 = permuted (interleave_pos c) (take ?C b1)"
    using move_bits_spec [of ?C "interleave_pos c" b1 bf] interleave_inverse(1) [OF nc(2)] nc(1) b1(2) p(5)[folded bf_def]
    by auto
  have swap: "co\<lparr>decoderState := d, encoderState := e\<rparr> = co\<lparr>encoderState := e, decoderState := d\<rparr>" for e by simp
  have "sent_block co c input i = take ?C b2" using b2(3) b1(2) cb by (simp add: sent_block_def)
  then show ?thesis
    unfolding encode_block_def prod.case Let_def fit(2) p(1) sum_bind.simps p(2) p(3) coder_of_def fit(3) option.case
      co bf_def [symmetric] b1(1) interleave_def
    using b2(1,2) b1(2) by (simp add: fit(2) nc(1) pc(1) swap del: enc_state.simps)
qed

lemma same_coder: "coders ch k = co \<Longrightarrow> set_coder ch k co = ch"
  by (cases ch) (simp add: set_coder_def fun_upd_idem)

lemma encode_blocks:
  assumes fit: "fits c co" "coding ch codeType = c" "cm_CC c = Some k" "coders ch k = co\<lparr>encoderState := 0, decoderState := d\<rparr>"
    and n: "n = length input div uncodedBlockSize c + 1"
    and buf: "length buf1 = codedBlockSize c" "length buf2 = codedBlockSize c"
  shows "m \<le> n \<Longrightarrow> \<exists>b1 b2. sum_fold (encode_block input codeType n) [0..<m] (buf1, buf2, [], ch)
      = Inr (b1, b2, concat (map (sent_block co c input) [0..<m]),
          set_coder ch k (co\<lparr>encoderState := enc_state c input m, decoderState := d\<rparr>))
    \<and> length b1 = codedBlockSize c \<and> length b2 = codedBlockSize c"
proof (induction m)
  case 0
  have "set_coder ch k (co\<lparr>encoderState := enc_state c input 0, decoderState := d\<rparr>) = ch"
    by (simp only: enc_state.simps same_coder [OF fit(4)])
  then show ?case using buf by (simp only: upt_0 sum_fold.simps list.map concat.simps) simp
next
  case (Suc m)
  define ch' where "ch' = set_coder ch k (co\<lparr>encoderState := enc_state c input m, decoderState := d\<rparr>)"
  obtain b1 b2 where b: "sum_fold (encode_block input codeType n) [0..<m] (buf1, buf2, [], ch)
      = Inr (b1, b2, concat (map (sent_block co c input) [0..<m]), ch')"
    "length b1 = codedBlockSize c" "length b2 = codedBlockSize c"
    using Suc unfolding ch'_def by auto
  have c': "coding ch' codeType = c" "coders ch' k = co\<lparr>encoderState := enc_state c input m, decoderState := d\<rparr>"
    using fit(2) by (simp_all add: ch'_def)
  have "m < n" using Suc.prems by simp
  from encode_block_spec [OF fit(1) c'(1) fit(3) c'(2) n this b(2,3), of "concat (map (sent_block co c input) [0..<m])"]
  show ?case using b(1) by (auto simp: sum_fold_append ch'_def simp del: enc_state.simps)
qed

text \<open>The zero byte at the end brings the encoder back to its first state.\<close>

lemma path_zeros:
  assumes "t < 64" "6 \<le> n" "\<And>p. n - 6 \<le> p \<Longrightarrow> p < n \<Longrightarrow> \<not> b p"
  shows "path b t n = 0"
proof -
  define m where "m = n - 6"
  have n: "n = m + 6" using assms(2) by (simp add: m_def)
  have z: "\<not> b (m + j)" if "j < 6" for j using assms(3) [of "m + j"] that n by simp
  have s: "path b t m < 64" by (rule path_less [OF assms(1)])
  have 6: "6 = Suc (Suc (Suc (Suc (Suc (Suc 0)))))" by simp
  have "path b t n = path b t m div 2 div 2 div 2 div 2 div 2 div 2"
    unfolding n path_add unfolding 6 path.simps using z [of 0] z [of 1] z [of 2] z [of 3] z [of 4] z [of 5]
    by (simp add: nx_def eval_nat_numeral)
  also have "\<dots> = path b t m div 64" by (simp flip: div_mult2_eq)
  finally show ?thesis using s by simp
qed

lemma enc_state_end:
  assumes "fits c co" shows "enc_state c input (length input div uncodedBlockSize c + 1) = 0"
proof -
  let ?i = "length input div uncodedBlockSize c" and ?L = "uncodedBlockSize c + T c * 2"
  obtain ys where "codeword c input ?i = ys @ block_data (uncodedBlockSize c) input ?i"
    using codeword_props(1) [OF assms order_refl, of input] by blast
  then obtain xs where cw: "codeword c input ?i = xs @ [0]" by (simp add: block_data_def flip: append_assoc)
  have len: "length (codeword c input ?i) = ?L" by (rule codeword_props(2) [OF assms order_refl])
  then have l: "?L = Suc (length xs)" using cw by simp
  have "\<not> bitat (codeword c input ?i) p" if "steps c - 6 \<le> p" "p < steps c" for p
  proof -
    have "p div 8 = length xs" using that l by (simp add: steps_def)
    then show ?thesis by (simp add: bitat_def cw)
  qed
  moreover have "6 \<le> steps c" using l by (simp add: steps_def)
  ultimately show ?thesis using path_zeros [of "enc_state c input ?i" "steps c" "bitat (codeword c input ?i)"]
      enc_state_less by simp
qed

lemma ch_encode_spec:
  assumes fit: "fits c co" "coding ch codeType = c" "cm_CC c = Some k" "coders ch k = co\<lparr>encoderState := 0, decoderState := d\<rparr>"
    and buf: "length buf1 = codedBlockSize c" "length buf2 = codedBlockSize c" and "\<not> isBypassing ch"
    and n: "n = length input div uncodedBlockSize c + 1"
  shows "ch_encode input codeType buf1 buf2 ch = Inr (n * codedBlockSize c, concat (map (sent_block co c input) [0..<n]), ch)"
proof -
  have "set_coder ch k (co\<lparr>encoderState := enc_state c input n, decoderState := d\<rparr>) = ch"
    using same_coder [OF fit(4)] enc_state_end [OF fit(1), of input] unfolding n by (simp only:)
  with encode_blocks [OF fit n buf, of n] obtain b1 b2 where
    "sum_fold (encode_block input codeType n) [0..<n] (buf1, buf2, [], ch)
      = Inr (b1, b2, concat (map (sent_block co c input) [0..<n]), ch)" by auto
  then show ?thesis using assms(7) unfolding ch_encode_def Let_def fit(2) n [symmetric] by simp
qed

subsection \<open>Decoding a burst\<close>

lemma length_sent_block [simp]: "length (sent_block co c input i) = codedBlockSize c"
  "length (coded_block co c input i) = codedBlockSize c"
  by (simp_all add: sent_block_def coded_block_def)

lemma deinterleave_sent:
  assumes "fits c co" "coding ch codeType = c" "take (codedBlockSize c) inp = sent_block co c input i"
    and "codedBlockSize c \<le> length buf"
  shows "\<exists>r. deinterleave ch inp buf codeType = Inr r \<and> length r = length buf
    \<and> take (codedBlockSize c) r = coded_block co c input i"
proof -
  let ?C = "codedBlockSize c"
  have m: "mode_ok c" "Ncbps c = 8 * ?C" using assms(1) by (simp_all add: fits_def)
  have "?C \<le> length inp" using arg_cong [OF assms(3), of length] by simp
  moreover have "deinterleave_pos c j < 8 * ?C" if "j < 8 * ?C" for j using deinterleave_less [OF m(1)] that m(2) by simp
  ultimately obtain r where r: "move_bits (deinterleave_pos c) (8 * ?C) inp buf = Inr r" "length r = length buf"
    "take ?C r = permuted (deinterleave_pos c) (take ?C inp)"
    using move_bits_spec [of ?C "deinterleave_pos c" inp buf] assms(4) by auto
  have "permuted (deinterleave_pos c) (sent_block co c input i) = coded_block co c input i"
    unfolding sent_block_def by (rule permuted_permuted) (use interleave_inverse [OF m(1)] m(2) in auto)
  then show ?thesis using r assms(2,3) m(2) by (simp add: deinterleave_def Let_def)
qed

lemma bitat_coded_block:
  "p < 8 * codedBlockSize c \<Longrightarrow> bitat (coded_block co c input i) p
    = coded co (bitat (codeword c input i)) (enc_state c input i) (steps c) ! p"
  by (simp add: coded_block_def bitat_of_bits)

lemma decode_code:
  assumes fit: "fits c co" and x: "x * PLen co = steps c" "x * rate co = 8 * codedBlockSize c" "l \<le> x"
    and i: "i \<le> length input div uncodedBlockSize c"
    and cc: "cc = co\<lparr>encoderState := e, decoderState := d\<rparr>" "follows cc (enc_state c input i)"
    and buf1: "take (codedBlockSize c) buf1 = coded_block co c input i" "(x + l) * rate co \<le> 8 * length buf1"
      "l = 0 \<or> drop (codedBlockSize c) buf1 = coded_block co c input (i + 1)"
    and buf2: "(x + l) * PLen co \<le> 8 * length buf2"
  shows "\<exists>out d'. cc_decode buf1 buf2 (codedBlockSize c * 8) (l * rate co) cc
      = Inr (steps c, out, co\<lparr>encoderState := e, decoderState := d'\<rparr>)
    \<and> length out = length buf2 \<and> take (uncodedBlockSize c + T c * 2) out = codeword c input i
    \<and> follows (co\<lparr>encoderState := e, decoderState := d'\<rparr>) (enc_state c input (Suc i))"
proof -
  let ?C = "codedBlockSize c" and ?cw = "codeword c input i" and ?cw' = "codeword c input (i + 1)"
  let ?t = "enc_state c input i" and ?N = "steps c"
  define b where "b = bitat (?cw @ ?cw')"
  have good: "good_code co" using fit by (simp add: fits_def)
  have gc: "good_code cc" "PLen cc = PLen co" "rate cc = rate co" "coded cc = coded co" using good by (simp_all add: cc(1))
  have lc: "8 * length ?cw = ?N" using codeword_props(2) [OF fit i] by (simp add: steps_def)
  have b1: "b p = bitat ?cw p" if "p < ?N" for p using that lc by (simp add: b_def bitat_append)
  have b2: "b (?N + p) = bitat ?cw' p" for p by (simp add: b_def bitat_append2 flip: lc)
  have N0: "?N mod PLen co = 0" by (simp flip: x(1))
  have lN: "length (coded co f t ?N) = 8 * ?C" for f t
    using length_coded_period [OF good, of f t x] x(1,2) by simp
  have ll: "length (coded co f t (l * PLen co)) = l * rate co" for f t by (rule length_coded_period [OF good])
  have pt: "path b ?t ?N = enc_state c input (Suc i)" using path_cong [of ?N b "bitat ?cw"] b1 by simp
  have le: "l * PLen co \<le> ?N" unfolding x(1) [symmetric] using x(3) by simp
  have cd: "coded co b ?t ((x + l) * PLen co)
    = coded co (bitat ?cw) ?t ?N @ coded co (bitat ?cw') (enc_state c input (i + 1)) (l * PLen co)"
  proof -
    have "coded co b ?t (?N + l * PLen co) = coded co b ?t ?N @ coded co (\<lambda>j. b (?N + j)) (path b ?t ?N) (l * PLen co)"
      by (rule coded_add [OF N0])
    also have "coded co b ?t ?N = coded co (bitat ?cw) ?t ?N" by (rule coded_cong) (rule b1)
    finally show ?thesis using pt by (simp add: b2 add_mult_distrib x(1))
  qed
  have "bitat buf1 p = coded cc b ?t ((x + l) * PLen cc) ! p" if p: "p < (x + l) * rate cc" for p
  proof (cases "p < 8 * ?C")
    case True
    then have "bitat buf1 p = bitat (coded_block co c input i) p" by (simp add: bitat_take flip: buf1(1))
    also have "\<dots> = coded co (bitat ?cw) ?t ?N ! p" by (rule bitat_coded_block [OF True])
    finally show ?thesis unfolding gc cd using True by (simp add: nth_append lN)
  next
    case False
    then have q: "p - 8 * ?C < l * rate co" using p gc(3) x(2) by (simp add: add_mult_distrib)
    then have l: "drop ?C buf1 = coded_block co c input (i + 1)" using buf1(3) by auto
    have lt: "p - 8 * ?C < 8 * ?C" using q mult_le_mono1 [OF x(3), of "rate co"] x(2) by linarith
    have "length (take ?C buf1) = ?C" using buf1(1) by simp
    then have "bitat buf1 p = bitat (drop ?C buf1) (p - 8 * ?C)"
      using bitat_append2 [of "take ?C buf1" "drop ?C buf1" "p - 8 * ?C"] False by simp
    also have "\<dots> = coded co (bitat ?cw') (enc_state c input (i + 1)) ?N ! (p - 8 * ?C)"
      unfolding l by (rule bitat_coded_block [OF lt])
    also have "\<dots> = take (length (coded co (bitat ?cw') (enc_state c input (i + 1)) (l * PLen co)))
        (coded co (bitat ?cw') (enc_state c input (i + 1)) ?N) ! (p - 8 * ?C)"
      using q by (simp add: ll)
    also have "\<dots> = coded co (bitat ?cw') (enc_state c input (i + 1)) (l * PLen co) ! (p - 8 * ?C)"
      by (simp only: coded_prefix [OF le])
    finally show ?thesis unfolding gc cd using False by (simp add: nth_append lN)
  qed
  then have "\<forall>p<(x + l) * rate cc. bitat buf1 p = coded cc b ?t ((x + l) * PLen cc) ! p" by blast
  moreover have mn: "min (x + l) (2 * x) = x + l" using x(3) by simp
  ultimately obtain out d' where o: "cc_decode buf1 buf2 (x * rate cc) (l * rate cc) cc = Inr (x * PLen cc, out, cc\<lparr>decoderState := d'\<rparr>)"
    "length out = length buf2" "\<forall>p<(x + l) * PLen cc. bitat out p = b p"
    "follows (cc\<lparr>decoderState := d'\<rparr>) (path b ?t (x * PLen cc))"
    using cc_decode_block [OF gc(1) cc(2), of x l buf1 b buf2] buf1(2) buf2 by (auto simp: gc(2,3))
  have "bitat out p = bitat ?cw p" if "p < ?N" for p using o(3) b1 [OF that] that gc(2) x(1) by (simp add: add_mult_distrib)
  then have "take (uncodedBlockSize c + T c * 2) out = ?cw"
    using codeword_props(2) [OF fit i] o(2) buf2 x(1) lc
    by (intro bytes_eqI) (auto simp: add_mult_distrib bitat_take steps_def)
  then show ?thesis using o(1,2,4) pt x(1,2) by (auto simp: gc(2,3) cc(1) mult.commute [of _ 8])
qed

lemma concat_take_drop:
  "concat (map (\<lambda>i. take C (drop (i * C) xs)) [0..<n]) = take (n * C) xs" for xs :: "'a list"
proof (induction n)
  case (Suc n)
  have "Suc n * C = n * C + C" by simp
  then show ?case using Suc by (simp add: take_add del: mult_Suc)
qed simp

lemma drop_concat_sent:
  assumes "i < n"
  shows "take (codedBlockSize c) (drop (i * codedBlockSize c) (concat (map (sent_block co c input) [0..<n]))) = sent_block co c input i"
proof -
  have l: "length (concat (map (sent_block co c input) [0..<k])) = k * codedBlockSize c" for k by (induction k) simp_all
  have "[0..<n] = [0..<i] @ i # [Suc i..<n]" using assms upt_add_eq_append [of 0 i "n - i"] by (simp add: upt_conv_Cons)
  then have "concat (map (sent_block co c input) [0..<n]) = concat (map (sent_block co c input) [0..<i])
      @ sent_block co c input i @ concat (map (sent_block co c input) [Suc i..<n])" by simp
  then show ?thesis using l [of i] by simp
qed

lemma decode_block_spec:
  assumes fit: "fits c co" "coding ch codeType = c" "cm_CC c = Some k"
    and co: "coders ch k = co\<lparr>encoderState := e, decoderState := d\<rparr>" "follows (coders ch k) (enc_state c input i)"
    and sent: "take (codedBlockSize c) (drop (i * codedBlockSize c) inp) = sent_block co c input i"
      "take (codedBlockSize c) (drop ((i + 1) * codedBlockSize c) inp) = sent_block co c input (i + 1)"
    and i: "i < length input div uncodedBlockSize c"
    and buf: "length buf1 = codedBlockSize c * 2" "length buf2 = codedBlockSize c"
  shows "\<exists>b1 b2 d'. decode_block inp codeType i (buf1, buf2, out, ch)
      = Inr (b1, b2, out @ take (uncodedBlockSize c) (drop (i * uncodedBlockSize c) (padded (uncodedBlockSize c) input)),
          set_coder ch k (co\<lparr>encoderState := e, decoderState := d'\<rparr>))
    \<and> length b1 = codedBlockSize c * 2 \<and> length b2 = codedBlockSize c
    \<and> follows (co\<lparr>encoderState := e, decoderState := d'\<rparr>) (enc_state c input (Suc i))"
proof -
  let ?U = "uncodedBlockSize c" and ?C = "codedBlockSize c" and ?T2 = "T c * 2"
  have U: "0 < ?U" "?U + ?T2 \<le> ?C" "12 * (?U + ?T2) \<le> 8 * ?C" using fit(1) by (auto simp: fits_def)
  obtain x where x: "x * PLen co = steps c" "x * rate co = 8 * ?C" "even x" using fits_steps [OF fit(1)] by blast
  obtain r1 where r1: "deinterleave ch (drop (i * ?C) inp) buf1 codeType = Inr r1" "length r1 = ?C * 2"
    "take ?C r1 = coded_block co c input i"
    using deinterleave_sent [OF fit(1,2) sent(1), of buf1] buf(1) by auto
  obtain r2 where r2: "deinterleave ch (drop ((i + 1) * ?C) inp) (drop ?C r1) codeType = Inr r2" "length r2 = ?C"
    "take ?C r2 = coded_block co c input (i + 1)"
    using deinterleave_sent [OF fit(1,2) sent(2), of "drop ?C r1"] r1(2) by auto
  define bf where "bf = take ?C r1 @ r2"
  have bf: "take ?C bf = coded_block co c input i" "drop ?C bf = coded_block co c input (i + 1)" "length bf = ?C * 2"
    using r1 r2 by (simp_all add: bf_def)
  define l where "l = x div 2"
  have l: "x = 2 * l" using x(3) by (simp add: l_def)
  have lr: "l * rate co = 8 * ?C div 2" using x(2) by (simp add: l)
  have lp: "2 * (l * PLen co) = steps c" using x(1) by (simp add: l)
  have s1: "(x + l) * rate co \<le> 8 * length bf" using x(2) lr bf(3) by (simp add: add_mult_distrib)
  have s2: "(x + l) * PLen co \<le> 8 * length buf2"
    using x(1) lp U(3) buf(2) by (simp add: add_mult_distrib steps_def)
  have "l \<le> x" "i \<le> length input div ?U" using l i by simp_all
  from decode_code [OF fit(1) x(1,2) this co(1) _ bf(1) s1 disjI2 [OF bf(2)] s2] co obtain o1 d' where
    o1: "cc_decode bf buf2 (?C * 8) (8 * ?C div 2) (coders ch k) = Inr (steps c, o1, co\<lparr>encoderState := e, decoderState := d'\<rparr>)"
    "length o1 = ?C" "take (?U + ?T2) o1 = codeword c input i"
    "follows (co\<lparr>encoderState := e, decoderState := d'\<rparr>) (enc_state c input (Suc i))"
    unfolding lr buf(2) by auto
  have dec: "rs_decode (take (?U + ?T2) o1) ?T2 = Inr (block_data ?U input i)"
    unfolding o1(3) using codeword_props(3) [OF fit(1), of i input] i by simp
  define data where "data = block_data ?U input i"
  have ld: "length data = ?U" unfolding data_def using U(1) i by (intro block_bytes(4)) simp_all
  define b1 where "b1 = data @ drop (length data) bf"
  have b1: "length b1 = ?C * 2" "take ?U b1 = data" using ld bf(3) U(2) by (simp_all add: b1_def)
  have data: "data = scramble (take ?U (drop (i * ?U) (padded ?U input)))" using i by (simp add: data_def block_data_def)
  obtain b2 where b2: "randomize b1 o1 (?U * 8) = Inr b2" "length b2 = ?C" "take ?U b2 = scramble data"
    using randomize_spec [of ?U b1 o1] b1 o1(2) U(2) by auto
  have "take ?U b2 = take ?U (drop (i * ?U) (padded ?U input))" unfolding b2(3) data by (rule scramble_scramble)
  then show ?thesis
    unfolding decode_block_def prod.case Let_def fit(2) r1(1) sum_bind.simps r2(1) bf_def [symmetric] coder_of_def
      fit(3) option.case o1(1) dec data_def [symmetric] b1_def [symmetric] derandomize_def b2(1)
    using b1(1) b2(2) o1(4) by auto
qed

lemma decode_last_spec:
  assumes fit: "fits c co" "coding ch codeType = c" "cm_CC c = Some k"
    and co: "coders ch k = co\<lparr>encoderState := e, decoderState := d\<rparr>" "follows (coders ch k) (enc_state c input i)"
    and sent: "take (codedBlockSize c) (drop (i * codedBlockSize c) inp) = sent_block co c input i"
    and i: "i = length input div uncodedBlockSize c"
    and buf: "length buf1 = codedBlockSize c * 2" "length buf2 = codedBlockSize c"
  shows "\<exists>b1 b2 d'. decode_last inp codeType i (buf1, buf2, out, ch)
      = Inr (b1, b2, out @ take (uncodedBlockSize c) (drop (i * uncodedBlockSize c) (padded (uncodedBlockSize c) input)),
          set_coder ch k (co\<lparr>encoderState := e, decoderState := d'\<rparr>))"
proof -
  let ?U = "uncodedBlockSize c" and ?C = "codedBlockSize c" and ?T2 = "T c * 2"
  have U: "0 < ?U" "?U + ?T2 \<le> ?C" using fit(1) by (auto simp: fits_def)
  obtain x where x: "x * PLen co = steps c" "x * rate co = 8 * ?C" using fits_steps [OF fit(1)] by blast
  obtain bf where bf: "deinterleave ch (drop (i * ?C) inp) buf1 codeType = Inr bf" "length bf = ?C * 2"
    "take ?C bf = coded_block co c input i"
    using deinterleave_sent [OF fit(1,2) sent(1), of buf1] buf(1) by auto
  have s: "(x + 0) * rate co \<le> 8 * length bf" "(x + 0) * PLen co \<le> 8 * length buf2"
    using x bf(2) buf(2) U(2) by (simp_all add: steps_def)
  have "0 \<le> x" "i \<le> length input div ?U" using i by simp_all
  from decode_code [OF fit(1) x(1,2) this co(1) _ bf(3) s(1) disjI1 [OF refl] s(2)] co obtain o1 d' where
    o1: "cc_decode bf buf2 (?C * 8) 0 (coders ch k) = Inr (steps c, o1, co\<lparr>encoderState := e, decoderState := d'\<rparr>)"
    "length o1 = ?C" "take (?U + ?T2) o1 = codeword c input i"
    unfolding buf(2) by auto
  define data where "data = block_data ?U input i"
  have ld: "length data = ?U" unfolding data_def using U(1) i by (intro block_bytes(4)) simp_all
  define D where "D = take ?U (drop (i * ?U) (padded ?U input))"
  have data: "data = scramble D @ [0]" using i by (simp add: data_def block_data_def D_def)
  then have lD: "length D = ?U - 1" using ld by simp
  obtain xs where cw: "codeword c input i = xs @ [0]" "length (xs @ [0 :: u8]) = ?U + ?T2"
  proof -
    obtain ys where "codeword c input i = ys @ data"
      using codeword_props(1) [OF fit(1), of i input] i unfolding data_def by auto
    then show ?thesis using that [of "ys @ scramble D"] codeword_props(2) [OF fit(1), of i input] i data by simp
  qed
  have st: "store_byte o1 (?U + ?T2 - 1) 0 = Inr (o1[?U + ?T2 - 1 := 0])" using o1(2) U by (simp add: store_byte_def)
  have "?U + ?T2 - 1 = length xs" using cw(2) by simp
  then have tk: "take (?U + ?T2) (o1[?U + ?T2 - 1 := 0]) = codeword c input i"
    unfolding take_update_swap o1(3) cw(1) by simp
  have dec: "rs_decode (take (?U + ?T2) (o1[?U + ?T2 - 1 := 0])) ?T2 = Inr data"
    unfolding tk data_def using codeword_props(3) [OF fit(1), of i input] i by simp
  define b1 where "b1 = data @ drop (length data) bf"
  have b1: "length b1 = ?C * 2" "take (?U - 1) b1 = scramble D"
    using ld bf(2) U(2) lD by (simp_all add: b1_def data)
  have le: "?U - 1 \<le> length b1" "?U - 1 \<le> length (o1[?U + ?T2 - 1 := 0])" using U(2) b1(1) o1(2) by simp_all
  obtain b2 where b2: "randomize b1 (o1[?U + ?T2 - 1 := 0]) ((?U - 1) * 8) = Inr b2" "take (?U - 1) b2 = scramble (scramble D)"
    using randomize_spec [OF le(1,2)] b1(2) by metis
  show ?thesis
    unfolding decode_last_def prod.case Let_def fit(2) bf(1) sum_bind.simps coder_of_def
      fit(3) option.case o1(1) st dec b1_def [symmetric] derandomize_def b2(1)
    using b2(2) by (auto simp: scramble_scramble D_def)
qed

lemma decode_blocks:
  assumes fit: "fits c co" "coding ch codeType = c" "cm_CC c = Some k"
    and co: "coders ch k = co\<lparr>encoderState := e, decoderState := d\<rparr>" "follows (coders ch k) 0"
    and n: "n = length input div uncodedBlockSize c + 1" "inp = concat (map (sent_block co c input) [0..<n])"
    and buf: "length buf1 = codedBlockSize c * 2" "length buf2 = codedBlockSize c"
  shows "m < n \<Longrightarrow> \<exists>b1 b2 d'. sum_fold (decode_block inp codeType) [0..<m] (buf1, buf2, [], ch)
      = Inr (b1, b2, take (m * uncodedBlockSize c) (padded (uncodedBlockSize c) input),
          set_coder ch k (co\<lparr>encoderState := e, decoderState := d'\<rparr>))
    \<and> length b1 = codedBlockSize c * 2 \<and> length b2 = codedBlockSize c
    \<and> follows (co\<lparr>encoderState := e, decoderState := d'\<rparr>) (enc_state c input m)"
proof (induction m)
  case 0
  show ?case using co same_coder [OF co(1)]
    by (intro exI [of _ buf1] exI [of _ buf2] exI [of _ d]) (simp add: buf)
next
  case (Suc m)
  let ?U = "uncodedBlockSize c"
  obtain b1 b2 d1 where b: "sum_fold (decode_block inp codeType) [0..<m] (buf1, buf2, [], ch)
      = Inr (b1, b2, take (m * ?U) (padded ?U input), set_coder ch k (co\<lparr>encoderState := e, decoderState := d1\<rparr>))"
    "length b1 = codedBlockSize c * 2" "length b2 = codedBlockSize c"
    "follows (co\<lparr>encoderState := e, decoderState := d1\<rparr>) (enc_state c input m)"
    using Suc by auto
  define ch' where "ch' = set_coder ch k (co\<lparr>encoderState := e, decoderState := d1\<rparr>)"
  have c': "coding ch' codeType = c" "coders ch' k = co\<lparr>encoderState := e, decoderState := d1\<rparr>"
    using fit(2) by (simp_all add: ch'_def)
  have s: "take (codedBlockSize c) (drop (m * codedBlockSize c) inp) = sent_block co c input m"
    "take (codedBlockSize c) (drop ((m + 1) * codedBlockSize c) inp) = sent_block co c input (m + 1)"
    unfolding n(2) by (rule drop_concat_sent, use Suc.prems in simp)+
  have "m < length input div ?U" using Suc.prems n(1) by simp
  from decode_block_spec [OF fit(1) c'(1) fit(3) c'(2) b(4)[folded c'(2)] s this b(2,3), of "take (m * ?U) (padded ?U input)"]
  obtain b1' b2' d2 where d: "decode_block inp codeType m (b1, b2, take (m * ?U) (padded ?U input), ch')
      = Inr (b1', b2', take (m * ?U) (padded ?U input) @ take ?U (drop (m * ?U) (padded ?U input)),
          set_coder ch' k (co\<lparr>encoderState := e, decoderState := d2\<rparr>))"
    "length b1' = codedBlockSize c * 2" "length b2' = codedBlockSize c"
    "follows (co\<lparr>encoderState := e, decoderState := d2\<rparr>) (enc_state c input (Suc m))" by blast
  have "take (m * ?U) (padded ?U input) @ take ?U (drop (m * ?U) (padded ?U input)) = take (Suc m * ?U) (padded ?U input)"
    by (simp add: add.commute [of ?U] flip: take_add)
  then show ?case using b(1) d by (simp add: sum_fold_append ch'_def [symmetric] del: enc_state.simps)
     (simp add: ch'_def del: enc_state.simps, blast)
qed

lemma ch_decode_spec:
  assumes fit: "fits c co" "coding ch codeType = c" "cm_CC c = Some k"
    and co: "coders ch k = co\<lparr>encoderState := e, decoderState := d\<rparr>" "GLen co = 7" and "\<not> isBypassing ch"
    and n: "n = length input div uncodedBlockSize c + 1" "inp = concat (map (sent_block co c input) [0..<n])"
    and buf: "length buf1 = codedBlockSize c * 2" "length buf2 = codedBlockSize c"
  shows "\<exists>d'. ch_decode inp codeType buf1 buf2 ch = Inr (int (n * uncodedBlockSize c) - 1, padded (uncodedBlockSize c) input,
    set_coder ch k (co\<lparr>encoderState := e, decoderState := d'\<rparr>))"
proof -
  let ?U = "uncodedBlockSize c" and ?C = "codedBlockSize c"
  define ch0 where "ch0 = set_coder ch k (resetDecoderState (coders ch k))"
  have f0: "follows (coders ch0 k) 0" by (simp add: ch0_def follows_reset co)
  obtain d0 where co0: "coders ch0 k = co\<lparr>encoderState := e, decoderState := d0\<rparr>"
    by (simp add: ch0_def resetDecoderState_def co(1))
  have c0: "coding ch0 codeType = c" by (simp add: ch0_def fit(2))
  have "?U \<noteq> 0" "?C \<noteq> 0" using fit(1) by (auto simp: fits_def)
  have "length (concat (map (sent_block co c input) [0..<j])) = j * ?C" for j by (induction j) simp_all
  then have nb: "length inp div ?C = n" using n(2) \<open>?C \<noteq> 0\<close> by simp
  have n1: "n - 1 < n" "n - 1 = length input div ?U" using n(1) by simp_all
  obtain b1 b2 d1 where b: "sum_fold (decode_block inp codeType) [0..<n - 1] (buf1, buf2, [], ch0)
      = Inr (b1, b2, take ((n - 1) * ?U) (padded ?U input), set_coder ch0 k (co\<lparr>encoderState := e, decoderState := d1\<rparr>))"
    "length b1 = ?C * 2" "length b2 = ?C" "follows (co\<lparr>encoderState := e, decoderState := d1\<rparr>) (enc_state c input (n - 1))"
    using decode_blocks [OF fit(1) c0 fit(3) co0 f0 n buf n1(1)] by blast
  define ch1 where "ch1 = set_coder ch0 k (co\<lparr>encoderState := e, decoderState := d1\<rparr>)"
  have c1: "coding ch1 codeType = c" "coders ch1 k = co\<lparr>encoderState := e, decoderState := d1\<rparr>"
    using c0 by (simp_all add: ch1_def)
  have s: "take ?C (drop ((n - 1) * ?C) inp) = sent_block co c input (n - 1)"
    unfolding n(2) by (rule drop_concat_sent [OF n1(1)])
  obtain b1' b2' d2 where l: "decode_last inp codeType (n - 1) (b1, b2, take ((n - 1) * ?U) (padded ?U input), ch1)
      = Inr (b1', b2', take ((n - 1) * ?U) (padded ?U input) @ take ?U (drop ((n - 1) * ?U) (padded ?U input)),
          set_coder ch1 k (co\<lparr>encoderState := e, decoderState := d2\<rparr>))"
    using decode_last_spec [OF fit(1) c1(1) fit(3) c1(2) b(4)[folded c1(2)] s n1(2) b(2,3)] by blast
  have "length (padded ?U input) = n * ?U - 1" using length_padded(1) [of ?U input] \<open>?U \<noteq> 0\<close> n(1) by simp
  moreover have "n * ?U = (n - 1) * ?U + ?U" using n(1) by simp
  ultimately have "take ((n - 1) * ?U) (padded ?U input) @ take ?U (drop ((n - 1) * ?U) (padded ?U input)) = padded ?U input"
    by (simp flip: take_add)
  moreover have "set_coder ch1 k co' = set_coder ch k co'" for co' by (simp add: ch1_def ch0_def)
  ultimately show ?thesis
    using assms(6) b(1) l unfolding ch_decode_def Let_def fit(2) nb coder_of_def fit(3) option.case sum_bind.simps
      ch0_def [symmetric] ch1_def [symmetric]
    by (intro exI [of _ d2]) simp
qed

subsection \<open>Senders and receivers\<close>

text \<open>The state of an object of the class, coding enabled, between calls.\<close>

definition ready :: "ChannelCoding \<Rightarrow> bool" where
  "ready ch \<longleftrightarrow> \<not> isBypassing ch \<and> coding ch = coding (ChannelCoding_new True ch)
     \<and> (\<forall>k. \<exists>d. coders ch k = (new_coder k)\<lparr>encoderState := 0, decoderState := d\<rparr>)"

lemma new_coding: "coding (ChannelCoding_new e ch) = coding (ChannelCoding_new e ch')"
  by (rule ext, rename_tac m, case_tac m) (simp_all add: ChannelCoding_new_def initCoding_def Let_def)

lemma ready_new: "ready (ChannelCoding_new True ch)"
proof -
  have c: "coders (ChannelCoding_new True ch) = new_coder" "\<not> isBypassing (ChannelCoding_new True ch)"
    by (simp_all add: ChannelCoding_new_def initCoding_def Let_def)
  have "encoderState (new_coder k) = 0" for k by (cases k) simp_all
  then have "new_coder k = (new_coder k)\<lparr>encoderState := 0, decoderState := decoderState (new_coder k)\<rparr>" for k
    using ConvoCode.surjective [of "new_coder k"] by (metis (full_types) ConvoCode.update_convs(9,10) old.unit.exhaust)
  then show ?thesis using c new_coding [of True ch "ChannelCoding_new True ch"] unfolding ready_def by metis
qed

lemma modes:
  assumes "ready ch"
  shows "coding ch BPSK_1_2 = \<lparr>uncodedBlockSize = 12, codedBlockSize = 24, T = 0, cm_CC = Some CC_1_2, Ncbps = 192, Ncpc = 1\<rparr>"
    "coding ch QPSK_3_4 = \<lparr>uncodedBlockSize = 36, codedBlockSize = 48, T = 2, cm_CC = Some CC_5_6, Ncbps = 384, Ncpc = 2\<rparr>"
    "coding ch QAM16_1_2 = \<lparr>uncodedBlockSize = 48, codedBlockSize = 96, T = 8, cm_CC = Some CC_2_3, Ncbps = 768, Ncpc = 4\<rparr>"
    "coding ch QAM16_3_4 = \<lparr>uncodedBlockSize = 72, codedBlockSize = 96, T = 4, cm_CC = Some CC_5_6, Ncbps = 768, Ncpc = 4\<rparr>"
    "coding ch QAM64_2_3 = \<lparr>uncodedBlockSize = 96, codedBlockSize = 144, T = 6, cm_CC = Some CC_3_4, Ncbps = 1152, Ncpc = 6\<rparr>"
    "coding ch QAM64_3_4 = \<lparr>uncodedBlockSize = 108, codedBlockSize = 144, T = 6, cm_CC = Some CC_5_6, Ncbps = 1152, Ncpc = 6\<rparr>"
proof -
  have e: "coding ch m = coding (ChannelCoding_new True ch) m" for m using assms by (metis ready_def)
  note new = ChannelCoding_new_def initCoding_def Let_def
  show "coding ch BPSK_1_2 = \<lparr>uncodedBlockSize = 12, codedBlockSize = 24, T = 0, cm_CC = Some CC_1_2, Ncbps = 192, Ncpc = 1\<rparr>" by (subst e) (simp add: new)
  show "coding ch QPSK_3_4 = \<lparr>uncodedBlockSize = 36, codedBlockSize = 48, T = 2, cm_CC = Some CC_5_6, Ncbps = 384, Ncpc = 2\<rparr>" by (subst e) (simp add: new)
  show "coding ch QAM16_1_2 = \<lparr>uncodedBlockSize = 48, codedBlockSize = 96, T = 8, cm_CC = Some CC_2_3, Ncbps = 768, Ncpc = 4\<rparr>" by (subst e) (simp add: new)
  show "coding ch QAM16_3_4 = \<lparr>uncodedBlockSize = 72, codedBlockSize = 96, T = 4, cm_CC = Some CC_5_6, Ncbps = 768, Ncpc = 4\<rparr>" by (subst e) (simp add: new)
  show "coding ch QAM64_2_3 = \<lparr>uncodedBlockSize = 96, codedBlockSize = 144, T = 6, cm_CC = Some CC_3_4, Ncbps = 1152, Ncpc = 6\<rparr>" by (subst e) (simp add: new)
  show "coding ch QAM64_3_4 = \<lparr>uncodedBlockSize = 108, codedBlockSize = 144, T = 6, cm_CC = Some CC_5_6, Ncbps = 1152, Ncpc = 6\<rparr>" by (subst e) (simp add: new)
qed

lemma fits_modes:
  assumes "ready ch"
  shows "fits (coding ch BPSK_1_2) (new_coder CC_1_2)" "fits (coding ch QAM16_1_2) (new_coder CC_2_3)"
  using good_codes(1,2) rates(1,2)
  by (simp_all add: modes [OF assms] fits_def mode_ok_def steps_def)

lemma GLen_CC: "GLen (new_coder k) = 7"
  using CC_tables by (cases k) (simp_all add: std_tables_def)

lemma ready_set_coder:
  "ready ch \<Longrightarrow> ready (set_coder ch k ((new_coder k)\<lparr>encoderState := 0, decoderState := d\<rparr>))"
  using new_coding [of True ch "set_coder ch k ((new_coder k)\<lparr>encoderState := 0, decoderState := d\<rparr>)"]
  by (auto simp: ready_def)

lemma round_trip_mode:
  assumes tx: "ready tx" and rx: "ready rx" and c: "coding tx mode = c" "cm_CC c = Some k" "fits c (new_coder k)"
    and buf: "length b1 = codedBlockSize c" "length b2 = codedBlockSize c" "length d1 = codedBlockSize c * 2" "length d2 = codedBlockSize c"
  shows "\<exists>sent rx'. ch_encode input mode b1 b2 tx = Inr (getCodedBurstLen tx (length input) mode, sent, tx)
    \<and> length sent = getCodedBurstLen tx (length input) mode
    \<and> ch_decode sent mode d1 d2 rx = Inr (getUncodedBurstLen rx (length sent) mode, padded (uncodedBlockSize c) input, rx')
    \<and> ready rx'"
proof -
  define n where "n = length input div uncodedBlockSize c + 1"
  define sent where "sent = concat (map (sent_block (new_coder k) c input) [0..<n])"
  have cr: "coding rx mode = c" using tx rx c(1) new_coding [of True tx rx] by (simp add: ready_def)
  obtain dt where dt: "coders tx k = (new_coder k)\<lparr>encoderState := 0, decoderState := dt\<rparr>" using tx by (auto simp: ready_def)
  obtain dr where dr: "coders rx k = (new_coder k)\<lparr>encoderState := 0, decoderState := dr\<rparr>" using rx by (auto simp: ready_def)
  have "length (concat (map (sent_block (new_coder k) c input) [0..<j])) = j * codedBlockSize c" for j by (induction j) simp_all
  then have len: "length sent = n * codedBlockSize c" by (simp add: sent_def)
  have e: "ch_encode input mode b1 b2 tx = Inr (n * codedBlockSize c, sent, tx)"
    using ch_encode_spec [OF c(3,1,2) dt buf(1,2) _ n_def] tx by (simp add: sent_def ready_def)
  obtain d where d: "ch_decode sent mode d1 d2 rx = Inr (int (n * uncodedBlockSize c) - 1, padded (uncodedBlockSize c) input,
      set_coder rx k ((new_coder k)\<lparr>encoderState := 0, decoderState := d\<rparr>))"
    using ch_decode_spec [OF c(3) cr c(2) dr GLen_CC _ n_def sent_def buf(3,4)] rx by (auto simp: ready_def)
  have "codedBlockSize c \<noteq> 0" using c(3) by (auto simp: fits_def)
  then have "getUncodedBurstLen rx (length sent) mode = int (n * uncodedBlockSize c) - 1"
    "getCodedBurstLen tx (length input) mode = n * codedBlockSize c"
    by (simp_all add: getUncodedBurstLen_def getCodedBurstLen_def Let_def cr c(1) len n_def algebra_simps)
  then show ?thesis using e d len ready_set_coder [OF rx, of k d] by auto
qed

text \<open>
  C4: what a receiver decodes of a burst in the modes \<open>BPSK_1_2\<close> and \<open>QAM16_1_2\<close> is what the sender encoded,
  of any length and whatever the buffers held, with bytes 0xFF up to the end of the last block; sender and
  receiver are ready for the next burst.
\<close>

theorem decode_encode:
  assumes "ready tx" "ready rx" "mode \<in> {BPSK_1_2, QAM16_1_2}"
    and "length b1 = getCodedBlockSize tx mode" "length b2 = getCodedBlockSize tx mode"
    and "length d1 = getCodedBlockSize tx mode * 2" "length d2 = getCodedBlockSize tx mode"
  shows "\<exists>sent rx'. ch_encode input mode b1 b2 tx = Inr (getCodedBurstLen tx (length input) mode, sent, tx)
    \<and> length sent = getCodedBurstLen tx (length input) mode
    \<and> ch_decode sent mode d1 d2 rx
        = Inr (getUncodedBurstLen rx (length sent) mode, padded (getUncodedBlockSize tx mode) input, rx')
    \<and> ready rx'"
proof -
  obtain k where "cm_CC (coding tx mode) = Some k" "fits (coding tx mode) (new_coder k)"
    using assms(3) fits_modes [OF assms(1)] modes [OF assms(1)] by (cases "mode = BPSK_1_2") auto
  then show ?thesis using round_trip_mode [OF assms(1,2) refl] assms(4-7)
    by (simp add: getCodedBlockSize_def getUncodedBlockSize_def)
qed

theorem decode_encode_witness:
  "\<forall>ch. \<exists>sent rx'. ch_encode (replicate 100 7) QAM16_1_2 (replicate 96 1) (replicate 96 2) (ChannelCoding_new True ch)
        = Inr (288, sent, ChannelCoding_new True ch)
    \<and> ch_decode sent QAM16_1_2 (replicate 192 3) (replicate 96 4) (ChannelCoding_new True ch)
        = Inr (143, padded 48 (replicate 100 7), rx') \<and> ready rx'"
  (is "\<forall>ch. ?P ch")
proof
  fix ch
  let ?c = "ChannelCoding_new True ch"
  note m = modes(3) [OF ready_new]
  have g: "getCodedBlockSize ?c QAM16_1_2 = 96" "getUncodedBlockSize ?c QAM16_1_2 = 48" "getCodedBurstLen ?c 100 QAM16_1_2 = 288"
    "getUncodedBurstLen ?c 288 QAM16_1_2 = 143"
    by (simp_all add: getCodedBlockSize_def getUncodedBlockSize_def getCodedBurstLen_def getUncodedBurstLen_def m)
  from decode_encode [OF ready_new ready_new, of QAM16_1_2 "replicate 96 1" ch "replicate 96 2" "replicate 192 3" "replicate 96 4" "replicate 100 7" ch]
  show "?P ch" by (auto simp: g)
qed

subsection \<open>Bursts that do not fit\<close>

text \<open>A call that can only fail by an access outside of an array.\<close>

definition in_bounds_or_returns :: "abort + 'a \<Rightarrow> bool" where
  "in_bounds_or_returns r \<longleftrightarrow> (\<exists>x. r = Inr x) \<or> r = Inl OutOfBounds"

lemma in_bounds_bind:
  "in_bounds_or_returns r \<Longrightarrow> (\<And>x. r = Inr x \<Longrightarrow> in_bounds_or_returns (f x)) \<Longrightarrow> in_bounds_or_returns (sum_bind r f)"
  by (cases r) (auto simp: in_bounds_or_returns_def)

lemma in_bounds_bind2:
  "in_bounds_or_returns r \<Longrightarrow> (\<And>x y. in_bounds_or_returns (f x y)) \<Longrightarrow> in_bounds_or_returns (sum_bind r (\<lambda>(x, y). f x y))"
  by (cases r) (auto simp: in_bounds_or_returns_def)

lemma in_bounds_fold: "(\<And>x s. in_bounds_or_returns (f x s)) \<Longrightarrow> in_bounds_or_returns (sum_fold f xs s)"
  by (induction xs arbitrary: s) (simp_all add: in_bounds_bind, simp add: in_bounds_or_returns_def)

lemma in_bounds_trellis: "in_bounds_or_returns (trellis cc inp limit cols i consumed g0)"
proof (induction cc inp limit cols i consumed g0 rule: trellis.induct)
  case (1 cc inp limit cols i consumed g)
  have t: "in_bounds_or_returns (take_bit_in inp tk n)" for tk n by (simp add: in_bounds_or_returns_def take_bit_in_def)
  show ?case
  proof (cases "consumed < limit \<and> \<not> i \<ge> cols")
    case True
    have "in_bounds_or_returns (sum_bind (take_bit_in inp (taken (PX cc) (PLen cc - i mod PLen cc - 1)) consumed) (\<lambda>(x, consumed).
        sum_bind (take_bit_in inp (taken (PY cc) (PLen cc - i mod PLen cc - 1)) consumed) (\<lambda>(y, consumed).
          trellis cc inp limit cols (i + 1) consumed (fold (branch cc i x y) (branches (2 ^ (GLen cc - 1))) g))))"
      using True by (intro in_bounds_bind2 t 1 [OF _ _ refl]) simp_all
    moreover have "consumed < limit" "\<not> i \<ge> cols" using True by simp_all
    ultimately show ?thesis by (subst trellis.simps) (simp only: if_True if_False Let_def)
  next
    case False
    then show ?thesis by (subst trellis.simps) (auto simp: in_bounds_or_returns_def)
  qed
qed

lemma cc_decode_overflow:
  fixes inputLen lookahead :: nat and cc :: ConvoCode
  defines "r \<equiv> nat (BITCOUNT (PX cc) + BITCOUNT (PY cc))"
  defines "w \<equiv> min ((inputLen + lookahead) * PLen cc div r * 2 div 2) (inputLen * PLen cc div r * 2)"
  assumes "8 * length out < w"
  shows "cc_decode inp out inputLen lookahead cc = Inl OutOfBounds"
proof -
  have w: "0 < w" "\<not> (w - 1) div 8 < length out" using assms(3) by (auto simp: div_less_iff_less_mult)
  have sb: "in_bounds_or_returns (step_back sz fr i s)" for sz fr i s by (simp add: in_bounds_or_returns_def step_back_def)
  have rv: "rev [1..<w + 1] = w # rev [1..<w]" using w(1) by simp
  have bt: "backtrack_bit sz fr w (state, out) = Inl OutOfBounds" for sz fr state
    using sb [of sz fr w state] w(2) by (auto simp: backtrack_bit_def in_bounds_or_returns_def)
  have fail: "sum_bind q f = Inl OutOfBounds" if "in_bounds_or_returns q" "\<And>x. f x = Inl OutOfBounds" for q :: "abort + 'x" and f :: "'x \<Rightarrow> abort + 'y"
    using that by (cases q) (auto simp: in_bounds_or_returns_def)
  have fail2: "sum_bind q (\<lambda>(x, y). f x y) = Inl OutOfBounds"
    if "in_bounds_or_returns q" "\<And>x y. f x y = Inl OutOfBounds" for q :: "abort + 'x \<times> 'z" and f :: "'x \<Rightarrow> 'z \<Rightarrow> abort + 'y"
    using that by (cases q) (auto simp: in_bounds_or_returns_def)
  have opt: "(case z of None \<Rightarrow> Inl OutOfBounds | Some x \<Rightarrow> f x) = Inl OutOfBounds" if "\<And>x. f x = Inl OutOfBounds"
    for z :: "'x option" and f :: "'x \<Rightarrow> abort + 'y"
    using that by (cases z) auto
  show ?thesis
    unfolding cc_decode_def Let_def r_def [symmetric] w_def [symmetric]
    by (intro fail2 [OF in_bounds_trellis] opt fail [OF in_bounds_fold [OF sb]])
       (simp only: rv sum_fold.simps bt sum_bind.simps)
qed

text \<open>
  C33: a received burst of two or more blocks in one of the modes with a code rate of 2/3 or 3/4 makes \<open>decode\<close>
  write behind the end of its buffer \<open>buf2\<close>, whatever the burst holds: the convolutional decoder writes the
  bits it looks ahead at, too.
\<close>

theorem long_bursts_overflow:
  assumes "ready ch" "mode \<in> {QPSK_3_4, QAM16_3_4, QAM64_2_3, QAM64_3_4}"
    and "2 * getCodedBlockSize ch mode \<le> length input"
    and "length buf1 = getCodedBlockSize ch mode * 2" "length buf2 = getCodedBlockSize ch mode"
  shows "ch_decode input mode buf1 buf2 ch = Inl OutOfBounds"
proof -
  define c where "c = coding ch mode"
  define C where "C = codedBlockSize c"
  obtain k where k: "cm_CC c = Some k" "mode_ok c" "Ncbps c = 8 * C" "0 < C"
    "8 * C < min ((C * 8 + 8 * C div 2) * PLen (new_coder k) div rate (new_coder k)) (C * 8 * PLen (new_coder k) div rate (new_coder k) * 2)"
    using assms(2) by (auto simp: c_def C_def modes [OF assms(1)] mode_ok_def rates)
  have len: "2 * C \<le> length input" "length buf1 = C * 2" "length buf2 = C"
    using assms(3-5) by (simp_all add: getCodedBlockSize_def c_def C_def)
  have pos: "\<And>i. i < 8 * C \<Longrightarrow> deinterleave_pos c i < 8 * C" using deinterleave_less [OF k(2)] k(3) by simp
  define ch0 where "ch0 = set_coder ch k (resetDecoderState (coders ch k))"
  have c0: "coding ch0 mode = c" by (simp add: ch0_def c_def)
  have di: "\<exists>r. deinterleave ch0 inp buf mode = Inr r \<and> length r = length buf" if "C \<le> length inp" "C \<le> length buf" for inp buf
    using move_bits_spec [of C "deinterleave_pos c", OF pos that] by (auto simp: deinterleave_def c0 k(3))
  obtain r1 where r1: "deinterleave ch0 input buf1 mode = Inr r1" "length r1 = C * 2"
    using di [of input buf1] len by auto
  obtain r2 where r2: "deinterleave ch0 (drop C input) (drop C r1) mode = Inr r2"
    using di [of "drop C input" "drop C r1"] len(1) r1(2) by (simp add: le_diff_conv2) blast
  obtain d where "coders ch k = (new_coder k)\<lparr>encoderState := 0, decoderState := d\<rparr>"
    using assms(1) by (auto simp: ready_def)
  then have co: "GLen (coders ch0 k) = 7" "PLen (coders ch0 k) = PLen (new_coder k)"
    "nat (BITCOUNT (PX (coders ch0 k)) + BITCOUNT (PY (coders ch0 k))) = rate (new_coder k)"
    by (simp_all add: ch0_def resetDecoderState_def GLen_CC rate_def)
  have "cc_decode (take C r1 @ r2) buf2 (C * 8) (8 * C div 2) (coders ch0 k) = Inl OutOfBounds"
    by (rule cc_decode_overflow) (use k(5) len(3) in \<open>simp add: co(2,3)\<close>)
  then have blk: "decode_block input mode 0 (buf1, buf2, [], ch0) = Inl OutOfBounds"
    using r1(1) r2 k(1) by (simp add: decode_block_def Let_def c0 C_def [symmetric] coder_of_def)
  have "2 \<le> length input div C" using len(1) k(4) by (simp add: less_eq_div_iff_mult_less_eq)
  then have u: "[0..<length input div C - 1] = 0 # [1..<length input div C - 1]" by (simp add: upt_conv_Cons)
  have "\<not> isBypassing ch" using assms(1) by (simp add: ready_def)
  then show ?thesis
    unfolding ch_decode_def Let_def coder_of_def c_def [symmetric] C_def [symmetric] k(1) option.case sum_bind.simps
      ch0_def [symmetric] u sum_fold.simps blk by simp
qed

theorem long_bursts_overflow_witness:
  "\<forall>ch. ch_decode (replicate 96 0) QPSK_3_4 (replicate 96 0) (replicate 48 0) (ChannelCoding_new True ch) = Inl OutOfBounds"
  by (rule allI, rule long_bursts_overflow [OF ready_new]) (simp_all add: getCodedBlockSize_def modes [OF ready_new])

subsection \<open>Coding disabled\<close>

lemma bytes_int_bytes:
  assumes "0 \<le> n" "n < 2 ^ 31" shows "bytes_int (int_bytes n @ xs) = n"
proof -
  have b: "uint ((int_bytes n @ xs) ! k) = n div 2 ^ (8 * k) mod 256" if "k < 4" for k
    using that by (simp add: int_bytes_def nth_append uint_word_of_int drop_bit_eq_div)
  have 4: "(\<Sum>k<4. f k) = f 0 + f 1 + f 2 + f 3" for f :: "nat \<Rightarrow> int"
    by (simp add: eval_nat_numeral)
  have p: "(2 :: int) ^ (8 * 0) = 1" "(2 :: int) ^ (8 * 1) = 256" "(2 :: int) ^ (8 * 2) = 65536" "(2 :: int) ^ (8 * 3) = 16777216"
    by simp_all
  have m: "n mod 256 + 256 * (n div 256 mod 256) + 65536 * (n div 65536 mod 256) + 16777216 * (n div 16777216 mod 256) = n"
  proof -
    have d: "n div 65536 = n div 256 div 256" "n div 16777216 = n div 65536 div 256"
      using zdiv_zmult2_eq [of 256 n 256] zdiv_zmult2_eq [of 256 n 65536] by (simp_all add: mult.commute)
    have "256 * (n div 256) + n mod 256 = n" "256 * (n div 65536) + n div 256 mod 256 = n div 256"
      "256 * (n div 16777216) + n div 65536 mod 256 = n div 65536"
      unfolding d by (rule mult_div_mod_eq)+
    moreover have "n div 16777216 mod 256 = n div 16777216" using assms by (intro mod_pos_pos_trivial) (simp_all add: div_less_iff_less_mult pos_imp_zdiv_nonneg_iff)
    ultimately show ?thesis by linarith
  qed
  have "(\<Sum>k<4. push_bit (8 * k) (uint ((int_bytes n @ xs) ! k))) = (\<Sum>k<4. 2 ^ (8 * k) * (n div 2 ^ (8 * k) mod 256))"
    by (rule sum.cong) (simp_all add: b push_bit_eq_mult mult.commute)
  also have "\<dots> = n" unfolding 4 p div_by_1 mult_1 by (rule m)
  finally show ?thesis using assms by (simp add: bytes_int_def signed_take_bit_int_eq_self)
qed

text \<open>
  with coding disabled a burst carries its length and its bytes; what is decoded of it is the bytes that were
  sent, with bytes 0xFF up to the length of the burst without coding.
\<close>

theorem bypass_round_trip:
  assumes "isBypassing tx" "isBypassing rx" "coding rx mode = coding tx mode" "length input < 2 ^ 31"
    and "0 < getUncodedBlockSize tx mode" "0 < getCodedBlockSize tx mode"
    and "ch_encode input mode b1 b2 tx = Inr (n, burst, tx')" "length (burst @ rest) = n"
  shows "n = getCodedBurstLen tx (length input) mode \<and> tx' = tx
    \<and> ch_decode (burst @ rest) mode d1 d2 rx = Inr (int (length input), padded (getUncodedBlockSize tx mode) input, rx)"
proof -
  define c where "c = coding tx mode"
  define m where "m = length input div uncodedBlockSize c + 1"
  have U: "0 < uncodedBlockSize c" "0 < codedBlockSize c"
    using assms(5,6) by (simp_all add: getUncodedBlockSize_def getCodedBlockSize_def c_def)
  have e: "n = m * codedBlockSize c" "burst = int_bytes (int (length input)) @ input" "tx' = tx"
    using assms(1,7) by (auto simp: ch_encode_def Let_def c_def m_def)
  have nb: "length (burst @ rest) div codedBlockSize c = m" unfolding assms(8) e(1) using U(2) by simp
  have l4: "length (int_bytes x) = 4" for x by (simp add: int_bytes_def)
  have bi: "bytes_int (burst @ rest) = int (length input)"
    unfolding e(2) append_assoc by (rule bytes_int_bytes) (use assms(4) in simp_all)
  have "1 \<le> m * uncodedBlockSize c" using U(1) by (simp add: m_def)
  then have bl: "getUncodedBurstLen rx (length (burst @ rest)) mode = int (m * uncodedBlockSize c - 1)"
    unfolding getUncodedBurstLen_def Let_def assms(3) c_def [symmetric] nb by (simp only: of_nat_diff of_nat_1)
  have "ch_decode (burst @ rest) mode d1 d2 rx = Inr (int (length input),
      take (length input) (drop 4 (burst @ rest))
        @ drop (length (take (length input) (drop 4 (burst @ rest)))) (replicate (m * uncodedBlockSize c - 1) 0xFF), rx)"
    using assms(2) unfolding ch_decode_def Let_def bl bi by (simp add: e(2) l4)
  also have "take (length input) (drop 4 (burst @ rest)) = input" by (simp add: e(2) l4)
  finally show ?thesis using e(1,3)
    by (simp add: padded_def getUncodedBlockSize_def getCodedBurstLen_def Let_def c_def [symmetric] m_def)
qed

theorem bypass_round_trip_witness:
  "\<forall>ch. ch_decode ((int_bytes 3 @ [1, 2, 3]) @ replicate 17 0) BPSK_1_2 [] [] (ChannelCoding_new False ch)
    = Inr (3, [1, 2, 3] @ replicate 8 0xFF, ChannelCoding_new False ch)"
  (is "\<forall>ch. ?P ch")
proof
  fix ch
  let ?c = "ChannelCoding_new False ch"
  have c: "isBypassing ?c" "coding ?c BPSK_1_2 = \<lparr>uncodedBlockSize = 12, codedBlockSize = 24, T = 0, cm_CC = None, Ncbps = 192, Ncpc = 1\<rparr>"
    by (simp_all add: ChannelCoding_new_def initCoding_def Let_def)
  have e: "ch_encode [1, 2, 3] BPSK_1_2 b1 b2 ?c = Inr (24, int_bytes 3 @ [1, 2, 3], ?c)" for b1 b2
    by (simp add: ch_encode_def c Let_def)
  have "ch_decode ((int_bytes 3 @ [1, 2, 3]) @ replicate 17 0) BPSK_1_2 [] [] ?c
      = Inr (int (length [1, 2, 3 :: u8]), padded (getUncodedBlockSize ?c BPSK_1_2) [1, 2, 3], ?c)"
    by (rule bypass_round_trip [OF c(1) c(1) refl _ _ _ e, THEN conjunct2, THEN conjunct2])
       (simp_all add: getUncodedBlockSize_def getCodedBlockSize_def c int_bytes_def)
  then show "?P ch" by (simp add: getUncodedBlockSize_def c(2) padded_def)
qed

end
