(* ===== verification/FrameBody.thy ===== *)
theory FrameBody
  imports Prelude
begin

text \<open>
  Memory and elements of the management frames of IEEE 802.11e, for
  \<open>protocol_HEADER/mac-802_11e_management_framebody.cc\<close>.

  The code reads and writes the body of a frame through \<open>char *\<close> pointers into it.  \<open>buf\<close> is the memory
  the pointers point into, a pointer is the number of a byte of it or \<open>None\<close> for \<open>NULL\<close>, and an access
  outside of it is \<open>OutOfBounds\<close>.  A setter gives the new memory.  An argument that points to a number
  or to bytes is that number or those bytes, or \<open>None\<close> for \<open>NULL\<close>; an argument through which a getter
  returns a number is what the caller's variable holds, and the getter gives what it holds afterwards.
  Numbers are copied byte by byte from the memory of a little-endian machine; a \<open>char\<close> is signed, so a
  byte converted to \<open>unsigned int\<close> is extended by its sign.
\<close>

type_synonym buf = "u8 list"
type_synonym ptr = "nat option"

subsection \<open>Access to memory\<close>

definition get8 :: "nat \<Rightarrow> buf \<Rightarrow> abort + u8" where
  "get8 a M = (if a < length M then Inr (M ! a) else Inl OutOfBounds)"

definition put8 :: "nat \<Rightarrow> u8 \<Rightarrow> buf \<Rightarrow> abort + buf" where
  "put8 a v M = (if a < length M then Inr (M[a := v]) else Inl OutOfBounds)"

definition upd8 :: "nat \<Rightarrow> (u8 \<Rightarrow> u8) \<Rightarrow> buf \<Rightarrow> abort + buf" where
  "upd8 a f M = (if a < length M then Inr (M[a := f (M ! a)]) else Inl OutOfBounds)"

text \<open>\<open>if (c) *p |= m; else *p &= k;\<close>\<close>

definition set_flag :: "nat \<Rightarrow> bool \<Rightarrow> u8 \<Rightarrow> u8 \<Rightarrow> buf \<Rightarrow> abort + buf" where
  "set_flag a c m k = upd8 a (\<lambda>b. if c then b OR m else b AND k)"

text \<open>\<open>bcopy\<close> of \<open>n\<close> bytes from \<open>src\<close> to \<open>a\<close>, and with the number taken from the byte at \<open>l\<close>.\<close>

definition bcopy :: "nat \<Rightarrow> nat \<Rightarrow> u8 list \<Rightarrow> buf \<Rightarrow> abort + buf" where
  "bcopy a n src M =
     (if n \<le> length src \<and> a + n \<le> length M then Inr (take a M @ take n src @ drop (a + n) M) else Inl OutOfBounds)"

definition char_uint :: "u8 \<Rightarrow> u32" where
  "char_uint b = scast b"

definition bcopy_len :: "nat \<Rightarrow> nat \<Rightarrow> u8 list \<Rightarrow> buf \<Rightarrow> abort + buf" where
  "bcopy_len a l src M = sum_bind (get8 l M) (\<lambda>b. bcopy a (unat (char_uint b)) src M)"

definition get_bytes :: "nat \<Rightarrow> nat \<Rightarrow> buf \<Rightarrow> abort + u8 list" where
  "get_bytes n a M = (if a + n \<le> length M then Inr (take n (drop a M)) else Inl OutOfBounds)"

text \<open>Numbers as they lie in memory, the low byte first.\<close>

fun to_le :: "nat \<Rightarrow> 'a::len word \<Rightarrow> u8 list" where
  "to_le 0 v = []"
| "to_le (Suc n) v = ucast v # to_le n (drop_bit 8 v)"

primrec of_le :: "u8 list \<Rightarrow> 'a::len word" where
  "of_le [] = 0"
| "of_le (b # bs) = ucast b OR push_bit 8 (of_le bs)"

definition le16 :: "u16 \<Rightarrow> u8 list" where "le16 = to_le 2"
definition le32 :: "u32 \<Rightarrow> u8 list" where "le32 = to_le 4"
definition le64 :: "u64 \<Rightarrow> u8 list" where "le64 = to_le 8"

definition get16 :: "nat \<Rightarrow> buf \<Rightarrow> abort + u16" where "get16 a M = map_sum id of_le (get_bytes 2 a M)"
definition get32 :: "nat \<Rightarrow> buf \<Rightarrow> abort + u32" where "get32 a M = map_sum id of_le (get_bytes 4 a M)"
definition get64 :: "nat \<Rightarrow> buf \<Rightarrow> abort + u64" where "get64 a M = map_sum id of_le (get_bytes 8 a M)"

text \<open>A sequence of writes, an address \<open>Body + offset\<close>, and a getter that returned true.\<close>

definition run :: "(buf \<Rightarrow> abort + buf) list \<Rightarrow> buf \<Rightarrow> abort + buf" where
  "run ws = sum_fold (\<lambda>w. w) ws"

definition body_at :: "ptr \<Rightarrow> u32 \<Rightarrow> nat" where
  "body_at Body offset = the Body + unat offset"

definition given :: "abort + 'a \<Rightarrow> abort + (bool \<times> 'a option)" where
  "given r = map_sum id (\<lambda>v. (True, Some v)) r"

definition test_bits :: "ptr \<Rightarrow> nat \<Rightarrow> u8 \<Rightarrow> buf \<Rightarrow> abort + bool" where
  "test_bits p i m M = (case p of None \<Rightarrow> Inl NullDeref | Some a \<Rightarrow> map_sum id (\<lambda>b. b AND m \<noteq> 0) (get8 (a + i) M))"

text \<open>A write through a pointer the code does not test.\<close>

definition deref :: "'a option \<Rightarrow> ('a \<Rightarrow> buf \<Rightarrow> abort + buf) \<Rightarrow> buf \<Rightarrow> abort + buf" where
  "deref x w M = (case x of None \<Rightarrow> Inl NullDeref | Some v \<Rightarrow> w v M)"

subsection \<open>Constants of the header\<close>

definition WITH_CHALLENGE_TEXT_FLAG :: u8 where "WITH_CHALLENGE_TEXT_FLAG = 0x01"
definition WITH_FH_FLAG :: u8 where "WITH_FH_FLAG = 0x01"
definition WITH_DS_FLAG :: u8 where "WITH_DS_FLAG = 0x02"
definition WITH_CF_FLAG :: u8 where "WITH_CF_FLAG = 0x04"
definition WITH_IBSS_FLAG :: u8 where "WITH_IBSS_FLAG = 0x08"
definition WITH_TIM_FLAG :: u8 where "WITH_TIM_FLAG = 0x10"
definition WITH_QBSS_LOAD_FLAG :: u8 where "WITH_QBSS_LOAD_FLAG = 0x20"
definition WITH_EDCA_PARAMETER_SET_FLAG :: u8 where "WITH_EDCA_PARAMETER_SET_FLAG = 0x40"
definition WITH_QOS_CAPABILITY_FLAG :: u8 where "WITH_QOS_CAPABILITY_FLAG = 0x80"
definition WITH_TCLAS_CLASSIFIER_TYPE_0_FLAG :: u8 where "WITH_TCLAS_CLASSIFIER_TYPE_0_FLAG = 0x01"
definition WITH_TCLAS_CLASSIFIER_TYPE_1_IPV4_FLAG :: u8 where "WITH_TCLAS_CLASSIFIER_TYPE_1_IPV4_FLAG = 0x02"
definition WITH_TCLAS_CLASSIFIER_TYPE_1_IPV6_FLAG :: u8 where "WITH_TCLAS_CLASSIFIER_TYPE_1_IPV6_FLAG = 0x04"
definition WITH_TCLAS_CLASSIFIER_TYPE_2_FLAG :: u8 where "WITH_TCLAS_CLASSIFIER_TYPE_2_FLAG = 0x08"
definition WITH_TCLAS_PROCESSING_FLAG :: u8 where "WITH_TCLAS_PROCESSING_FLAG = 0x10"
definition ELEMENT_ID_SSID :: u8 where "ELEMENT_ID_SSID = 0x00"
definition ELEMENT_ID_SUPPORTED_RATES :: u8 where "ELEMENT_ID_SUPPORTED_RATES = 0x01"
definition ELEMENT_ID_FH_PARAMETER_SET :: u8 where "ELEMENT_ID_FH_PARAMETER_SET = 0x02"
definition ELEMENT_ID_DS_PARAMETER_SET :: u8 where "ELEMENT_ID_DS_PARAMETER_SET = 0x03"
definition ELEMENT_ID_CF_PARAMETER_SET :: u8 where "ELEMENT_ID_CF_PARAMETER_SET = 0x04"
definition ELEMENT_ID_TIM :: u8 where "ELEMENT_ID_TIM = 0x05"
definition ELEMENT_ID_IBSS_PARAMETER_SET :: u8 where "ELEMENT_ID_IBSS_PARAMETER_SET = 0x06"
definition ELEMENT_ID_CHALLENGE_TEXT :: u8 where "ELEMENT_ID_CHALLENGE_TEXT = 0x10"
definition ELEMENT_ID_QBSS_LOAD :: u8 where "ELEMENT_ID_QBSS_LOAD = 0x0b"
definition ELEMENT_ID_EDCA_PARAMETER_SET :: u8 where "ELEMENT_ID_EDCA_PARAMETER_SET = 0x0c"
definition ELEMENT_ID_TSPEC :: u8 where "ELEMENT_ID_TSPEC = 0x0d"
definition ELEMENT_ID_TCLAS :: u8 where "ELEMENT_ID_TCLAS = 0x0e"
definition ELEMENT_ID_SCHEDULE :: u8 where "ELEMENT_ID_SCHEDULE = 0x0f"
definition ELEMENT_ID_TS_DELAY :: u8 where "ELEMENT_ID_TS_DELAY = 0x2b"
definition ELEMENT_ID_TCLAS_PROCESSING :: u8 where "ELEMENT_ID_TCLAS_PROCESSING = 0x2c"
definition ELEMENT_ID_QOS_CAPABILITY :: u8 where "ELEMENT_ID_QOS_CAPABILITY = 0x2e"
definition ELEMENT_ID_EXTENDED_SUPPORTED_RATES :: u8 where "ELEMENT_ID_EXTENDED_SUPPORTED_RATES = 0x32"
definition ACTION_FRAME_CATEGORY_QOS :: u8 where "ACTION_FRAME_CATEGORY_QOS = 0x01"
definition ACTION_FRAME_ACTION_ADDTS_REQUEST :: u8 where "ACTION_FRAME_ACTION_ADDTS_REQUEST = 0x00"
definition ACTION_FRAME_ACTION_ADDTS_RESPONSE :: u8 where "ACTION_FRAME_ACTION_ADDTS_RESPONSE = 0x01"
definition ACTION_FRAME_ACTION_DELTS :: u8 where "ACTION_FRAME_ACTION_DELTS = 0x02"
definition ACTION_FRAME_ACTION_SCHEDULE :: u8 where "ACTION_FRAME_ACTION_SCHEDULE = 0x03"
definition ACTION_FRAME_CATEGORY_DLS :: u8 where "ACTION_FRAME_CATEGORY_DLS = 0x02"
definition ACTION_FRAME_ACTION_DLS_REQUEST :: u8 where "ACTION_FRAME_ACTION_DLS_REQUEST = 0x00"
definition ACTION_FRAME_ACTION_DLS_RESPONSE :: u8 where "ACTION_FRAME_ACTION_DLS_RESPONSE = 0x01"
definition ACTION_FRAME_ACTION_DLS_TEARDOW :: u8 where "ACTION_FRAME_ACTION_DLS_TEARDOW = 0x02"
definition ACTION_FRAME_CATEGORY_BLOCK_ACK :: u8 where "ACTION_FRAME_CATEGORY_BLOCK_ACK = 0x03"
definition ACTION_FRAME_ACTION_ADDBA_REQUEST :: u8 where "ACTION_FRAME_ACTION_ADDBA_REQUEST = 0x00"
definition ACTION_FRAME_ACTION_ADDBA_RESPONSE :: u8 where "ACTION_FRAME_ACTION_ADDBA_RESPONSE = 0x01"
definition ACTION_FRAME_ACTION_DELBA :: u8 where "ACTION_FRAME_ACTION_DELBA = 0x02"

lemmas frame_constants =
  WITH_CHALLENGE_TEXT_FLAG_def WITH_FH_FLAG_def WITH_DS_FLAG_def WITH_CF_FLAG_def WITH_IBSS_FLAG_def
  WITH_TIM_FLAG_def WITH_QBSS_LOAD_FLAG_def WITH_EDCA_PARAMETER_SET_FLAG_def WITH_QOS_CAPABILITY_FLAG_def
  WITH_TCLAS_CLASSIFIER_TYPE_0_FLAG_def WITH_TCLAS_CLASSIFIER_TYPE_1_IPV4_FLAG_def
  WITH_TCLAS_CLASSIFIER_TYPE_1_IPV6_FLAG_def WITH_TCLAS_CLASSIFIER_TYPE_2_FLAG_def
  WITH_TCLAS_PROCESSING_FLAG_def ELEMENT_ID_SSID_def ELEMENT_ID_SUPPORTED_RATES_def
  ELEMENT_ID_FH_PARAMETER_SET_def ELEMENT_ID_DS_PARAMETER_SET_def ELEMENT_ID_CF_PARAMETER_SET_def
  ELEMENT_ID_TIM_def ELEMENT_ID_IBSS_PARAMETER_SET_def ELEMENT_ID_CHALLENGE_TEXT_def
  ELEMENT_ID_QBSS_LOAD_def ELEMENT_ID_EDCA_PARAMETER_SET_def ELEMENT_ID_TSPEC_def ELEMENT_ID_TCLAS_def
  ELEMENT_ID_SCHEDULE_def ELEMENT_ID_TS_DELAY_def ELEMENT_ID_TCLAS_PROCESSING_def
  ELEMENT_ID_QOS_CAPABILITY_def ELEMENT_ID_EXTENDED_SUPPORTED_RATES_def ACTION_FRAME_CATEGORY_QOS_def
  ACTION_FRAME_ACTION_ADDTS_REQUEST_def ACTION_FRAME_ACTION_ADDTS_RESPONSE_def
  ACTION_FRAME_ACTION_DELTS_def ACTION_FRAME_ACTION_SCHEDULE_def ACTION_FRAME_CATEGORY_DLS_def
  ACTION_FRAME_ACTION_DLS_REQUEST_def ACTION_FRAME_ACTION_DLS_RESPONSE_def
  ACTION_FRAME_ACTION_DLS_TEARDOW_def ACTION_FRAME_CATEGORY_BLOCK_ACK_def
  ACTION_FRAME_ACTION_ADDBA_REQUEST_def ACTION_FRAME_ACTION_ADDBA_RESPONSE_def
  ACTION_FRAME_ACTION_DELBA_def

datatype tclas_type = NoType | ClassifierType_0 | ClassifierType_1_IPv4 | ClassifierType_1_IPv6 | ClassifierType_2

subsection \<open>Optional parts\<close>

definition given_flag :: "bool \<Rightarrow> u8 \<Rightarrow> u8" where
  "given_flag c m = (if c then m else 0)"

definition opt :: "u8 \<Rightarrow> u8 \<Rightarrow> u32 \<Rightarrow> u32" where
  "opt flag m n = (if flag AND m \<noteq> 0 then n else 0)"

definition tclas_flag :: "tclas_type \<Rightarrow> u8" where
  "tclas_flag ty = (case ty of NoType \<Rightarrow> 0 | ClassifierType_0 \<Rightarrow> WITH_TCLAS_CLASSIFIER_TYPE_0_FLAG
     | ClassifierType_1_IPv4 \<Rightarrow> WITH_TCLAS_CLASSIFIER_TYPE_1_IPV4_FLAG
     | ClassifierType_1_IPv6 \<Rightarrow> WITH_TCLAS_CLASSIFIER_TYPE_1_IPV6_FLAG
     | ClassifierType_2 \<Rightarrow> WITH_TCLAS_CLASSIFIER_TYPE_2_FLAG)"

definition tclas_room :: "u8 \<Rightarrow> u32" where
  "tclas_room flag =
     (if flag AND WITH_TCLAS_CLASSIFIER_TYPE_0_FLAG \<noteq> 0 then 2 + 1 + 16
      else if flag AND WITH_TCLAS_CLASSIFIER_TYPE_1_IPV4_FLAG \<noteq> 0 then 2 + 1 + 18
      else if flag AND WITH_TCLAS_CLASSIFIER_TYPE_1_IPV6_FLAG \<noteq> 0 then 2 + 1 + 42
      else if flag AND WITH_TCLAS_CLASSIFIER_TYPE_2_FLAG \<noteq> 0 then 2 + 1 + 4 else 0)"

definition tclas_size :: "tclas_type \<Rightarrow> u32" where
  "tclas_size ty = (case ty of NoType \<Rightarrow> 0 | ClassifierType_0 \<Rightarrow> 2 + 1 + 16 | ClassifierType_1_IPv4 \<Rightarrow> 2 + 1 + 18
     | ClassifierType_1_IPv6 \<Rightarrow> 2 + 1 + 42 | ClassifierType_2 \<Rightarrow> 2 + 1 + 4)"

text \<open>
  The search for an optional element: elements that may come before it are stepped over, each by its
  size, when they are there.
\<close>

fun skip_elements :: "(u8 \<times> u32) list \<Rightarrow> nat \<Rightarrow> buf \<Rightarrow> abort + nat" where
  "skip_elements [] p M = Inr p"
| "skip_elements ((i, n) # es) p M =
     sum_bind (get8 p M) (\<lambda>b. skip_elements es (if b = i then p + unat n else p) M)"

definition find_element :: "nat \<Rightarrow> (u8 \<times> u32) list \<Rightarrow> u8 \<Rightarrow> buf \<Rightarrow> abort + ptr" where
  "find_element p es i M =
     sum_bind (skip_elements es p M) (\<lambda>q. map_sum id (\<lambda>b. if b = i then Some q else None) (get8 q M))"

subsection \<open>Parts that several frames have\<close>

definition capability_writes :: "nat \<Rightarrow> bool \<Rightarrow> bool \<Rightarrow> bool \<Rightarrow> bool \<Rightarrow> bool \<Rightarrow> bool \<Rightarrow> bool \<Rightarrow> bool \<Rightarrow> bool
    \<Rightarrow> bool \<Rightarrow> bool \<Rightarrow> bool \<Rightarrow> bool \<Rightarrow> bool \<Rightarrow> bool \<Rightarrow> (buf \<Rightarrow> abort + buf) list" where
  "capability_writes p ESS IBSS CF_Pollable CF_Poll_Request Privacy ShortPreamble PBCC ChannelAgility
      SpectrumManagement QoS ShortSlotTime APSD DSSS_OFDM DelayedBloackAck ImmediateBlockAck =
     [set_flag p ESS 0x80 0x7f, set_flag p IBSS 0x40 0xbf, set_flag p CF_Pollable 0x20 0xdf,
      set_flag p CF_Poll_Request 0x10 0xef, set_flag p Privacy 0x08 0xf7, set_flag p ShortPreamble 0x04 0xfb,
      set_flag p PBCC 0x02 0xfd, set_flag p ChannelAgility 0x01 0xfe,
      set_flag (p + 1) SpectrumManagement 0x80 0x7f, set_flag (p + 1) QoS 0x40 0xbf,
      set_flag (p + 1) ShortSlotTime 0x20 0xdf, set_flag (p + 1) APSD 0x10 0xef,
      set_flag (p + 1) DSSS_OFDM 0x04 0xfb, set_flag (p + 1) DelayedBloackAck 0x02 0xfd,
      set_flag (p + 1) ImmediateBlockAck 0x01 0xfe]"

definition qos_info :: "nat \<Rightarrow> u8 \<Rightarrow> bool \<Rightarrow> bool \<Rightarrow> bool \<Rightarrow> (buf \<Rightarrow> abort + buf) list" where
  "qos_info p EDCAParameterSetUpdateCount QAck QueueRequest TXOPRequest =
     [put8 p (push_bit 4 EDCAParameterSetUpdateCount AND 0xf0), set_flag p QAck 0x08 0xf7,
      set_flag p QueueRequest 0x04 0xfb, set_flag p TXOPRequest 0x02 0xfd]"

text \<open>The record of an access category, whose number the functions \<open>f\<close> and \<open>g\<close> put into the first byte.\<close>

definition ac_record :: "nat \<Rightarrow> (u8 \<Rightarrow> u8) \<Rightarrow> (u8 \<Rightarrow> u8) \<Rightarrow> u8 \<Rightarrow> bool \<Rightarrow> u8 \<Rightarrow> u16 \<Rightarrow> (buf \<Rightarrow> abort + buf) list" where
  "ac_record p f g AIFSN ACM ECW TXOP_Limit =
     [put8 p (push_bit 4 AIFSN AND 0xf0), set_flag p ACM 0x08 0xf7, upd8 p f, upd8 p g,
      put8 (p + 1) ECW, bcopy (p + 2) 2 (le16 TXOP_Limit)]"

definition ts_info :: "nat \<Rightarrow> bool \<Rightarrow> u8 \<Rightarrow> bool \<Rightarrow> bool \<Rightarrow> bool \<Rightarrow> bool \<Rightarrow> bool \<Rightarrow> bool \<Rightarrow> u8 \<Rightarrow> bool \<Rightarrow> bool \<Rightarrow> bool
    \<Rightarrow> (buf \<Rightarrow> abort + buf) list" where
  "ts_info p TrafficType TSID Direction_Bit_1 Direction_Bit_2 AccessPolicy_Bit_1 AccessPolicy_Bit_2 Aggregation
      APSD UserPriority TSInfoAckPolicy_Bit_1 TSInfoAckPolicy_Bit_2 Schedule =
     [put8 p (push_bit 3 TSID AND 0x78), set_flag p TrafficType 0x80 0x7f,
      set_flag p Direction_Bit_1 0x04 0xfb, set_flag p Direction_Bit_2 0x02 0xfd,
      set_flag p AccessPolicy_Bit_1 0x01 0xfe, put8 (p + 1) (push_bit 2 UserPriority AND 0x1c),
      set_flag (p + 1) AccessPolicy_Bit_2 0x80 0x7f, set_flag (p + 1) Aggregation 0x40 0xbf,
      set_flag (p + 1) APSD 0x20 0xdf, set_flag (p + 1) TSInfoAckPolicy_Bit_1 0x02 0xfd,
      set_flag (p + 1) TSInfoAckPolicy_Bit_2 0x01 0xfe, set_flag (p + 2) Schedule 0x80 0x7f]"

text \<open>The two bytes of the nominal size: the 15 bits of the size, and the flag below them.\<close>

definition nominal_size :: "nat \<Rightarrow> bool \<Rightarrow> u16 \<Rightarrow> buf \<Rightarrow> abort + buf" where
  "nominal_size p Fixed v =
     (let t = le16 v;
          c1 = (if t ! 0 AND 0x80 \<noteq> 0 then push_bit 1 (t ! 1) OR 0x01 else push_bit 1 (t ! 1) AND 0xfe);
          c0 = (if Fixed then push_bit 1 (t ! 0) OR 0x01 else push_bit 1 (t ! 0) AND 0xfe)
      in run [put8 p c1, put8 (p + 1) c0])"

definition surplus_bandwidth :: "nat \<Rightarrow> u16 \<Rightarrow> u16 \<Rightarrow> buf \<Rightarrow> abort + buf" where
  "surplus_bandwidth p IntegerPart DecimalPart =
     (let t = le16 IntegerPart; d = le16 DecimalPart
      in run [put8 p ((push_bit 5 (t ! 0) AND 0xe0) OR (d ! 1 AND 0x1f)), put8 (p + 1) (d ! 0)])"

definition tspec_writes :: "nat \<Rightarrow> bool \<Rightarrow> u8 \<Rightarrow> bool \<Rightarrow> bool \<Rightarrow> bool \<Rightarrow> bool \<Rightarrow> bool \<Rightarrow> bool \<Rightarrow> u8 \<Rightarrow> bool \<Rightarrow> bool
    \<Rightarrow> bool \<Rightarrow> u16 option \<Rightarrow> bool \<Rightarrow> u16 \<Rightarrow> u32 \<Rightarrow> u32 \<Rightarrow> u32 \<Rightarrow> u32 \<Rightarrow> u32 \<Rightarrow> u32 \<Rightarrow> u32 \<Rightarrow> u32 \<Rightarrow> u32
    \<Rightarrow> u32 \<Rightarrow> u32 \<Rightarrow> u16 option \<Rightarrow> u16 option \<Rightarrow> u16 \<Rightarrow> (buf \<Rightarrow> abort + buf) list" where
  "tspec_writes p TrafficType TSID Direction_Bit_1 Direction_Bit_2 AccessPolicy_Bit_1 AccessPolicy_Bit_2
      Aggregation APSD UserPriority TSInfoAckPolicy_Bit_1 TSInfoAckPolicy_Bit_2 Schedule NominalMSDUSize
      NominalMSDUSize_Fixed MaximumMSDUSize MinimumServiceInterval MaximumServiceInterval InactivityInterval
      SyspensionInterval ServiceStartTime MinimumDataRate MeanDataRate PeakDataRate BurstSize DelayBound
      MinimumPHYRate SurplusBandwidthAllowance_IntegerPart SurplusBandwidthAllowance_DecimalPart MediumTime =
     [put8 p ELEMENT_ID_TSPEC, put8 (p + 1) 0x37]
     @ ts_info (p + 2) TrafficType TSID Direction_Bit_1 Direction_Bit_2 AccessPolicy_Bit_1 AccessPolicy_Bit_2
         Aggregation APSD UserPriority TSInfoAckPolicy_Bit_1 TSInfoAckPolicy_Bit_2 Schedule
     @ [deref NominalMSDUSize (nominal_size (p + 5) NominalMSDUSize_Fixed),
        bcopy (p + 7) 2 (le16 MaximumMSDUSize), bcopy (p + 9) 4 (le32 MinimumServiceInterval),
        bcopy (p + 13) 4 (le32 MaximumServiceInterval), bcopy (p + 17) 4 (le32 InactivityInterval),
        bcopy (p + 21) 4 (le32 SyspensionInterval), bcopy (p + 25) 4 (le32 ServiceStartTime),
        bcopy (p + 29) 4 (le32 MinimumDataRate), bcopy (p + 33) 4 (le32 MeanDataRate),
        bcopy (p + 37) 4 (le32 PeakDataRate), bcopy (p + 41) 4 (le32 BurstSize),
        bcopy (p + 45) 4 (le32 DelayBound), bcopy (p + 49) 4 (le32 MinimumPHYRate),
        deref SurplusBandwidthAllowance_IntegerPart (\<lambda>i.
          deref SurplusBandwidthAllowance_DecimalPart (surplus_bandwidth (p + 53) i)),
        bcopy (p + 55) 2 (le16 MediumTime)]"

definition block_ack_params :: "nat \<Rightarrow> bool \<Rightarrow> u8 \<Rightarrow> u16 \<Rightarrow> (buf \<Rightarrow> abort + buf) list" where
  "block_ack_params p BlockAckPolicy TID BufferSize =
     (let t = le16 BufferSize; c = push_bit 2 TID AND 0x3c;
          c0 = (if BlockAckPolicy then c OR 0x40 else c AND 0xbf) OR (t ! 1 AND 0x03)
      in [put8 p c0, put8 (p + 1) (t ! 0)])"

subsection \<open>Bodies of action frames\<close>

definition Initialize80211eFrameBodyWithZero :: "ptr \<Rightarrow> int \<Rightarrow> buf \<Rightarrow> abort + buf" where
  "Initialize80211eFrameBodyWithZero Body len M =
     (if Body = None then Inr M
      else let n = unat (of_int len :: u64) in bcopy (the Body) n (replicate n 0) M)"

definition SetCategoryInto80211eActionFrameBody :: "ptr \<Rightarrow> u8 \<Rightarrow> buf \<Rightarrow> abort + buf" where
  "SetCategoryInto80211eActionFrameBody Body Category M = (if Body = None then Inr M else put8 (the Body)
      Category M)"

definition SetActionInto80211eActionFrameBody :: "ptr \<Rightarrow> u8 \<Rightarrow> buf \<Rightarrow> abort + buf" where
  "SetActionInto80211eActionFrameBody Body Action M = (if Body = None then Inr M else put8 (the Body + 1)
      Action M)"

definition GetCategoryFrom80211eActionFrameBody :: "ptr \<Rightarrow> u8 option \<Rightarrow> buf \<Rightarrow> abort + u8 option" where
  "GetCategoryFrom80211eActionFrameBody Body Category M =
     (if Body = None then Inr Category
      else sum_bind (get8 (the Body) M) (\<lambda>b. if Category = None then Inl NullDeref else Inr (Some b)))"

definition GetActionFrom80211eActionFrameBody :: "ptr \<Rightarrow> u8 option \<Rightarrow> buf \<Rightarrow> abort + u8 option" where
  "GetActionFrom80211eActionFrameBody Body Action M =
     (if Body = None then Inr Action
      else sum_bind (get8 (the Body + 1) M) (\<lambda>b. if Action = None then Inl NullDeref else Inr (Some b)))"

end
