(* ===== verification/FrameLayout.thy ===== *)
theory FrameLayout
  imports FrameBody
begin

text \<open>
  How the writes and reads of \<open>FrameBody\<close> act on a memory that is a block between others: numbers come
  back as they were copied, a sequence of writes into a block leaves the others alone, bits of a byte,
  and the search for an element among the parts of a body.
\<close>

subsection \<open>Numbers\<close>

lemma length_to_le [simp]: "length (to_le n v) = n"
  by (induction n arbitrary: v) simp_all

lemma length_le [simp]: "length (le16 v) = 2" "length (le32 w) = 4" "length (le64 x) = 8"
  by (simp_all add: le16_def le32_def le64_def)

lemma bit_of_le_to_le:
  fixes v :: "'a::len word"
  shows "bit (of_le (to_le n v) :: 'a word) k \<longleftrightarrow> k < 8 * n \<and> bit v k"
proof (induction n arbitrary: v k)
  case (Suc n)
  have "bit (of_le (to_le (Suc n) v) :: 'a word) k \<longleftrightarrow> k < LENGTH('a) \<and> (k < 8 \<and> bit v k \<or> 8 \<le> k \<and> bit (of_le (to_le n (drop_bit 8 v)) :: 'a word) (k - 8))"
    by (auto simp: bit_or_iff bit_push_bit_iff bit_ucast_iff dest: bit_imp_le_length)
  also have "\<dots> \<longleftrightarrow> k < 8 * Suc n \<and> bit v k"
    unfolding Suc by (auto simp: bit_drop_bit_eq dest: bit_imp_le_length)
  finally show ?case .
qed simp

lemma of_le_to_le: "LENGTH('a::len) \<le> 8 * n \<Longrightarrow> of_le (to_le n v) = (v :: 'a word)"
  by (rule bit_word_eqI) (simp add: bit_of_le_to_le)

lemma of_le_le [simp]: "of_le (le16 v) = v" "of_le (le32 w) = w" "of_le (le64 x) = x"
  by (simp_all add: le16_def le32_def le64_def of_le_to_le)

subsection \<open>Blocks\<close>

text \<open>A block \<open>bs\<close> of the memory, between what is before and what is behind it.\<close>

definition blk :: "u8 list \<Rightarrow> u8 list \<Rightarrow> u8 list \<Rightarrow> buf" where
  "blk pre bs post = pre @ bs @ post"

named_theorems block_simps \<open>writes and reads of a block\<close>

lemma get8_block [block_simps]: "i < length bs \<Longrightarrow> a = length pre \<Longrightarrow> get8 (a + i) (blk pre bs post) = Inr (bs ! i)"
  by (simp add: blk_def get8_def nth_append)

lemma get8_block0 [block_simps]: "bs \<noteq> [] \<Longrightarrow> a = length pre \<Longrightarrow> get8 a (blk pre bs post) = Inr (hd bs)"
  using get8_block [of 0 bs a pre post] by (simp add: hd_conv_nth)

lemma put8_block [block_simps]:
  "i < length bs \<Longrightarrow> a = length pre \<Longrightarrow> put8 (a + i) v (blk pre bs post) = Inr (blk pre (bs[i := v]) post)"
  by (simp add: blk_def put8_def list_update_append)

lemma put8_block0 [block_simps]:
  "bs \<noteq> [] \<Longrightarrow> a = length pre \<Longrightarrow> put8 a v (blk pre bs post) = Inr (blk pre (bs[0 := v]) post)"
  using put8_block [of 0 bs a pre v post] by simp

lemma upd8_block [block_simps]:
  "i < length bs \<Longrightarrow> a = length pre \<Longrightarrow> upd8 (a + i) f (blk pre bs post) = Inr (blk pre (bs[i := f (bs ! i)]) post)"
  by (simp add: blk_def upd8_def nth_append list_update_append)

lemma upd8_block0 [block_simps]:
  "bs \<noteq> [] \<Longrightarrow> a = length pre \<Longrightarrow> upd8 a f (blk pre bs post) = Inr (blk pre (bs[0 := f (hd bs)]) post)"
  using upd8_block [of 0 bs a pre f post] by (simp add: hd_conv_nth)

lemma bcopy_block [block_simps]:
  assumes "i + n \<le> length bs" "n \<le> length src" "a = length pre"
  shows "bcopy (a + i) n src (blk pre bs post) = Inr (blk pre (take i bs @ take n src @ drop (i + n) bs) post)"
  using assms by (simp add: blk_def bcopy_def)

lemma bcopy_block0 [block_simps]:
  assumes "n \<le> length bs" "n \<le> length src" "a = length pre"
  shows "bcopy a n src (blk pre bs post) = Inr (blk pre (take n src @ drop n bs) post)"
  using bcopy_block [of 0 n bs src a pre post] assms by simp

lemma get_bytes_block [block_simps]:
  "i + n \<le> length bs \<Longrightarrow> a = length pre \<Longrightarrow> get_bytes n (a + i) (blk pre bs post) = Inr (take n (drop i bs))"
  by (simp add: blk_def get_bytes_def)

lemma get_bytes_block0 [block_simps]:
  "n \<le> length bs \<Longrightarrow> a = length pre \<Longrightarrow> get_bytes n a (blk pre bs post) = Inr (take n bs)"
  by (simp add: blk_def get_bytes_def)

lemma run_simps [block_simps]: "run [] M = Inr M" "run (w # ws) M = sum_bind (w M) (run ws)"
  "run (vs @ ws) M = sum_bind (run vs M) (run ws)"
  by (simp_all add: run_def sum_fold_append)

lemma at_1 [block_simps]: "(case 1 of 0 \<Rightarrow> a | Suc j \<Rightarrow> f j) = f 0" "(x # xs) ! 1 = xs ! 0" "take 1 (x # xs) = [x]"
  "drop 1 (x # xs) = xs"
  by simp_all

text \<open>The length byte of a \<open>bcopy_len\<close> counts up to 127; behind it the sign of the \<open>char\<close> comes in.\<close>

lemma char_uint_small: "k < 128 \<Longrightarrow> char_uint (of_nat k) = of_nat k"
proof -
  assume "k < 128"
  then have "signed_take_bit 7 (int k) = int k" by (intro signed_take_bit_int_eq_self) auto
  then have "sint (of_nat k :: u8) = int k" by (simp add: signed_of_nat)
  then show ?thesis by (simp add: char_uint_def scast_eq)
qed

lemma bcopy_len_block [block_simps]:
  assumes "j < length bs" "bs ! j = of_nat k" "k < 128" "i + k \<le> length bs" "k \<le> length src" "a = length pre"
  shows "bcopy_len (a + i) (a + j) src (blk pre bs post) = Inr (blk pre (take i bs @ take k src @ drop (i + k) bs) post)"
  using assms by (simp add: bcopy_len_def get8_block char_uint_small bcopy_block unat_of_nat)

text \<open>Writes that keep the size of the memory.\<close>

definition keeps_size :: "(buf \<Rightarrow> abort + buf) \<Rightarrow> bool" where
  "keeps_size w \<longleftrightarrow> (\<forall>M M'. w M = Inr M' \<longrightarrow> length M' = length M)"

lemma keeps_size_writes:
  "keeps_size Inr" "keeps_size (put8 a v)" "keeps_size (upd8 a f)" "keeps_size (set_flag a c m k)" "keeps_size (bcopy a n src)"
  "keeps_size (bcopy_len a l src)"
  by (auto simp: keeps_size_def put8_def upd8_def set_flag_def bcopy_def bcopy_len_def get8_def split: if_splits)

lemma keeps_size_if: "keeps_size w \<Longrightarrow> keeps_size (\<lambda>M. if c then Inr M else w M)"
  by (cases c) (simp_all add: keeps_size_writes keeps_size_def)

lemma keeps_size_run: "\<forall>w\<in>set ws. keeps_size w \<Longrightarrow> keeps_size (run ws)"
proof (induction ws)
  case (Cons w ws)
  then have k: "keeps_size w" "keeps_size (run ws)" by simp_all
  have "length M' = length M" if r: "run (w # ws) M = Inr M'" for M M'
  proof -
    obtain N where "w M = Inr N" "run ws N = Inr M'" using r by (cases "w M") (auto simp: run_simps)
    with k have "length N = length M" "length M' = length N" unfolding keeps_size_def by blast+
    then show ?thesis by simp
  qed
  then show ?case by (simp add: keeps_size_def)
qed (simp add: keeps_size_def run_simps)

text \<open>\<open>fills w a bs\<close>: \<open>w\<close> writes \<open>bs\<close> over zeros at \<open>a\<close> and leaves the rest of the memory alone.\<close>

definition fills :: "(buf \<Rightarrow> abort + buf) \<Rightarrow> nat \<Rightarrow> u8 list \<Rightarrow> bool" where
  "fills w a bs \<longleftrightarrow>
     (\<forall>pre post. length pre = a \<longrightarrow> w (blk pre (replicate (length bs) 0) post) = Inr (blk pre bs post))"

lemma fillsI: "(\<And>pre post. a = length pre \<Longrightarrow> w (blk pre (replicate (length bs) 0) post) = Inr (blk pre bs post)) \<Longrightarrow> fills w a bs"
  by (simp add: fills_def)

lemma fills_Nil: "fills Inr a []" "fills (run []) a []"
  by (simp_all add: fills_def run_simps)

lemma fills_Cons: "fills w a bs \<Longrightarrow> fills (run ws) (a + length bs) cs \<Longrightarrow> fills (run (w # ws)) a (bs @ cs)"
proof (rule fillsI)
  fix pre post :: buf
  assume f: "fills w a bs" "fills (run ws) (a + length bs) cs" and a: "a = length pre"
  have "w (blk pre (replicate (length bs) 0) (replicate (length cs) 0 @ post)) = Inr (blk pre bs (replicate (length cs) 0 @ post))"
    using f(1) a by (simp add: fills_def)
  moreover have "run ws (blk (pre @ bs) (replicate (length cs) 0) post) = Inr (blk (pre @ bs) cs post)"
    using f(2) a by (simp add: fills_def)
  ultimately show "run (w # ws) (blk pre (replicate (length (bs @ cs)) 0) post) = Inr (blk pre (bs @ cs) post)"
    by (simp add: blk_def run_simps replicate_add)
qed

lemma fills_append: "fills (run vs) a bs \<Longrightarrow> fills (run ws) (a + length bs) cs \<Longrightarrow> fills (run (vs @ ws)) a (bs @ cs)"
  using fills_Cons [of "run vs" a bs ws cs] by (simp add: fills_def run_simps)

lemma fills_at: "fills w a bs \<Longrightarrow> a = b \<Longrightarrow> fills w b bs"
  by simp

lemma fills_bcopy: "fills (bcopy a 2 (le16 v)) a (le16 v)" "fills (bcopy a 4 (le32 w)) a (le32 w)"
  by (simp_all add: fills_def block_simps)

lemma fillsD: "fills w a bs \<Longrightarrow> length pre = a \<Longrightarrow> w (pre @ replicate (length bs) 0 @ post) = Inr (pre @ bs @ post)"
  by (simp add: fills_def blk_def)

lemma le_lists: "le16 v = [ucast v, ucast (drop_bit 8 v)]"
  "le32 w = [ucast w, ucast (drop_bit 8 w), ucast (drop_bit 8 (drop_bit 8 w)), ucast (drop_bit 8 (drop_bit 8 (drop_bit 8 w)))]"
  by (simp_all add: le16_def le32_def numeral_eq_Suc)

lemma zeros: "replicate 2 0 = [0, 0 :: u8]" "replicate 3 0 = [0, 0, 0 :: u8]" "replicate 4 0 = [0, 0, 0, 0 :: u8]"
  "replicate 7 0 = [0, 0, 0, 0, 0, 0, 0 :: u8]" "replicate 8 0 = [0, 0, 0, 0, 0, 0, 0, 0 :: u8]"
  "replicate 20 0 = [0, 0, 0, 0, 0, 0, 0, 0, 0, 0, 0, 0, 0, 0, 0, 0, 0, 0, 0, 0 :: u8]"
  by (simp_all add: numeral_eq_Suc)

lemma counted_fills:
  assumes "length bs < 128"
  shows "fills (run [put8 p i, put8 (p + 1) (of_nat (length bs)), bcopy_len (p + 2) (p + 1) bs]) p ([i, of_nat (length bs)] @ bs)"
  by (rule fillsI) (simp add: block_simps zeros assms del: One_nat_def add_2_eq_Suc')

lemma ucast_len: "ucast (of_nat k :: u32) = (of_nat k :: u8)"
  by (simp add: unsigned_of_nat word_of_nat_eq_iff)

lemma Some_eq_None: "(Some x = None) = False"
  by simp

subsection \<open>Bits of a byte\<close>

text \<open>Setting a bit to a truth value; what \<open>set_flag\<close> does with a mask and its complement.\<close>

definition put_flag :: "nat \<Rightarrow> bool \<Rightarrow> u8 \<Rightarrow> u8" where
  "put_flag n c b = (if c then set_bit n b else unset_bit n b)"

lemma bit_put_flag [simp]: "n < 8 \<Longrightarrow> bit (put_flag n c b) m \<longleftrightarrow> (if m = n then c else bit b m)"
  by (auto simp: put_flag_def bit_set_bit_iff bit_unset_bit_iff)

lemma or_mask: "b OR 0x80 = set_bit 7 (b :: u8)" "b OR 0x40 = set_bit 6 b" "b OR 0x20 = set_bit 5 b"
  "b OR 0x10 = set_bit 4 b" "b OR 0x08 = set_bit 3 b" "b OR 0x04 = set_bit 2 b" "b OR 0x02 = set_bit 1 b"
  "b OR 0x01 = set_bit 0 b"
  by (simp_all add: set_bit_eq_or)

lemma and_mask: "b AND 0x7f = unset_bit 7 (b :: u8)" "b AND 0xbf = unset_bit 6 b" "b AND 0xdf = unset_bit 5 b"
  "b AND 0xef = unset_bit 4 b" "b AND 0xf7 = unset_bit 3 b" "b AND 0xfb = unset_bit 2 b" "b AND 0xfd = unset_bit 1 b"
  "b AND 0xfe = unset_bit 0 b"
proof -
  have "NOT (push_bit 7 1) = (0x7f :: u8)" "NOT (push_bit 6 1) = (0xbf :: u8)" "NOT (push_bit 5 1) = (0xdf :: u8)"
    "NOT (push_bit 4 1) = (0xef :: u8)" "NOT (push_bit 3 1) = (0xf7 :: u8)" "NOT (push_bit 2 1) = (0xfb :: u8)"
    "NOT (push_bit 1 1) = (0xfd :: u8)" "NOT (push_bit 0 1) = (0xfe :: u8)" by simp_all
  then show "b AND 0x7f = unset_bit 7 b" "b AND 0xbf = unset_bit 6 b" "b AND 0xdf = unset_bit 5 b"
    "b AND 0xef = unset_bit 4 b" "b AND 0xf7 = unset_bit 3 b" "b AND 0xfb = unset_bit 2 b" "b AND 0xfd = unset_bit 1 b"
    "b AND 0xfe = unset_bit 0 b"
    by (simp_all only: unset_bit_eq_and_not)
qed

lemma set_flag_put_flag:
  "set_flag a c 0x80 0x7f = upd8 a (put_flag 7 c)" "set_flag a c 0x40 0xbf = upd8 a (put_flag 6 c)"
  "set_flag a c 0x20 0xdf = upd8 a (put_flag 5 c)" "set_flag a c 0x10 0xef = upd8 a (put_flag 4 c)"
  "set_flag a c 0x08 0xf7 = upd8 a (put_flag 3 c)" "set_flag a c 0x04 0xfb = upd8 a (put_flag 2 c)"
  "set_flag a c 0x02 0xfd = upd8 a (put_flag 1 c)" "set_flag a c 0x01 0xfe = upd8 a (put_flag 0 c)"
  unfolding set_flag_def put_flag_def or_mask and_mask by (rule refl)+

lemma test_mask: "b AND 0x80 \<noteq> 0 \<longleftrightarrow> bit (b :: u8) 7" "b AND 0x40 \<noteq> 0 \<longleftrightarrow> bit b 6" "b AND 0x20 \<noteq> 0 \<longleftrightarrow> bit b 5"
  "b AND 0x10 \<noteq> 0 \<longleftrightarrow> bit b 4" "b AND 0x08 \<noteq> 0 \<longleftrightarrow> bit b 3" "b AND 0x04 \<noteq> 0 \<longleftrightarrow> bit b 2" "b AND 0x02 \<noteq> 0 \<longleftrightarrow> bit b 1"
  "b AND 0x01 \<noteq> 0 \<longleftrightarrow> bit b 0"
  using and_exp_eq_0_iff_not_bit [of b 7] and_exp_eq_0_iff_not_bit [of b 6] and_exp_eq_0_iff_not_bit [of b 5]
    and_exp_eq_0_iff_not_bit [of b 4] and_exp_eq_0_iff_not_bit [of b 3] and_exp_eq_0_iff_not_bit [of b 2]
    and_exp_eq_0_iff_not_bit [of b 1] and_exp_eq_0_iff_not_bit [of b 0] by simp_all

lemma less_8_cases: "n < 8 \<Longrightarrow> n = 0 \<or> n = 1 \<or> n = 2 \<or> n = 3 \<or> n = 4 \<or> n = 5 \<or> n = 6 \<or> n = (7 :: nat)"
  by arith

lemma byte_eqI:
  assumes "bit v 0 = bit w 0" "bit v 1 = bit w 1" "bit v 2 = bit w 2" "bit v 3 = bit w 3"
    "bit v 4 = bit w 4" "bit v 5 = bit w 5" "bit v 6 = bit w 6" "bit v 7 = bit w 7"
  shows "v = (w :: u8)"
proof (rule bit_word_eqI)
  fix n assume "n < LENGTH(8)"
  then show "bit v n = bit w n" using less_8_cases [of n] assms by auto
qed

lemma u16_eqI:
  assumes "bit v 0 = bit w 0" "bit v 1 = bit w 1" "bit v 2 = bit w 2" "bit v 3 = bit w 3" "bit v 4 = bit w 4" "bit v 5 = bit w 5" "bit v 6 = bit w 6" "bit v 7 = bit w 7"
    "bit v 8 = bit w 8" "bit v 9 = bit w 9" "bit v 10 = bit w 10" "bit v 11 = bit w 11" "bit v 12 = bit w 12" "bit v 13 = bit w 13" "bit v 14 = bit w 14" "bit v 15 = bit w 15"
  shows "v = (w :: u16)"
proof (rule bit_word_eqI)
  fix n assume "n < LENGTH(16)"
  then have "n \<in> {0, 1, 2, 3, 4, 5, 6, 7, 8, 9, 10, 11, 12, 13, 14, 15}" by simp presburger
  then show "bit v n = bit w n" using assms by auto
qed

subsection \<open>The search for an element\<close>

text \<open>
  A list of optional parts \<open>(i, n, bs)\<close>: the element \<open>i\<close> of size \<open>n\<close> is there as the bytes \<open>bs\<close>, or
  \<open>bs\<close> is empty.
\<close>

definition optional_part :: "u8 \<times> u32 \<times> u8 list \<Rightarrow> bool" where
  "optional_part = (\<lambda>(i, n, bs). bs = [] \<or> hd bs = i \<and> length bs = unat n)"

primrec part_sizes :: "(u8 \<times> u32 \<times> u8 list) list \<Rightarrow> (u8 \<times> u32) list" where
  "part_sizes [] = []"
| "part_sizes (e # es) = (fst e, fst (snd e)) # part_sizes es"

primrec part_bytes :: "(u8 \<times> u32 \<times> u8 list) list \<Rightarrow> u8 list" where
  "part_bytes [] = []"
| "part_bytes (e # es) = snd (snd e) @ part_bytes es"

lemma hd_part_bytes:
  "\<forall>e\<in>set es. optional_part e \<Longrightarrow> hd (part_bytes es @ r # post) = r \<or> hd (part_bytes es @ r # post) \<in> fst ` set es"
proof (induction es)
  case (Cons e es)
  obtain i n bs where e: "e = (i, n, bs)" by (cases e)
  show ?case
  proof (cases "bs = []")
    case True
    then show ?thesis using Cons e by auto
  next
    case False
    then show ?thesis using Cons.prems e by (auto simp: optional_part_def)
  qed
qed simp

lemma skip_parts:
  assumes "\<forall>e\<in>set es. optional_part e" "distinct (map fst es)" "r \<notin> fst ` set es" "p = length pre"
  shows "skip_elements (part_sizes es) p (pre @ part_bytes es @ r # post) = Inr (p + length (part_bytes es))"
  using assms
proof (induction es arbitrary: p pre)
  case (Cons e es)
  obtain i n bs where e: "e = (i, n, bs)" by (cases e)
  have p: "\<forall>e\<in>set es. optional_part e" "distinct (map fst es)" "r \<notin> fst ` set es" "i \<notin> fst ` set es" "r \<noteq> i"
    using Cons.prems e by auto
  show ?case
  proof (cases "bs = []")
    case True
    let ?t = "part_bytes es @ r # post"
    have "hd ?t \<noteq> i" using hd_part_bytes [OF p(1), of r post] p by auto
    moreover have "get8 p (pre @ ?t) = Inr (hd ?t)" using get8_block0 [of ?t p pre "[]"] Cons.prems(4) by (simp add: blk_def)
    ultimately show ?thesis using True e Cons.IH [OF p(1-3) Cons.prems(4)] by simp
  next
    case False
    then have h: "hd bs = i" "length bs = unat n" using Cons.prems(1) e by (auto simp: optional_part_def)
    have "get8 p (pre @ bs @ part_bytes es @ r # post) = Inr i" using get8_block0 [OF False Cons.prems(4)] h by (simp add: blk_def)
    moreover have "skip_elements (part_sizes es) (p + unat n) ((pre @ bs) @ part_bytes es @ r # post)
      = Inr (p + unat n + length (part_bytes es))"
      by (rule Cons.IH [OF p(1-3)]) (simp add: Cons.prems(4) h)
    ultimately show ?thesis using e h by simp
  qed
qed simp

lemma find_element_parts:
  assumes "\<forall>e\<in>set es. optional_part e" "distinct (map fst es)" "i \<notin> fst ` set es" "p = length pre"
  shows "find_element p (part_sizes es) i (pre @ part_bytes es @ i # post) = Inr (Some (p + length (part_bytes es)))"
proof -
  have "get8 (p + length (part_bytes es)) ((pre @ part_bytes es) @ i # post) = Inr i"
    using get8_block0 [of "i # post" "p + length (part_bytes es)" "pre @ part_bytes es" "[]"] assms(4) by (simp add: blk_def)
  then show ?thesis using skip_parts [OF assms] by (simp add: find_element_def)
qed

text \<open>Without any part, at the end of the memory, the search reads the byte behind it.\<close>

lemma find_element_end: "p = length M \<Longrightarrow> find_element p es i M = Inl OutOfBounds"
  by (cases es rule: list.exhaust) (auto simp: find_element_def get8_def)

end
