(* ===== verification/Beacon80211e.thy ===== *)
theory Beacon80211e
  imports FrameBody
begin

text \<open>
  The frame body of beacons: its length, the setters and the getters of its parts.
\<close>

definition SpecifyWithOrWithoutSomeOptionalInfoFlagFor80211eBeaconFrameBody :: "bool \<Rightarrow> bool \<Rightarrow> bool \<Rightarrow> bool \<Rightarrow>
    bool \<Rightarrow> bool \<Rightarrow> bool \<Rightarrow> bool \<Rightarrow> u8" where
  "SpecifyWithOrWithoutSomeOptionalInfoFlagFor80211eBeaconFrameBody WithFH WithDS WithCF WithIBSS WithTIM
      WithQBSS WithEDCA WithQoS =
     given_flag WithFH WITH_FH_FLAG OR given_flag WithDS WITH_DS_FLAG OR given_flag WithCF WITH_CF_FLAG OR
         given_flag WithIBSS WITH_IBSS_FLAG OR given_flag WithTIM WITH_TIM_FLAG OR given_flag WithQBSS
         WITH_QBSS_LOAD_FLAG OR given_flag WithEDCA WITH_EDCA_PARAMETER_SET_FLAG OR given_flag WithQoS
         WITH_QOS_CAPABILITY_FLAG"

definition Calculate80211eBeaconFrameBodyLength :: "u8 \<Rightarrow> u32 \<Rightarrow> u32 \<Rightarrow> u32 \<Rightarrow> u32" where
  "Calculate80211eBeaconFrameBodyLength OptionalInfoFlag SSID_Len SupportedRates_Len PartialVirtualBitmap_Len =
     8 + 2 + 2 + (2 + SSID_Len) + (2 + SupportedRates_Len) + opt OptionalInfoFlag WITH_FH_FLAG 7
     + opt OptionalInfoFlag WITH_DS_FLAG 3 + opt OptionalInfoFlag WITH_CF_FLAG 8
     + opt OptionalInfoFlag WITH_IBSS_FLAG 4
     + opt OptionalInfoFlag WITH_TIM_FLAG (5 + PartialVirtualBitmap_Len)
     + opt OptionalInfoFlag WITH_QBSS_LOAD_FLAG 7 + opt OptionalInfoFlag WITH_EDCA_PARAMETER_SET_FLAG 20
     + opt OptionalInfoFlag WITH_QOS_CAPABILITY_FLAG 3"

definition SetTimestampInto80211eBeaconFrameBody :: "ptr \<Rightarrow> u64 option \<Rightarrow> buf \<Rightarrow> abort + buf" where
  "SetTimestampInto80211eBeaconFrameBody Body Timestamp M =
     (if Body = None \<or> Timestamp = None then Inr M
      else let p = body_at Body (0) in bcopy p 8 (le64 (the Timestamp)) M)"

definition SetBeaconIntervalInto80211eBeaconFrameBody :: "ptr \<Rightarrow> u16 option \<Rightarrow> buf \<Rightarrow> abort + buf" where
  "SetBeaconIntervalInto80211eBeaconFrameBody Body Interval M =
     (if Body = None \<or> Interval = None then Inr M
      else let p = body_at Body (8) in bcopy p 2 (le16 (the Interval)) M)"

definition SetCapabilityInfoInto80211eBeaconFrameBody :: "ptr \<Rightarrow> bool \<Rightarrow> bool \<Rightarrow> bool \<Rightarrow> bool \<Rightarrow> bool \<Rightarrow> bool \<Rightarrow>
    bool \<Rightarrow> bool \<Rightarrow> bool \<Rightarrow> bool \<Rightarrow> bool \<Rightarrow> bool \<Rightarrow> bool \<Rightarrow> bool \<Rightarrow> bool \<Rightarrow> buf \<Rightarrow> abort + buf" where
  "SetCapabilityInfoInto80211eBeaconFrameBody Body ESS IBSS CF_Pollable CF_Poll_Request Privacy
      ShortPreamble PBCC ChannelAgility SpectrumManagement QoS ShortSlotTime APSD DSSS_OFDM
      DelayedBloackAck ImmediateBlockAck M =
     (if Body = None then Inr M
      else let p = body_at Body (8 + 2) in run (capability_writes p ESS IBSS CF_Pollable CF_Poll_Request
          Privacy ShortPreamble PBCC ChannelAgility SpectrumManagement QoS ShortSlotTime APSD DSSS_OFDM
          DelayedBloackAck ImmediateBlockAck) M)"

definition SetSSIDInto80211eBeaconFrameBody :: "ptr \<Rightarrow> u32 \<Rightarrow> u8 list option \<Rightarrow> buf \<Rightarrow> abort + buf" where
  "SetSSIDInto80211eBeaconFrameBody Body SSID_Len SSID M =
     (if Body = None \<or> SSID = None then Inr M
      else let p = body_at Body (8 + 2 + 2) in
        run [put8 p ELEMENT_ID_SSID, put8 (p + 1) (ucast SSID_Len), bcopy_len (p + 2) (p + 1) (the SSID)] M)"

definition SetSupportedRatesInto80211eBeaconFrameBody :: "ptr \<Rightarrow> u32 \<Rightarrow> u32 \<Rightarrow> u8 list option \<Rightarrow> buf \<Rightarrow> abort +
    buf" where
  "SetSupportedRatesInto80211eBeaconFrameBody Body SSID_Len SupportedRates_Len SupportedRates M =
     (if Body = None \<or> SupportedRates = None then Inr M
      else let p = body_at Body (8 + 2 + 2 + (2 + SSID_Len)) in
        run [put8 p ELEMENT_ID_SUPPORTED_RATES, put8 (p + 1) (ucast SupportedRates_Len),
             bcopy_len (p + 2) (p + 1) (the SupportedRates)] M)"

definition SetFHParameterSetInto80211eBeaconFrameBody :: "ptr \<Rightarrow> u8 \<Rightarrow> u32 \<Rightarrow> u32 \<Rightarrow> u16 option \<Rightarrow> u8 \<Rightarrow> u8 \<Rightarrow> u8
    \<Rightarrow> buf \<Rightarrow> abort + buf" where
  "SetFHParameterSetInto80211eBeaconFrameBody Body OptionalInfoFlag SSID_Len SupportedRates_Len DwellTime
      HopSet HopPattern HopIndex M =
     (if Body = None \<or> DwellTime = None then Inr M
      else if OptionalInfoFlag AND WITH_FH_FLAG = 0 then Inr M
      else let p = body_at Body (8 + 2 + 2 + (2 + SSID_Len) + (2 + SupportedRates_Len)) in
        run [put8 p ELEMENT_ID_FH_PARAMETER_SET, put8 (p + 1) 0x05,
             bcopy (p + 2) 2 (le16 (the DwellTime)), put8 (p + 4) HopSet, put8 (p + 5) HopPattern,
             put8 (p + 6) HopIndex] M)"

definition SetDSParameterSetInto80211eBeaconFrameBody :: "ptr \<Rightarrow> u8 \<Rightarrow> u32 \<Rightarrow> u32 \<Rightarrow> u8 \<Rightarrow> buf \<Rightarrow> abort + buf" where
  "SetDSParameterSetInto80211eBeaconFrameBody Body OptionalInfoFlag SSID_Len SupportedRates_Len
      CurrentChannel M =
     (if Body = None then Inr M
      else if OptionalInfoFlag AND WITH_DS_FLAG = 0 then Inr M
      else let p = body_at Body (8 + 2 + 2 + (2 + SSID_Len) + (2 + SupportedRates_Len) + opt
          OptionalInfoFlag WITH_FH_FLAG 7) in
        run [put8 p ELEMENT_ID_DS_PARAMETER_SET, put8 (p + 1) 0x01, put8 (p + 2) CurrentChannel] M)"

definition SetCFParameterSetInto80211eBeaconFrameBody :: "ptr \<Rightarrow> u8 \<Rightarrow> u32 \<Rightarrow> u32 \<Rightarrow> u8 \<Rightarrow> u8 \<Rightarrow> u16 option \<Rightarrow> u16
    option \<Rightarrow> buf \<Rightarrow> abort + buf" where
  "SetCFParameterSetInto80211eBeaconFrameBody Body OptionalInfoFlag SSID_Len SupportedRates_Len Count
      Period MaxDuration DurRemaining M =
     (if Body = None \<or> MaxDuration = None \<or> DurRemaining = None then Inr M
      else if OptionalInfoFlag AND WITH_CF_FLAG = 0 then Inr M
      else let p = body_at Body (8 + 2 + 2 + (2 + SSID_Len) + (2 + SupportedRates_Len) + opt
          OptionalInfoFlag WITH_FH_FLAG 7 + opt OptionalInfoFlag WITH_DS_FLAG 3) in
        run [put8 p ELEMENT_ID_CF_PARAMETER_SET, put8 (p + 1) 0x06, put8 (p + 2) Count,
             put8 (p + 3) Period, bcopy (p + 4) 2 (le16 (the MaxDuration)),
             bcopy (p + 6) 2 (le16 (the DurRemaining))] M)"

definition SetIBSSParameterSetInto80211eBeaconFrameBody :: "ptr \<Rightarrow> u8 \<Rightarrow> u32 \<Rightarrow> u32 \<Rightarrow> u16 option \<Rightarrow> buf \<Rightarrow> abort
    + buf" where
  "SetIBSSParameterSetInto80211eBeaconFrameBody Body OptionalInfoFlag SSID_Len SupportedRates_Len
      ATIM_Window M =
     (if Body = None \<or> ATIM_Window = None then Inr M
      else if OptionalInfoFlag AND WITH_IBSS_FLAG = 0 then Inr M
      else let p = body_at Body (8 + 2 + 2 + (2 + SSID_Len) + (2 + SupportedRates_Len) + opt
          OptionalInfoFlag WITH_FH_FLAG 7 + opt OptionalInfoFlag WITH_DS_FLAG 3 + opt OptionalInfoFlag
          WITH_CF_FLAG 8) in
        run [put8 p ELEMENT_ID_IBSS_PARAMETER_SET, put8 (p + 1) 0x02,
             bcopy (p + 2) 2 (le16 (the ATIM_Window))] M)"

definition SetTIMInto80211eBeaconFrameBody :: "ptr \<Rightarrow> u8 \<Rightarrow> u32 \<Rightarrow> u32 \<Rightarrow> u8 \<Rightarrow> u8 \<Rightarrow> u8 \<Rightarrow> u32 \<Rightarrow> u8 list option \<Rightarrow>
    buf \<Rightarrow> abort + buf" where
  "SetTIMInto80211eBeaconFrameBody Body OptionalInfoFlag SSID_Len SupportedRates_Len Count Period
      Bitmap_Ctrl PartialVirtualBitmap_Len PartialVirtualBitmap M =
     (if Body = None \<or> PartialVirtualBitmap = None then Inr M
      else if OptionalInfoFlag AND WITH_TIM_FLAG = 0 then Inr M
      else let p = body_at Body (8 + 2 + 2 + (2 + SSID_Len) + (2 + SupportedRates_Len) + opt
          OptionalInfoFlag WITH_FH_FLAG 7 + opt OptionalInfoFlag WITH_DS_FLAG 3 + opt OptionalInfoFlag
          WITH_CF_FLAG 8 + opt OptionalInfoFlag WITH_IBSS_FLAG 4) in
        run [put8 p ELEMENT_ID_TIM, put8 (p + 1) (ucast (3 + PartialVirtualBitmap_Len)),
             put8 (p + 2) Count, put8 (p + 3) Period, put8 (p + 4) Bitmap_Ctrl,
             bcopy (p + 5) (unat PartialVirtualBitmap_Len) (the PartialVirtualBitmap)] M)"

definition SetQBSSLoadInto80211eBeaconFrameBody :: "ptr \<Rightarrow> u8 \<Rightarrow> u32 \<Rightarrow> u32 \<Rightarrow> u32 \<Rightarrow> u16 option \<Rightarrow> u8 \<Rightarrow> u16
    option \<Rightarrow> buf \<Rightarrow> abort + buf" where
  "SetQBSSLoadInto80211eBeaconFrameBody Body OptionalInfoFlag SSID_Len SupportedRates_Len
      PartialVirtualBitmap_Len StationCount ChannelUtilization AvailableAdmissionCapacity M =
     (if Body = None \<or> StationCount = None \<or> AvailableAdmissionCapacity = None then Inr M
      else if OptionalInfoFlag AND WITH_QBSS_LOAD_FLAG = 0 then Inr M
      else let p = body_at Body (8 + 2 + 2 + (2 + SSID_Len) + (2 + SupportedRates_Len) + opt
          OptionalInfoFlag WITH_FH_FLAG 7 + opt OptionalInfoFlag WITH_DS_FLAG 3 + opt OptionalInfoFlag
          WITH_CF_FLAG 8 + opt OptionalInfoFlag WITH_IBSS_FLAG 4 + opt OptionalInfoFlag WITH_TIM_FLAG (5 +
          PartialVirtualBitmap_Len)) in
        run [put8 p ELEMENT_ID_QBSS_LOAD, put8 (p + 1) 0x05, bcopy (p + 2) 2 (le16 (the StationCount)),
             put8 (p + 4) ChannelUtilization, bcopy (p + 5) 2 (le16 (the AvailableAdmissionCapacity))] M)"

definition SetEDCAParameterSetInto80211eBeaconFrameBody :: "ptr \<Rightarrow> u8 \<Rightarrow> u32 \<Rightarrow> u32 \<Rightarrow> u32 \<Rightarrow> u8 \<Rightarrow> bool \<Rightarrow> bool \<Rightarrow>
    bool \<Rightarrow> u8 \<Rightarrow> bool \<Rightarrow> u8 \<Rightarrow> u16 option \<Rightarrow> u8 \<Rightarrow> bool \<Rightarrow> u8 \<Rightarrow> u16 option \<Rightarrow> u8 \<Rightarrow> bool \<Rightarrow> u8 \<Rightarrow> u16 option \<Rightarrow> u8 \<Rightarrow>
    bool \<Rightarrow> u8 \<Rightarrow> u16 option \<Rightarrow> buf \<Rightarrow> abort + buf" where
  "SetEDCAParameterSetInto80211eBeaconFrameBody Body OptionalInfoFlag SSID_Len SupportedRates_Len
      PartialVirtualBitmap_Len QoSInfo_EDCAParameterSetUpdateCount QoSInfo_QAck QoSInfo_QueueRequest
      QoSInfo_TXOPRequest AC_BE_AIFSN AC_BE_ACM AC_BE_ECW AC_BE_TXOP_Limit AC_BK_AIFSN AC_BK_ACM AC_BK_ECW
      AC_BK_TXOP_Limit AC_VI_AIFSN AC_VI_ACM AC_VI_ECW AC_VI_TXOP_Limit AC_VO_AIFSN AC_VO_ACM AC_VO_ECW
      AC_VO_TXOP_Limit M =
     (if Body = None \<or> AC_BE_TXOP_Limit = None \<or> AC_BK_TXOP_Limit = None \<or> AC_VI_TXOP_Limit = None \<or>
         AC_VO_TXOP_Limit = None then Inr M
      else if OptionalInfoFlag AND WITH_EDCA_PARAMETER_SET_FLAG = 0 then Inr M
      else let p = body_at Body (8 + 2 + 2 + (2 + SSID_Len) + (2 + SupportedRates_Len) + opt
          OptionalInfoFlag WITH_FH_FLAG 7 + opt OptionalInfoFlag WITH_DS_FLAG 3 + opt OptionalInfoFlag
          WITH_CF_FLAG 8 + opt OptionalInfoFlag WITH_IBSS_FLAG 4 + opt OptionalInfoFlag WITH_TIM_FLAG (5 +
          PartialVirtualBitmap_Len) + opt OptionalInfoFlag WITH_QBSS_LOAD_FLAG 7) in
        run ([put8 p ELEMENT_ID_EDCA_PARAMETER_SET, put8 (p + 1) 0x12]
             @ qos_info (p + 2) QoSInfo_EDCAParameterSetUpdateCount QoSInfo_QAck QoSInfo_QueueRequest
                 QoSInfo_TXOPRequest
             @ ac_record (p + 4) (\<lambda>b. b AND 0xfb) (\<lambda>b. b AND 0xfd) AC_BE_AIFSN AC_BE_ACM AC_BE_ECW (the
                 AC_BE_TXOP_Limit)
             @ ac_record (p + 8) (\<lambda>b. b AND 0xfb) (\<lambda>b. b OR 0x02) AC_BK_AIFSN AC_BK_ACM AC_BK_ECW (the
                 AC_BK_TXOP_Limit)
             @ ac_record (p + 12) (\<lambda>b. b OR 0x04) (\<lambda>b. b AND 0xfd) AC_VI_AIFSN AC_VI_ACM AC_VI_ECW (the
                 AC_VI_TXOP_Limit)
             @ ac_record (p + 16) (\<lambda>b. b OR 0x04) (\<lambda>b. b OR 0x02) AC_VO_AIFSN AC_VO_ACM AC_VO_ECW (the
                 AC_VO_TXOP_Limit)) M)"

definition SetQoSCapabilityInto80211eBeaconFrameBody :: "ptr \<Rightarrow> u8 \<Rightarrow> u32 \<Rightarrow> u32 \<Rightarrow> u32 \<Rightarrow> u8 \<Rightarrow> bool \<Rightarrow> bool \<Rightarrow>
    bool \<Rightarrow> buf \<Rightarrow> abort + buf" where
  "SetQoSCapabilityInto80211eBeaconFrameBody Body OptionalInfoFlag SSID_Len SupportedRates_Len
      PartialVirtualBitmap_Len QoSInfo_EDCAParameterSetUpdateCount QoSInfo_QAck QoSInfo_QueueRequest
      QoSInfo_TXOPRequest M =
     (if Body = None then Inr M
      else if OptionalInfoFlag AND WITH_QOS_CAPABILITY_FLAG = 0 then Inr M
      else let p = body_at Body (8 + 2 + 2 + (2 + SSID_Len) + (2 + SupportedRates_Len) + opt
          OptionalInfoFlag WITH_FH_FLAG 7 + opt OptionalInfoFlag WITH_DS_FLAG 3 + opt OptionalInfoFlag
          WITH_CF_FLAG 8 + opt OptionalInfoFlag WITH_IBSS_FLAG 4 + opt OptionalInfoFlag WITH_TIM_FLAG (5 +
          PartialVirtualBitmap_Len) + opt OptionalInfoFlag WITH_QBSS_LOAD_FLAG 7 + opt OptionalInfoFlag
          WITH_EDCA_PARAMETER_SET_FLAG 20) in
        run ([put8 p ELEMENT_ID_QOS_CAPABILITY, put8 (p + 1) 0x01]
             @ qos_info (p + 2) QoSInfo_EDCAParameterSetUpdateCount QoSInfo_QAck QoSInfo_QueueRequest
                 QoSInfo_TXOPRequest) M)"

definition GetTimestampFrom80211eBeaconFrameBody :: "ptr \<Rightarrow> u64 option \<Rightarrow> buf \<Rightarrow> abort + u64 option" where
  "GetTimestampFrom80211eBeaconFrameBody Body Timestamp M =
     (if Body = None \<or> Timestamp = None then Inr Timestamp
      else map_sum id Some (get64 (body_at Body (0)) M))"

definition GetBeaconIntervalFrom80211eBeaconFrameBody :: "ptr \<Rightarrow> u16 option \<Rightarrow> buf \<Rightarrow> abort + u16 option" where
  "GetBeaconIntervalFrom80211eBeaconFrameBody Body Interval M =
     (if Body = None \<or> Interval = None then Inr Interval
      else map_sum id Some (get16 (body_at Body (8)) M))"

definition GetCapabilityInfoFrom80211eBeaconFrameBody :: "ptr \<Rightarrow> buf \<Rightarrow> abort + ptr" where
  "GetCapabilityInfoFrom80211eBeaconFrameBody Body M =
     (if Body = None then Inr None
      else Inr (Some (body_at Body (8 + 2))))"

definition GetSSIDFrom80211eBeaconFrameBody :: "ptr \<Rightarrow> u32 option \<Rightarrow> buf \<Rightarrow> abort + (ptr \<times> u32 option)" where
  "GetSSIDFrom80211eBeaconFrameBody Body SSID_Len M =
     (if Body = None \<or> SSID_Len = None then Inr (None, SSID_Len)
      else let p = body_at Body (8 + 2 + 2) in
        map_sum id (\<lambda>b. (Some (p + 2), Some (char_uint b))) (get8 (p + 1) M))"

definition GetSupportedRatesFrom80211eBeaconFrameBody :: "ptr \<Rightarrow> u32 \<Rightarrow> u32 option \<Rightarrow> buf \<Rightarrow> abort + (ptr \<times> u32
    option)" where
  "GetSupportedRatesFrom80211eBeaconFrameBody Body SSID_Len SupportedRates_Len M =
     (if Body = None \<or> SupportedRates_Len = None then Inr (None, SupportedRates_Len)
      else let p = body_at Body (8 + 2 + 2 + (2 + SSID_Len)) in
        map_sum id (\<lambda>b. (Some (p + 2), Some (char_uint b))) (get8 (p + 1) M))"

definition GetFHParameterSetFrom80211eBeaconFrameBody :: "ptr \<Rightarrow> u32 \<Rightarrow> u32 \<Rightarrow> buf \<Rightarrow> abort + ptr" where
  "GetFHParameterSetFrom80211eBeaconFrameBody Body SSID_Len SupportedRates_Len M =
     (if Body = None then Inr None
      else find_element (body_at Body (8 + 2 + 2 + (2 + SSID_Len) + (2 + SupportedRates_Len)))
        [] ELEMENT_ID_FH_PARAMETER_SET M)"

definition GetDSParameterSetFrom80211eBeaconFrameBody :: "ptr \<Rightarrow> u32 \<Rightarrow> u32 \<Rightarrow> buf \<Rightarrow> abort + ptr" where
  "GetDSParameterSetFrom80211eBeaconFrameBody Body SSID_Len SupportedRates_Len M =
     (if Body = None then Inr None
      else find_element (body_at Body (8 + 2 + 2 + (2 + SSID_Len) + (2 + SupportedRates_Len)))
        [(ELEMENT_ID_FH_PARAMETER_SET, 7)] ELEMENT_ID_DS_PARAMETER_SET M)"

definition GetCFParameterSetFrom80211eBeaconFrameBody :: "ptr \<Rightarrow> u32 \<Rightarrow> u32 \<Rightarrow> buf \<Rightarrow> abort + ptr" where
  "GetCFParameterSetFrom80211eBeaconFrameBody Body SSID_Len SupportedRates_Len M =
     (if Body = None then Inr None
      else find_element (body_at Body (8 + 2 + 2 + (2 + SSID_Len) + (2 + SupportedRates_Len)))
        [(ELEMENT_ID_FH_PARAMETER_SET, 7), (ELEMENT_ID_DS_PARAMETER_SET, 3)] ELEMENT_ID_CF_PARAMETER_SET M)"

definition GetIBSSParameterSetFrom80211eBeaconFrameBody :: "ptr \<Rightarrow> u32 \<Rightarrow> u32 \<Rightarrow> buf \<Rightarrow> abort + ptr" where
  "GetIBSSParameterSetFrom80211eBeaconFrameBody Body SSID_Len SupportedRates_Len M =
     (if Body = None then Inr None
      else find_element (body_at Body (8 + 2 + 2 + (2 + SSID_Len) + (2 + SupportedRates_Len)))
        [(ELEMENT_ID_FH_PARAMETER_SET, 7), (ELEMENT_ID_DS_PARAMETER_SET, 3), (ELEMENT_ID_CF_PARAMETER_SET,
            8)] ELEMENT_ID_IBSS_PARAMETER_SET M)"

definition GetTIMFrom80211eBeaconFrameBody :: "ptr \<Rightarrow> u32 \<Rightarrow> u32 \<Rightarrow> buf \<Rightarrow> abort + ptr" where
  "GetTIMFrom80211eBeaconFrameBody Body SSID_Len SupportedRates_Len M =
     (if Body = None then Inr None
      else find_element (body_at Body (8 + 2 + 2 + (2 + SSID_Len) + (2 + SupportedRates_Len)))
        [(ELEMENT_ID_FH_PARAMETER_SET, 7), (ELEMENT_ID_DS_PARAMETER_SET, 3), (ELEMENT_ID_CF_PARAMETER_SET, 8),
         (ELEMENT_ID_IBSS_PARAMETER_SET, 4)] ELEMENT_ID_TIM M)"

definition GetQBSSLoadFrom80211eBeaconFrameBody :: "ptr \<Rightarrow> u32 \<Rightarrow> u32 \<Rightarrow> u32 \<Rightarrow> buf \<Rightarrow> abort + ptr" where
  "GetQBSSLoadFrom80211eBeaconFrameBody Body SSID_Len SupportedRates_Len PartialVirtualBitmap_Len M =
     (if Body = None then Inr None
      else find_element (body_at Body (8 + 2 + 2 + (2 + SSID_Len) + (2 + SupportedRates_Len)))
        [(ELEMENT_ID_FH_PARAMETER_SET, 7), (ELEMENT_ID_DS_PARAMETER_SET, 3), (ELEMENT_ID_CF_PARAMETER_SET, 8),
         (ELEMENT_ID_IBSS_PARAMETER_SET, 4), (ELEMENT_ID_TIM, 5 + PartialVirtualBitmap_Len)]
             ELEMENT_ID_QBSS_LOAD M)"

definition GetEDCAParameterSetFrom80211eBeaconFrameBody :: "ptr \<Rightarrow> u32 \<Rightarrow> u32 \<Rightarrow> u32 \<Rightarrow> buf \<Rightarrow> abort + ptr" where
  "GetEDCAParameterSetFrom80211eBeaconFrameBody Body SSID_Len SupportedRates_Len PartialVirtualBitmap_Len M =
     (if Body = None then Inr None
      else find_element (body_at Body (8 + 2 + 2 + (2 + SSID_Len) + (2 + SupportedRates_Len)))
        [(ELEMENT_ID_FH_PARAMETER_SET, 7), (ELEMENT_ID_DS_PARAMETER_SET, 3), (ELEMENT_ID_CF_PARAMETER_SET, 8),
         (ELEMENT_ID_IBSS_PARAMETER_SET, 4), (ELEMENT_ID_TIM, 5 + PartialVirtualBitmap_Len),
         (ELEMENT_ID_QBSS_LOAD, 7)] ELEMENT_ID_EDCA_PARAMETER_SET M)"

definition GetQoSCapabilityFrom80211eBeaconFrameBody :: "ptr \<Rightarrow> u32 \<Rightarrow> u32 \<Rightarrow> u32 \<Rightarrow> buf \<Rightarrow> abort + ptr" where
  "GetQoSCapabilityFrom80211eBeaconFrameBody Body SSID_Len SupportedRates_Len PartialVirtualBitmap_Len M =
     (if Body = None then Inr None
      else find_element (body_at Body (8 + 2 + 2 + (2 + SSID_Len) + (2 + SupportedRates_Len)))
        [(ELEMENT_ID_FH_PARAMETER_SET, 7), (ELEMENT_ID_DS_PARAMETER_SET, 3), (ELEMENT_ID_CF_PARAMETER_SET, 8),
         (ELEMENT_ID_IBSS_PARAMETER_SET, 4), (ELEMENT_ID_TIM, 5 + PartialVirtualBitmap_Len),
         (ELEMENT_ID_QBSS_LOAD, 7), (ELEMENT_ID_EDCA_PARAMETER_SET, 20)] ELEMENT_ID_QOS_CAPABILITY M)"

end
