(* ===== verification/Elements80211e.thy ===== *)
theory Elements80211e
  imports FrameBody
begin

text \<open>
  Reading the elements of a frame body: the getters on an element, given by a pointer to its first
  byte.
\<close>

definition GetESSFrom80211eCapabilityInfo :: "ptr \<Rightarrow> buf \<Rightarrow> abort + bool" where
  "GetESSFrom80211eCapabilityInfo CapabilityInfo M =
     test_bits CapabilityInfo 0 0x80 M"

definition GetIBSSFrom80211eCapabilityInfo :: "ptr \<Rightarrow> buf \<Rightarrow> abort + bool" where
  "GetIBSSFrom80211eCapabilityInfo CapabilityInfo M =
     test_bits CapabilityInfo 0 0x40 M"

definition GetCFPollableFrom80211eCapabilityInfo :: "ptr \<Rightarrow> buf \<Rightarrow> abort + bool" where
  "GetCFPollableFrom80211eCapabilityInfo CapabilityInfo M =
     test_bits CapabilityInfo 0 0x20 M"

definition GetCFPollRequestFrom80211eCapabilityInfo :: "ptr \<Rightarrow> buf \<Rightarrow> abort + bool" where
  "GetCFPollRequestFrom80211eCapabilityInfo CapabilityInfo M =
     test_bits CapabilityInfo 0 0x10 M"

definition GetPrivacyFrom80211eCapabilityInfo :: "ptr \<Rightarrow> buf \<Rightarrow> abort + bool" where
  "GetPrivacyFrom80211eCapabilityInfo CapabilityInfo M =
     test_bits CapabilityInfo 0 0x08 M"

definition GetShortPreambleFrom80211eCapabilityInfo :: "ptr \<Rightarrow> buf \<Rightarrow> abort + bool" where
  "GetShortPreambleFrom80211eCapabilityInfo CapabilityInfo M =
     test_bits CapabilityInfo 0 0x04 M"

definition GetPBCCFrom80211eCapabilityInfo :: "ptr \<Rightarrow> buf \<Rightarrow> abort + bool" where
  "GetPBCCFrom80211eCapabilityInfo CapabilityInfo M =
     test_bits CapabilityInfo 0 0x02 M"

definition GetChannelAgilityFrom80211eCapabilityInfo :: "ptr \<Rightarrow> buf \<Rightarrow> abort + bool" where
  "GetChannelAgilityFrom80211eCapabilityInfo CapabilityInfo M =
     test_bits CapabilityInfo 0 0x01 M"

definition GetSpectrumManagementFrom80211eCapabilityInfo :: "ptr \<Rightarrow> buf \<Rightarrow> abort + bool" where
  "GetSpectrumManagementFrom80211eCapabilityInfo CapabilityInfo M =
     test_bits CapabilityInfo 1 0x80 M"

definition GetQoSFrom80211eCapabilityInfo :: "ptr \<Rightarrow> buf \<Rightarrow> abort + bool" where
  "GetQoSFrom80211eCapabilityInfo CapabilityInfo M =
     test_bits CapabilityInfo 1 0x40 M"

definition GetShortSlotTimeFrom80211eCapabilityInfo :: "ptr \<Rightarrow> buf \<Rightarrow> abort + bool" where
  "GetShortSlotTimeFrom80211eCapabilityInfo CapabilityInfo M =
     test_bits CapabilityInfo 1 0x20 M"

definition GetAPSDFrom80211eCapabilityInfo :: "ptr \<Rightarrow> buf \<Rightarrow> abort + bool" where
  "GetAPSDFrom80211eCapabilityInfo CapabilityInfo M =
     test_bits CapabilityInfo 1 0x10 M"

definition GetDSSSOFDMFrom80211eCapabilityInfo :: "ptr \<Rightarrow> buf \<Rightarrow> abort + bool" where
  "GetDSSSOFDMFrom80211eCapabilityInfo CapabilityInfo M =
     test_bits CapabilityInfo 1 0x04 M"

definition GetDelayedBlockAckFrom80211eCapabilityInfo :: "ptr \<Rightarrow> buf \<Rightarrow> abort + bool" where
  "GetDelayedBlockAckFrom80211eCapabilityInfo CapabilityInfo M =
     test_bits CapabilityInfo 1 0x02 M"

definition GetImmediateBlockAckFrom80211eCapabilityInfo :: "ptr \<Rightarrow> buf \<Rightarrow> abort + bool" where
  "GetImmediateBlockAckFrom80211eCapabilityInfo CapabilityInfo M =
     test_bits CapabilityInfo 1 0x01 M"

definition GetDwellTimeFrom80211eFHParameterSet :: "ptr \<Rightarrow> u16 option \<Rightarrow> buf \<Rightarrow> abort + (bool \<times> u16 option)" where
  "GetDwellTimeFrom80211eFHParameterSet FHParameterSet DwellTime M =
     (if FHParameterSet = None \<or> DwellTime = None then Inr (False, DwellTime)
      else given (get16 (the FHParameterSet + 2) M))"

definition GetHopSetFrom80211eFHParameterSet :: "ptr \<Rightarrow> u8 option \<Rightarrow> buf \<Rightarrow> abort + (bool \<times> u8 option)" where
  "GetHopSetFrom80211eFHParameterSet FHParameterSet HopSet M =
     (if FHParameterSet = None \<or> HopSet = None then Inr (False, HopSet)
      else given (get8 (the FHParameterSet + 4) M))"

definition GetHopPatternFrom80211eFHParameterSet :: "ptr \<Rightarrow> u8 option \<Rightarrow> buf \<Rightarrow> abort + (bool \<times> u8 option)" where
  "GetHopPatternFrom80211eFHParameterSet FHParameterSet HopPattern M =
     (if FHParameterSet = None \<or> HopPattern = None then Inr (False, HopPattern)
      else given (get8 (the FHParameterSet + 5) M))"

definition GetHopIndexFrom80211eFHParameterSet :: "ptr \<Rightarrow> u8 option \<Rightarrow> buf \<Rightarrow> abort + (bool \<times> u8 option)" where
  "GetHopIndexFrom80211eFHParameterSet FHParameterSet HopIndex M =
     (if FHParameterSet = None \<or> HopIndex = None then Inr (False, HopIndex)
      else given (get8 (the FHParameterSet + 6) M))"

definition GetCurrentChannelFrom80211eDSParameterSet :: "ptr \<Rightarrow> u8 option \<Rightarrow> buf \<Rightarrow> abort + (bool \<times> u8
    option)" where
  "GetCurrentChannelFrom80211eDSParameterSet DSParameterSet CurrentChannel M =
     (if DSParameterSet = None \<or> CurrentChannel = None then Inr (False, CurrentChannel)
      else given (get8 (the DSParameterSet + 2) M))"

definition GetCountFrom80211eCFParameterSet :: "ptr \<Rightarrow> u8 option \<Rightarrow> buf \<Rightarrow> abort + (bool \<times> u8 option)" where
  "GetCountFrom80211eCFParameterSet CFParameterSet Count M =
     (if CFParameterSet = None \<or> Count = None then Inr (False, Count)
      else given (get8 (the CFParameterSet + 2) M))"

definition GetPeriodFrom80211eCFParameterSet :: "ptr \<Rightarrow> u8 option \<Rightarrow> buf \<Rightarrow> abort + (bool \<times> u8 option)" where
  "GetPeriodFrom80211eCFParameterSet CFParameterSet Period M =
     (if CFParameterSet = None \<or> Period = None then Inr (False, Period)
      else given (get8 (the CFParameterSet + 3) M))"

definition GetMaxDurationFrom80211eCFParameterSet :: "ptr \<Rightarrow> u16 option \<Rightarrow> buf \<Rightarrow> abort + (bool \<times> u16 option)"
    where
  "GetMaxDurationFrom80211eCFParameterSet CFParameterSet MaxDuration M =
     (if CFParameterSet = None \<or> MaxDuration = None then Inr (False, MaxDuration)
      else given (get16 (the CFParameterSet + 4) M))"

definition GetDurRemainingFrom80211eCFParameterSet :: "ptr \<Rightarrow> u16 option \<Rightarrow> buf \<Rightarrow> abort + (bool \<times> u16
    option)" where
  "GetDurRemainingFrom80211eCFParameterSet CFParameterSet DurRemaining M =
     (if CFParameterSet = None \<or> DurRemaining = None then Inr (False, DurRemaining)
      else given (get16 (the CFParameterSet + 6) M))"

definition GetATIMWindowFrom80211eIBSSParameterSet :: "ptr \<Rightarrow> u16 option \<Rightarrow> buf \<Rightarrow> abort + (bool \<times> u16
    option)" where
  "GetATIMWindowFrom80211eIBSSParameterSet IBSSParameterSet ATIM_Window M =
     (if IBSSParameterSet = None \<or> ATIM_Window = None then Inr (False, ATIM_Window)
      else given (get16 (the IBSSParameterSet + 2) M))"

definition GetCountFrom80211eTIM :: "ptr \<Rightarrow> u8 option \<Rightarrow> buf \<Rightarrow> abort + (bool \<times> u8 option)" where
  "GetCountFrom80211eTIM TIM Count M =
     (if TIM = None \<or> Count = None then Inr (False, Count)
      else given (get8 (the TIM + 2) M))"

definition GetPeriodFrom80211eTIM :: "ptr \<Rightarrow> u8 option \<Rightarrow> buf \<Rightarrow> abort + (bool \<times> u8 option)" where
  "GetPeriodFrom80211eTIM TIM Period M =
     (if TIM = None \<or> Period = None then Inr (False, Period)
      else given (get8 (the TIM + 3) M))"

definition GetBitmapCtrlFrom80211eTIM :: "ptr \<Rightarrow> u8 option \<Rightarrow> buf \<Rightarrow> abort + (bool \<times> u8 option)" where
  "GetBitmapCtrlFrom80211eTIM TIM Bitmap_Ctrl M =
     (if TIM = None \<or> Bitmap_Ctrl = None then Inr (False, Bitmap_Ctrl)
      else given (get8 (the TIM + 4) M))"

definition GetPartialVirtualBitmapFrom80211eTIM :: "ptr \<Rightarrow> u32 option \<Rightarrow> buf \<Rightarrow> abort + (ptr \<times> u32 option)" where
  "GetPartialVirtualBitmapFrom80211eTIM TIM PartialVirtualBitmap_Len M =
     (if TIM = None \<or> PartialVirtualBitmap_Len = None then Inr (None, PartialVirtualBitmap_Len)
      else map_sum id (\<lambda>b. (Some (the TIM + 5), Some (char_uint b - 3))) (get8 (the TIM + 1) M))"

definition GetChallengeTextFrom80211eChallengeText :: "ptr \<Rightarrow> u32 option \<Rightarrow> buf \<Rightarrow> abort + (ptr \<times> u32 option)"
    where
  "GetChallengeTextFrom80211eChallengeText ChallengeText ChallengeText_Len M =
     (if ChallengeText = None \<or> ChallengeText_Len = None then Inr (None, ChallengeText_Len)
      else map_sum id (\<lambda>b. (Some (the ChallengeText + 2), Some (char_uint b))) (get8 (the ChallengeText +
          1) M))"

definition GetStationCountFromQBSSLoad :: "ptr \<Rightarrow> u16 option \<Rightarrow> buf \<Rightarrow> abort + (bool \<times> u16 option)" where
  "GetStationCountFromQBSSLoad QBSSLoad StationCount M =
     (if QBSSLoad = None \<or> StationCount = None then Inr (False, StationCount)
      else given (get16 (the QBSSLoad + 2) M))"

definition GetChannelUtilizationFromQBSSLoad :: "ptr \<Rightarrow> u8 option \<Rightarrow> buf \<Rightarrow> abort + (bool \<times> u8 option)" where
  "GetChannelUtilizationFromQBSSLoad QBSSLoad ChannelUtilization M =
     (if QBSSLoad = None \<or> ChannelUtilization = None then Inr (False, ChannelUtilization)
      else given (get8 (the QBSSLoad + 4) M))"

definition GetAvailableAdmissionCapacityFromQBSSLoad :: "ptr \<Rightarrow> u16 option \<Rightarrow> buf \<Rightarrow> abort + (bool \<times> u16
    option)" where
  "GetAvailableAdmissionCapacityFromQBSSLoad QBSSLoad AvailableAdmissionCapacity M =
     (if QBSSLoad = None \<or> AvailableAdmissionCapacity \<noteq> None then Inr (False, AvailableAdmissionCapacity)
      else sum_bind (get16 (the QBSSLoad + 5) M) (\<lambda>_. Inl NullDeref))"

definition GetQoSInfoFromQoSCapability :: "ptr \<Rightarrow> buf \<Rightarrow> abort + ptr" where
  "GetQoSInfoFromQoSCapability QoSCapability M =
     (if QoSCapability = None then Inr None else Inr (Some (the QoSCapability + 2)))"

definition GetEDCAParameterSetUpdateCountFromQoSInfo :: "ptr \<Rightarrow> u8 option \<Rightarrow> buf \<Rightarrow> abort + (bool \<times> u8
    option)" where
  "GetEDCAParameterSetUpdateCountFromQoSInfo QoSInfo EDCAParameterSetUpdateCount M =
     (if QoSInfo = None \<or> EDCAParameterSetUpdateCount = None then Inr (False, EDCAParameterSetUpdateCount)
      else given (map_sum id (\<lambda>b. drop_bit 4 b AND 0x0f) (get8 (the QoSInfo) M)))"

definition GetQAckFromQoSInfo :: "ptr \<Rightarrow> buf \<Rightarrow> abort + bool" where
  "GetQAckFromQoSInfo QoSInfo M =
     test_bits QoSInfo 0 0x08 M"

definition GetQueueRequestFromQoSInfo :: "ptr \<Rightarrow> buf \<Rightarrow> abort + bool" where
  "GetQueueRequestFromQoSInfo QoSInfo M =
     test_bits QoSInfo 0 0x04 M"

definition GetTXOPRequestFromQoSInfo :: "ptr \<Rightarrow> buf \<Rightarrow> abort + bool" where
  "GetTXOPRequestFromQoSInfo QoSInfo M =
     test_bits QoSInfo 0 0x02 M"

definition GetQoSInfoFromEDCAParameterSet :: "ptr \<Rightarrow> buf \<Rightarrow> abort + ptr" where
  "GetQoSInfoFromEDCAParameterSet EDCAParameterSet M =
     (if EDCAParameterSet = None then Inr None else Inr (Some (the EDCAParameterSet + 2)))"

definition GetACBEParameterRecordFromEDCAParameterSet :: "ptr \<Rightarrow> buf \<Rightarrow> abort + ptr" where
  "GetACBEParameterRecordFromEDCAParameterSet EDCAParameterSet M =
     (if EDCAParameterSet = None then Inr None else Inr (Some (the EDCAParameterSet + 4)))"

definition GetACBKParameterRecordFromEDCAParameterSet :: "ptr \<Rightarrow> buf \<Rightarrow> abort + ptr" where
  "GetACBKParameterRecordFromEDCAParameterSet EDCAParameterSet M =
     (if EDCAParameterSet = None then Inr None else Inr (Some (the EDCAParameterSet + 8)))"

definition GetACVIParameterRecordFromEDCAParameterSet :: "ptr \<Rightarrow> buf \<Rightarrow> abort + ptr" where
  "GetACVIParameterRecordFromEDCAParameterSet EDCAParameterSet M =
     (if EDCAParameterSet = None then Inr None else Inr (Some (the EDCAParameterSet + 12)))"

definition GetACVOParameterRecordFromEDCAParameterSet :: "ptr \<Rightarrow> buf \<Rightarrow> abort + ptr" where
  "GetACVOParameterRecordFromEDCAParameterSet EDCAParameterSet M =
     (if EDCAParameterSet = None then Inr None else Inr (Some (the EDCAParameterSet + 16)))"

definition GetAIFSNFromACXXParameterRecord :: "ptr \<Rightarrow> u8 option \<Rightarrow> buf \<Rightarrow> abort + (bool \<times> u8 option)" where
  "GetAIFSNFromACXXParameterRecord ACXXParameterRecord AIFSN M =
     (if ACXXParameterRecord = None \<or> AIFSN = None then Inr (False, AIFSN)
      else given (map_sum id (\<lambda>b. drop_bit 4 b AND 0x0f) (get8 (the ACXXParameterRecord) M)))"

definition GetACMFromACXXParameterRecord :: "ptr \<Rightarrow> buf \<Rightarrow> abort + bool" where
  "GetACMFromACXXParameterRecord ACXXParameterRecord M =
     test_bits ACXXParameterRecord 0 0x08 M"

definition GetECWFromACXXParameterRecord :: "ptr \<Rightarrow> u8 option \<Rightarrow> buf \<Rightarrow> abort + (bool \<times> u8 option)" where
  "GetECWFromACXXParameterRecord ACXXParameterRecord ECW M =
     (if ACXXParameterRecord = None \<or> ECW = None then Inr (False, ECW)
      else given (get8 (the ACXXParameterRecord + 1) M))"

definition GetTXOPLimitFromACXXParameterRecord :: "ptr \<Rightarrow> u16 option \<Rightarrow> buf \<Rightarrow> abort + (bool \<times> u16 option)" where
  "GetTXOPLimitFromACXXParameterRecord ACXXParameterRecord TXOP_Limit M =
     (if ACXXParameterRecord = None \<or> TXOP_Limit = None then Inr (False, TXOP_Limit)
      else given (get16 (the ACXXParameterRecord + 2) M))"

definition GetTSInfoFromTSPEC :: "ptr \<Rightarrow> buf \<Rightarrow> abort + ptr" where
  "GetTSInfoFromTSPEC TSPEC M =
     (if TSPEC = None then Inr None else Inr (Some (the TSPEC + 2)))"

definition GetNominalMSDUSizeFromTSPEC :: "ptr \<Rightarrow> u16 option \<Rightarrow> buf \<Rightarrow> abort + (bool \<times> u16 option)" where
  "GetNominalMSDUSizeFromTSPEC TSPEC NominalMSDUSize M =
     (if TSPEC = None \<or> NominalMSDUSize = None then Inr (False, NominalMSDUSize)
      else given (sum_bind (get8 (the TSPEC + 5) M) (\<lambda>b. map_sum id (\<lambda>c. of_le [if b AND 0x01 \<noteq> 0 then
          drop_bit 1 c OR 0x80 else drop_bit 1 c AND 0x7f,
                                              drop_bit 1 b AND 0x7f]) (get8 (the TSPEC + 6) M))))"

definition GetNominalMSDUSizeFixedFromTSPEC :: "ptr \<Rightarrow> buf \<Rightarrow> abort + bool" where
  "GetNominalMSDUSizeFixedFromTSPEC TSPEC M =
     (if TSPEC = None then Inr False
      else test_bits TSPEC 6 0x01 M)"

definition GetMaximumMSDUSizeFromTSPEC :: "ptr \<Rightarrow> u16 option \<Rightarrow> buf \<Rightarrow> abort + (bool \<times> u16 option)" where
  "GetMaximumMSDUSizeFromTSPEC TSPEC MaximumMSDUSize M =
     (if TSPEC = None \<or> MaximumMSDUSize = None then Inr (False, MaximumMSDUSize)
      else given (get16 (the TSPEC + 7) M))"

definition GetMinimumServiceIntervalFromTSPEC :: "ptr \<Rightarrow> u32 option \<Rightarrow> buf \<Rightarrow> abort + (bool \<times> u32 option)" where
  "GetMinimumServiceIntervalFromTSPEC TSPEC MinimumServiceInterval M =
     (if TSPEC = None \<or> MinimumServiceInterval = None then Inr (False, MinimumServiceInterval)
      else given (get32 (the TSPEC + 9) M))"

definition GetMaximumServiceIntervalFromTSPEC :: "ptr \<Rightarrow> u32 option \<Rightarrow> buf \<Rightarrow> abort + (bool \<times> u32 option)" where
  "GetMaximumServiceIntervalFromTSPEC TSPEC MaximumServiceInterval M =
     (if TSPEC = None \<or> MaximumServiceInterval = None then Inr (False, MaximumServiceInterval)
      else given (get32 (the TSPEC + 13) M))"

definition GetInactivityIntervalFromTSPEC :: "ptr \<Rightarrow> u32 option \<Rightarrow> buf \<Rightarrow> abort + (bool \<times> u32 option)" where
  "GetInactivityIntervalFromTSPEC TSPEC InactivityInterval M =
     (if TSPEC = None \<or> InactivityInterval = None then Inr (False, InactivityInterval)
      else given (get32 (the TSPEC + 17) M))"

definition GetSyspensionIntervalFromTSPEC :: "ptr \<Rightarrow> u32 option \<Rightarrow> buf \<Rightarrow> abort + (bool \<times> u32 option)" where
  "GetSyspensionIntervalFromTSPEC TSPEC SyspensionInterval M =
     (if TSPEC = None \<or> SyspensionInterval = None then Inr (False, SyspensionInterval)
      else given (get32 (the TSPEC + 21) M))"

definition GetServiceStartTimeFromTSPEC :: "ptr \<Rightarrow> u32 option \<Rightarrow> buf \<Rightarrow> abort + (bool \<times> u32 option)" where
  "GetServiceStartTimeFromTSPEC TSPEC ServiceStartTime M =
     (if TSPEC = None \<or> ServiceStartTime = None then Inr (False, ServiceStartTime)
      else given (get32 (the TSPEC + 25) M))"

definition GetMinimumDataRateFromTSPEC :: "ptr \<Rightarrow> u32 option \<Rightarrow> buf \<Rightarrow> abort + (bool \<times> u32 option)" where
  "GetMinimumDataRateFromTSPEC TSPEC MinimumDataRate M =
     (if TSPEC = None \<or> MinimumDataRate = None then Inr (False, MinimumDataRate)
      else given (get32 (the TSPEC + 29) M))"

definition GetMeanDataRateFromTSPEC :: "ptr \<Rightarrow> u32 option \<Rightarrow> buf \<Rightarrow> abort + (bool \<times> u32 option)" where
  "GetMeanDataRateFromTSPEC TSPEC MeanDataRate M =
     (if TSPEC = None \<or> MeanDataRate = None then Inr (False, MeanDataRate)
      else given (get32 (the TSPEC + 33) M))"

definition GetPeakDataRateFromTSPEC :: "ptr \<Rightarrow> u32 option \<Rightarrow> buf \<Rightarrow> abort + (bool \<times> u32 option)" where
  "GetPeakDataRateFromTSPEC TSPEC PeakDataRate M =
     (if TSPEC = None \<or> PeakDataRate = None then Inr (False, PeakDataRate)
      else given (get32 (the TSPEC + 37) M))"

definition GetBurstSizeFromTSPEC :: "ptr \<Rightarrow> u32 option \<Rightarrow> buf \<Rightarrow> abort + (bool \<times> u32 option)" where
  "GetBurstSizeFromTSPEC TSPEC BurstSize M =
     (if TSPEC = None \<or> BurstSize = None then Inr (False, BurstSize)
      else given (get32 (the TSPEC + 41) M))"

definition GetDelayBoundFromTSPEC :: "ptr \<Rightarrow> u32 option \<Rightarrow> buf \<Rightarrow> abort + (bool \<times> u32 option)" where
  "GetDelayBoundFromTSPEC TSPEC DelayBound M =
     (if TSPEC = None \<or> DelayBound = None then Inr (False, DelayBound)
      else given (get32 (the TSPEC + 45) M))"

definition GetMinimumPHYRateFromTSPEC :: "ptr \<Rightarrow> u32 option \<Rightarrow> buf \<Rightarrow> abort + (bool \<times> u32 option)" where
  "GetMinimumPHYRateFromTSPEC TSPEC MinimumPHYRate M =
     (if TSPEC = None \<or> MinimumPHYRate = None then Inr (False, MinimumPHYRate)
      else given (get32 (the TSPEC + 49) M))"

definition GetSurplusBandwidthAllowanceIntegerPartFromTSPEC :: "ptr \<Rightarrow> u16 option \<Rightarrow> buf \<Rightarrow> abort + (bool \<times>
    u16 option)" where
  "GetSurplusBandwidthAllowanceIntegerPartFromTSPEC TSPEC SurplusBandwidthAllowance_IntegerPart M =
     (if TSPEC = None \<or> SurplusBandwidthAllowance_IntegerPart = None then Inr (False,
         SurplusBandwidthAllowance_IntegerPart)
      else given (map_sum id (\<lambda>b. of_le [drop_bit 5 b AND 0x07, 0x00]) (get8 (the TSPEC + 53) M)))"

definition GetSurplusBandwidthAllowanceDecimalPartFromTSPEC :: "ptr \<Rightarrow> u16 option \<Rightarrow> buf \<Rightarrow> abort + (bool \<times>
    u16 option)" where
  "GetSurplusBandwidthAllowanceDecimalPartFromTSPEC TSPEC SurplusBandwidthAllowance_DecimalPart M =
     (if TSPEC = None \<or> SurplusBandwidthAllowance_DecimalPart = None then Inr (False,
         SurplusBandwidthAllowance_DecimalPart)
      else given (sum_bind (get8 (the TSPEC + 53) M) (\<lambda>b. map_sum id (\<lambda>c. of_le [c, b AND 0x1f]) (get8 (the
          TSPEC + 54) M))))"

definition GetMediumTimeFromTSPEC :: "ptr \<Rightarrow> u16 option \<Rightarrow> buf \<Rightarrow> abort + (bool \<times> u16 option)" where
  "GetMediumTimeFromTSPEC TSPEC MediumTime M =
     (if TSPEC = None \<or> MediumTime = None then Inr (False, MediumTime)
      else given (get16 (the TSPEC + 55) M))"

definition GetTrafficTypeFromTSInfo :: "ptr \<Rightarrow> buf \<Rightarrow> abort + bool" where
  "GetTrafficTypeFromTSInfo TSInfo M =
     (if TSInfo = None then Inr False
      else test_bits TSInfo 0 0x80 M)"

definition GetTSIDFromTSInfo :: "ptr \<Rightarrow> u8 option \<Rightarrow> buf \<Rightarrow> abort + (bool \<times> u8 option)" where
  "GetTSIDFromTSInfo TSInfo TSID M =
     (if TSInfo = None \<or> TSID = None then Inr (False, TSID)
      else given (map_sum id (\<lambda>b. drop_bit 3 b AND 0x0f) (get8 (the TSInfo) M)))"

definition GetDirectionBit1FromTSInfo :: "ptr \<Rightarrow> buf \<Rightarrow> abort + bool" where
  "GetDirectionBit1FromTSInfo TSInfo M =
     (if TSInfo = None then Inr False
      else test_bits TSInfo 0 0x04 M)"

definition GetDirectionBit2FromTSInfo :: "ptr \<Rightarrow> buf \<Rightarrow> abort + bool" where
  "GetDirectionBit2FromTSInfo TSInfo M =
     (if TSInfo = None then Inr False
      else test_bits TSInfo 0 0x02 M)"

definition GetAccessPolicyBit1FromTSInfo :: "ptr \<Rightarrow> buf \<Rightarrow> abort + bool" where
  "GetAccessPolicyBit1FromTSInfo TSInfo M =
     (if TSInfo = None then Inr False
      else test_bits TSInfo 0 0x01 M)"

definition GetAccessPolicyBit2FromTSInfo :: "ptr \<Rightarrow> buf \<Rightarrow> abort + bool" where
  "GetAccessPolicyBit2FromTSInfo TSInfo M =
     (if TSInfo = None then Inr False
      else test_bits TSInfo 1 0x80 M)"

definition GetAggregationFromTSInfo :: "ptr \<Rightarrow> buf \<Rightarrow> abort + bool" where
  "GetAggregationFromTSInfo TSInfo M =
     (if TSInfo = None then Inr False
      else test_bits TSInfo 1 0x40 M)"

definition GetAPSDFromTSInfo :: "ptr \<Rightarrow> buf \<Rightarrow> abort + bool" where
  "GetAPSDFromTSInfo TSInfo M =
     (if TSInfo = None then Inr False
      else test_bits TSInfo 1 0x20 M)"

definition GetUserPriorityFromTSInfo :: "ptr \<Rightarrow> u8 option \<Rightarrow> buf \<Rightarrow> abort + (bool \<times> u8 option)" where
  "GetUserPriorityFromTSInfo TSInfo UserPriority M =
     (if TSInfo = None \<or> UserPriority = None then Inr (False, UserPriority)
      else given (map_sum id (\<lambda>b. drop_bit 2 b AND 0x07) (get8 (the TSInfo + 1) M)))"

definition GetTSInfoAckPolicyBit1FromTSInfo :: "ptr \<Rightarrow> buf \<Rightarrow> abort + bool" where
  "GetTSInfoAckPolicyBit1FromTSInfo TSInfo M =
     (if TSInfo = None then Inr False
      else test_bits TSInfo 1 0x02 M)"

definition GetTSInfoAckPolicyBit2FromTSInfo :: "ptr \<Rightarrow> buf \<Rightarrow> abort + bool" where
  "GetTSInfoAckPolicyBit2FromTSInfo TSInfo M =
     (if TSInfo = None then Inr False
      else test_bits TSInfo 1 0x01 M)"

definition GetScheduleFromTSInfo :: "ptr \<Rightarrow> buf \<Rightarrow> abort + bool" where
  "GetScheduleFromTSInfo TSInfo M =
     (if TSInfo = None then Inr False
      else test_bits TSInfo 2 0x80 M)"

definition GetUserPriorityFromTCLASwithFrameClassifierType0 :: "ptr \<Rightarrow> u8 option \<Rightarrow> buf \<Rightarrow> abort + (bool \<times> u8
    option)" where
  "GetUserPriorityFromTCLASwithFrameClassifierType0 TCLAS UserPriority M =
     (if TCLAS = None \<or> UserPriority = None then Inr (False, UserPriority)
      else given (get8 (the TCLAS + 2) M))"

definition GetClassifierMaskFromTCLASwithFrameClassifierType0 :: "ptr \<Rightarrow> u8 option \<Rightarrow> buf \<Rightarrow> abort + (bool \<times>
    u8 option)" where
  "GetClassifierMaskFromTCLASwithFrameClassifierType0 TCLAS ClassifierMask M =
     (if TCLAS = None \<or> ClassifierMask = None then Inr (False, ClassifierMask)
      else given (get8 (the TCLAS + 4) M))"

definition GetSourceAddressFromTCLASwithFrameClassifierType0 :: "ptr \<Rightarrow> u8 list option \<Rightarrow> buf \<Rightarrow> abort + (bool
    \<times> u8 list option)" where
  "GetSourceAddressFromTCLASwithFrameClassifierType0 TCLAS SourceAddress M =
     (if TCLAS = None \<or> SourceAddress = None then Inr (False, SourceAddress)
      else given (get_bytes 6 (the TCLAS + 5) M))"

definition GetDestinationAddressFromTCLASwithFrameClassifierType0 :: "ptr \<Rightarrow> u8 list option \<Rightarrow> buf \<Rightarrow> abort +
    (bool \<times> u8 list option)" where
  "GetDestinationAddressFromTCLASwithFrameClassifierType0 TCLAS DestinationAddress M =
     (if TCLAS = None \<or> DestinationAddress = None then Inr (False, DestinationAddress)
      else given (get_bytes 6 (the TCLAS + 11) M))"

definition GetTypeFromTCLASwithFrameClassifierType0 :: "ptr \<Rightarrow> u16 option \<Rightarrow> buf \<Rightarrow> abort + (bool \<times> u16
    option)" where
  "GetTypeFromTCLASwithFrameClassifierType0 TCLAS Type M =
     (if TCLAS = None \<or> Type = None then Inr (False, Type)
      else given (get16 (the TCLAS + 17) M))"

definition GetUserPriorityFromTCLASwithFrameClassifierType1ForIPv4 :: "ptr \<Rightarrow> u8 option \<Rightarrow> buf \<Rightarrow> abort +
    (bool \<times> u8 option)" where
  "GetUserPriorityFromTCLASwithFrameClassifierType1ForIPv4 TCLAS UserPriority M =
     (if TCLAS = None \<or> UserPriority = None then Inr (False, UserPriority)
      else given (get8 (the TCLAS + 2) M))"

definition GetClassifierMaskFromTCLASwithFrameClassifierType1ForIPv4 :: "ptr \<Rightarrow> u8 option \<Rightarrow> buf \<Rightarrow> abort +
    (bool \<times> u8 option)" where
  "GetClassifierMaskFromTCLASwithFrameClassifierType1ForIPv4 TCLAS ClassifierMask M =
     (if TCLAS = None \<or> ClassifierMask = None then Inr (False, ClassifierMask)
      else given (get8 (the TCLAS + 4) M))"

definition GetVersionFromTCLASwithFrameClassifierType1ForIPv4 :: "ptr \<Rightarrow> u8 option \<Rightarrow> buf \<Rightarrow> abort + (bool \<times>
    u8 option)" where
  "GetVersionFromTCLASwithFrameClassifierType1ForIPv4 TCLAS Version M =
     (if TCLAS = None \<or> Version = None then Inr (False, Version)
      else given (get8 (the TCLAS + 5) M))"

definition GetSourceIPAddressFromTCLASwithFrameClassifierType1ForIPv4 :: "ptr \<Rightarrow> u8 list option \<Rightarrow> buf \<Rightarrow>
    abort + (bool \<times> u8 list option)" where
  "GetSourceIPAddressFromTCLASwithFrameClassifierType1ForIPv4 TCLAS SourceIPAddress M =
     (if TCLAS = None \<or> SourceIPAddress = None then Inr (False, SourceIPAddress)
      else given (get_bytes 4 (the TCLAS + 6) M))"

definition GetDestinationIPAddressFromTCLASwithFrameClassifierType1ForIPv4 :: "ptr \<Rightarrow> u8 list option \<Rightarrow> buf \<Rightarrow>
    abort + (bool \<times> u8 list option)" where
  "GetDestinationIPAddressFromTCLASwithFrameClassifierType1ForIPv4 TCLAS DestinationIPAddress M =
     (if TCLAS = None \<or> DestinationIPAddress = None then Inr (False, DestinationIPAddress)
      else given (get_bytes 4 (the TCLAS + 10) M))"

definition GetSourcePortFromTCLASwithFrameClassifierType1ForIPv4 :: "ptr \<Rightarrow> u16 option \<Rightarrow> buf \<Rightarrow> abort + (bool
    \<times> u16 option)" where
  "GetSourcePortFromTCLASwithFrameClassifierType1ForIPv4 TCLAS SourcePort M =
     (if TCLAS = None \<or> SourcePort = None then Inr (False, SourcePort)
      else given (get16 (the TCLAS + 14) M))"

definition GetDestinationPortFromTCLASwithFrameClassifierType1ForIPv4 :: "ptr \<Rightarrow> u16 option \<Rightarrow> buf \<Rightarrow> abort +
    (bool \<times> u16 option)" where
  "GetDestinationPortFromTCLASwithFrameClassifierType1ForIPv4 TCLAS DestinationPort M =
     (if TCLAS = None \<or> DestinationPort = None then Inr (False, DestinationPort)
      else given (get16 (the TCLAS + 16) M))"

definition GetDSCPFromTCLASwithFrameClassifierType1ForIPv4 :: "ptr \<Rightarrow> u8 option \<Rightarrow> buf \<Rightarrow> abort + (bool \<times> u8
    option)" where
  "GetDSCPFromTCLASwithFrameClassifierType1ForIPv4 TCLAS DSCP M =
     (if TCLAS = None \<or> DSCP = None then Inr (False, DSCP)
      else given (get8 (the TCLAS + 18) M))"

definition GetProtocolFromTCLASwithFrameClassifierType1ForIPv4 :: "ptr \<Rightarrow> u8 option \<Rightarrow> buf \<Rightarrow> abort + (bool \<times>
    u8 option)" where
  "GetProtocolFromTCLASwithFrameClassifierType1ForIPv4 TCLAS Protocol M =
     (if TCLAS = None \<or> Protocol = None then Inr (False, Protocol)
      else given (get8 (the TCLAS + 19) M))"

definition GetUserPriorityFromTCLASwithFrameClassifierType1ForIPv6 :: "ptr \<Rightarrow> u8 option \<Rightarrow> buf \<Rightarrow> abort +
    (bool \<times> u8 option)" where
  "GetUserPriorityFromTCLASwithFrameClassifierType1ForIPv6 TCLAS UserPriority M =
     (if TCLAS = None \<or> UserPriority = None then Inr (False, UserPriority)
      else given (get8 (the TCLAS + 2) M))"

definition GetClassifierMaskFromTCLASwithFrameClassifierType1ForIPv6 :: "ptr \<Rightarrow> u8 option \<Rightarrow> buf \<Rightarrow> abort +
    (bool \<times> u8 option)" where
  "GetClassifierMaskFromTCLASwithFrameClassifierType1ForIPv6 TCLAS ClassifierMask M =
     (if TCLAS = None \<or> ClassifierMask = None then Inr (False, ClassifierMask)
      else given (get8 (the TCLAS + 4) M))"

definition GetVersionFromTCLASwithFrameClassifierType1ForIPv6 :: "ptr \<Rightarrow> u8 option \<Rightarrow> buf \<Rightarrow> abort + (bool \<times>
    u8 option)" where
  "GetVersionFromTCLASwithFrameClassifierType1ForIPv6 TCLAS Version M =
     (if TCLAS = None \<or> Version = None then Inr (False, Version)
      else given (get8 (the TCLAS + 5) M))"

definition GetSourceIPAddressFromTCLASwithFrameClassifierType1ForIPv6 :: "ptr \<Rightarrow> u8 list option \<Rightarrow> buf \<Rightarrow>
    abort + (bool \<times> u8 list option)" where
  "GetSourceIPAddressFromTCLASwithFrameClassifierType1ForIPv6 TCLAS SourceIPAddress M =
     (if TCLAS = None \<or> SourceIPAddress = None then Inr (False, SourceIPAddress)
      else given (get_bytes 16 (the TCLAS + 6) M))"

definition GetDestinationIPAddressFromTCLASwithFrameClassifierType1ForIPv6 :: "ptr \<Rightarrow> u8 list option \<Rightarrow> buf \<Rightarrow>
    abort + (bool \<times> u8 list option)" where
  "GetDestinationIPAddressFromTCLASwithFrameClassifierType1ForIPv6 TCLAS DestinationIPAddress M =
     (if TCLAS = None \<or> DestinationIPAddress = None then Inr (False, DestinationIPAddress)
      else given (get_bytes 16 (the TCLAS + 22) M))"

definition GetSourcePortFromTCLASwithFrameClassifierType1ForIPv6 :: "ptr \<Rightarrow> u16 option \<Rightarrow> buf \<Rightarrow> abort + (bool
    \<times> u16 option)" where
  "GetSourcePortFromTCLASwithFrameClassifierType1ForIPv6 TCLAS SourcePort M =
     (if TCLAS = None \<or> SourcePort = None then Inr (False, SourcePort)
      else given (get16 (the TCLAS + 38) M))"

definition GetDestinationPortFromTCLASwithFrameClassifierType1ForIPv6 :: "ptr \<Rightarrow> u16 option \<Rightarrow> buf \<Rightarrow> abort +
    (bool \<times> u16 option)" where
  "GetDestinationPortFromTCLASwithFrameClassifierType1ForIPv6 TCLAS DestinationPort M =
     (if TCLAS = None \<or> DestinationPort = None then Inr (False, DestinationPort)
      else given (get16 (the TCLAS + 40) M))"

definition GetFlowLabelFromTCLASwithFrameClassifierType1ForIPv6 :: "ptr \<Rightarrow> u8 list option \<Rightarrow> buf \<Rightarrow> abort +
    (bool \<times> u8 list option)" where
  "GetFlowLabelFromTCLASwithFrameClassifierType1ForIPv6 TCLAS FlowLabel M =
     (if TCLAS = None \<or> FlowLabel = None then Inr (False, FlowLabel)
      else given (get_bytes 3 (the TCLAS + 42) M))"

definition GetUserPriorityFromTCLASwithFrameClassifierType2 :: "ptr \<Rightarrow> u8 option \<Rightarrow> buf \<Rightarrow> abort + (bool \<times> u8
    option)" where
  "GetUserPriorityFromTCLASwithFrameClassifierType2 TCLAS UserPriority M =
     (if TCLAS = None \<or> UserPriority = None then Inr (False, UserPriority)
      else given (get8 (the TCLAS + 2) M))"

definition GetClassifierMaskFromTCLASwithFrameClassifierType2 :: "ptr \<Rightarrow> u8 option \<Rightarrow> buf \<Rightarrow> abort + (bool \<times>
    u8 option)" where
  "GetClassifierMaskFromTCLASwithFrameClassifierType2 TCLAS ClassifierMask M =
     (if TCLAS = None \<or> ClassifierMask = None then Inr (False, ClassifierMask)
      else given (get8 (the TCLAS + 4) M))"

definition Get80211QTagTypeFromTCLASwithFrameClassifierType2 :: "ptr \<Rightarrow> u16 option \<Rightarrow> buf \<Rightarrow> abort + (bool \<times>
    u16 option)" where
  "Get80211QTagTypeFromTCLASwithFrameClassifierType2 TCLAS TagType M =
     (if TCLAS = None \<or> TagType = None then Inr (False, TagType)
      else given (get16 (the TCLAS + 5) M))"

definition GetProcessingFromTCLASProcessing :: "ptr \<Rightarrow> u8 option \<Rightarrow> buf \<Rightarrow> abort + (bool \<times> u8 option)" where
  "GetProcessingFromTCLASProcessing TCLASProcessing Processing M =
     (if TCLASProcessing = None \<or> Processing = None then Inr (False, Processing)
      else given (get8 (the TCLASProcessing + 2) M))"

definition GetDelayFromTSDelay :: "ptr \<Rightarrow> u32 option \<Rightarrow> buf \<Rightarrow> abort + (bool \<times> u32 option)" where
  "GetDelayFromTSDelay TSDelay Delay M =
     (if TSDelay = None \<or> Delay = None then Inr (False, Delay)
      else given (get32 (the TSDelay + 2) M))"

definition GetAggregationFromSchedule :: "ptr \<Rightarrow> buf \<Rightarrow> abort + bool" where
  "GetAggregationFromSchedule Schedule M =
     (if Schedule = None then Inr False
      else test_bits Schedule 2 0x80 M)"

definition GetTSIDFromSchedule :: "ptr \<Rightarrow> u8 option \<Rightarrow> buf \<Rightarrow> abort + (bool \<times> u8 option)" where
  "GetTSIDFromSchedule Schedule TSID M =
     (if Schedule = None \<or> TSID = None then Inr (False, TSID)
      else given (map_sum id (\<lambda>b. drop_bit 3 b AND 0x0f) (get8 (the Schedule + 2) M)))"

definition GetDirectionBit1FromSchedule :: "ptr \<Rightarrow> buf \<Rightarrow> abort + bool" where
  "GetDirectionBit1FromSchedule Schedule M =
     (if Schedule = None then Inr False
      else test_bits Schedule 2 0x04 M)"

definition GetDirectionBit2FromSchedule :: "ptr \<Rightarrow> buf \<Rightarrow> abort + bool" where
  "GetDirectionBit2FromSchedule Schedule M =
     (if Schedule = None then Inr False
      else test_bits Schedule 2 0x02 M)"

definition GetServiceStartTimeFromSchedule :: "ptr \<Rightarrow> u32 option \<Rightarrow> buf \<Rightarrow> abort + (bool \<times> u32 option)" where
  "GetServiceStartTimeFromSchedule Schedule ServiceStartTime M =
     (if Schedule = None \<or> ServiceStartTime = None then Inr (False, ServiceStartTime)
      else given (get32 (the Schedule + 4) M))"

definition GetServiceIntervalFromSchedule :: "ptr \<Rightarrow> u32 option \<Rightarrow> buf \<Rightarrow> abort + (bool \<times> u32 option)" where
  "GetServiceIntervalFromSchedule Schedule ServiceInterval M =
     (if Schedule = None \<or> ServiceInterval = None then Inr (False, ServiceInterval)
      else given (get32 (the Schedule + 8) M))"

definition GetSpecificationIntervalFromSchedule :: "ptr \<Rightarrow> u16 option \<Rightarrow> buf \<Rightarrow> abort + (bool \<times> u16 option)" where
  "GetSpecificationIntervalFromSchedule Schedule SpecificationInterval M =
     (if Schedule = None \<or> SpecificationInterval = None then Inr (False, SpecificationInterval)
      else given (get16 (the Schedule + 12) M))"

definition GetBlockAckPolicyFromBlockAckParameterSet :: "ptr \<Rightarrow> buf \<Rightarrow> abort + bool" where
  "GetBlockAckPolicyFromBlockAckParameterSet BlockAckParameterSet M =
     (if BlockAckParameterSet = None then Inr False
      else test_bits BlockAckParameterSet 0 0x40 M)"

definition GetTIDFromBlockAckParameterSet :: "ptr \<Rightarrow> u8 option \<Rightarrow> buf \<Rightarrow> abort + (bool \<times> u8 option)" where
  "GetTIDFromBlockAckParameterSet BlockAckParameterSet TID M =
     (if BlockAckParameterSet = None \<or> TID = None then Inr (False, TID)
      else given (map_sum id (\<lambda>b. drop_bit 2 b AND 0x0f) (get8 (the BlockAckParameterSet) M)))"

definition GetBufferSizeFromBlockAckParameterSet :: "ptr \<Rightarrow> u16 option \<Rightarrow> buf \<Rightarrow> abort + (bool \<times> u16 option)" where
  "GetBufferSizeFromBlockAckParameterSet BlockAckParameterSet BufferSize M =
     (if BlockAckParameterSet = None \<or> BufferSize = None then Inr (False, BufferSize)
      else given (sum_bind (get8 (the BlockAckParameterSet) M) (\<lambda>b. map_sum id (\<lambda>c. of_le [c, b AND 0x03])
          (get8 (the BlockAckParameterSet + 1) M))))"

definition GetFragmentNumberFromBlockAckStartingSequenceControl :: "ptr \<Rightarrow> u16 option \<Rightarrow> buf \<Rightarrow> abort + (bool
    \<times> u16 option)" where
  "GetFragmentNumberFromBlockAckStartingSequenceControl BlockAckStartingSequenceControl FragmentNumber M =
     (if BlockAckStartingSequenceControl = None \<or> FragmentNumber = None then Inr (False, FragmentNumber)
      else given (map_sum id (\<lambda>b. of_le [drop_bit 4 b AND 0x0f, 0x00]) (get8 (the
          BlockAckStartingSequenceControl) M)))"

definition GetStartingSequenceNumberFromBlockAckStartingSequenceControl :: "ptr \<Rightarrow> u16 option \<Rightarrow> buf \<Rightarrow> abort
    + (bool \<times> u16 option)" where
  "GetStartingSequenceNumberFromBlockAckStartingSequenceControl BlockAckStartingSequenceControl
      StartingSequenceNumber M =
     (if BlockAckStartingSequenceControl = None \<or> StartingSequenceNumber = None then Inr (False,
         StartingSequenceNumber)
      else given (sum_bind (get8 (the BlockAckStartingSequenceControl) M) (\<lambda>b. map_sum id (\<lambda>c. of_le [c, b
          AND 0x0f]) (get8 (the BlockAckStartingSequenceControl + 1) M))))"

definition GetInitiatorFromDELBAParameterSet :: "ptr \<Rightarrow> buf \<Rightarrow> abort + bool" where
  "GetInitiatorFromDELBAParameterSet DELBAParameterSet M =
     (if DELBAParameterSet = None then Inr False
      else test_bits DELBAParameterSet 1 0x10 M)"

definition GetTIDFromDELBAParameterSet :: "ptr \<Rightarrow> u8 option \<Rightarrow> buf \<Rightarrow> abort + (bool \<times> u8 option)" where
  "GetTIDFromDELBAParameterSet DELBAParameterSet TID M =
     (if DELBAParameterSet = None \<or> TID = None then Inr (False, TID)
      else given (map_sum id (\<lambda>b. b AND 0x0f) (get8 (the DELBAParameterSet + 1) M)))"

end
