(* ===== verification/BeaconLayout.thy ===== *)
theory BeaconLayout
  imports FrameLayout Beacon80211e Elements80211e
begin

text \<open>
  Beacons, as the concatenation of their parts: what the setters of \<open>Beacon80211e\<close> write is this
  concatenation, and the getters read the parts back.
\<close>

subsection \<open>What a beacon says\<close>

record capabilities =
  cap_ESS :: bool
  cap_IBSS :: bool
  cap_CF_Pollable :: bool
  cap_CF_Poll_Request :: bool
  cap_Privacy :: bool
  cap_ShortPreamble :: bool
  cap_PBCC :: bool
  cap_ChannelAgility :: bool
  cap_SpectrumManagement :: bool
  cap_QoS :: bool
  cap_ShortSlotTime :: bool
  cap_APSD :: bool
  cap_DSSS_OFDM :: bool
  cap_DelayedBlockAck :: bool
  cap_ImmediateBlockAck :: bool

text \<open>The update count and the three flags; AIFSN, ACM, ECW and TXOP limit of an access category.\<close>

type_synonym qos = "u8 \<times> bool \<times> bool \<times> bool"
type_synonym ac = "u8 \<times> bool \<times> u8 \<times> u16"

record beacon =
  bcn_timestamp :: u64
  bcn_interval :: u16
  bcn_capabilities :: capabilities
  bcn_ssid :: "u8 list"
  bcn_rates :: "u8 list"
  bcn_fh :: "(u16 \<times> u8 \<times> u8 \<times> u8) option"
  bcn_ds :: "u8 option"
  bcn_cf :: "(u8 \<times> u8 \<times> u16 \<times> u16) option"
  bcn_ibss :: "u16 option"
  bcn_tim :: "(u8 \<times> u8 \<times> u8 \<times> u8 list) option"
  bcn_qbss :: "(u16 \<times> u8 \<times> u16) option"
  bcn_edca :: "(qos \<times> ac \<times> ac \<times> ac \<times> ac) option"
  bcn_qos :: "qos option"

text \<open>The lengths that the length bytes can hold, those of \<open>bcopy_len\<close> without their sign bit.\<close>

definition bitmap :: "beacon \<Rightarrow> u8 list" where
  "bitmap b = (case bcn_tim b of None \<Rightarrow> [] | Some (c, p, t, bs) \<Rightarrow> bs)"

definition beacon_ok :: "beacon \<Rightarrow> bool" where
  "beacon_ok b \<longleftrightarrow> length (bcn_ssid b) < 128 \<and> length (bcn_rates b) < 128 \<and> length (bitmap b) \<le> 252"

subsection \<open>Its bytes\<close>

definition capability_bytes :: "capabilities \<Rightarrow> u8 list" where
  "capability_bytes c =
     [put_flag 0 (cap_ChannelAgility c) (put_flag 1 (cap_PBCC c) (put_flag 2 (cap_ShortPreamble c)
        (put_flag 3 (cap_Privacy c) (put_flag 4 (cap_CF_Poll_Request c) (put_flag 5 (cap_CF_Pollable c)
        (put_flag 6 (cap_IBSS c) (put_flag 7 (cap_ESS c) 0))))))),
      put_flag 0 (cap_ImmediateBlockAck c) (put_flag 1 (cap_DelayedBlockAck c) (put_flag 2 (cap_DSSS_OFDM c)
        (put_flag 4 (cap_APSD c) (put_flag 5 (cap_ShortSlotTime c) (put_flag 6 (cap_QoS c)
        (put_flag 7 (cap_SpectrumManagement c) 0))))))]"

definition qos_byte :: "qos \<Rightarrow> u8" where
  "qos_byte = (\<lambda>(c, q, r, t). put_flag 1 t (put_flag 2 r (put_flag 3 q (push_bit 4 c AND 0xf0))))"

definition ac_bytes :: "bool \<Rightarrow> bool \<Rightarrow> ac \<Rightarrow> u8 list" where
  "ac_bytes h l = (\<lambda>(aifsn, acm, ecw, txop).
     [put_flag 1 l (put_flag 2 h (put_flag 3 acm (push_bit 4 aifsn AND 0xf0))), ecw] @ le16 txop)"

definition opt_bytes :: "('a \<Rightarrow> u8 list) \<Rightarrow> 'a option \<Rightarrow> u8 list" where
  "opt_bytes f x = (case x of None \<Rightarrow> [] | Some v \<Rightarrow> f v)"

definition fh_part :: "beacon \<Rightarrow> u8 list" where
  "fh_part b = opt_bytes (\<lambda>(dwell, s, p, i). [ELEMENT_ID_FH_PARAMETER_SET, 0x05] @ le16 dwell @ [s, p, i]) (bcn_fh b)"

definition ds_part :: "beacon \<Rightarrow> u8 list" where
  "ds_part b = opt_bytes (\<lambda>c. [ELEMENT_ID_DS_PARAMETER_SET, 0x01, c]) (bcn_ds b)"

definition cf_part :: "beacon \<Rightarrow> u8 list" where
  "cf_part b = opt_bytes (\<lambda>(c, p, d, r). [ELEMENT_ID_CF_PARAMETER_SET, 0x06, c, p] @ le16 d @ le16 r) (bcn_cf b)"

definition ibss_part :: "beacon \<Rightarrow> u8 list" where
  "ibss_part b = opt_bytes (\<lambda>w. [ELEMENT_ID_IBSS_PARAMETER_SET, 0x02] @ le16 w) (bcn_ibss b)"

definition tim_part :: "beacon \<Rightarrow> u8 list" where
  "tim_part b = opt_bytes (\<lambda>(c, p, t, bs). [ELEMENT_ID_TIM, 3 + of_nat (length bs), c, p, t] @ bs) (bcn_tim b)"

definition qbss_part :: "beacon \<Rightarrow> u8 list" where
  "qbss_part b = opt_bytes (\<lambda>(n, u, a). [ELEMENT_ID_QBSS_LOAD, 0x05] @ le16 n @ [u] @ le16 a) (bcn_qbss b)"

definition edca_part :: "beacon \<Rightarrow> u8 list" where
  "edca_part b = opt_bytes (\<lambda>(q, be, bk, vi, vo). [ELEMENT_ID_EDCA_PARAMETER_SET, 0x12, qos_byte q, 0]
     @ ac_bytes False False be @ ac_bytes False True bk @ ac_bytes True False vi @ ac_bytes True True vo) (bcn_edca b)"

definition qos_part :: "beacon \<Rightarrow> u8 list" where
  "qos_part b = opt_bytes (\<lambda>q. [ELEMENT_ID_QOS_CAPABILITY, 0x01, qos_byte q]) (bcn_qos b)"

definition ssid_part :: "beacon \<Rightarrow> u8 list" where
  "ssid_part b = [ELEMENT_ID_SSID, of_nat (length (bcn_ssid b))] @ bcn_ssid b"

definition rates_part :: "beacon \<Rightarrow> u8 list" where
  "rates_part b = [ELEMENT_ID_SUPPORTED_RATES, of_nat (length (bcn_rates b))] @ bcn_rates b"

definition beacon_head :: "beacon \<Rightarrow> u8 list" where
  "beacon_head b = le64 (bcn_timestamp b) @ le16 (bcn_interval b) @ capability_bytes (bcn_capabilities b)
     @ ssid_part b @ rates_part b"

definition beacon_parts :: "beacon \<Rightarrow> (u8 \<times> u32 \<times> u8 list) list" where
  "beacon_parts b =
     [(ELEMENT_ID_FH_PARAMETER_SET, 7, fh_part b), (ELEMENT_ID_DS_PARAMETER_SET, 3, ds_part b),
      (ELEMENT_ID_CF_PARAMETER_SET, 8, cf_part b), (ELEMENT_ID_IBSS_PARAMETER_SET, 4, ibss_part b),
      (ELEMENT_ID_TIM, 5 + of_nat (length (bitmap b)), tim_part b), (ELEMENT_ID_QBSS_LOAD, 7, qbss_part b),
      (ELEMENT_ID_EDCA_PARAMETER_SET, 20, edca_part b), (ELEMENT_ID_QOS_CAPABILITY, 3, qos_part b)]"

definition beacon_bytes :: "beacon \<Rightarrow> u8 list" where
  "beacon_bytes b = beacon_head b @ part_bytes (beacon_parts b)"

subsection \<open>Its setters\<close>

definition beacon_flag :: "beacon \<Rightarrow> u8" where
  "beacon_flag b = SpecifyWithOrWithoutSomeOptionalInfoFlagFor80211eBeaconFrameBody (bcn_fh b \<noteq> None) (bcn_ds b \<noteq> None)
     (bcn_cf b \<noteq> None) (bcn_ibss b \<noteq> None) (bcn_tim b \<noteq> None) (bcn_qbss b \<noteq> None) (bcn_edca b \<noteq> None) (bcn_qos b \<noteq> None)"

definition beacon_length :: "beacon \<Rightarrow> u32" where
  "beacon_length b = Calculate80211eBeaconFrameBodyLength (beacon_flag b) (of_nat (length (bcn_ssid b)))
     (of_nat (length (bcn_rates b))) (of_nat (length (bitmap b)))"

definition orelse :: "'a \<Rightarrow> 'a option \<Rightarrow> 'a" where
  "orelse d x = (case x of None \<Rightarrow> d | Some v \<Rightarrow> v)"

text \<open>All setters, one after the other; those of absent parts get zeros.\<close>

definition build_beacon :: "ptr \<Rightarrow> beacon \<Rightarrow> buf \<Rightarrow> abort + buf" where
  "build_beacon Body b =
     (let F = beacon_flag b; sl = of_nat (length (bcn_ssid b)); rl = of_nat (length (bcn_rates b));
          bl = of_nat (length (bitmap b)); c = bcn_capabilities b;
          (dwell, hs, hp, hi) = orelse (0, 0, 0, 0) (bcn_fh b);
          (cn, cp, cd, cr) = orelse (0, 0, 0, 0) (bcn_cf b);
          (tn, tp, tc, ts') = orelse (0, 0, 0, []) (bcn_tim b);
          (qn, qu, qa) = orelse (0, 0, 0) (bcn_qbss b);
          ((eu, ea, eq, et), (be1, be2, be3, be4), (bk1, bk2, bk3, bk4), (vi1, vi2, vi3, vi4), (vo1, vo2, vo3, vo4)) =
            orelse ((0, False, False, False), (0, False, 0, 0), (0, False, 0, 0), (0, False, 0, 0), (0, False, 0, 0))
              (bcn_edca b);
          (u, qak, qr, qt) = orelse (0, False, False, False) (bcn_qos b)
      in run
        [SetTimestampInto80211eBeaconFrameBody Body (Some (bcn_timestamp b)),
         SetBeaconIntervalInto80211eBeaconFrameBody Body (Some (bcn_interval b)),
         SetCapabilityInfoInto80211eBeaconFrameBody Body (cap_ESS c) (cap_IBSS c) (cap_CF_Pollable c)
           (cap_CF_Poll_Request c) (cap_Privacy c) (cap_ShortPreamble c) (cap_PBCC c) (cap_ChannelAgility c)
           (cap_SpectrumManagement c) (cap_QoS c) (cap_ShortSlotTime c) (cap_APSD c) (cap_DSSS_OFDM c)
           (cap_DelayedBlockAck c) (cap_ImmediateBlockAck c),
         SetSSIDInto80211eBeaconFrameBody Body sl (Some (bcn_ssid b)),
         SetSupportedRatesInto80211eBeaconFrameBody Body sl rl (Some (bcn_rates b)),
         SetFHParameterSetInto80211eBeaconFrameBody Body F sl rl (Some dwell) hs hp hi,
         SetDSParameterSetInto80211eBeaconFrameBody Body F sl rl (orelse 0 (bcn_ds b)),
         SetCFParameterSetInto80211eBeaconFrameBody Body F sl rl cn cp (Some cd) (Some cr),
         SetIBSSParameterSetInto80211eBeaconFrameBody Body F sl rl (Some (orelse 0 (bcn_ibss b))),
         SetTIMInto80211eBeaconFrameBody Body F sl rl tn tp tc bl (Some ts'),
         SetQBSSLoadInto80211eBeaconFrameBody Body F sl rl bl (Some qn) qu (Some qa),
         SetEDCAParameterSetInto80211eBeaconFrameBody Body F sl rl bl eu ea eq et be1 be2 be3 (Some be4)
           bk1 bk2 bk3 (Some bk4) vi1 vi2 vi3 (Some vi4) vo1 vo2 vo3 (Some vo4),
         SetQoSCapabilityInto80211eBeaconFrameBody Body F sl rl bl u qak qr qt])"

subsection \<open>Flags and offsets\<close>

lemma given_flag_and: "given_flag c m AND n = given_flag c (m AND n)" "given_flag c 0 = 0"
  "(given_flag c m = 0) = (c \<longrightarrow> m = 0)"
  by (simp_all add: given_flag_def)

lemma beacon_flag_bits:
  fixes fh ds cf ibss tim qbss edca qos defines "F \<equiv> SpecifyWithOrWithoutSomeOptionalInfoFlagFor80211eBeaconFrameBody fh ds cf ibss tim qbss edca qos"
  shows "F AND WITH_FH_FLAG = 0 \<longleftrightarrow> \<not> fh" "F AND WITH_DS_FLAG = 0 \<longleftrightarrow> \<not> ds" "F AND WITH_CF_FLAG = 0 \<longleftrightarrow> \<not> cf"
    "F AND WITH_IBSS_FLAG = 0 \<longleftrightarrow> \<not> ibss" "F AND WITH_TIM_FLAG = 0 \<longleftrightarrow> \<not> tim" "F AND WITH_QBSS_LOAD_FLAG = 0 \<longleftrightarrow> \<not> qbss"
    "F AND WITH_EDCA_PARAMETER_SET_FLAG = 0 \<longleftrightarrow> \<not> edca" "F AND WITH_QOS_CAPABILITY_FLAG = 0 \<longleftrightarrow> \<not> qos"
  by (simp_all add: F_def SpecifyWithOrWithoutSomeOptionalInfoFlagFor80211eBeaconFrameBody_def
      word_ao_dist given_flag_and frame_constants)

lemma beacon_flag_and:
  "beacon_flag b AND WITH_FH_FLAG = 0 \<longleftrightarrow> bcn_fh b = None" "beacon_flag b AND WITH_DS_FLAG = 0 \<longleftrightarrow> bcn_ds b = None"
  "beacon_flag b AND WITH_CF_FLAG = 0 \<longleftrightarrow> bcn_cf b = None" "beacon_flag b AND WITH_IBSS_FLAG = 0 \<longleftrightarrow> bcn_ibss b = None"
  "beacon_flag b AND WITH_TIM_FLAG = 0 \<longleftrightarrow> bcn_tim b = None" "beacon_flag b AND WITH_QBSS_LOAD_FLAG = 0 \<longleftrightarrow> bcn_qbss b = None"
  "beacon_flag b AND WITH_EDCA_PARAMETER_SET_FLAG = 0 \<longleftrightarrow> bcn_edca b = None"
  "beacon_flag b AND WITH_QOS_CAPABILITY_FLAG = 0 \<longleftrightarrow> bcn_qos b = None"
  unfolding beacon_flag_def beacon_flag_bits not_not by (rule refl)+

lemma beacon_opts:
  "opt (beacon_flag b) WITH_FH_FLAG 7 = of_nat (length (fh_part b))"
  "opt (beacon_flag b) WITH_DS_FLAG 3 = of_nat (length (ds_part b))"
  "opt (beacon_flag b) WITH_CF_FLAG 8 = of_nat (length (cf_part b))"
  "opt (beacon_flag b) WITH_IBSS_FLAG 4 = of_nat (length (ibss_part b))"
  "opt (beacon_flag b) WITH_TIM_FLAG (5 + of_nat (length (bitmap b))) = of_nat (length (tim_part b))"
  "opt (beacon_flag b) WITH_QBSS_LOAD_FLAG 7 = of_nat (length (qbss_part b))"
  "opt (beacon_flag b) WITH_EDCA_PARAMETER_SET_FLAG 20 = of_nat (length (edca_part b))"
  "opt (beacon_flag b) WITH_QOS_CAPABILITY_FLAG 3 = of_nat (length (qos_part b))"
  by (auto simp: opt_def beacon_flag_and fh_part_def ds_part_def cf_part_def ibss_part_def tim_part_def qbss_part_def
      edca_part_def qos_part_def opt_bytes_def ac_bytes_def bitmap_def split: option.splits)

lemma length_head: "length (beacon_head b) = 8 + 2 + 2 + (2 + length (bcn_ssid b)) + (2 + length (bcn_rates b))"
  by (simp add: beacon_head_def capability_bytes_def ssid_part_def rates_part_def)

lemma part_bounds: "length (fh_part b) \<le> 7" "length (ds_part b) \<le> 3" "length (cf_part b) \<le> 8" "length (ibss_part b) \<le> 4"
  "length (tim_part b) \<le> 5 + length (bitmap b)" "length (qbss_part b) \<le> 7" "length (edca_part b) \<le> 20"
  "length (qos_part b) \<le> 3"
  by (auto simp: fh_part_def ds_part_def cf_part_def ibss_part_def tim_part_def qbss_part_def
      edca_part_def qos_part_def opt_bytes_def ac_bytes_def bitmap_def split: option.splits)


lemma length_part_bytes: "length (part_bytes (beacon_parts b)) =
    length (fh_part b) + length (ds_part b) + length (cf_part b) + length (ibss_part b) + length (tim_part b)
    + length (qbss_part b) + length (edca_part b) + length (qos_part b)"
  by (simp add: beacon_parts_def)

lemma beacon_length: "beacon_length b = of_nat (length (beacon_bytes b))"
  by (simp add: beacon_length_def Calculate80211eBeaconFrameBodyLength_def beacon_opts beacon_bytes_def length_head
      length_part_bytes)

lemma length_beacon_bytes: "beacon_ok b \<Longrightarrow> length (beacon_bytes b) < 600"
  using part_bounds [of b] by (simp add: beacon_ok_def beacon_bytes_def length_head length_part_bytes)

lemma body_atI: "w = of_nat k \<Longrightarrow> k < 600 \<Longrightarrow> body_at (Some n) w = n + k"
  by (simp add: body_at_def unat_of_nat)

text \<open>
  \<open>beacon_at n b k\<close> is where the \<open>k\<close>-th optional part of the beacon \<open>b\<close> at \<open>n\<close> starts; the code adds up the
  lengths for it in unsigned numbers of 32 bits.
\<close>

definition beacon_at :: "nat \<Rightarrow> beacon \<Rightarrow> nat \<Rightarrow> nat" where
  "beacon_at n b k = n + length (beacon_head b) + length (part_bytes (take k (beacon_parts b)))"

definition beacon_offset :: "beacon \<Rightarrow> nat \<Rightarrow> u32" where
  "beacon_offset b k = of_nat (length (beacon_head b) + length (part_bytes (take k (beacon_parts b))))"

lemma length_take_parts: "length (part_bytes (take k es)) \<le> length (part_bytes es)"
  by (induction es arbitrary: k) (simp_all add: take_Cons split: nat.split)

lemma body_at_offset: "beacon_ok b \<Longrightarrow> body_at (Some n) (beacon_offset b k) = beacon_at n b k"
  using length_beacon_bytes [of b] length_take_parts [of k "beacon_parts b"]
  unfolding beacon_offset_def beacon_at_def add.assoc beacon_bytes_def by (intro body_atI) auto

abbreviation ssid_len :: "beacon \<Rightarrow> u32" where "ssid_len b \<equiv> of_nat (length (bcn_ssid b))"
abbreviation rates_len :: "beacon \<Rightarrow> u32" where "rates_len b \<equiv> of_nat (length (bcn_rates b))"
abbreviation bitmap_len :: "beacon \<Rightarrow> u32" where "bitmap_len b \<equiv> of_nat (length (bitmap b))"

lemma beacon_offsets:
  "8 + 2 + 2 + (2 + ssid_len b) + (2 + rates_len b) = beacon_offset b 0"
  "beacon_offset b 0 + opt (beacon_flag b) WITH_FH_FLAG 7 = beacon_offset b 1"
  "beacon_offset b 1 + opt (beacon_flag b) WITH_DS_FLAG 3 = beacon_offset b 2"
  "beacon_offset b 2 + opt (beacon_flag b) WITH_CF_FLAG 8 = beacon_offset b 3"
  "beacon_offset b 3 + opt (beacon_flag b) WITH_IBSS_FLAG 4 = beacon_offset b 4"
  "beacon_offset b 4 + opt (beacon_flag b) WITH_TIM_FLAG (5 + bitmap_len b) = beacon_offset b 5"
  "beacon_offset b 5 + opt (beacon_flag b) WITH_QBSS_LOAD_FLAG 7 = beacon_offset b 6"
  "beacon_offset b 6 + opt (beacon_flag b) WITH_EDCA_PARAMETER_SET_FLAG 20 = beacon_offset b 7"
  by (simp_all add: beacon_offset_def beacon_opts length_head beacon_parts_def take_Cons')

subsection \<open>What the setters write\<close>

lemmas slot_simps = block_simps zeros le_lists set_flag_put_flag

lemma timestamp_fills: "fills (SetTimestampInto80211eBeaconFrameBody (Some n) (Some t)) n (le64 t)"
  by (rule fillsI) (simp add: SetTimestampInto80211eBeaconFrameBody_def body_at_def block_simps)

lemma interval_fills: "fills (SetBeaconIntervalInto80211eBeaconFrameBody (Some n) (Some t)) (n + 8) (le16 t)"
  by (rule fillsI) (simp add: SetBeaconIntervalInto80211eBeaconFrameBody_def body_at_def block_simps)

lemma capability_fills: "fills (SetCapabilityInfoInto80211eBeaconFrameBody (Some n) (cap_ESS c) (cap_IBSS c) (cap_CF_Pollable c)
   (cap_CF_Poll_Request c) (cap_Privacy c) (cap_ShortPreamble c) (cap_PBCC c) (cap_ChannelAgility c)
   (cap_SpectrumManagement c) (cap_QoS c) (cap_ShortSlotTime c) (cap_APSD c) (cap_DSSS_OFDM c)
   (cap_DelayedBlockAck c) (cap_ImmediateBlockAck c)) (n + 10) (capability_bytes c)"
  by (rule fillsI) (simp add: SetCapabilityInfoInto80211eBeaconFrameBody_def body_at_def capability_writes_def
    capability_bytes_def slot_simps del: One_nat_def add_2_eq_Suc')

lemma ssid_fills:
  assumes "beacon_ok b"
  shows "fills (SetSSIDInto80211eBeaconFrameBody (Some n) (ssid_len b) (Some (bcn_ssid b))) (n + 12) (ssid_part b)"
proof -
  have "length (bcn_ssid b) < 128" using assms by (simp add: beacon_ok_def)
  from counted_fills [OF this, of "n + 12" ELEMENT_ID_SSID] show ?thesis
    by (simp add: fills_def SetSSIDInto80211eBeaconFrameBody_def body_at_def ssid_part_def ucast_len)
qed

lemma rates_fills:
  assumes "beacon_ok b"
  shows "fills (SetSupportedRatesInto80211eBeaconFrameBody (Some n) (ssid_len b) (rates_len b) (Some (bcn_rates b)))
     (n + 12 + length (ssid_part b)) (rates_part b)"
proof -
  have l: "length (bcn_rates b) < 128" and s: "length (bcn_ssid b) < 128" using assms by (simp_all add: beacon_ok_def)
  have "body_at (Some n) (8 + 2 + 2 + (2 + ssid_len b)) = n + (14 + length (bcn_ssid b))" using s by (intro body_atI) auto
  then show ?thesis using counted_fills [OF l, of "n + (14 + length (bcn_ssid b))" ELEMENT_ID_SUPPORTED_RATES]
    by (simp add: fills_def SetSupportedRatesInto80211eBeaconFrameBody_def ssid_part_def rates_part_def ucast_len ac_simps)
qed

lemma qos_info_block: "p = length pre \<Longrightarrow> i < length bs \<Longrightarrow>
  run (qos_info (p + i) c q r t) (blk pre bs post) = Inr (blk pre (bs[i := qos_byte (c, q, r, t)]) post)"
  by (simp add: qos_info_def slot_simps qos_byte_def)

lemma optional_fills:
  assumes "x = None \<Longrightarrow> bs = []" "\<And>v. x = Some v \<Longrightarrow> fills w a bs"
  shows "fills (\<lambda>M. if x = None then Inr M else w M) a bs"
  using assms by (cases x) (auto simp: fills_Nil)

lemmas setter_simps = beacon_flag_and beacon_offsets Let_def Some_eq_None option.sel simp_thms if_False

lemma qos_fills_block: "p = length pre \<Longrightarrow> i < length bs \<Longrightarrow>
  run (qos_info (p + i) c q r t @ ws) (blk pre bs post) = run ws (blk pre (bs[i := qos_byte (c, q, r, t)]) post)"
  by (simp add: run_simps qos_info_block)

lemma fh_fills:
  assumes "beacon_ok b" and v: "orelse (0, 0, 0, 0) (bcn_fh b) = (dwell, hs, hp, hi)"
  shows "fills (SetFHParameterSetInto80211eBeaconFrameBody (Some n) (beacon_flag b) (ssid_len b) (rates_len b) (Some dwell) hs hp hi)
    (beacon_at n b 0) (fh_part b)"
  unfolding SetFHParameterSetInto80211eBeaconFrameBody_def setter_simps body_at_offset [OF assms(1)]
  by (rule optional_fills; insert v)
    (auto simp: fh_part_def opt_bytes_def orelse_def slot_simps simp del: One_nat_def add_2_eq_Suc' intro!: fillsI)

lemma ds_fills:
  assumes "beacon_ok b"
  shows "fills (SetDSParameterSetInto80211eBeaconFrameBody (Some n) (beacon_flag b) (ssid_len b) (rates_len b) (orelse 0 (bcn_ds b)))
    (beacon_at n b 1) (ds_part b)"
  unfolding SetDSParameterSetInto80211eBeaconFrameBody_def setter_simps body_at_offset [OF assms(1)]
  by (rule optional_fills)
    (auto simp: ds_part_def opt_bytes_def orelse_def slot_simps simp del: One_nat_def add_2_eq_Suc' intro!: fillsI)

lemma cf_fills:
  assumes "beacon_ok b" and v: "orelse (0, 0, 0, 0) (bcn_cf b) = (c, p, d, r)"
  shows "fills (SetCFParameterSetInto80211eBeaconFrameBody (Some n) (beacon_flag b) (ssid_len b) (rates_len b) c p (Some d) (Some r))
    (beacon_at n b 2) (cf_part b)"
  unfolding SetCFParameterSetInto80211eBeaconFrameBody_def setter_simps body_at_offset [OF assms(1)]
  by (rule optional_fills; insert v)
    (auto simp: cf_part_def opt_bytes_def orelse_def slot_simps simp del: One_nat_def add_2_eq_Suc' intro!: fillsI)

lemma ibss_fills:
  assumes "beacon_ok b"
  shows "fills (SetIBSSParameterSetInto80211eBeaconFrameBody (Some n) (beacon_flag b) (ssid_len b) (rates_len b)
      (Some (orelse 0 (bcn_ibss b)))) (beacon_at n b 3) (ibss_part b)"
  unfolding SetIBSSParameterSetInto80211eBeaconFrameBody_def setter_simps body_at_offset [OF assms(1)]
  by (rule optional_fills)
    (auto simp: ibss_part_def opt_bytes_def orelse_def slot_simps simp del: One_nat_def add_2_eq_Suc' intro!: fillsI)

lemma tim_fills:
  assumes "beacon_ok b" and v: "orelse (0, 0, 0, []) (bcn_tim b) = (c, p, t, bs)"
  shows "fills (SetTIMInto80211eBeaconFrameBody (Some n) (beacon_flag b) (ssid_len b) (rates_len b) c p t (bitmap_len b) (Some bs))
    (beacon_at n b 4) (tim_part b)"
  unfolding SetTIMInto80211eBeaconFrameBody_def setter_simps body_at_offset [OF assms(1)]
proof (rule optional_fills)
  show "bcn_tim b = None \<Longrightarrow> tim_part b = []" by (simp add: tim_part_def opt_bytes_def)
next
  fix x assume x: "bcn_tim b = Some x"
  with v have l: "bitmap b = bs" "tim_part b = [ELEMENT_ID_TIM, 3 + of_nat (length bs), c, p, t] @ bs" "length bs \<le> 252"
    using assms(1) by (auto simp: orelse_def bitmap_def tim_part_def opt_bytes_def beacon_ok_def)
  have u: "unat (of_nat (length bs) :: u32) = length bs" "ucast (3 + of_nat (length bs) :: u32) = (3 + of_nat (length bs) :: u8)"
    using l(3) ucast_len [of "3 + length bs"] by (simp_all add: unat_of_nat)
  show "fills (run [put8 (beacon_at n b 4) ELEMENT_ID_TIM, put8 (beacon_at n b 4 + 1) (ucast (3 + bitmap_len b)),
      put8 (beacon_at n b 4 + 2) c, put8 (beacon_at n b 4 + 3) p, put8 (beacon_at n b 4 + 4) t,
      bcopy (beacon_at n b 4 + 5) (unat (bitmap_len b)) bs]) (beacon_at n b 4) (tim_part b)"
    unfolding l(1,2) u by (rule fillsI) (simp add: slot_simps del: One_nat_def add_2_eq_Suc')
qed

lemma qbss_fills:
  assumes "beacon_ok b" and v: "orelse (0, 0, 0) (bcn_qbss b) = (k, u, a)"
  shows "fills (SetQBSSLoadInto80211eBeaconFrameBody (Some n) (beacon_flag b) (ssid_len b) (rates_len b) (bitmap_len b) (Some k) u (Some a))
    (beacon_at n b 5) (qbss_part b)"
  unfolding SetQBSSLoadInto80211eBeaconFrameBody_def setter_simps body_at_offset [OF assms(1)]
  by (rule optional_fills; insert v)
    (auto simp: qbss_part_def opt_bytes_def orelse_def slot_simps simp del: One_nat_def add_2_eq_Suc' intro!: fillsI)

lemma qos_fills:
  assumes "beacon_ok b" and v: "orelse (0, False, False, False) (bcn_qos b) = (u, q, r, t)"
  shows "fills (SetQoSCapabilityInto80211eBeaconFrameBody (Some n) (beacon_flag b) (ssid_len b) (rates_len b) (bitmap_len b) u q r t)
    (beacon_at n b 7) (qos_part b)"
  unfolding SetQoSCapabilityInto80211eBeaconFrameBody_def setter_simps body_at_offset [OF assms(1)]
  by (rule optional_fills; insert v)
    (auto simp: qos_part_def opt_bytes_def orelse_def slot_simps qos_info_block simp del: One_nat_def add_2_eq_Suc' intro!: fillsI)

lemma ac_record_block:
  assumes "p = length pre" "i + 4 \<le> length bs"
    "f = (\<lambda>b. if h then b OR 0x04 else b AND 0xfb)" "g = (\<lambda>b. if l then b OR 0x02 else b AND 0xfd)"
  shows "run (ac_record (p + i) f g aifsn acm ecw txop) (blk pre bs post)
    = Inr (blk pre (take i bs @ ac_bytes h l (aifsn, acm, ecw, txop) @ drop (i + 4) bs) post)"
proof -
  have f: "f = put_flag 2 h" "g = put_flag 1 l" unfolding assms(3,4) put_flag_def or_mask and_mask by simp_all
  have "run (ac_record (length cs) f g aifsn acm ecw txop) (blk cs [a0, a1, a2, a3] ds)
      = Inr (blk cs (ac_bytes h l (aifsn, acm, ecw, txop)) ds)" for cs ds and a0 a1 a2 a3 :: u8
    unfolding f by (simp add: ac_record_def ac_bytes_def slot_simps del: One_nat_def add_2_eq_Suc')
  from this [of "pre @ take i bs" "bs ! i" "bs ! Suc i" "bs ! Suc (Suc i)" "bs ! Suc (Suc (Suc i))" "drop (i + 4) bs @ post"]
  moreover have i4: "i + 4 = Suc (Suc (Suc (Suc i)))" by simp
  ultimately have "run (ac_record (p + i) f g aifsn acm ecw txop) (pre @ take i bs @ (bs ! i # bs ! Suc i # bs ! Suc (Suc i) #
      bs ! Suc (Suc (Suc i)) # drop (Suc (Suc (Suc (Suc i)))) bs) @ post)
    = Inr (blk pre (take i bs @ ac_bytes h l (aifsn, acm, ecw, txop) @ drop (i + 4) bs) post)"
    using assms(1,2) by (simp add: blk_def i4)
  then show ?thesis using assms(2) by (simp add: blk_def i4 Cons_nth_drop_Suc append_take_drop_id flip: append_assoc)
qed

lemma edca_fills:
  assumes "beacon_ok b" and v: "orelse ((0, False, False, False), (0, False, 0, 0), (0, False, 0, 0), (0, False, 0, 0), (0, False, 0, 0))
      (bcn_edca b) = ((u, q, r, t), (be1, be2, be3, be4), (bk1, bk2, bk3, bk4), (vi1, vi2, vi3, vi4), (vo1, vo2, vo3, vo4))"
  shows "fills (SetEDCAParameterSetInto80211eBeaconFrameBody (Some n) (beacon_flag b) (ssid_len b) (rates_len b) (bitmap_len b)
      u q r t be1 be2 be3 (Some be4) bk1 bk2 bk3 (Some bk4) vi1 vi2 vi3 (Some vi4) vo1 vo2 vo3 (Some vo4))
    (beacon_at n b 6) (edca_part b)"
  unfolding SetEDCAParameterSetInto80211eBeaconFrameBody_def setter_simps body_at_offset [OF assms(1)]
  by (rule optional_fills; insert v)
    (auto simp: edca_part_def opt_bytes_def orelse_def slot_simps qos_info_block
      ac_record_block [where h = False and l = False] ac_record_block [where h = False and l = True]
      ac_record_block [where h = True and l = False] ac_record_block [where h = True and l = True] ac_bytes_def
      simp del: One_nat_def add_2_eq_Suc' intro!: fillsI)


subsection \<open>The whole body\<close>

lemma length_capability_bytes: "length (capability_bytes c) = 2"
  by (simp add: capability_bytes_def)

lemma beacon_at_0: "beacon_at n b 0 = n + length (beacon_head b)"
  by (simp add: beacon_at_def)

lemma build_beacon_bytes:
  assumes "beacon_ok b" "length pre = n"
  shows "build_beacon (Some n) b (pre @ replicate (unat (beacon_length b)) 0 @ post) = Inr (pre @ beacon_bytes b @ post)"
proof -
  obtain dwell hs hp hi where fh: "orelse (0, 0, 0, 0) (bcn_fh b) = (dwell, hs, hp, hi)" by (metis surj_pair)
  obtain cn cp cd cr where cf: "orelse (0, 0, 0, 0) (bcn_cf b) = (cn, cp, cd, cr)" by (metis surj_pair)
  obtain tn tp tc bm where tim: "orelse (0, 0, 0, []) (bcn_tim b) = (tn, tp, tc, bm)" by (metis surj_pair)
  obtain qn qu qa where qbss: "orelse (0, 0, 0) (bcn_qbss b) = (qn, qu, qa)" by (metis surj_pair)
  obtain u ak r t where qos: "orelse (0, False, False, False) (bcn_qos b) = (u, ak, r, t)" by (metis surj_pair)
  obtain eu ea eq et be1 be2 be3 be4 bk1 bk2 bk3 bk4 vi1 vi2 vi3 vi4 vo1 vo2 vo3 vo4 where edca:
    "orelse ((0, False, False, False), (0, False, 0, 0), (0, False, 0, 0), (0, False, 0, 0), (0, False, 0, 0)) (bcn_edca b)
     = ((eu, ea, eq, et), (be1, be2, be3, be4), (bk1, bk2, bk3, bk4), (vi1, vi2, vi3, vi4), (vo1, vo2, vo3, vo4))"
    by (metis surj_pair)
  have at: "beacon_at n b 1 = beacon_at n b 0 + length (fh_part b)" "beacon_at n b 2 = beacon_at n b 1 + length (ds_part b)"
    "beacon_at n b 3 = beacon_at n b 2 + length (cf_part b)" "beacon_at n b 4 = beacon_at n b 3 + length (ibss_part b)"
    "beacon_at n b 5 = beacon_at n b 4 + length (tim_part b)" "beacon_at n b 6 = beacon_at n b 5 + length (qbss_part b)"
    "beacon_at n b 7 = beacon_at n b 6 + length (edca_part b)"
    "beacon_at n b 0 = n + 12 + length (ssid_part b) + length (rates_part b)"
    by (simp_all add: beacon_at_def beacon_parts_def take_Cons' beacon_head_def length_capability_bytes)
  note setters = timestamp_fills [of n "bcn_timestamp b"] interval_fills [of n "bcn_interval b"]
    capability_fills [of n "bcn_capabilities b"] ssid_fills [OF assms(1), of n] rates_fills [OF assms(1), of n]
    fh_fills [OF assms(1) fh, of n] ds_fills [OF assms(1), of n] cf_fills [OF assms(1) cf, of n] ibss_fills [OF assms(1), of n]
    tim_fills [OF assms(1) tim, of n] qbss_fills [OF assms(1) qbss, of n] edca_fills [OF assms(1) edca, of n]
    qos_fills [OF assms(1) qos, of n]
  have "fills (build_beacon (Some n) b) n (le64 (bcn_timestamp b) @ le16 (bcn_interval b) @ capability_bytes (bcn_capabilities b)
     @ ssid_part b @ rates_part b @ fh_part b @ ds_part b @ cf_part b @ ibss_part b @ tim_part b @ qbss_part b @ edca_part b
     @ qos_part b @ [])"
    unfolding build_beacon_def Let_def fh cf tim qbss qos edca prod.case
    by (intro fills_Cons fills_Nil) (insert setters, simp_all add: at length_capability_bytes ac_simps del: One_nat_def)
  then have "fills (build_beacon (Some n) b) n (beacon_bytes b)"
    by (simp add: beacon_bytes_def beacon_head_def beacon_parts_def)
  moreover have "unat (beacon_length b) = length (beacon_bytes b)"
    using length_beacon_bytes [OF assms(1)] by (simp add: beacon_length unat_of_nat)
  ultimately show ?thesis using fillsD [OF _ assms(2)] by simp
qed

text \<open>
  C11: Called one after the other with the same lengths and flag, on zeroed memory of the length that
  \<open>Calculate80211eBeaconFrameBodyLength\<close> gives, the setters of a beacon write exactly the concatenation of
  its parts, those left out taking no room, and nothing outside of the body.
\<close>

theorem beacon_body_layout:
  assumes "beacon_ok b" "length pre = n"
  shows "build_beacon (Some n) b (pre @ replicate (unat (beacon_length b)) 0 @ post) = Inr (pre @ beacon_bytes b @ post)"
  by (rule build_beacon_bytes [OF assms])


subsection \<open>The getters\<close>

definition beacon_getters :: "nat \<Rightarrow> beacon \<Rightarrow> (buf \<Rightarrow> abort + ptr) list" where
  "beacon_getters n b =
     (let sl = ssid_len b; rl = rates_len b; bl = bitmap_len b in
       [GetFHParameterSetFrom80211eBeaconFrameBody (Some n) sl rl, GetDSParameterSetFrom80211eBeaconFrameBody (Some n) sl rl,
        GetCFParameterSetFrom80211eBeaconFrameBody (Some n) sl rl, GetIBSSParameterSetFrom80211eBeaconFrameBody (Some n) sl rl,
        GetTIMFrom80211eBeaconFrameBody (Some n) sl rl, GetQBSSLoadFrom80211eBeaconFrameBody (Some n) sl rl bl,
        GetEDCAParameterSetFrom80211eBeaconFrameBody (Some n) sl rl bl,
        GetQoSCapabilityFrom80211eBeaconFrameBody (Some n) sl rl bl])"

lemma beacon_getter:
  assumes "beacon_ok b" "k < 8"
  shows "(beacon_getters n b ! k) M
    = find_element (beacon_at n b 0) (part_sizes (take k (beacon_parts b))) (fst (beacon_parts b ! k)) M"
proof -
  note defs = GetFHParameterSetFrom80211eBeaconFrameBody_def GetDSParameterSetFrom80211eBeaconFrameBody_def
    GetCFParameterSetFrom80211eBeaconFrameBody_def GetIBSSParameterSetFrom80211eBeaconFrameBody_def
    GetTIMFrom80211eBeaconFrameBody_def GetQBSSLoadFrom80211eBeaconFrameBody_def
    GetEDCAParameterSetFrom80211eBeaconFrameBody_def GetQoSCapabilityFrom80211eBeaconFrameBody_def
  have "beacon_getters n b =
      map (\<lambda>k. find_element (beacon_at n b 0) (part_sizes (take k (beacon_parts b))) (fst (beacon_parts b ! k))) [0..<8]"
    unfolding beacon_getters_def Let_def defs setter_simps body_at_offset [OF assms(1)]
    by (simp add: beacon_parts_def upt_rec fun_eq_iff take_Cons')
  then show ?thesis using assms(2) by simp
qed

lemma beacon_parts_ok:
  assumes "beacon_ok b"
  shows "\<forall>e\<in>set (beacon_parts b). optional_part e" "distinct (map fst (beacon_parts b))"
proof -
  have "optional_part (ELEMENT_ID_FH_PARAMETER_SET, 7, fh_part b)" "optional_part (ELEMENT_ID_DS_PARAMETER_SET, 3, ds_part b)"
    "optional_part (ELEMENT_ID_CF_PARAMETER_SET, 8, cf_part b)" "optional_part (ELEMENT_ID_IBSS_PARAMETER_SET, 4, ibss_part b)"
    "optional_part (ELEMENT_ID_QBSS_LOAD, 7, qbss_part b)" "optional_part (ELEMENT_ID_EDCA_PARAMETER_SET, 20, edca_part b)"
    "optional_part (ELEMENT_ID_QOS_CAPABILITY, 3, qos_part b)"
    by (auto simp: optional_part_def fh_part_def ds_part_def cf_part_def ibss_part_def qbss_part_def edca_part_def
        qos_part_def opt_bytes_def ac_bytes_def split: option.splits)
  moreover have "optional_part (ELEMENT_ID_TIM, 5 + bitmap_len b, tim_part b)"
  proof -
    have "unat (5 + bitmap_len b) = unat (of_nat (5 + length (bitmap b)) :: u32)" by simp
    also have "\<dots> = 5 + length (bitmap b)" using assms by (simp add: beacon_ok_def unat_of_nat del: of_nat_add)
    finally have "unat (5 + bitmap_len b) = 5 + length (bitmap b)" .
    then show ?thesis
      by (auto simp: optional_part_def tim_part_def opt_bytes_def bitmap_def split: option.splits)
  qed
  ultimately show "\<forall>e\<in>set (beacon_parts b). optional_part e" by (simp add: beacon_parts_def)
  show "distinct (map fst (beacon_parts b))" by (simp add: beacon_parts_def frame_constants)
qed


lemma beacon_part_found:
  assumes "beacon_ok b" "k < 8" "beacon_parts b ! k = (i, m, bs)" "bs \<noteq> []" "length pre = n"
  shows "(beacon_getters n b ! k) (pre @ beacon_bytes b @ post) = Inr (Some (beacon_at n b k))"
    "get_bytes (length bs) (beacon_at n b k) (pre @ beacon_bytes b @ post) = Inr bs"
proof -
  let ?es = "beacon_parts b"
  have l: "k < length ?es" using assms(2) by (simp add: beacon_parts_def)
  note es = id_take_nth_drop [OF l]
  have ps: "part_bytes (es @ fs) = part_bytes es @ part_bytes fs" for es fs by (induction es) simp_all
  have "part_bytes ?es = part_bytes (take k ?es) @ bs @ part_bytes (drop (Suc k) ?es)"
    by (subst es) (simp add: ps assms(3))
  then have M: "pre @ beacon_bytes b @ post
      = (pre @ beacon_head b) @ part_bytes (take k ?es) @ bs @ part_bytes (drop (Suc k) ?es) @ post"
    by (simp add: beacon_bytes_def)
  have "optional_part (i, m, bs)" using beacon_parts_ok(1) [OF assms(1)] nth_mem [OF l] assms(3) by force
  then obtain cs where i: "bs = i # cs" using assms(4) by (cases bs) (auto simp: optional_part_def)
  have t: "\<forall>e\<in>set (take k ?es). optional_part e" "distinct (map fst (take k ?es))"
    using beacon_parts_ok [OF assms(1)] by (auto dest: in_set_takeD simp: take_map [symmetric])
  have n: "i \<notin> fst ` set (take k ?es)"
  proof -
    have "distinct (take k (map fst ?es) @ map fst ?es ! k # drop (Suc k) (map fst ?es))"
      using id_take_nth_drop [of k "map fst ?es"] beacon_parts_ok(2) [OF assms(1)] l by simp
    then show ?thesis using l assms(3) by (auto simp: take_map)
  qed
  have "find_element (beacon_at n b 0) (part_sizes (take k ?es)) i ((pre @ beacon_head b) @ part_bytes (take k ?es) @ i # cs
      @ part_bytes (drop (Suc k) ?es) @ post) = Inr (Some (beacon_at n b 0 + length (part_bytes (take k ?es))))"
    by (rule find_element_parts [OF t n]) (simp add: beacon_at_0 assms(5))
  then show "(beacon_getters n b ! k) (pre @ beacon_bytes b @ post) = Inr (Some (beacon_at n b k))"
    unfolding beacon_getter [OF assms(1,2)] M using assms(3) by (simp add: beacon_at_def i)
  show "get_bytes (length bs) (beacon_at n b k) (pre @ beacon_bytes b @ post) = Inr bs"
    unfolding M using get_bytes_block0 [of "length bs" bs "beacon_at n b k" "pre @ beacon_head b @ part_bytes (take k ?es)"]
      assms(5) by (simp add: blk_def beacon_at_def)
qed


text \<open>
  The fields of the parts, read through the pointers of the getters.
\<close>

lemma tim_read:
  assumes "get_bytes (5 + length bs) q M = Inr ([ELEMENT_ID_TIM, 3 + of_nat (length bs), c, p, t] @ bs)"
  shows "GetCountFrom80211eTIM (Some q) (Some x) M = Inr (True, Some c)"
    "GetPeriodFrom80211eTIM (Some q) (Some y) M = Inr (True, Some p)"
    "GetBitmapCtrlFrom80211eTIM (Some q) (Some z) M = Inr (True, Some t)"
    "get_bytes (length bs) (q + 5) M = Inr bs"
    "GetPartialVirtualBitmapFrom80211eTIM (Some q) (Some l) M =
      Inr (Some (q + 5), Some (char_uint (3 + of_nat (length bs)) - 3))"
proof -
  have "q + 5 + length bs \<le> length M" "take (5 + length bs) (drop q M) = [ELEMENT_ID_TIM, 3 + of_nat (length bs), c, p, t] @ bs"
    using assms by (auto simp: get_bytes_def split: if_splits)
  moreover from this have "M = take q M @ ([ELEMENT_ID_TIM, 3 + of_nat (length bs), c, p, t] @ bs) @ drop (5 + length bs + q) M"
    by (metis append_take_drop_id drop_drop)
  ultimately obtain pre post where M: "M = blk pre ([ELEMENT_ID_TIM, 3 + of_nat (length bs), c, p, t] @ bs) post" "q = length pre"
    by (metis blk_def length_take min.absorb2 add_leE)
  show "GetCountFrom80211eTIM (Some q) (Some x) M = Inr (True, Some c)"
    "GetPeriodFrom80211eTIM (Some q) (Some y) M = Inr (True, Some p)"
    "GetBitmapCtrlFrom80211eTIM (Some q) (Some z) M = Inr (True, Some t)"
    "get_bytes (length bs) (q + 5) M = Inr bs"
    "GetPartialVirtualBitmapFrom80211eTIM (Some q) (Some l) M =
      Inr (Some (q + 5), Some (char_uint (3 + of_nat (length bs)) - 3))"
    by (simp_all add: M GetCountFrom80211eTIM_def GetPeriodFrom80211eTIM_def GetBitmapCtrlFrom80211eTIM_def
      GetPartialVirtualBitmapFrom80211eTIM_def given_def block_simps del: One_nat_def add_2_eq_Suc')
qed


lemma beacon_head_read:
  assumes "beacon_ok b" "length pre = n" and M: "M = pre @ beacon_bytes b @ post"
  shows "GetTimestampFrom80211eBeaconFrameBody (Some n) (Some t) M = Inr (Some (bcn_timestamp b))"
    "GetBeaconIntervalFrom80211eBeaconFrameBody (Some n) (Some i) M = Inr (Some (bcn_interval b))"
    "GetCapabilityInfoFrom80211eBeaconFrameBody (Some n) M = Inr (Some (n + 10))"
    "get_bytes 2 (n + 10) M = Inr (capability_bytes (bcn_capabilities b))"
    "GetSSIDFrom80211eBeaconFrameBody (Some n) (Some l) M = Inr (Some (n + 14), Some (ssid_len b))"
    "get_bytes (length (bcn_ssid b)) (n + 14) M = Inr (bcn_ssid b)"
    "GetSupportedRatesFrom80211eBeaconFrameBody (Some n) (ssid_len b) (Some l) M
      = Inr (Some (n + 16 + length (bcn_ssid b)), Some (rates_len b))"
    "get_bytes (length (bcn_rates b)) (n + 16 + length (bcn_ssid b)) M = Inr (bcn_rates b)"
proof -
  have ok: "length (bcn_ssid b) < 128" "length (bcn_rates b) < 128" using assms(1) by (simp_all add: beacon_ok_def)
  let ?o = "14 + length (bcn_ssid b)"
  have at: "body_at (Some n) (8 + 2 + 2 + (2 + ssid_len b)) = n + ?o" using ok by (intro body_atI) auto
  define tail where "tail = part_bytes (beacon_parts b) @ post"
  have M: "M = blk pre (le64 (bcn_timestamp b) @ le16 (bcn_interval b) @ capability_bytes (bcn_capabilities b) @ ssid_part b
      @ rates_part b) tail"
    by (simp add: M blk_def beacon_bytes_def beacon_head_def tail_def)
  note defs = ssid_part_def rates_part_def length_capability_bytes assms(2) block_simps nth_append char_uint_small ok
  have s: "get8 (n + 13) M = Inr (of_nat (length (bcn_ssid b)))" by (simp add: M get8_block defs)
  have r: "get8 (n + (15 + length (bcn_ssid b))) M = Inr (of_nat (length (bcn_rates b)))" by (simp add: M get8_block defs)
  have drop4: "drop (4 + length u) (c # d # u @ e # f # v) = v" for u v :: buf and c d e f
    by (simp add: numeral_eq_Suc)
  have at0: "body_at (Some n) (8 + 2 + 2) = n + 12" by (simp add: body_at_def)
  show "GetTimestampFrom80211eBeaconFrameBody (Some n) (Some t) M = Inr (Some (bcn_timestamp b))"
    by (simp add: M GetTimestampFrom80211eBeaconFrameBody_def body_at_def get64_def get_bytes_block0 assms(2))
  show "GetBeaconIntervalFrom80211eBeaconFrameBody (Some n) (Some i) M = Inr (Some (bcn_interval b))"
    by (simp add: M GetBeaconIntervalFrom80211eBeaconFrameBody_def body_at_def get16_def get_bytes_block assms(2))
  show "GetCapabilityInfoFrom80211eBeaconFrameBody (Some n) M = Inr (Some (n + 10))"
    by (simp add: GetCapabilityInfoFrom80211eBeaconFrameBody_def body_at_def)
  show "get_bytes 2 (n + 10) M = Inr (capability_bytes (bcn_capabilities b))"
    by (simp add: M get_bytes_block assms(2) length_capability_bytes)
  show "GetSSIDFrom80211eBeaconFrameBody (Some n) (Some l) M = Inr (Some (n + 14), Some (ssid_len b))"
    using s unfolding GetSSIDFrom80211eBeaconFrameBody_def at0 Let_def
    by (simp add: char_uint_small ok add.assoc del: One_nat_def)
  show "get_bytes (length (bcn_ssid b)) (n + 14) M = Inr (bcn_ssid b)"
    by (simp add: M get_bytes_block defs)
  show "GetSupportedRatesFrom80211eBeaconFrameBody (Some n) (ssid_len b) (Some l) M
      = Inr (Some (n + 16 + length (bcn_ssid b)), Some (rates_len b))"
    using r unfolding GetSupportedRatesFrom80211eBeaconFrameBody_def at Let_def
    by (simp add: char_uint_small ok ac_simps del: One_nat_def)
  show "get_bytes (length (bcn_rates b)) (n + 16 + length (bcn_ssid b)) M = Inr (bcn_rates b)"
    using get_bytes_block [of "16 + length (bcn_ssid b)" "length (bcn_rates b)" _ n]
    by (simp add: M defs add.assoc drop4)
qed


definition capability_getters :: "(ptr \<Rightarrow> buf \<Rightarrow> abort + bool) list" where
  "capability_getters =
   [GetESSFrom80211eCapabilityInfo, GetIBSSFrom80211eCapabilityInfo, GetCFPollableFrom80211eCapabilityInfo,
    GetCFPollRequestFrom80211eCapabilityInfo, GetPrivacyFrom80211eCapabilityInfo,
    GetShortPreambleFrom80211eCapabilityInfo, GetPBCCFrom80211eCapabilityInfo,
    GetChannelAgilityFrom80211eCapabilityInfo, GetSpectrumManagementFrom80211eCapabilityInfo,
    GetQoSFrom80211eCapabilityInfo, GetShortSlotTimeFrom80211eCapabilityInfo, GetAPSDFrom80211eCapabilityInfo,
    GetDSSSOFDMFrom80211eCapabilityInfo, GetDelayedBlockAckFrom80211eCapabilityInfo,
    GetImmediateBlockAckFrom80211eCapabilityInfo]"

definition capability_bits :: "capabilities \<Rightarrow> bool list" where
  "capability_bits c =
   [cap_ESS c, cap_IBSS c, cap_CF_Pollable c, cap_CF_Poll_Request c, cap_Privacy c, cap_ShortPreamble c,
    cap_PBCC c, cap_ChannelAgility c, cap_SpectrumManagement c, cap_QoS c, cap_ShortSlotTime c, cap_APSD c,
    cap_DSSS_OFDM c, cap_DelayedBlockAck c, cap_ImmediateBlockAck c]"

lemma capability_read:
  assumes "get_bytes 2 q M = Inr (capability_bytes c)"
  shows "map (\<lambda>f. f (Some q) M) capability_getters = map Inr (capability_bits c)"
proof -
  have q: "q + 2 \<le> length M" "take 2 (drop q M) = capability_bytes c"
    using assms by (auto simp: get_bytes_def split: if_splits)
  then have "M ! q = capability_bytes c ! 0" "M ! (q + 1) = capability_bytes c ! 1"
    using nth_take [of 0 2 "drop q M"] nth_take [of 1 2 "drop q M"] by auto
  with q(1) have r: "get8 (q + 0) M = Inr (capability_bytes c ! 0)" "get8 (q + 1) M = Inr (capability_bytes c ! 1)"
    by (simp_all add: get8_def)
  show ?thesis
    unfolding capability_getters_def capability_bits_def list.map list.inject
    by (intro conjI refl) (simp_all only: GetESSFrom80211eCapabilityInfo_def GetIBSSFrom80211eCapabilityInfo_def
    GetCFPollableFrom80211eCapabilityInfo_def GetCFPollRequestFrom80211eCapabilityInfo_def
    GetPrivacyFrom80211eCapabilityInfo_def GetShortPreambleFrom80211eCapabilityInfo_def
    GetPBCCFrom80211eCapabilityInfo_def GetChannelAgilityFrom80211eCapabilityInfo_def
    GetSpectrumManagementFrom80211eCapabilityInfo_def GetQoSFrom80211eCapabilityInfo_def
    GetShortSlotTimeFrom80211eCapabilityInfo_def GetAPSDFrom80211eCapabilityInfo_def
    GetDSSSOFDMFrom80211eCapabilityInfo_def GetDelayedBlockAckFrom80211eCapabilityInfo_def
    GetImmediateBlockAckFrom80211eCapabilityInfo_def
      test_bits_def option.simps simp_thms if_False option.sel r map_sum.simps test_mask, simp_all add: capability_bytes_def)
qed

text \<open>
  C10: A beacon that was built is read back: the getters give the timestamp, the interval, the 15 capabilities, the name of the
  network and the rates with their lengths, and for every optional part that is there the pointer to
  exactly its bytes, whichever of the parts before it are there.
\<close>

theorem beacon_round_trip:
  assumes "beacon_ok b" "length pre = n"
  shows "\<exists>M. build_beacon (Some n) b (pre @ replicate (unat (beacon_length b)) 0 @ post) = Inr M
    \<and> GetTimestampFrom80211eBeaconFrameBody (Some n) (Some t) M = Inr (Some (bcn_timestamp b))
    \<and> GetBeaconIntervalFrom80211eBeaconFrameBody (Some n) (Some i) M = Inr (Some (bcn_interval b))
    \<and> GetCapabilityInfoFrom80211eBeaconFrameBody (Some n) M = Inr (Some (n + 10))
    \<and> map (\<lambda>f. f (Some (n + 10)) M) capability_getters = map Inr (capability_bits (bcn_capabilities b))
    \<and> GetSSIDFrom80211eBeaconFrameBody (Some n) (Some l) M = Inr (Some (n + 14), Some (ssid_len b))
    \<and> get_bytes (length (bcn_ssid b)) (n + 14) M = Inr (bcn_ssid b)
    \<and> GetSupportedRatesFrom80211eBeaconFrameBody (Some n) (ssid_len b) (Some l) M
        = Inr (Some (n + 16 + length (bcn_ssid b)), Some (rates_len b))
    \<and> get_bytes (length (bcn_rates b)) (n + 16 + length (bcn_ssid b)) M = Inr (bcn_rates b)
    \<and> (\<forall>k < 8. case beacon_parts b ! k of (e, m, bs) \<Rightarrow> bs \<noteq> [] \<longrightarrow>
         (\<exists>q. (beacon_getters n b ! k) M = Inr (Some q) \<and> get_bytes (length bs) q M = Inr bs))"
proof (intro exI conjI)
  let ?M = "pre @ beacon_bytes b @ post"
  show "build_beacon (Some n) b (pre @ replicate (unat (beacon_length b)) 0 @ post) = Inr ?M"
    by (rule build_beacon_bytes [OF assms])
  note read = beacon_head_read [OF assms refl, where post = post]
  show "GetTimestampFrom80211eBeaconFrameBody (Some n) (Some t) ?M = Inr (Some (bcn_timestamp b))"
    "GetBeaconIntervalFrom80211eBeaconFrameBody (Some n) (Some i) ?M = Inr (Some (bcn_interval b))"
    "GetCapabilityInfoFrom80211eBeaconFrameBody (Some n) ?M = Inr (Some (n + 10))"
    "GetSSIDFrom80211eBeaconFrameBody (Some n) (Some l) ?M = Inr (Some (n + 14), Some (ssid_len b))"
    "get_bytes (length (bcn_ssid b)) (n + 14) ?M = Inr (bcn_ssid b)"
    "GetSupportedRatesFrom80211eBeaconFrameBody (Some n) (ssid_len b) (Some l) ?M
        = Inr (Some (n + 16 + length (bcn_ssid b)), Some (rates_len b))"
    "get_bytes (length (bcn_rates b)) (n + 16 + length (bcn_ssid b)) ?M = Inr (bcn_rates b)"
    by (rule read)+
  show "map (\<lambda>f. f (Some (n + 10)) ?M) capability_getters = map Inr (capability_bits (bcn_capabilities b))"
    by (rule capability_read [OF read(4)])
  show "\<forall>k < 8. case beacon_parts b ! k of (e, m, bs) \<Rightarrow> bs \<noteq> [] \<longrightarrow>
      (\<exists>q. (beacon_getters n b ! k) ?M = Inr (Some q) \<and> get_bytes (length bs) q ?M = Inr bs)"
    using beacon_part_found [OF assms(1) _ _ _ assms(2)] by (fastforce split: prod.splits)
qed

lemma char_uint_large: "128 \<le> k \<Longrightarrow> k < 256 \<Longrightarrow> char_uint (of_nat k) = of_nat k - 256"
proof -
  assume k: "128 \<le> k" "k < 256"
  then have "int k div 128 = 1" by simp
  then have "bit (int k) 7" by (simp add: bit_iff_odd)
  then have "sint (of_nat k :: u8) = int k - 256"
    using k by (simp add: signed_of_nat signed_take_bit_eq_take_bit_minus take_bit_eq_mod)
  then show ?thesis by (simp add: char_uint_def scast_eq)
qed

text \<open>
  C38: The map of buffered traffic: after its header the fields and the bytes are given back, but the length, a
  \<open>char\<close> less 3 as an unsigned number, is right for up to 124 bytes only; longer ones, up to the 252 that the length byte
  can count, get a length 256 too small, which in 32 bits is some four thousand million.
\<close>

theorem tim_length_wraps:
  assumes "beacon_ok b" "length pre = n" "bcn_tim b = Some (c, p, t, bs)"
  shows "\<exists>M q. build_beacon (Some n) b (pre @ replicate (unat (beacon_length b)) 0 @ post) = Inr M
    \<and> GetTIMFrom80211eBeaconFrameBody (Some n) (ssid_len b) (rates_len b) M = Inr (Some q)
    \<and> GetCountFrom80211eTIM (Some q) (Some x) M = Inr (True, Some c)
    \<and> GetPeriodFrom80211eTIM (Some q) (Some x) M = Inr (True, Some p)
    \<and> GetBitmapCtrlFrom80211eTIM (Some q) (Some x) M = Inr (True, Some t)
    \<and> get_bytes (length bs) (q + 5) M = Inr bs
    \<and> GetPartialVirtualBitmapFrom80211eTIM (Some q) (Some l) M
        = Inr (Some (q + 5), Some (if length bs \<le> 124 then of_nat (length bs) else of_nat (length bs) - 256))"
proof (intro exI conjI)
  let ?M = "pre @ beacon_bytes b @ post" and ?q = "beacon_at n b 4"
  let ?bs = "[ELEMENT_ID_TIM, 3 + of_nat (length bs), c, p, t] @ bs"
  have k: "beacon_parts b ! 4 = (ELEMENT_ID_TIM, 5 + bitmap_len b, ?bs)" "?bs \<noteq> []" "(4::nat) < 8"
    using assms(3) by (simp_all add: beacon_parts_def tim_part_def opt_bytes_def)
  note found = beacon_part_found [OF assms(1) k(3,1,2) assms(2), of post]
  show "build_beacon (Some n) b (pre @ replicate (unat (beacon_length b)) 0 @ post) = Inr ?M"
    by (rule build_beacon_bytes [OF assms(1,2)])
  show "GetTIMFrom80211eBeaconFrameBody (Some n) (ssid_len b) (rates_len b) ?M = Inr (Some ?q)"
    using found(1) by (simp add: beacon_getters_def Let_def)
  have r: "get_bytes (5 + length bs) ?q ?M = Inr ?bs" using found(2) by (simp add: numeral_eq_Suc)
  note read = tim_read [OF r]
  show "GetCountFrom80211eTIM (Some ?q) (Some x) ?M = Inr (True, Some c)" "GetPeriodFrom80211eTIM (Some ?q) (Some x) ?M = Inr (True, Some p)"
    "GetBitmapCtrlFrom80211eTIM (Some ?q) (Some x) ?M = Inr (True, Some t)" "get_bytes (length bs) (?q + 5) ?M = Inr bs"
    by (rule read)+
  have "length bs \<le> 252" using assms(1,3) by (simp add: beacon_ok_def bitmap_def)
  then have "char_uint (3 + of_nat (length bs)) - 3 = (if length bs \<le> 124 then of_nat (length bs) else of_nat (length bs) - 256)"
    using char_uint_small [of "3 + length bs"] char_uint_large [of "3 + length bs"] by auto
  then show "GetPartialVirtualBitmapFrom80211eTIM (Some ?q) (Some l) ?M
      = Inr (Some (?q + 5), Some (if length bs \<le> 124 then of_nat (length bs) else of_nat (length bs) - 256))"
    using read(5) by simp
qed

text \<open>
  C39: The getters of the optional parts look at the byte where the part may be, without regard to the length of
  the body: in a beacon without optional parts this is the byte behind the body.
\<close>

theorem getters_read_behind_body:
  assumes "beacon_ok b" "part_bytes (beacon_parts b) = []" "k < 8"
  shows "(beacon_getters (length pre) b ! k) (pre @ beacon_bytes b) = Inl OutOfBounds"
  unfolding beacon_getter [OF assms(1,3)]
  by (rule find_element_end) (simp add: beacon_at_0 beacon_bytes_def assms(2))

lemma beacon_setters_keep:
  "keeps_size (SetTimestampInto80211eBeaconFrameBody a1 a2)"
  "keeps_size (SetBeaconIntervalInto80211eBeaconFrameBody b1 b2)"
  "keeps_size (SetCapabilityInfoInto80211eBeaconFrameBody c1 c2 c3 c4 c5 c6 c7 c8 c9 c10 c11 c12 c13 c14 c15 c16)"
  "keeps_size (SetSSIDInto80211eBeaconFrameBody d1 d2 d3)"
  "keeps_size (SetSupportedRatesInto80211eBeaconFrameBody e1 e2 e3 e4)"
  "keeps_size (SetFHParameterSetInto80211eBeaconFrameBody f1 f2 f3 f4 f5 f6 f7 f8)"
  "keeps_size (SetDSParameterSetInto80211eBeaconFrameBody g1 g2 g3 g4 g5)"
  "keeps_size (SetCFParameterSetInto80211eBeaconFrameBody h1 h2 h3 h4 h5 h6 h7 h8)"
  "keeps_size (SetIBSSParameterSetInto80211eBeaconFrameBody i1 i2 i3 i4 i5)"
  "keeps_size (SetTIMInto80211eBeaconFrameBody j1 j2 j3 j4 j5 j6 j7 j8 j9)"
  "keeps_size (SetQBSSLoadInto80211eBeaconFrameBody k1 k2 k3 k4 k5 k6 k7 k8)"
  "keeps_size (SetEDCAParameterSetInto80211eBeaconFrameBody l1 l2 l3 l4 l5 l6 l7 l8 l9 l10 l11 l12 l13 l14 l15 l16 l17
    l18 l19 l20 l21 l22 l23 l24 l25)"
  "keeps_size (SetQoSCapabilityInto80211eBeaconFrameBody m1 m2 m3 m4 m5 m6 m7 m8 m9)"
  unfolding SetTimestampInto80211eBeaconFrameBody_def SetBeaconIntervalInto80211eBeaconFrameBody_def
    SetCapabilityInfoInto80211eBeaconFrameBody_def SetSSIDInto80211eBeaconFrameBody_def
    SetSupportedRatesInto80211eBeaconFrameBody_def SetFHParameterSetInto80211eBeaconFrameBody_def
    SetDSParameterSetInto80211eBeaconFrameBody_def SetCFParameterSetInto80211eBeaconFrameBody_def
    SetIBSSParameterSetInto80211eBeaconFrameBody_def SetTIMInto80211eBeaconFrameBody_def
    SetQBSSLoadInto80211eBeaconFrameBody_def SetEDCAParameterSetInto80211eBeaconFrameBody_def
    SetQoSCapabilityInto80211eBeaconFrameBody_def
    Let_def capability_writes_def qos_info_def ac_record_def
  by (auto intro!: keeps_size_if keeps_size_run keeps_size_writes)


definition sample_beacon :: beacon where
  "sample_beacon = \<lparr>bcn_timestamp = 0x0102030405060708, bcn_interval = 100,
     bcn_capabilities = \<lparr>cap_ESS = True, cap_IBSS = False, cap_CF_Pollable = False, cap_CF_Poll_Request = False,
       cap_Privacy = True, cap_ShortPreamble = False, cap_PBCC = False, cap_ChannelAgility = False,
       cap_SpectrumManagement = False, cap_QoS = True, cap_ShortSlotTime = False, cap_APSD = False,
       cap_DSSS_OFDM = False, cap_DelayedBlockAck = False, cap_ImmediateBlockAck = True\<rparr>,
     bcn_ssid = [1, 0, 0, 0], bcn_rates = [0x82], bcn_fh = None, bcn_ds = Some 6, bcn_cf = None, bcn_ibss = None,
     bcn_tim = Some (0, 1, 0, [0xff]), bcn_qbss = Some (3, 17, 1000), bcn_edca = None,
     bcn_qos = Some (2, True, False, False)\<rparr>"

lemma sample_beacon_ok: "beacon_ok sample_beacon"
  by (simp add: sample_beacon_def beacon_ok_def bitmap_def)

theorem beacon_round_trip_witness:
  "\<exists>M. build_beacon (Some 0) sample_beacon (replicate (unat (beacon_length sample_beacon)) 0) = Inr M
     \<and> GetSSIDFrom80211eBeaconFrameBody (Some 0) (Some 0) M = Inr (Some 14, Some 4)
     \<and> (\<exists>q. GetQBSSLoadFrom80211eBeaconFrameBody (Some 0) 4 1 1 M = Inr (Some q)
         \<and> get_bytes 7 q M = Inr [0x0b, 5, 3, 0, 17, 0xe8, 3])"
proof -
  have l: "ssid_len sample_beacon = 4" "rates_len sample_beacon = 1" "bitmap_len sample_beacon = 1"
    by (simp_all add: sample_beacon_def bitmap_def)
  have p: "beacon_getters 0 sample_beacon ! 5 = GetQBSSLoadFrom80211eBeaconFrameBody (Some 0) 4 1 1"
    "beacon_parts sample_beacon ! 5 = (0x0b, 7, [0x0b, 5, 3, 0, 17, 0xe8, 3])"
    unfolding beacon_getters_def l Let_def
    by (simp_all add: beacon_parts_def qbss_part_def opt_bytes_def sample_beacon_def le_lists frame_constants)
  have get_7: "get_bytes (Suc (Suc (Suc (Suc (Suc (Suc (Suc 0))))))) q M = get_bytes 7 q M" for q M
    by (simp add: numeral_eq_Suc)
  obtain M where M: "build_beacon (Some 0) sample_beacon (replicate (unat (beacon_length sample_beacon)) 0) = Inr M"
    "GetSSIDFrom80211eBeaconFrameBody (Some 0) (Some 0) M = Inr (Some 14, Some 4)"
    and "\<forall>k < 8. case beacon_parts sample_beacon ! k of (e, m, bs) \<Rightarrow> bs \<noteq> [] \<longrightarrow>
         (\<exists>q. (beacon_getters 0 sample_beacon ! k) M = Inr (Some q) \<and> get_bytes (length bs) q M = Inr bs)"
    using beacon_round_trip [OF sample_beacon_ok, of "[]" 0 "[]" 0 0 0] by (auto simp: l)
  from this(3) [rule_format, of 5] show ?thesis using M by (auto simp: p get_7)
qed


theorem beacon_body_layout_witness:
  "build_beacon (Some 0) sample_beacon (replicate (unat (beacon_length sample_beacon)) 0) = Inr (beacon_bytes sample_beacon)"
  using beacon_body_layout [OF sample_beacon_ok, of "[]" 0 "[]"] by simp


theorem tim_length_wraps_witness:
  "\<exists>M q. build_beacon (Some 0) (sample_beacon\<lparr>bcn_tim := Some (0, 1, 0, replicate 125 0xff)\<rparr>)
       (replicate (unat (beacon_length (sample_beacon\<lparr>bcn_tim := Some (0, 1, 0, replicate 125 0xff)\<rparr>))) 0) = Inr M
     \<and> GetTIMFrom80211eBeaconFrameBody (Some 0) 4 1 M = Inr (Some q)
     \<and> GetPartialVirtualBitmapFrom80211eTIM (Some q) (Some 0) M = Inr (Some (q + 5), Some 0xffffff7d)"
proof -
  let ?b = "sample_beacon\<lparr>bcn_tim := Some (0, 1, 0, replicate 125 0xff)\<rparr>"
  have "beacon_ok ?b" by (simp add: sample_beacon_def beacon_ok_def bitmap_def)
  moreover have "bcn_tim ?b = Some (0, 1, 0, replicate 125 0xff)" by simp
  moreover have "ssid_len ?b = 4" "rates_len ?b = 1" by (simp_all add: sample_beacon_def)
  ultimately show ?thesis using tim_length_wraps [of ?b "[]" 0 0 1 0 "replicate 125 0xff" "[]" 0 0] by auto
qed

theorem getters_read_behind_body_witness:
  "GetTIMFrom80211eBeaconFrameBody (Some 1) 4 1 ([0] @ beacon_bytes (sample_beacon\<lparr>bcn_ds := None, bcn_tim := None, bcn_qbss := None,
     bcn_qos := None\<rparr>)) = Inl OutOfBounds"
proof -
  let ?b = "sample_beacon\<lparr>bcn_ds := None, bcn_tim := None, bcn_qbss := None, bcn_qos := None\<rparr>"
  have "beacon_ok ?b" by (simp add: sample_beacon_def beacon_ok_def bitmap_def)
  moreover have "part_bytes (beacon_parts ?b) = []"
    by (simp add: sample_beacon_def beacon_parts_def fh_part_def ds_part_def cf_part_def ibss_part_def tim_part_def
      qbss_part_def edca_part_def qos_part_def opt_bytes_def)
  moreover have "ssid_len ?b = 4" "rates_len ?b = 1" by (simp_all add: sample_beacon_def)
  ultimately show ?thesis using getters_read_behind_body [of ?b 4 "[0]"] by (simp add: beacon_getters_def Let_def)
qed

end
