(* ===== verification/TrafficStream80211e.thy ===== *)
theory TrafficStream80211e
  imports FrameBody
begin

text \<open>
  The frame bodies of the actions on traffic streams: ADDTS request and response, DELTS, schedule.
\<close>

definition SpecifyWithOrWithoutSomeOptionalInfoFlagFor80211eADDTSRequestFrameBody :: "bool \<Rightarrow> tclas_type \<Rightarrow>
    bool \<Rightarrow> u8" where
  "SpecifyWithOrWithoutSomeOptionalInfoFlagFor80211eADDTSRequestFrameBody WithTCLAS
      TCLASFrameClassifierType WithTCLASProcessing =
     (if WithTCLAS then tclas_flag TCLASFrameClassifierType else 0) OR given_flag WithTCLASProcessing
         WITH_TCLAS_PROCESSING_FLAG"

definition Calculate80211eADDTSRequestFrameBodyLength :: "u8 \<Rightarrow> u32" where
  "Calculate80211eADDTSRequestFrameBodyLength OptionalInfoFlag =
     1 + 1 + 1 + 57 + tclas_room OptionalInfoFlag + opt OptionalInfoFlag WITH_TCLAS_PROCESSING_FLAG 3"

definition SetDialogTokenInto80211eADDTSRequestFrameBody :: "ptr \<Rightarrow> u8 \<Rightarrow> buf \<Rightarrow> abort + buf" where
  "SetDialogTokenInto80211eADDTSRequestFrameBody Body DialogToken M =
     (if Body = None then Inr M
      else let p = body_at Body (1 + 1) in put8 p DialogToken M)"

definition SetTSPECInto80211eADDTSRequestFrameBody :: "ptr \<Rightarrow> bool \<Rightarrow> u8 \<Rightarrow> bool \<Rightarrow> bool \<Rightarrow> bool \<Rightarrow> bool \<Rightarrow> bool \<Rightarrow>
    bool \<Rightarrow> u8 \<Rightarrow> bool \<Rightarrow> bool \<Rightarrow> bool \<Rightarrow> u16 option \<Rightarrow> bool \<Rightarrow> u16 option \<Rightarrow> u32 option \<Rightarrow> u32 option \<Rightarrow> u32 option
    \<Rightarrow> u32 option \<Rightarrow> u32 option \<Rightarrow> u32 option \<Rightarrow> u32 option \<Rightarrow> u32 option \<Rightarrow> u32 option \<Rightarrow> u32 option \<Rightarrow> u32 option
    \<Rightarrow> u16 option \<Rightarrow> u16 option \<Rightarrow> u16 option \<Rightarrow> buf \<Rightarrow> abort + buf" where
  "SetTSPECInto80211eADDTSRequestFrameBody Body TSInfo_TrafficType TSInfo_TSID TSInfo_Direction_Bit_1
      TSInfo_Direction_Bit_2 TSInfo_AccessPolicy_Bit_1 TSInfo_AccessPolicy_Bit_2 TSInfo_Aggregation
      TSInfo_APSD TSInfo_UserPriority TSInfo_TSInfoAckPolicy_Bit_1 TSInfo_TSInfoAckPolicy_Bit_2
      TSInfo_Schedule NominalMSDUSize NominalMSDUSize_Fixed MaximumMSDUSize MinimumServiceInterval
      MaximumServiceInterval InactivityInterval SyspensionInterval ServiceStartTime MinimumDataRate
      MeanDataRate PeakDataRate BurstSize DelayBound MinimumPHYRate SurplusBandwidthAllowance_IntegerPart
      SurplusBandwidthAllowance_DecimalPart MediumTime M =
     (if Body = None \<or> MaximumMSDUSize = None \<or> MinimumServiceInterval = None \<or> MaximumServiceInterval =
         None \<or> InactivityInterval = None \<or> SyspensionInterval = None \<or> ServiceStartTime = None \<or>
         MinimumDataRate = None \<or> MeanDataRate = None \<or> PeakDataRate = None \<or> BurstSize = None \<or> DelayBound
         = None \<or> MinimumPHYRate = None \<or> MediumTime = None then Inr M
      else let p = body_at Body (1 + 1 + 1) in
        run (tspec_writes p TSInfo_TrafficType TSInfo_TSID TSInfo_Direction_Bit_1 TSInfo_Direction_Bit_2
            TSInfo_AccessPolicy_Bit_1 TSInfo_AccessPolicy_Bit_2 TSInfo_Aggregation TSInfo_APSD
            TSInfo_UserPriority TSInfo_TSInfoAckPolicy_Bit_1 TSInfo_TSInfoAckPolicy_Bit_2 TSInfo_Schedule
            NominalMSDUSize NominalMSDUSize_Fixed (the MaximumMSDUSize) (the MinimumServiceInterval) (the
            MaximumServiceInterval) (the InactivityInterval) (the SyspensionInterval) (the
            ServiceStartTime) (the MinimumDataRate) (the MeanDataRate) (the PeakDataRate) (the BurstSize)
            (the DelayBound) (the MinimumPHYRate) SurplusBandwidthAllowance_IntegerPart
            SurplusBandwidthAllowance_DecimalPart (the MediumTime)) M)"

definition SetTCLASwithFrameClassifierType0Into80211eADDTSRequestFrameBody :: "ptr \<Rightarrow> u8 \<Rightarrow> u8 \<Rightarrow> u8 \<Rightarrow> u8 list
    option \<Rightarrow> u8 list option \<Rightarrow> u16 option \<Rightarrow> buf \<Rightarrow> abort + buf" where
  "SetTCLASwithFrameClassifierType0Into80211eADDTSRequestFrameBody Body OptionalInfoFlag UserPriority
      ClassifierMask SourceAddress DestinationAddress Type M =
     (if Body = None \<or> SourceAddress = None \<or> DestinationAddress = None \<or> Type = None then Inr M
      else if OptionalInfoFlag AND WITH_TCLAS_CLASSIFIER_TYPE_0_FLAG = 0 then Inr M
      else let p = body_at Body (1 + 1 + 1 + 57) in
        run [put8 p ELEMENT_ID_TCLAS, put8 (p + 1) 0x11, put8 (p + 2) UserPriority, put8 (p + 3) 0x00,
             put8 (p + 4) ClassifierMask, bcopy (p + 5) 6 (the SourceAddress),
             bcopy (p + 11) 6 (the DestinationAddress), bcopy (p + 17) 2 (le16 (the Type))] M)"

definition SetTCLASwithFrameClassifierType1ForIPv4Into80211eADDTSRequestFrameBody :: "ptr \<Rightarrow> u8 \<Rightarrow> u8 \<Rightarrow> u8 \<Rightarrow>
    u8 \<Rightarrow> u8 list option \<Rightarrow> u8 list option \<Rightarrow> u16 option \<Rightarrow> u16 option \<Rightarrow> u8 \<Rightarrow> u8 \<Rightarrow> buf \<Rightarrow> abort + buf" where
  "SetTCLASwithFrameClassifierType1ForIPv4Into80211eADDTSRequestFrameBody Body OptionalInfoFlag
      UserPriority ClassifierMask Version SourceIPAddress DestinationIPAddress SourcePort DestinationPort
      DSCP Protocol M =
     (if Body = None \<or> SourceIPAddress = None \<or> DestinationIPAddress = None \<or> SourcePort = None \<or>
         DestinationPort = None then Inr M
      else if OptionalInfoFlag AND WITH_TCLAS_CLASSIFIER_TYPE_1_IPV4_FLAG = 0 then Inr M
      else let p = body_at Body (1 + 1 + 1 + 57) in
        run [put8 p ELEMENT_ID_TCLAS, put8 (p + 1) 0x13, put8 (p + 2) UserPriority, put8 (p + 3) 0x01,
             put8 (p + 4) ClassifierMask, put8 (p + 5) Version, bcopy (p + 6) 4 (the SourceIPAddress),
             bcopy (p + 10) 4 (the DestinationIPAddress), bcopy (p + 14) 2 (le16 (the SourcePort)),
             bcopy (p + 16) 2 (le16 (the DestinationPort)), put8 (p + 18) (DSCP AND 0x3f),
             put8 (p + 19) Protocol] M)"

definition SetTCLASwithFrameClassifierType1ForIPv6Into80211eADDTSRequestFrameBody :: "ptr \<Rightarrow> u8 \<Rightarrow> u8 \<Rightarrow> u8 \<Rightarrow>
    u8 \<Rightarrow> u8 list option \<Rightarrow> u8 list option \<Rightarrow> u16 option \<Rightarrow> u16 option \<Rightarrow> u8 list option \<Rightarrow> buf \<Rightarrow> abort + buf"
    where
  "SetTCLASwithFrameClassifierType1ForIPv6Into80211eADDTSRequestFrameBody Body OptionalInfoFlag
      UserPriority ClassifierMask Version SourceIPAddress DestinationIPAddress SourcePort DestinationPort
      FlowLabel M =
     (if Body = None \<or> SourceIPAddress = None \<or> DestinationIPAddress = None \<or> SourcePort = None \<or>
         DestinationPort = None \<or> FlowLabel = None then Inr M
      else if OptionalInfoFlag AND WITH_TCLAS_CLASSIFIER_TYPE_1_IPV6_FLAG = 0 then Inr M
      else let p = body_at Body (1 + 1 + 1 + 57) in
        run [put8 p ELEMENT_ID_TCLAS, put8 (p + 1) 0x2b, put8 (p + 2) UserPriority, put8 (p + 3) 0x01,
             put8 (p + 4) ClassifierMask, put8 (p + 5) Version, bcopy (p + 6) 16 (the SourceIPAddress),
             bcopy (p + 22) 16 (the DestinationIPAddress), bcopy (p + 38) 2 (le16 (the SourcePort)),
             bcopy (p + 40) 2 (le16 (the DestinationPort)), bcopy (p + 42) 3 (the FlowLabel)] M)"

definition SetTCLASwithFrameClassifierType2Into80211eADDTSRequestFrameBody :: "ptr \<Rightarrow> u8 \<Rightarrow> u8 \<Rightarrow> u8 \<Rightarrow> u16
    option \<Rightarrow> buf \<Rightarrow> abort + buf" where
  "SetTCLASwithFrameClassifierType2Into80211eADDTSRequestFrameBody Body OptionalInfoFlag UserPriority
      ClassifierMask TagType M =
     (if Body = None \<or> TagType = None then Inr M
      else if OptionalInfoFlag AND WITH_TCLAS_CLASSIFIER_TYPE_2_FLAG = 0 then Inr M
      else let p = body_at Body (1 + 1 + 1 + 57) in
        run [put8 p ELEMENT_ID_TCLAS, put8 (p + 1) 0x05, put8 (p + 2) UserPriority, put8 (p + 3) 0x02,
             put8 (p + 4) ClassifierMask, bcopy (p + 5) 2 (le16 (the TagType))] M)"

definition SetTCLASProcessingInto80211eADDTSRequestFrameBody :: "ptr \<Rightarrow> u8 \<Rightarrow> u8 \<Rightarrow> buf \<Rightarrow> abort + buf" where
  "SetTCLASProcessingInto80211eADDTSRequestFrameBody Body OptionalInfoFlag Processing M =
     (if Body = None then Inr M
      else if OptionalInfoFlag AND WITH_TCLAS_PROCESSING_FLAG = 0 then Inr M
      else let p = body_at Body (1 + 1 + 1 + 57 + tclas_room OptionalInfoFlag) in
        run [put8 p ELEMENT_ID_TCLAS_PROCESSING, put8 (p + 1) 0x01, put8 (p + 2) Processing] M)"

definition GetDialogTokenFrom80211eADDTSRequestFrameBody :: "ptr \<Rightarrow> u8 option \<Rightarrow> buf \<Rightarrow> abort + u8 option" where
  "GetDialogTokenFrom80211eADDTSRequestFrameBody Body DialogToken M =
     (if Body = None \<or> DialogToken = None then Inr DialogToken
      else map_sum id Some (get8 (body_at Body (1 + 1)) M))"

definition GetTSPECFrom80211eADDTSRequestFrameBody :: "ptr \<Rightarrow> buf \<Rightarrow> abort + ptr" where
  "GetTSPECFrom80211eADDTSRequestFrameBody Body M =
     (if Body = None then Inr None
      else Inr (Some (body_at Body (1 + 1 + 1))))"

definition GetTCLASFrom80211eADDTSRequestFrameBody :: "ptr \<Rightarrow> u8 option \<Rightarrow> buf \<Rightarrow> abort + (ptr \<times> u8 option)" where
  "GetTCLASFrom80211eADDTSRequestFrameBody Body FrameClassifierType M =
     (if Body = None \<or> FrameClassifierType = None then Inr (None, FrameClassifierType)
      else let p = body_at Body (1 + 1 + 1 + 57) in
        sum_bind (get8 p M) (\<lambda>b. if b \<noteq> ELEMENT_ID_TCLAS then Inr (None, FrameClassifierType)
          else map_sum id (\<lambda>t. (Some p, Some t)) (get8 (p + 3) M)))"

definition GetTCLASProcessingFrom80211eADDTSRequestFrameBody :: "ptr \<Rightarrow> tclas_type \<Rightarrow> buf \<Rightarrow> abort + ptr" where
  "GetTCLASProcessingFrom80211eADDTSRequestFrameBody Body FrameClassifierType M =
     (if Body = None then Inr None
      else find_element (body_at Body (1 + 1 + 1 + 57))
        [(ELEMENT_ID_TCLAS, tclas_size FrameClassifierType)] ELEMENT_ID_TCLAS_PROCESSING M)"

definition SpecifyWithOrWithoutSomeOptionalInfoFlagFor80211eADDTSResponseFrameBody :: "bool \<Rightarrow> tclas_type \<Rightarrow>
    bool \<Rightarrow> u8" where
  "SpecifyWithOrWithoutSomeOptionalInfoFlagFor80211eADDTSResponseFrameBody WithTCLAS
      TCLASFrameClassifierType WithTCLASProcessing =
     (if WithTCLAS then tclas_flag TCLASFrameClassifierType else 0) OR given_flag WithTCLASProcessing
         WITH_TCLAS_PROCESSING_FLAG"

definition Calculate80211eADDTSResponseFrameBodyLength :: "u8 \<Rightarrow> u32" where
  "Calculate80211eADDTSResponseFrameBodyLength OptionalInfoFlag =
     1 + 1 + 1 + 2 + 6 + 57 + tclas_room OptionalInfoFlag + opt OptionalInfoFlag WITH_TCLAS_PROCESSING_FLAG
         3 + 14"

definition SetDialogTokenInto80211eADDTSResponseFrameBody :: "ptr \<Rightarrow> u8 \<Rightarrow> buf \<Rightarrow> abort + buf" where
  "SetDialogTokenInto80211eADDTSResponseFrameBody Body DialogToken M =
     (if Body = None then Inr M
      else let p = body_at Body (1 + 1) in put8 p DialogToken M)"

definition SetStatusCodeInto80211eADDTSResponseFrameBody :: "ptr \<Rightarrow> u16 option \<Rightarrow> buf \<Rightarrow> abort + buf" where
  "SetStatusCodeInto80211eADDTSResponseFrameBody Body StatusCode M =
     (if Body = None \<or> StatusCode = None then Inr M
      else let p = body_at Body (1 + 1 + 1) in bcopy p 2 (le16 (the StatusCode)) M)"

definition SetTSDelayInto80211eADDTSResponseFrameBody :: "ptr \<Rightarrow> u32 option \<Rightarrow> buf \<Rightarrow> abort + buf" where
  "SetTSDelayInto80211eADDTSResponseFrameBody Body Delay M =
     (if Body = None \<or> Delay = None then Inr M
      else let p = body_at Body (1 + 1 + 1 + 2) in
        run [put8 p ELEMENT_ID_TS_DELAY, put8 (p + 1) 0x04, bcopy (p + 2) 4 (le32 (the Delay))] M)"

definition SetTSPECInto80211eADDTSResponseFrameBody :: "ptr \<Rightarrow> bool \<Rightarrow> u8 \<Rightarrow> bool \<Rightarrow> bool \<Rightarrow> bool \<Rightarrow> bool \<Rightarrow> bool
    \<Rightarrow> bool \<Rightarrow> u8 \<Rightarrow> bool \<Rightarrow> bool \<Rightarrow> bool \<Rightarrow> u16 option \<Rightarrow> bool \<Rightarrow> u16 option \<Rightarrow> u32 option \<Rightarrow> u32 option \<Rightarrow> u32
    option \<Rightarrow> u32 option \<Rightarrow> u32 option \<Rightarrow> u32 option \<Rightarrow> u32 option \<Rightarrow> u32 option \<Rightarrow> u32 option \<Rightarrow> u32 option \<Rightarrow> u32
    option \<Rightarrow> u16 option \<Rightarrow> u16 option \<Rightarrow> u16 option \<Rightarrow> buf \<Rightarrow> abort + buf" where
  "SetTSPECInto80211eADDTSResponseFrameBody Body TSInfo_TrafficType TSInfo_TSID TSInfo_Direction_Bit_1
      TSInfo_Direction_Bit_2 TSInfo_AccessPolicy_Bit_1 TSInfo_AccessPolicy_Bit_2 TSInfo_Aggregation
      TSInfo_APSD TSInfo_UserPriority TSInfo_TSInfoAckPolicy_Bit_1 TSInfo_TSInfoAckPolicy_Bit_2
      TSInfo_Schedule NominalMSDUSize NominalMSDUSize_Fixed MaximumMSDUSize MinimumServiceInterval
      MaximumServiceInterval InactivityInterval SyspensionInterval ServiceStartTime MinimumDataRate
      MeanDataRate PeakDataRate BurstSize DelayBound MinimumPHYRate SurplusBandwidthAllowance_IntegerPart
      SurplusBandwidthAllowance_DecimalPart MediumTime M =
     (if Body = None \<or> MaximumMSDUSize = None \<or> MinimumServiceInterval = None \<or> MaximumServiceInterval =
         None \<or> InactivityInterval = None \<or> SyspensionInterval = None \<or> ServiceStartTime = None \<or>
         MinimumDataRate = None \<or> MeanDataRate = None \<or> PeakDataRate = None \<or> BurstSize = None \<or> DelayBound
         = None \<or> MinimumPHYRate = None \<or> MediumTime = None then Inr M
      else let p = body_at Body (1 + 1 + 1 + 2 + 6) in
        run (tspec_writes p TSInfo_TrafficType TSInfo_TSID TSInfo_Direction_Bit_1 TSInfo_Direction_Bit_2
            TSInfo_AccessPolicy_Bit_1 TSInfo_AccessPolicy_Bit_2 TSInfo_Aggregation TSInfo_APSD
            TSInfo_UserPriority TSInfo_TSInfoAckPolicy_Bit_1 TSInfo_TSInfoAckPolicy_Bit_2 TSInfo_Schedule
            NominalMSDUSize NominalMSDUSize_Fixed (the MaximumMSDUSize) (the MinimumServiceInterval) (the
            MaximumServiceInterval) (the InactivityInterval) (the SyspensionInterval) (the
            ServiceStartTime) (the MinimumDataRate) (the MeanDataRate) (the PeakDataRate) (the BurstSize)
            (the DelayBound) (the MinimumPHYRate) SurplusBandwidthAllowance_IntegerPart
            SurplusBandwidthAllowance_DecimalPart (the MediumTime)) M)"

definition SetTCLASwithFrameClassifierType0Into80211eADDTSResponseFrameBody :: "ptr \<Rightarrow> u8 \<Rightarrow> u8 \<Rightarrow> u8 \<Rightarrow> u8
    list option \<Rightarrow> u8 list option \<Rightarrow> u16 option \<Rightarrow> buf \<Rightarrow> abort + buf" where
  "SetTCLASwithFrameClassifierType0Into80211eADDTSResponseFrameBody Body OptionalInfoFlag UserPriority
      ClassifierMask SourceAddress DestinationAddress Type M =
     (if Body = None \<or> SourceAddress = None \<or> DestinationAddress = None \<or> Type = None then Inr M
      else if OptionalInfoFlag AND WITH_TCLAS_CLASSIFIER_TYPE_0_FLAG = 0 then Inr M
      else let p = body_at Body (1 + 1 + 1 + 2 + 6 + 57) in
        run [put8 p ELEMENT_ID_TCLAS, put8 (p + 1) 0x11, put8 (p + 2) UserPriority, put8 (p + 3) 0x00,
             put8 (p + 4) ClassifierMask, bcopy (p + 5) 6 (the SourceAddress),
             bcopy (p + 11) 6 (the DestinationAddress), bcopy (p + 17) 2 (le16 (the Type))] M)"

definition SetTCLASwithFrameClassifierType1ForIPv4Into80211eADDTSResponseFrameBody :: "ptr \<Rightarrow> u8 \<Rightarrow> u8 \<Rightarrow> u8 \<Rightarrow>
    u8 \<Rightarrow> u8 list option \<Rightarrow> u8 list option \<Rightarrow> u16 option \<Rightarrow> u16 option \<Rightarrow> u8 \<Rightarrow> u8 \<Rightarrow> buf \<Rightarrow> abort + buf" where
  "SetTCLASwithFrameClassifierType1ForIPv4Into80211eADDTSResponseFrameBody Body OptionalInfoFlag
      UserPriority ClassifierMask Version SourceIPAddress DestinationIPAddress SourcePort DestinationPort
      DSCP Protocol M =
     (if Body = None \<or> SourceIPAddress = None \<or> DestinationIPAddress = None \<or> SourcePort = None \<or>
         DestinationPort = None then Inr M
      else if OptionalInfoFlag AND WITH_TCLAS_CLASSIFIER_TYPE_1_IPV4_FLAG = 0 then Inr M
      else let p = body_at Body (1 + 1 + 1 + 2 + 6 + 57) in
        run [put8 p ELEMENT_ID_TCLAS, put8 (p + 1) 0x13, put8 (p + 2) UserPriority, put8 (p + 3) 0x01,
             put8 (p + 4) ClassifierMask, put8 (p + 5) Version, bcopy (p + 6) 4 (the SourceIPAddress),
             bcopy (p + 10) 4 (the DestinationIPAddress), bcopy (p + 14) 2 (le16 (the SourcePort)),
             bcopy (p + 16) 2 (le16 (the DestinationPort)), put8 (p + 18) (DSCP AND 0x3f),
             put8 (p + 19) Protocol] M)"

definition SetTCLASwithFrameClassifierType1ForIPv6Into80211eADDTSResponseFrameBody :: "ptr \<Rightarrow> u8 \<Rightarrow> u8 \<Rightarrow> u8 \<Rightarrow>
    u8 \<Rightarrow> u8 list option \<Rightarrow> u8 list option \<Rightarrow> u16 option \<Rightarrow> u16 option \<Rightarrow> u8 list option \<Rightarrow> buf \<Rightarrow> abort + buf"
    where
  "SetTCLASwithFrameClassifierType1ForIPv6Into80211eADDTSResponseFrameBody Body OptionalInfoFlag
      UserPriority ClassifierMask Version SourceIPAddress DestinationIPAddress SourcePort DestinationPort
      FlowLabel M =
     (if Body = None \<or> SourceIPAddress = None \<or> DestinationIPAddress = None \<or> SourcePort = None \<or>
         DestinationPort = None \<or> FlowLabel = None then Inr M
      else if OptionalInfoFlag AND WITH_TCLAS_CLASSIFIER_TYPE_1_IPV6_FLAG = 0 then Inr M
      else let p = body_at Body (1 + 1 + 1 + 2 + 6 + 57) in
        run [put8 p ELEMENT_ID_TCLAS, put8 (p + 1) 0x2b, put8 (p + 2) UserPriority, put8 (p + 3) 0x01,
             put8 (p + 4) ClassifierMask, put8 (p + 5) Version, bcopy (p + 6) 16 (the SourceIPAddress),
             bcopy (p + 22) 16 (the DestinationIPAddress), bcopy (p + 38) 2 (le16 (the SourcePort)),
             bcopy (p + 40) 2 (le16 (the DestinationPort)), bcopy (p + 42) 3 (the FlowLabel)] M)"

definition SetTCLASwithFrameClassifierType2Into80211eADDTSResponseFrameBody :: "ptr \<Rightarrow> u8 \<Rightarrow> u8 \<Rightarrow> u8 \<Rightarrow> u16
    option \<Rightarrow> buf \<Rightarrow> abort + buf" where
  "SetTCLASwithFrameClassifierType2Into80211eADDTSResponseFrameBody Body OptionalInfoFlag UserPriority
      ClassifierMask TagType M =
     (if Body = None \<or> TagType = None then Inr M
      else if OptionalInfoFlag AND WITH_TCLAS_CLASSIFIER_TYPE_2_FLAG = 0 then Inr M
      else let p = body_at Body (1 + 1 + 1 + 2 + 6 + 57) in
        run [put8 p ELEMENT_ID_TCLAS, put8 (p + 1) 0x05, put8 (p + 2) UserPriority, put8 (p + 3) 0x02,
             put8 (p + 4) ClassifierMask, bcopy (p + 5) 2 (le16 (the TagType))] M)"

definition SetTCLASProcessingInto80211eADDTSResponseFrameBody :: "ptr \<Rightarrow> u8 \<Rightarrow> u8 \<Rightarrow> buf \<Rightarrow> abort + buf" where
  "SetTCLASProcessingInto80211eADDTSResponseFrameBody Body OptionalInfoFlag Processing M =
     (if Body = None then Inr M
      else if OptionalInfoFlag AND WITH_TCLAS_PROCESSING_FLAG = 0 then Inr M
      else let p = body_at Body (1 + 1 + 1 + 2 + 6 + 57 + tclas_room OptionalInfoFlag) in
        run [put8 p ELEMENT_ID_TCLAS_PROCESSING, put8 (p + 1) 0x01, put8 (p + 2) Processing] M)"

definition SetScheduleInto80211eADDTSResponseFrameBody :: "ptr \<Rightarrow> u8 \<Rightarrow> bool \<Rightarrow> u8 \<Rightarrow> bool \<Rightarrow> bool \<Rightarrow> u32 option
    \<Rightarrow> u32 option \<Rightarrow> u16 option \<Rightarrow> buf \<Rightarrow> abort + buf" where
  "SetScheduleInto80211eADDTSResponseFrameBody Body OptionalInfoFlag Aggregation TSID Direction_Bit_1
      Direction_Bit_2 ServiceStartTime ServiceInterval SpecificationInterval M =
     (if Body = None \<or> ServiceStartTime = None \<or> ServiceInterval = None \<or> SpecificationInterval = None then
         Inr M
      else let p = body_at Body (1 + 1 + 1 + 2 + 6 + 57 + tclas_room OptionalInfoFlag + opt
          OptionalInfoFlag WITH_TCLAS_PROCESSING_FLAG 3) in
        run [put8 p ELEMENT_ID_SCHEDULE, put8 (p + 1) 0x0c, put8 (p + 2) (push_bit 3 TSID AND 0x78),
             set_flag (p + 2) Aggregation 0x80 0x7f, set_flag (p + 2) Direction_Bit_1 0x04 0xfb,
             set_flag (p + 2) Direction_Bit_2 0x02 0xfd, bcopy (p + 4) 4 (le32 (the ServiceStartTime)),
             bcopy (p + 8) 4 (le32 (the ServiceInterval)), bcopy (p + 12) 2 (le16 (the
                 SpecificationInterval))] M)"

definition GetDialogTokenFrom80211eADDTSResponseFrameBody :: "ptr \<Rightarrow> u8 option \<Rightarrow> buf \<Rightarrow> abort + u8 option" where
  "GetDialogTokenFrom80211eADDTSResponseFrameBody Body DialogToken M =
     (if Body = None \<or> DialogToken = None then Inr DialogToken
      else map_sum id Some (get8 (body_at Body (1 + 1)) M))"

definition GetStatusCodeFrom80211eADDTSResponseFrameBody :: "ptr \<Rightarrow> u16 option \<Rightarrow> buf \<Rightarrow> abort + u16 option" where
  "GetStatusCodeFrom80211eADDTSResponseFrameBody Body StatusCode M =
     (if Body = None \<or> StatusCode = None then Inr StatusCode
      else map_sum id Some (get16 (body_at Body (1 + 1 + 1)) M))"

definition GetTSDelayFrom80211eADDTSResponseFrameBody :: "ptr \<Rightarrow> buf \<Rightarrow> abort + ptr" where
  "GetTSDelayFrom80211eADDTSResponseFrameBody Body M =
     (if Body = None then Inr None
      else Inr (Some (body_at Body (1 + 1 + 1 + 2))))"

definition GetTSPECFrom80211eADDTSResponseFrameBody :: "ptr \<Rightarrow> buf \<Rightarrow> abort + ptr" where
  "GetTSPECFrom80211eADDTSResponseFrameBody Body M =
     (if Body = None then Inr None
      else Inr (Some (body_at Body (1 + 1 + 1 + 2 + 6))))"

definition GetTCLASFrom80211eADDTSResponseFrameBody :: "ptr \<Rightarrow> u8 option \<Rightarrow> buf \<Rightarrow> abort + (ptr \<times> u8 option)" where
  "GetTCLASFrom80211eADDTSResponseFrameBody Body FrameClassifierType M =
     (if Body = None \<or> FrameClassifierType = None then Inr (None, FrameClassifierType)
      else let p = body_at Body (1 + 1 + 1 + 2 + 6 + 57) in
        sum_bind (get8 p M) (\<lambda>b. if b \<noteq> ELEMENT_ID_TCLAS then Inr (None, FrameClassifierType)
          else map_sum id (\<lambda>t. (Some p, Some t)) (get8 (p + 3) M)))"

definition GetTCLASProcessingFrom80211eADDTSResponseFrameBody :: "ptr \<Rightarrow> tclas_type \<Rightarrow> buf \<Rightarrow> abort + ptr" where
  "GetTCLASProcessingFrom80211eADDTSResponseFrameBody Body FrameClassifierType M =
     (if Body = None then Inr None
      else find_element (body_at Body (1 + 1 + 1 + 2 + 6 + 57))
        [(ELEMENT_ID_TCLAS, tclas_size FrameClassifierType)] ELEMENT_ID_TCLAS_PROCESSING M)"

definition GetScheduleFrom80211eADDTSResponseFrameBody :: "ptr \<Rightarrow> tclas_type \<Rightarrow> buf \<Rightarrow> abort + ptr" where
  "GetScheduleFrom80211eADDTSResponseFrameBody Body FrameClassifierType M =
     (if Body = None then Inr None
      else find_element (body_at Body (1 + 1 + 1 + 2 + 6 + 57))
        [(ELEMENT_ID_TCLAS, tclas_size FrameClassifierType), (ELEMENT_ID_TCLAS_PROCESSING, 3)]
            ELEMENT_ID_SCHEDULE M)"

definition Calculate80211eDELTSFrameBodyLength :: "u32" where
  "Calculate80211eDELTSFrameBodyLength =
     1 + 1 + 3 + 2"

definition SetTSInfoInto80211eDELTSFrameBody :: "ptr \<Rightarrow> bool \<Rightarrow> u8 \<Rightarrow> bool \<Rightarrow> bool \<Rightarrow> bool \<Rightarrow> bool \<Rightarrow> bool \<Rightarrow> bool
    \<Rightarrow> u8 \<Rightarrow> bool \<Rightarrow> bool \<Rightarrow> bool \<Rightarrow> buf \<Rightarrow> abort + buf" where
  "SetTSInfoInto80211eDELTSFrameBody Body TrafficType TSID Direction_Bit_1 Direction_Bit_2
      AccessPolicy_Bit_1 AccessPolicy_Bit_2 Aggregation APSD UserPriority TSInfoAckPolicy_Bit_1
      TSInfoAckPolicy_Bit_2 Schedule M =
     (if Body = None then Inr M
      else let p = body_at Body (1 + 1) in run (ts_info p TrafficType TSID Direction_Bit_1 Direction_Bit_2
          AccessPolicy_Bit_1 AccessPolicy_Bit_2 Aggregation APSD UserPriority TSInfoAckPolicy_Bit_1
          TSInfoAckPolicy_Bit_2 Schedule) M)"

definition SetReasonCodeInto80211eDELTSFrameBody :: "ptr \<Rightarrow> u16 option \<Rightarrow> buf \<Rightarrow> abort + buf" where
  "SetReasonCodeInto80211eDELTSFrameBody Body ReasonCode M =
     (if Body = None \<or> ReasonCode = None then Inr M
      else let p = body_at Body (1 + 1 + 3) in bcopy p 2 (le16 (the ReasonCode)) M)"

definition GetTSInfoFrom80211eDELTSFrameBody :: "ptr \<Rightarrow> buf \<Rightarrow> abort + ptr" where
  "GetTSInfoFrom80211eDELTSFrameBody Body M =
     (if Body = None then Inr None
      else Inr (Some (body_at Body (1 + 1))))"

definition GetReasonCodeFrom80211eDELTSFrameBody :: "ptr \<Rightarrow> u16 option \<Rightarrow> buf \<Rightarrow> abort + u16 option" where
  "GetReasonCodeFrom80211eDELTSFrameBody Body ReasonCode M =
     (if Body = None \<or> ReasonCode = None then Inr ReasonCode
      else map_sum id Some (get16 (body_at Body (1 + 1 + 3)) M))"

definition Calculate80211eScheduleFrameBodyLength :: "u32" where
  "Calculate80211eScheduleFrameBodyLength =
     1 + 1 + 14"

definition SetScheduleInto80211eScheduleFrameBody :: "ptr \<Rightarrow> bool \<Rightarrow> u8 \<Rightarrow> bool \<Rightarrow> bool \<Rightarrow> u32 option \<Rightarrow> u32
    option \<Rightarrow> u16 option \<Rightarrow> buf \<Rightarrow> abort + buf" where
  "SetScheduleInto80211eScheduleFrameBody Body Aggregation TSID Direction_Bit_1 Direction_Bit_2
      ServiceStartTime ServiceInterval SpecificationInterval M =
     (if Body = None \<or> ServiceStartTime = None \<or> ServiceInterval = None \<or> SpecificationInterval = None then
         Inr M
      else let p = body_at Body (1 + 1) in
        run [put8 p ELEMENT_ID_SCHEDULE, put8 (p + 1) 0x0c, put8 (p + 2) (push_bit 3 TSID AND 0x78),
             set_flag (p + 2) Aggregation 0x80 0x7f, set_flag (p + 2) Direction_Bit_1 0x04 0xfb,
             set_flag (p + 2) Direction_Bit_2 0x02 0xfd, bcopy (p + 4) 4 (le32 (the ServiceStartTime)),
             bcopy (p + 8) 4 (le32 (the ServiceInterval)), bcopy (p + 12) 2 (le16 (the
                 SpecificationInterval))] M)"

definition GetScheduleFrom80211eScheduleFrameBody :: "ptr \<Rightarrow> buf \<Rightarrow> abort + ptr" where
  "GetScheduleFrom80211eScheduleFrameBody Body M =
     (if Body = None then Inr None
      else Inr (Some (body_at Body (1 + 1))))"

end
