(* ===== verification/Probe80211e.thy ===== *)
theory Probe80211e
  imports FrameBody
begin

text \<open>
  The frame bodies of probe requests and responses, of authentication and deauthentication.
\<close>

definition Calculate80211eProbeRequestFrameBodyLength :: "u32 \<Rightarrow> u32 \<Rightarrow> u32" where
  "Calculate80211eProbeRequestFrameBodyLength SSID_Len SupportedRates_Len =
     (2 + SSID_Len) + (2 + SupportedRates_Len)"

definition SetSSIDInto80211eProbeRequestFrameBody :: "ptr \<Rightarrow> u32 \<Rightarrow> u8 list option \<Rightarrow> buf \<Rightarrow> abort + buf" where
  "SetSSIDInto80211eProbeRequestFrameBody Body SSID_Len SSID M =
     (if Body = None \<or> SSID = None then Inr M
      else let p = body_at Body (0) in
        run [put8 p ELEMENT_ID_SSID, put8 (p + 1) (ucast SSID_Len), bcopy_len (p + 2) (p + 1) (the SSID)] M)"

definition SetSupportedRatesInto80211eProbeRequestFrameBody :: "ptr \<Rightarrow> u32 \<Rightarrow> u32 \<Rightarrow> u8 list option \<Rightarrow> buf \<Rightarrow>
    abort + buf" where
  "SetSupportedRatesInto80211eProbeRequestFrameBody Body SSID_Len SupportedRates_Len SupportedRates M =
     (if Body = None \<or> SupportedRates = None then Inr M
      else let p = body_at Body ((2 + SSID_Len)) in
        run [put8 p ELEMENT_ID_SUPPORTED_RATES, put8 (p + 1) (ucast SupportedRates_Len),
             bcopy_len (p + 2) (p + 1) (the SupportedRates)] M)"

definition GetSSIDFrom80211eProbeRequestFrameBody :: "ptr \<Rightarrow> u32 option \<Rightarrow> buf \<Rightarrow> abort + (ptr \<times> u32 option)" where
  "GetSSIDFrom80211eProbeRequestFrameBody Body SSID_Len M =
     (if Body = None \<or> SSID_Len = None then Inr (None, SSID_Len)
      else let p = body_at Body (0) in
        map_sum id (\<lambda>b. (Some (p + 2), Some (char_uint b))) (get8 (p + 1) M))"

definition GetSupportedRatesFrom80211eProbeRequestFrameBody :: "ptr \<Rightarrow> u32 \<Rightarrow> u32 option \<Rightarrow> buf \<Rightarrow> abort + (ptr
    \<times> u32 option)" where
  "GetSupportedRatesFrom80211eProbeRequestFrameBody Body SSID_Len SupportedRates_Len M =
     (if Body = None \<or> SupportedRates_Len = None then Inr (None, SupportedRates_Len)
      else let p = body_at Body ((2 + SSID_Len)) in
        map_sum id (\<lambda>b. (Some (p + 2), Some (char_uint b))) (get8 (p + 1) M))"

definition SpecifyWithOrWithoutSomeOptionalInfoFlagFor80211eProbeResponseFrameBody :: "bool \<Rightarrow> bool \<Rightarrow> bool \<Rightarrow>
    bool \<Rightarrow> bool \<Rightarrow> bool \<Rightarrow> u8" where
  "SpecifyWithOrWithoutSomeOptionalInfoFlagFor80211eProbeResponseFrameBody WithFH WithDS WithCF WithIBSS
      WithQBSS WithEDCA =
     given_flag WithFH WITH_FH_FLAG OR given_flag WithDS WITH_DS_FLAG OR given_flag WithCF WITH_CF_FLAG OR
         given_flag WithIBSS WITH_IBSS_FLAG OR given_flag WithQBSS WITH_QBSS_LOAD_FLAG OR given_flag
         WithEDCA WITH_EDCA_PARAMETER_SET_FLAG"

definition Calculate80211eProbeResponseFrameBodyLength :: "u8 \<Rightarrow> u32 \<Rightarrow> u32 \<Rightarrow> u32" where
  "Calculate80211eProbeResponseFrameBodyLength OptionalInfoFlag SSID_Len SupportedRates_Len =
     8 + 2 + 2 + (2 + SSID_Len) + (2 + SupportedRates_Len) + opt OptionalInfoFlag WITH_FH_FLAG 7
     + opt OptionalInfoFlag WITH_DS_FLAG 3 + opt OptionalInfoFlag WITH_CF_FLAG 8
     + opt OptionalInfoFlag WITH_IBSS_FLAG 4 + opt OptionalInfoFlag WITH_QBSS_LOAD_FLAG 7
     + opt OptionalInfoFlag WITH_EDCA_PARAMETER_SET_FLAG 20"

definition SetTimestampInto80211eProbeResponseFrameBody :: "ptr \<Rightarrow> u64 option \<Rightarrow> buf \<Rightarrow> abort + buf" where
  "SetTimestampInto80211eProbeResponseFrameBody Body Timestamp M =
     (if Body = None \<or> Timestamp = None then Inr M
      else let p = body_at Body (0) in bcopy p 8 (le64 (the Timestamp)) M)"

definition SetBeaconIntervalInto80211eProbeResponseFrameBody :: "ptr \<Rightarrow> u16 option \<Rightarrow> buf \<Rightarrow> abort + buf" where
  "SetBeaconIntervalInto80211eProbeResponseFrameBody Body Interval M =
     (if Body = None \<or> Interval = None then Inr M
      else let p = body_at Body (8) in bcopy p 2 (le16 (the Interval)) M)"

definition SetCapabilityInfoInto80211eProbeResponseFrameBody :: "ptr \<Rightarrow> bool \<Rightarrow> bool \<Rightarrow> bool \<Rightarrow> bool \<Rightarrow> bool \<Rightarrow>
    bool \<Rightarrow> bool \<Rightarrow> bool \<Rightarrow> bool \<Rightarrow> bool \<Rightarrow> bool \<Rightarrow> bool \<Rightarrow> bool \<Rightarrow> bool \<Rightarrow> bool \<Rightarrow> buf \<Rightarrow> abort + buf" where
  "SetCapabilityInfoInto80211eProbeResponseFrameBody Body ESS IBSS CF_Pollable CF_Poll_Request Privacy
      ShortPreamble PBCC ChannelAgility SpectrumManagement QoS ShortSlotTime APSD DSSS_OFDM
      DelayedBloackAck ImmediateBlockAck M =
     (if Body = None then Inr M
      else let p = body_at Body (8 + 2) in run (capability_writes p ESS IBSS CF_Pollable CF_Poll_Request
          Privacy ShortPreamble PBCC ChannelAgility SpectrumManagement QoS ShortSlotTime APSD DSSS_OFDM
          DelayedBloackAck ImmediateBlockAck) M)"

definition SetSSIDInto80211eProbeResponseFrameBody :: "ptr \<Rightarrow> u32 \<Rightarrow> u8 list option \<Rightarrow> buf \<Rightarrow> abort + buf" where
  "SetSSIDInto80211eProbeResponseFrameBody Body SSID_Len SSID M =
     (if Body = None \<or> SSID = None then Inr M
      else let p = body_at Body (8 + 2 + 2) in
        run [put8 p ELEMENT_ID_SSID, put8 (p + 1) (ucast SSID_Len), bcopy_len (p + 2) (p + 1) (the SSID)] M)"

definition SetSupportedRatesInto80211eProbeResponseFrameBody :: "ptr \<Rightarrow> u32 \<Rightarrow> u32 \<Rightarrow> u8 list option \<Rightarrow> buf \<Rightarrow>
    abort + buf" where
  "SetSupportedRatesInto80211eProbeResponseFrameBody Body SSID_Len SupportedRates_Len SupportedRates M =
     (if Body = None \<or> SupportedRates = None then Inr M
      else let p = body_at Body (8 + 2 + 2 + (2 + SSID_Len)) in
        run [put8 p ELEMENT_ID_SUPPORTED_RATES, put8 (p + 1) (ucast SupportedRates_Len),
             bcopy_len (p + 2) (p + 1) (the SupportedRates)] M)"

definition SetFHParameterSetInto80211eProbeResponseFrameBody :: "ptr \<Rightarrow> u8 \<Rightarrow> u32 \<Rightarrow> u32 \<Rightarrow> u16 option \<Rightarrow> u8 \<Rightarrow>
    u8 \<Rightarrow> u8 \<Rightarrow> buf \<Rightarrow> abort + buf" where
  "SetFHParameterSetInto80211eProbeResponseFrameBody Body OptionalInfoFlag SSID_Len SupportedRates_Len
      DwellTime HopSet HopPattern HopIndex M =
     (if Body = None \<or> DwellTime = None then Inr M
      else if OptionalInfoFlag AND WITH_FH_FLAG = 0 then Inr M
      else let p = body_at Body (8 + 2 + 2 + (2 + SSID_Len) + (2 + SupportedRates_Len)) in
        run [put8 p ELEMENT_ID_FH_PARAMETER_SET, put8 (p + 1) 0x05,
             bcopy (p + 2) 2 (le16 (the DwellTime)), put8 (p + 4) HopSet, put8 (p + 5) HopPattern,
             put8 (p + 6) HopIndex] M)"

definition SetDSParameterSetInto80211eProbeResponseFrameBody :: "ptr \<Rightarrow> u8 \<Rightarrow> u32 \<Rightarrow> u32 \<Rightarrow> u8 \<Rightarrow> buf \<Rightarrow> abort +
    buf" where
  "SetDSParameterSetInto80211eProbeResponseFrameBody Body OptionalInfoFlag SSID_Len SupportedRates_Len
      CurrentChannel M =
     (if Body = None then Inr M
      else if OptionalInfoFlag AND WITH_DS_FLAG = 0 then Inr M
      else let p = body_at Body (8 + 2 + 2 + (2 + SSID_Len) + (2 + SupportedRates_Len) + opt
          OptionalInfoFlag WITH_FH_FLAG 7) in
        run [put8 p ELEMENT_ID_DS_PARAMETER_SET, put8 (p + 1) 0x01, put8 (p + 2) CurrentChannel] M)"

definition SetCFParameterSetInto80211eProbeResponseFrameBody :: "ptr \<Rightarrow> u8 \<Rightarrow> u32 \<Rightarrow> u32 \<Rightarrow> u8 \<Rightarrow> u8 \<Rightarrow> u16
    option \<Rightarrow> u16 option \<Rightarrow> buf \<Rightarrow> abort + buf" where
  "SetCFParameterSetInto80211eProbeResponseFrameBody Body OptionalInfoFlag SSID_Len SupportedRates_Len
      Count Period MaxDuration DurRemaining M =
     (if Body = None \<or> MaxDuration = None \<or> DurRemaining = None then Inr M
      else if OptionalInfoFlag AND WITH_CF_FLAG = 0 then Inr M
      else let p = body_at Body (8 + 2 + 2 + (2 + SSID_Len) + (2 + SupportedRates_Len) + opt
          OptionalInfoFlag WITH_FH_FLAG 7 + opt OptionalInfoFlag WITH_DS_FLAG 3) in
        run [put8 p ELEMENT_ID_CF_PARAMETER_SET, put8 (p + 1) 0x06, put8 (p + 2) Count,
             put8 (p + 3) Period, bcopy (p + 4) 2 (le16 (the MaxDuration)),
             bcopy (p + 6) 2 (le16 (the DurRemaining))] M)"

definition SetIBSSParameterSetInto80211eProbeResponseFrameBody :: "ptr \<Rightarrow> u8 \<Rightarrow> u32 \<Rightarrow> u32 \<Rightarrow> u16 option \<Rightarrow> buf
    \<Rightarrow> abort + buf" where
  "SetIBSSParameterSetInto80211eProbeResponseFrameBody Body OptionalInfoFlag SSID_Len SupportedRates_Len
      ATIM_Window M =
     (if Body = None \<or> ATIM_Window = None then Inr M
      else if OptionalInfoFlag AND WITH_IBSS_FLAG = 0 then Inr M
      else let p = body_at Body (8 + 2 + 2 + (2 + SSID_Len) + (2 + SupportedRates_Len) + opt
          OptionalInfoFlag WITH_FH_FLAG 7 + opt OptionalInfoFlag WITH_DS_FLAG 3 + opt OptionalInfoFlag
          WITH_CF_FLAG 8) in
        run [put8 p ELEMENT_ID_IBSS_PARAMETER_SET, put8 (p + 1) 0x02,
             bcopy (p + 2) 2 (le16 (the ATIM_Window))] M)"

definition SetQBSSLoadInto80211eProbeResponseFrameBody :: "ptr \<Rightarrow> u8 \<Rightarrow> u32 \<Rightarrow> u32 \<Rightarrow> u16 option \<Rightarrow> u8 \<Rightarrow> u16
    option \<Rightarrow> buf \<Rightarrow> abort + buf" where
  "SetQBSSLoadInto80211eProbeResponseFrameBody Body OptionalInfoFlag SSID_Len SupportedRates_Len
      StationCount ChannelUtilization AvailableAdmissionCapacity M =
     (if Body = None \<or> StationCount = None \<or> AvailableAdmissionCapacity = None then Inr M
      else if OptionalInfoFlag AND WITH_QBSS_LOAD_FLAG = 0 then Inr M
      else let p = body_at Body (8 + 2 + 2 + (2 + SSID_Len) + (2 + SupportedRates_Len) + opt
          OptionalInfoFlag WITH_FH_FLAG 7 + opt OptionalInfoFlag WITH_DS_FLAG 3 + opt OptionalInfoFlag
          WITH_CF_FLAG 8 + opt OptionalInfoFlag WITH_IBSS_FLAG 4) in
        run [put8 p ELEMENT_ID_QBSS_LOAD, put8 (p + 1) 0x05, bcopy (p + 2) 2 (le16 (the StationCount)),
             put8 (p + 4) ChannelUtilization, bcopy (p + 5) 2 (le16 (the AvailableAdmissionCapacity))] M)"

definition SetEDCAParameterSetInto80211eProbeResponseFrameBody :: "ptr \<Rightarrow> u8 \<Rightarrow> u32 \<Rightarrow> u32 \<Rightarrow> u8 \<Rightarrow> bool \<Rightarrow> bool
    \<Rightarrow> bool \<Rightarrow> u8 \<Rightarrow> bool \<Rightarrow> u8 \<Rightarrow> u16 option \<Rightarrow> u8 \<Rightarrow> bool \<Rightarrow> u8 \<Rightarrow> u16 option \<Rightarrow> u8 \<Rightarrow> bool \<Rightarrow> u8 \<Rightarrow> u16 option \<Rightarrow> u8 \<Rightarrow>
    bool \<Rightarrow> u8 \<Rightarrow> u16 option \<Rightarrow> buf \<Rightarrow> abort + buf" where
  "SetEDCAParameterSetInto80211eProbeResponseFrameBody Body OptionalInfoFlag SSID_Len SupportedRates_Len
      QoSInfo_EDCAParameterSetUpdateCount QoSInfo_QAck QoSInfo_QueueRequest QoSInfo_TXOPRequest AC_BE_AIFSN
      AC_BE_ACM AC_BE_ECW AC_BE_TXOP_Limit AC_BK_AIFSN AC_BK_ACM AC_BK_ECW AC_BK_TXOP_Limit AC_VI_AIFSN
      AC_VI_ACM AC_VI_ECW AC_VI_TXOP_Limit AC_VO_AIFSN AC_VO_ACM AC_VO_ECW AC_VO_TXOP_Limit M =
     (if Body = None \<or> AC_BE_TXOP_Limit = None \<or> AC_BK_TXOP_Limit = None \<or> AC_VI_TXOP_Limit = None \<or>
         AC_VO_TXOP_Limit = None then Inr M
      else if OptionalInfoFlag AND WITH_EDCA_PARAMETER_SET_FLAG = 0 then Inr M
      else let p = body_at Body (8 + 2 + 2 + (2 + SSID_Len) + (2 + SupportedRates_Len) + opt
          OptionalInfoFlag WITH_FH_FLAG 7 + opt OptionalInfoFlag WITH_DS_FLAG 3 + opt OptionalInfoFlag
          WITH_CF_FLAG 8 + opt OptionalInfoFlag WITH_IBSS_FLAG 4 + opt OptionalInfoFlag WITH_QBSS_LOAD_FLAG
          7) in
        run ([put8 p ELEMENT_ID_EDCA_PARAMETER_SET, put8 (p + 1) 0x12]
             @ qos_info (p + 2) QoSInfo_EDCAParameterSetUpdateCount QoSInfo_QAck QoSInfo_QueueRequest
                 QoSInfo_TXOPRequest
             @ ac_record (p + 4) (\<lambda>b. b AND 0xfb) (\<lambda>b. b AND 0xfd) AC_BE_AIFSN AC_BE_ACM AC_BE_ECW (the
                 AC_BE_TXOP_Limit)
             @ ac_record (p + 8) (\<lambda>b. b AND 0xfb) (\<lambda>b. b OR 0x02) AC_BK_AIFSN AC_BK_ACM AC_BK_ECW (the
                 AC_BK_TXOP_Limit)
             @ ac_record (p + 12) (\<lambda>b. b OR 0x04) (\<lambda>b. b AND 0xfd) AC_VI_AIFSN AC_VI_ACM AC_VI_ECW (the
                 AC_VI_TXOP_Limit)
             @ ac_record (p + 16) (\<lambda>b. b OR 0x04) (\<lambda>b. b OR 0x02) AC_VO_AIFSN AC_VO_ACM AC_VO_ECW (the
                 AC_VO_TXOP_Limit)) M)"

definition GetTimestampFrom80211eProbeResponseFrameBody :: "ptr \<Rightarrow> u64 option \<Rightarrow> buf \<Rightarrow> abort + u64 option" where
  "GetTimestampFrom80211eProbeResponseFrameBody Body Timestamp M =
     (if Body = None \<or> Timestamp = None then Inr Timestamp
      else map_sum id Some (get64 (body_at Body (0)) M))"

definition GetBeaconIntervalFrom80211eProbeResponseFrameBody :: "ptr \<Rightarrow> u16 option \<Rightarrow> buf \<Rightarrow> abort + u16
    option" where
  "GetBeaconIntervalFrom80211eProbeResponseFrameBody Body Interval M =
     (if Body = None \<or> Interval = None then Inr Interval
      else map_sum id Some (get16 (body_at Body (8)) M))"

definition GetCapabilityInfoFrom80211eProbeResponseFrameBody :: "ptr \<Rightarrow> buf \<Rightarrow> abort + ptr" where
  "GetCapabilityInfoFrom80211eProbeResponseFrameBody Body M =
     (if Body = None then Inr None
      else Inr (Some (body_at Body (8 + 2))))"

definition GetSSIDFrom80211eProbeResponseFrameBody :: "ptr \<Rightarrow> u32 option \<Rightarrow> buf \<Rightarrow> abort + (ptr \<times> u32 option)"
    where
  "GetSSIDFrom80211eProbeResponseFrameBody Body SSID_Len M =
     (if Body = None \<or> SSID_Len = None then Inr (None, SSID_Len)
      else let p = body_at Body (8 + 2 + 2) in
        map_sum id (\<lambda>b. (Some (p + 2), Some (char_uint b))) (get8 (p + 1) M))"

definition GetSupportedRatesFrom80211eProbeResponseFrameBody :: "ptr \<Rightarrow> u32 \<Rightarrow> u32 option \<Rightarrow> buf \<Rightarrow> abort +
    (ptr \<times> u32 option)" where
  "GetSupportedRatesFrom80211eProbeResponseFrameBody Body SSID_Len SupportedRates_Len M =
     (if Body = None \<or> SupportedRates_Len = None then Inr (None, SupportedRates_Len)
      else let p = body_at Body (8 + 2 + 2 + (2 + SSID_Len)) in
        map_sum id (\<lambda>b. (Some (p + 2), Some (char_uint b))) (get8 (p + 1) M))"

definition GetFHParameterSetFrom80211eProbeResponseFrameBody :: "ptr \<Rightarrow> u32 \<Rightarrow> u32 \<Rightarrow> buf \<Rightarrow> abort + ptr" where
  "GetFHParameterSetFrom80211eProbeResponseFrameBody Body SSID_Len SupportedRates_Len M =
     (if Body = None then Inr None
      else find_element (body_at Body (8 + 2 + 2 + (2 + SSID_Len) + (2 + SupportedRates_Len)))
        [] ELEMENT_ID_FH_PARAMETER_SET M)"

definition GetDSParameterSetFrom80211eProbeResponseFrameBody :: "ptr \<Rightarrow> u32 \<Rightarrow> u32 \<Rightarrow> buf \<Rightarrow> abort + ptr" where
  "GetDSParameterSetFrom80211eProbeResponseFrameBody Body SSID_Len SupportedRates_Len M =
     (if Body = None then Inr None
      else find_element (body_at Body (8 + 2 + 2 + (2 + SSID_Len) + (2 + SupportedRates_Len)))
        [(ELEMENT_ID_FH_PARAMETER_SET, 7)] ELEMENT_ID_DS_PARAMETER_SET M)"

definition GetCFParameterSetFrom80211eProbeResponseFrameBody :: "ptr \<Rightarrow> u32 \<Rightarrow> u32 \<Rightarrow> buf \<Rightarrow> abort + ptr" where
  "GetCFParameterSetFrom80211eProbeResponseFrameBody Body SSID_Len SupportedRates_Len M =
     (if Body = None then Inr None
      else find_element (body_at Body (8 + 2 + 2 + (2 + SSID_Len) + (2 + SupportedRates_Len)))
        [(ELEMENT_ID_FH_PARAMETER_SET, 7), (ELEMENT_ID_DS_PARAMETER_SET, 3)] ELEMENT_ID_CF_PARAMETER_SET M)"

definition GetIBSSParameterSetFrom80211eProbeResponseFrameBody :: "ptr \<Rightarrow> u32 \<Rightarrow> u32 \<Rightarrow> buf \<Rightarrow> abort + ptr" where
  "GetIBSSParameterSetFrom80211eProbeResponseFrameBody Body SSID_Len SupportedRates_Len M =
     (if Body = None then Inr None
      else find_element (body_at Body (8 + 2 + 2 + (2 + SSID_Len) + (2 + SupportedRates_Len)))
        [(ELEMENT_ID_FH_PARAMETER_SET, 7), (ELEMENT_ID_DS_PARAMETER_SET, 3), (ELEMENT_ID_CF_PARAMETER_SET,
            8)] ELEMENT_ID_IBSS_PARAMETER_SET M)"

definition GetQBSSLoadFrom80211eProbeResponseFrameBody :: "ptr \<Rightarrow> u32 \<Rightarrow> u32 \<Rightarrow> buf \<Rightarrow> abort + ptr" where
  "GetQBSSLoadFrom80211eProbeResponseFrameBody Body SSID_Len SupportedRates_Len M =
     (if Body = None then Inr None
      else find_element (body_at Body (8 + 2 + 2 + (2 + SSID_Len) + (2 + SupportedRates_Len)))
        [(ELEMENT_ID_FH_PARAMETER_SET, 7), (ELEMENT_ID_DS_PARAMETER_SET, 3), (ELEMENT_ID_CF_PARAMETER_SET, 8),
         (ELEMENT_ID_IBSS_PARAMETER_SET, 4)] ELEMENT_ID_QBSS_LOAD M)"

definition GetEDCAParameterSetFrom80211eProbeResponseFrameBody :: "ptr \<Rightarrow> u32 \<Rightarrow> u32 \<Rightarrow> buf \<Rightarrow> abort + ptr" where
  "GetEDCAParameterSetFrom80211eProbeResponseFrameBody Body SSID_Len SupportedRates_Len M =
     (if Body = None then Inr None
      else find_element (body_at Body (8 + 2 + 2 + (2 + SSID_Len) + (2 + SupportedRates_Len)))
        [(ELEMENT_ID_FH_PARAMETER_SET, 7), (ELEMENT_ID_DS_PARAMETER_SET, 3), (ELEMENT_ID_CF_PARAMETER_SET, 8),
         (ELEMENT_ID_IBSS_PARAMETER_SET, 4), (ELEMENT_ID_QBSS_LOAD, 7)] ELEMENT_ID_EDCA_PARAMETER_SET M)"

definition SpecifyWithOrWithoutSomeOptionalInfoFlagFor80211eAuthenticationFrameBody :: "bool \<Rightarrow> u8" where
  "SpecifyWithOrWithoutSomeOptionalInfoFlagFor80211eAuthenticationFrameBody WithChallengeText =
     given_flag WithChallengeText WITH_CHALLENGE_TEXT_FLAG"

definition Calculate80211eAuthenticationFrameBodyLength :: "u8 \<Rightarrow> u32 \<Rightarrow> u32" where
  "Calculate80211eAuthenticationFrameBodyLength OptionalInfoFlag ChallengeText_Len =
     2 + 2 + 2 + opt OptionalInfoFlag WITH_CHALLENGE_TEXT_FLAG ChallengeText_Len"

definition SetAuthAlgoNumInto80211eAuthenticationFrameBody :: "ptr \<Rightarrow> u16 option \<Rightarrow> buf \<Rightarrow> abort + buf" where
  "SetAuthAlgoNumInto80211eAuthenticationFrameBody Body AuthAlgoNum M =
     (if Body = None \<or> AuthAlgoNum = None then Inr M
      else let p = body_at Body (0) in bcopy p 2 (le16 (the AuthAlgoNum)) M)"

definition SetAuthTransSeqNumInto80211eAuthenticationFrameBody :: "ptr \<Rightarrow> u16 option \<Rightarrow> buf \<Rightarrow> abort + buf" where
  "SetAuthTransSeqNumInto80211eAuthenticationFrameBody Body AuthTransSeqNum M =
     (if Body = None \<or> AuthTransSeqNum = None then Inr M
      else let p = body_at Body (2) in bcopy p 2 (le16 (the AuthTransSeqNum)) M)"

definition SetStatusCodeInto80211eAuthenticationFrameBody :: "ptr \<Rightarrow> u16 option \<Rightarrow> buf \<Rightarrow> abort + buf" where
  "SetStatusCodeInto80211eAuthenticationFrameBody Body StatusCode M =
     (if Body = None \<or> StatusCode = None then Inr M
      else let p = body_at Body (2 + 2) in bcopy p 2 (le16 (the StatusCode)) M)"

definition SetChallengeTextInto80211eAuthenticationFrameBody :: "ptr \<Rightarrow> u8 \<Rightarrow> u32 \<Rightarrow> u8 list option \<Rightarrow> buf \<Rightarrow>
    abort + buf" where
  "SetChallengeTextInto80211eAuthenticationFrameBody Body OptionalInfoFlag ChallengeText_Len ChallengeText M =
     (if Body = None \<or> ChallengeText = None then Inr M
      else if OptionalInfoFlag AND WITH_CHALLENGE_TEXT_FLAG = 0 then Inr M
      else let p = body_at Body (2 + 2 + 2) in
        run [put8 p ELEMENT_ID_CHALLENGE_TEXT, put8 (p + 1) (ucast ChallengeText_Len),
             bcopy_len (p + 2) (p + 1) (the ChallengeText)] M)"

definition GetAuthAlgoNumFrom80211eAuthenticationFrameBody :: "ptr \<Rightarrow> u16 option \<Rightarrow> buf \<Rightarrow> abort + u16 option"
    where
  "GetAuthAlgoNumFrom80211eAuthenticationFrameBody Body AuthAlgoNum M =
     (if Body = None \<or> AuthAlgoNum = None then Inr AuthAlgoNum
      else map_sum id Some (get16 (body_at Body (0)) M))"

definition GetAuthTransSeqNumFrom80211eAuthenticationFrameBody :: "ptr \<Rightarrow> u16 option \<Rightarrow> buf \<Rightarrow> abort + u16
    option" where
  "GetAuthTransSeqNumFrom80211eAuthenticationFrameBody Body AuthTransSeqNum M =
     (if Body = None \<or> AuthTransSeqNum = None then Inr AuthTransSeqNum
      else map_sum id Some (get16 (body_at Body (2)) M))"

definition GetStatusCodeFrom80211eAuthenticationFrameBody :: "ptr \<Rightarrow> u16 option \<Rightarrow> buf \<Rightarrow> abort + u16 option" where
  "GetStatusCodeFrom80211eAuthenticationFrameBody Body StatusCode M =
     (if Body = None \<or> StatusCode = None then Inr StatusCode
      else map_sum id Some (get16 (body_at Body (2 + 2)) M))"

definition GetChallengeTextFrom80211eAuthenticationFrameBody :: "ptr \<Rightarrow> buf \<Rightarrow> abort + ptr" where
  "GetChallengeTextFrom80211eAuthenticationFrameBody Body M =
     (if Body = None then Inr None
      else find_element (body_at Body (2 + 2 + 2))
        [] ELEMENT_ID_CHALLENGE_TEXT M)"

definition Calculate80211eDeauthenticationFrameBodyLength :: "u32" where
  "Calculate80211eDeauthenticationFrameBodyLength =
     2"

definition SetReasonCodeInto80211eDeauthenticationFrameBody :: "ptr \<Rightarrow> u16 option \<Rightarrow> buf \<Rightarrow> abort + buf" where
  "SetReasonCodeInto80211eDeauthenticationFrameBody Body ReasonCode M =
     (if Body = None \<or> ReasonCode = None then Inr M
      else let p = body_at Body (0) in bcopy p 2 (le16 (the ReasonCode)) M)"

definition GetReasonCodeFrom80211eDeauthenticationFrameBody :: "ptr \<Rightarrow> u16 option \<Rightarrow> buf \<Rightarrow> abort + u16
    option" where
  "GetReasonCodeFrom80211eDeauthenticationFrameBody Body ReasonCode M =
     (if Body = None \<or> ReasonCode = None then Inr ReasonCode
      else map_sum id Some (get16 (body_at Body (0)) M))"

end
