(* ===== verification/FrameFields.thy ===== *)
theory FrameFields
  imports FrameLayout TrafficStream80211e Probe80211e Elements80211e
begin

text \<open>
  Fields of elements: what the setter of a traffic specification writes and its getters read, bit by bit,
  and the length of a body with a challenge text.
\<close>

subsection \<open>Traffic specifications\<close>

record tspec =
  tsp_TrafficType :: bool
  tsp_TSID :: u8
  tsp_Direction_Bit_1 :: bool
  tsp_Direction_Bit_2 :: bool
  tsp_AccessPolicy_Bit_1 :: bool
  tsp_AccessPolicy_Bit_2 :: bool
  tsp_Aggregation :: bool
  tsp_APSD :: bool
  tsp_UserPriority :: u8
  tsp_AckPolicy_Bit_1 :: bool
  tsp_AckPolicy_Bit_2 :: bool
  tsp_Schedule :: bool
  tsp_NominalMSDUSize :: u16
  tsp_NominalMSDUSize_Fixed :: bool
  tsp_MaximumMSDUSize :: u16
  tsp_MinimumServiceInterval :: u32
  tsp_MaximumServiceInterval :: u32
  tsp_InactivityInterval :: u32
  tsp_SuspensionInterval :: u32
  tsp_ServiceStartTime :: u32
  tsp_MinimumDataRate :: u32
  tsp_MeanDataRate :: u32
  tsp_PeakDataRate :: u32
  tsp_BurstSize :: u32
  tsp_DelayBound :: u32
  tsp_MinimumPHYRate :: u32
  tsp_SurplusInteger :: u16
  tsp_SurplusDecimal :: u16
  tsp_MediumTime :: u16

definition set_tspec :: "ptr \<Rightarrow> tspec \<Rightarrow> buf \<Rightarrow> abort + buf" where
  "set_tspec Body t = SetTSPECInto80211eADDTSRequestFrameBody Body (tsp_TrafficType t) (tsp_TSID t) (tsp_Direction_Bit_1 t)
     (tsp_Direction_Bit_2 t) (tsp_AccessPolicy_Bit_1 t) (tsp_AccessPolicy_Bit_2 t) (tsp_Aggregation t) (tsp_APSD t)
     (tsp_UserPriority t) (tsp_AckPolicy_Bit_1 t) (tsp_AckPolicy_Bit_2 t) (tsp_Schedule t) (Some (tsp_NominalMSDUSize t))
     (tsp_NominalMSDUSize_Fixed t) (Some (tsp_MaximumMSDUSize t)) (Some (tsp_MinimumServiceInterval t))
     (Some (tsp_MaximumServiceInterval t)) (Some (tsp_InactivityInterval t)) (Some (tsp_SuspensionInterval t))
     (Some (tsp_ServiceStartTime t)) (Some (tsp_MinimumDataRate t)) (Some (tsp_MeanDataRate t)) (Some (tsp_PeakDataRate t))
     (Some (tsp_BurstSize t)) (Some (tsp_DelayBound t)) (Some (tsp_MinimumPHYRate t)) (Some (tsp_SurplusInteger t))
     (Some (tsp_SurplusDecimal t)) (Some (tsp_MediumTime t))"

definition ts_info_bytes :: "tspec \<Rightarrow> u8 list" where
  "ts_info_bytes t =
     [put_flag 0 (tsp_AccessPolicy_Bit_1 t) (put_flag 1 (tsp_Direction_Bit_2 t) (put_flag 2 (tsp_Direction_Bit_1 t)
        (put_flag 7 (tsp_TrafficType t) (push_bit 3 (tsp_TSID t) AND 0x78)))),
      put_flag 0 (tsp_AckPolicy_Bit_2 t) (put_flag 1 (tsp_AckPolicy_Bit_1 t) (put_flag 5 (tsp_APSD t)
        (put_flag 6 (tsp_Aggregation t) (put_flag 7 (tsp_AccessPolicy_Bit_2 t) (push_bit 2 (tsp_UserPriority t) AND 0x1c))))),
      put_flag 7 (tsp_Schedule t) 0]"

definition nominal_bytes :: "bool \<Rightarrow> u16 \<Rightarrow> u8 list" where
  "nominal_bytes fixed v = [put_flag 0 (bit v 7) (push_bit 1 (ucast (drop_bit 8 v))), put_flag 0 fixed (push_bit 1 (ucast v))]"

definition surplus_bytes :: "u16 \<Rightarrow> u16 \<Rightarrow> u8 list" where
  "surplus_bytes i d = [(push_bit 5 (ucast i) AND 0xe0) OR (ucast (drop_bit 8 d) AND 0x1f), ucast d]"

definition tspec_bytes :: "tspec \<Rightarrow> u8 list" where
  "tspec_bytes t = ([ELEMENT_ID_TSPEC, 0x37] @ ts_info_bytes t) @ nominal_bytes (tsp_NominalMSDUSize_Fixed t) (tsp_NominalMSDUSize t)
     @ le16 (tsp_MaximumMSDUSize t) @ le32 (tsp_MinimumServiceInterval t) @ le32 (tsp_MaximumServiceInterval t)
     @ le32 (tsp_InactivityInterval t) @ le32 (tsp_SuspensionInterval t) @ le32 (tsp_ServiceStartTime t)
     @ le32 (tsp_MinimumDataRate t) @ le32 (tsp_MeanDataRate t) @ le32 (tsp_PeakDataRate t) @ le32 (tsp_BurstSize t)
     @ le32 (tsp_DelayBound t) @ le32 (tsp_MinimumPHYRate t) @ surplus_bytes (tsp_SurplusInteger t) (tsp_SurplusDecimal t)
     @ le16 (tsp_MediumTime t) @ []"

lemma ts_info_fills: "fills (run ([put8 p ELEMENT_ID_TSPEC, put8 (p + 1) 0x37] @ ts_info (p + 2) (tsp_TrafficType t) (tsp_TSID t)
    (tsp_Direction_Bit_1 t) (tsp_Direction_Bit_2 t) (tsp_AccessPolicy_Bit_1 t) (tsp_AccessPolicy_Bit_2 t) (tsp_Aggregation t)
    (tsp_APSD t) (tsp_UserPriority t) (tsp_AckPolicy_Bit_1 t) (tsp_AckPolicy_Bit_2 t) (tsp_Schedule t))) p
  ([ELEMENT_ID_TSPEC, 0x37] @ ts_info_bytes t)"
proof -
  have five: "replicate 5 0 = [0, 0, 0, 0, 0 :: u8]" by (simp add: numeral_eq_Suc)
  show ?thesis
    by (rule fillsI) (simp add: ts_info_def ts_info_bytes_def block_simps five set_flag_put_flag add.assoc
      del: One_nat_def add_2_eq_Suc')
qed

lemma low_bit: "(if c then b OR 0x01 else b AND 0xfe) = put_flag 0 c (b :: u8)"
  unfolding put_flag_def or_mask and_mask by simp

lemma nominal_fills: "fills (nominal_size p fixed v) p (nominal_bytes fixed v)"
proof -
  have "(ucast v AND 0x80 \<noteq> (0 :: u8)) = bit v 7" unfolding test_mask by (simp add: bit_ucast_iff)
  then show ?thesis
    by (intro fillsI) (simp add: nominal_size_def nominal_bytes_def low_bit block_simps zeros le_lists del: One_nat_def add_2_eq_Suc')
qed

lemma surplus_fills: "fills (surplus_bandwidth p i d) p (surplus_bytes i d)"
  by (rule fillsI) (simp add: surplus_bandwidth_def surplus_bytes_def block_simps zeros le_lists del: One_nat_def add_2_eq_Suc')

lemma deref_Some: "deref (Some v) w = w v"
  by (simp add: deref_def fun_eq_iff)

lemma length_tspec_parts: "length (ts_info_bytes t) = 3" "length (nominal_bytes f v) = 2" "length (surplus_bytes i d) = 2"
  by (simp_all add: ts_info_bytes_def nominal_bytes_def surplus_bytes_def)

lemma length_tspec_bytes: "length (tspec_bytes t) = 57"
  by (simp add: tspec_bytes_def length_tspec_parts)

lemma tspec_fills: "fills (set_tspec (Some n) t) (n + 3) (tspec_bytes t)"
proof -
  have at: "body_at (Some n) (1 + 1 + 1) = n + 3" by (simp add: body_at_def)
  show ?thesis
    unfolding set_tspec_def SetTSPECInto80211eADDTSRequestFrameBody_def at Let_def option.sel Some_eq_None simp_thms if_False
      tspec_bytes_def tspec_writes_def deref_Some append_assoc [symmetric, of "[u, v]" for u v :: "buf \<Rightarrow> abort + buf"]
    by (rule fills_append [OF ts_info_fills], intro fills_Cons fills_Nil fills_at [OF fills_bcopy(1)] fills_at [OF fills_bcopy(2)]
      fills_at [OF nominal_fills] fills_at [OF surplus_fills]) (simp_all add: length_tspec_parts)
qed

lemma tspec_block: "set_tspec (Some n) t (pre @ replicate 57 0 @ post) = Inr (blk pre (tspec_bytes t) post)" if "length pre = n + 3"
  using fillsD [OF tspec_fills that] by (simp add: length_tspec_bytes blk_def)

text \<open>The bytes of the information on the stream, read through a pointer to them.\<close>

lemma ts_info_read:
  fixes pre bs post :: buf
  assumes "ts_info_bytes t = take 3 (drop i bs)" "i + 3 \<le> length bs" "q = length pre + i"
  defines "M \<equiv> blk pre bs post"
  shows "GetTrafficTypeFromTSInfo (Some q) M = Inr (tsp_TrafficType t)"
    "GetTSIDFromTSInfo (Some q) (Some x) M = Inr (True, Some (tsp_TSID t AND 0x0f))"
    "GetDirectionBit1FromTSInfo (Some q) M = Inr (tsp_Direction_Bit_1 t)"
    "GetDirectionBit2FromTSInfo (Some q) M = Inr (tsp_Direction_Bit_2 t)"
    "GetAccessPolicyBit1FromTSInfo (Some q) M = Inr (tsp_AccessPolicy_Bit_1 t)"
    "GetAccessPolicyBit2FromTSInfo (Some q) M = Inr (tsp_AccessPolicy_Bit_2 t)"
    "GetAggregationFromTSInfo (Some q) M = Inr (tsp_Aggregation t)"
    "GetAPSDFromTSInfo (Some q) M = Inr (tsp_APSD t)"
    "GetUserPriorityFromTSInfo (Some q) (Some y) M = Inr (True, Some (tsp_UserPriority t AND 0x07))"
    "GetTSInfoAckPolicyBit1FromTSInfo (Some q) M = Inr (tsp_AckPolicy_Bit_1 t)"
    "GetTSInfoAckPolicyBit2FromTSInfo (Some q) M = Inr (tsp_AckPolicy_Bit_2 t)"
    "GetScheduleFromTSInfo (Some q) M = Inr (tsp_Schedule t)"
proof -
  have nth: "bs ! (i + j) = ts_info_bytes t ! j" if "j < 3" for j
    unfolding assms(1) using that assms(2) by simp
  have r: "get8 q M = Inr (ts_info_bytes t ! 0)" "get8 (q + 0) M = Inr (ts_info_bytes t ! 0)"
    "get8 (q + 1) M = Inr (ts_info_bytes t ! 1)" "get8 (q + 2) M = Inr (ts_info_bytes t ! 2)"
    using assms(2) nth [of 0] nth [of 1] nth [of 2] unfolding M_def assms(3) add.assoc
    by (simp_all add: get8_block del: One_nat_def add_2_eq_Suc')
  have b: "bit (0x78 :: u8) 7 = False" "bit (0x1c :: u8) 7 = False" by simp_all
  show "GetTrafficTypeFromTSInfo (Some q) M = Inr (tsp_TrafficType t)"
    "GetDirectionBit1FromTSInfo (Some q) M = Inr (tsp_Direction_Bit_1 t)"
    "GetDirectionBit2FromTSInfo (Some q) M = Inr (tsp_Direction_Bit_2 t)"
    "GetAccessPolicyBit1FromTSInfo (Some q) M = Inr (tsp_AccessPolicy_Bit_1 t)"
    "GetAccessPolicyBit2FromTSInfo (Some q) M = Inr (tsp_AccessPolicy_Bit_2 t)"
    "GetAggregationFromTSInfo (Some q) M = Inr (tsp_Aggregation t)"
    "GetAPSDFromTSInfo (Some q) M = Inr (tsp_APSD t)"
    "GetTSInfoAckPolicyBit1FromTSInfo (Some q) M = Inr (tsp_AckPolicy_Bit_1 t)"
    "GetTSInfoAckPolicyBit2FromTSInfo (Some q) M = Inr (tsp_AckPolicy_Bit_2 t)"
    "GetScheduleFromTSInfo (Some q) M = Inr (tsp_Schedule t)"
    by (simp_all add: GetTrafficTypeFromTSInfo_def GetDirectionBit1FromTSInfo_def GetDirectionBit2FromTSInfo_def
      GetAccessPolicyBit1FromTSInfo_def GetAccessPolicyBit2FromTSInfo_def GetAggregationFromTSInfo_def GetAPSDFromTSInfo_def
      GetTSInfoAckPolicyBit1FromTSInfo_def GetTSInfoAckPolicyBit2FromTSInfo_def GetScheduleFromTSInfo_def test_bits_def r
      test_mask ts_info_bytes_def del: One_nat_def add_0_right add_2_eq_Suc')
  have "drop_bit 3 (ts_info_bytes t ! 0) AND 0x0f = tsp_TSID t AND 0x0f"
    by (rule byte_eqI) (simp_all add: ts_info_bytes_def bit_simps)
  then show "GetTSIDFromTSInfo (Some q) (Some x) M = Inr (True, Some (tsp_TSID t AND 0x0f))"
    by (simp add: GetTSIDFromTSInfo_def given_def r)
  have "drop_bit 2 (ts_info_bytes t ! 1) AND 0x07 = tsp_UserPriority t AND 0x07"
    by (rule byte_eqI) (simp_all add: ts_info_bytes_def bit_simps)
  then show "GetUserPriorityFromTSInfo (Some q) (Some y) M = Inr (True, Some (tsp_UserPriority t AND 0x07))"
    by (simp add: GetUserPriorityFromTSInfo_def given_def r del: One_nat_def)
qed


lemma nominal_value: "of_le [if nominal_bytes f v ! 0 AND 0x01 \<noteq> 0 then drop_bit 1 (nominal_bytes f v ! 1) OR 0x80
     else drop_bit 1 (nominal_bytes f v ! 1) AND 0x7f, drop_bit 1 (nominal_bytes f v ! 0) AND 0x7f] = v AND 0x7fff"
proof -
  have c: "(nominal_bytes f v ! 0 AND 0x01 \<noteq> 0) = bit v 7" unfolding test_mask by (simp add: nominal_bytes_def)
  have "(if bit v 7 then drop_bit 1 (nominal_bytes f v ! 1) OR 0x80 else drop_bit 1 (nominal_bytes f v ! 1) AND 0x7f) = ucast v"
    by (rule byte_eqI) (simp_all add: nominal_bytes_def bit_simps numeral_2_eq_2 del: push_bit_Suc drop_bit_Suc)
  moreover have "drop_bit 1 (nominal_bytes f v ! 0) AND 0x7f = (ucast (drop_bit 8 v) AND 0x7f :: u8)"
    by (rule byte_eqI) (simp_all add: nominal_bytes_def bit_simps numeral_2_eq_2 del: push_bit_Suc drop_bit_Suc)
  moreover have "of_le [ucast v, ucast (drop_bit 8 v) AND 0x7f] = v AND 0x7fff"
    by (rule u16_eqI) (simp_all add: bit_simps)
  ultimately show ?thesis unfolding c by simp
qed

lemma surplus_value:
  "of_le [drop_bit 5 (surplus_bytes i d ! 0) AND 0x07, 0x00] = i AND 0x07"
  "of_le [surplus_bytes i d ! 1, surplus_bytes i d ! 0 AND 0x1f] = d AND 0x1fff"
proof -
  have "drop_bit 5 (surplus_bytes i d ! 0) AND 0x07 = (ucast i AND 0x07 :: u8)"
    by (rule byte_eqI) (simp_all add: surplus_bytes_def bit_simps del: push_bit_Suc drop_bit_Suc)
  moreover have "of_le [ucast i AND 0x07 :: u8, 0x00] = i AND 0x07"
    by (rule u16_eqI) (simp_all add: bit_simps)
  ultimately show "of_le [drop_bit 5 (surplus_bytes i d ! 0) AND 0x07, 0x00] = i AND 0x07" by simp
  have "surplus_bytes i d ! 0 AND 0x1f = (ucast (drop_bit 8 d) AND 0x1f :: u8)"
    by (rule byte_eqI) (simp_all add: surplus_bytes_def bit_simps del: push_bit_Suc drop_bit_Suc)
  moreover have "of_le [ucast d, ucast (drop_bit 8 d) AND 0x1f] = d AND 0x1fff"
    by (rule u16_eqI) (simp_all add: bit_simps)
  ultimately show "of_le [surplus_bytes i d ! 1, surplus_bytes i d ! 0 AND 0x1f] = d AND 0x1fff"
    by (simp add: surplus_bytes_def)
qed

lemma tspec_read:
  assumes p: "q = length pre" and M: "M = blk pre (tspec_bytes t) post" and q: "q = n + 3"
  shows "GetTSPECFrom80211eADDTSRequestFrameBody (Some n) M = Inr (Some q)"
    "GetTSInfoFromTSPEC (Some q) M = Inr (Some (q + 2))"
    "GetNominalMSDUSizeFromTSPEC (Some q) (Some h) M = Inr (True, Some (tsp_NominalMSDUSize t AND 0x7fff))"
    "GetNominalMSDUSizeFixedFromTSPEC (Some q) M = Inr (tsp_NominalMSDUSize_Fixed t)"
    "GetMaximumMSDUSizeFromTSPEC (Some q) (Some h) M = Inr (True, Some (tsp_MaximumMSDUSize t))"
    "GetMinimumServiceIntervalFromTSPEC (Some q) (Some w) M = Inr (True, Some (tsp_MinimumServiceInterval t))"
    "GetMaximumServiceIntervalFromTSPEC (Some q) (Some w) M = Inr (True, Some (tsp_MaximumServiceInterval t))"
    "GetInactivityIntervalFromTSPEC (Some q) (Some w) M = Inr (True, Some (tsp_InactivityInterval t))"
    "GetSyspensionIntervalFromTSPEC (Some q) (Some w) M = Inr (True, Some (tsp_SuspensionInterval t))"
    "GetServiceStartTimeFromTSPEC (Some q) (Some w) M = Inr (True, Some (tsp_ServiceStartTime t))"
    "GetMinimumDataRateFromTSPEC (Some q) (Some w) M = Inr (True, Some (tsp_MinimumDataRate t))"
    "GetMeanDataRateFromTSPEC (Some q) (Some w) M = Inr (True, Some (tsp_MeanDataRate t))"
    "GetPeakDataRateFromTSPEC (Some q) (Some w) M = Inr (True, Some (tsp_PeakDataRate t))"
    "GetBurstSizeFromTSPEC (Some q) (Some w) M = Inr (True, Some (tsp_BurstSize t))"
    "GetDelayBoundFromTSPEC (Some q) (Some w) M = Inr (True, Some (tsp_DelayBound t))"
    "GetMinimumPHYRateFromTSPEC (Some q) (Some w) M = Inr (True, Some (tsp_MinimumPHYRate t))"
    "GetSurplusBandwidthAllowanceIntegerPartFromTSPEC (Some q) (Some h) M = Inr (True, Some (tsp_SurplusInteger t AND 0x07))"
    "GetSurplusBandwidthAllowanceDecimalPartFromTSPEC (Some q) (Some h) M = Inr (True, Some (tsp_SurplusDecimal t AND 0x1fff))"
    "GetMediumTimeFromTSPEC (Some q) (Some h) M = Inr (True, Some (tsp_MediumTime t))"
proof -
  note parts = tspec_bytes_def length_tspec_parts nth_append
  have r: "get8 (q + 5) M = Inr (nominal_bytes (tsp_NominalMSDUSize_Fixed t) (tsp_NominalMSDUSize t) ! 0)"
    "get8 (q + 6) M = Inr (nominal_bytes (tsp_NominalMSDUSize_Fixed t) (tsp_NominalMSDUSize t) ! 1)"
    "get8 (q + 53) M = Inr (surplus_bytes (tsp_SurplusInteger t) (tsp_SurplusDecimal t) ! 0)"
    "get8 (q + 54) M = Inr (surplus_bytes (tsp_SurplusInteger t) (tsp_SurplusDecimal t) ! 1)"
    unfolding M by (simp_all add: get8_block [OF _ p] length_tspec_bytes) (simp_all add: parts)
  show "GetTSPECFrom80211eADDTSRequestFrameBody (Some n) M = Inr (Some q)" "GetTSInfoFromTSPEC (Some q) M = Inr (Some (q + 2))"
    by (simp_all add: GetTSPECFrom80211eADDTSRequestFrameBody_def GetTSInfoFromTSPEC_def body_at_def q)
  show "GetNominalMSDUSizeFromTSPEC (Some q) (Some h) M = Inr (True, Some (tsp_NominalMSDUSize t AND 0x7fff))" unfolding GetNominalMSDUSizeFromTSPEC_def option.sel r sum_bind.simps map_sum.simps nominal_value
    by (simp add: given_def)
  show "GetNominalMSDUSizeFixedFromTSPEC (Some q) M = Inr (tsp_NominalMSDUSize_Fixed t)" unfolding GetNominalMSDUSizeFixedFromTSPEC_def
    by (simp add: test_bits_def r test_mask nominal_bytes_def del: One_nat_def)
  show "GetSurplusBandwidthAllowanceIntegerPartFromTSPEC (Some q) (Some h) M = Inr (True, Some (tsp_SurplusInteger t AND 0x07))" unfolding GetSurplusBandwidthAllowanceIntegerPartFromTSPEC_def option.sel r map_sum.simps surplus_value
    by (simp add: given_def)
  show "GetSurplusBandwidthAllowanceDecimalPartFromTSPEC (Some q) (Some h) M = Inr (True, Some (tsp_SurplusDecimal t AND 0x1fff))" unfolding GetSurplusBandwidthAllowanceDecimalPartFromTSPEC_def option.sel r sum_bind.simps map_sum.simps surplus_value
    by (simp add: given_def)
  have g: "get_bytes 2 (q + 7) M = Inr (le16 (tsp_MaximumMSDUSize t))" "get_bytes 2 (q + 55) M = Inr (le16 (tsp_MediumTime t))"
    "get_bytes 4 (q + 9) M = Inr (le32 (tsp_MinimumServiceInterval t))"
    "get_bytes 4 (q + 13) M = Inr (le32 (tsp_MaximumServiceInterval t))"
    "get_bytes 4 (q + 17) M = Inr (le32 (tsp_InactivityInterval t))"
    "get_bytes 4 (q + 21) M = Inr (le32 (tsp_SuspensionInterval t))"
    "get_bytes 4 (q + 25) M = Inr (le32 (tsp_ServiceStartTime t))"
    "get_bytes 4 (q + 29) M = Inr (le32 (tsp_MinimumDataRate t))"
    "get_bytes 4 (q + 33) M = Inr (le32 (tsp_MeanDataRate t))"
    "get_bytes 4 (q + 37) M = Inr (le32 (tsp_PeakDataRate t))"
    "get_bytes 4 (q + 41) M = Inr (le32 (tsp_BurstSize t))"
    "get_bytes 4 (q + 45) M = Inr (le32 (tsp_DelayBound t))"
    "get_bytes 4 (q + 49) M = Inr (le32 (tsp_MinimumPHYRate t))"
    unfolding M by (simp_all add: get_bytes_block [OF _ p] length_tspec_bytes) (simp_all add: parts)
  show "GetMaximumMSDUSizeFromTSPEC (Some q) (Some h) M = Inr (True, Some (tsp_MaximumMSDUSize t))"
    "GetMinimumServiceIntervalFromTSPEC (Some q) (Some w) M = Inr (True, Some (tsp_MinimumServiceInterval t))"
    "GetMaximumServiceIntervalFromTSPEC (Some q) (Some w) M = Inr (True, Some (tsp_MaximumServiceInterval t))"
    "GetInactivityIntervalFromTSPEC (Some q) (Some w) M = Inr (True, Some (tsp_InactivityInterval t))"
    "GetSyspensionIntervalFromTSPEC (Some q) (Some w) M = Inr (True, Some (tsp_SuspensionInterval t))"
    "GetServiceStartTimeFromTSPEC (Some q) (Some w) M = Inr (True, Some (tsp_ServiceStartTime t))"
    "GetMinimumDataRateFromTSPEC (Some q) (Some w) M = Inr (True, Some (tsp_MinimumDataRate t))"
    "GetMeanDataRateFromTSPEC (Some q) (Some w) M = Inr (True, Some (tsp_MeanDataRate t))"
    "GetPeakDataRateFromTSPEC (Some q) (Some w) M = Inr (True, Some (tsp_PeakDataRate t))"
    "GetBurstSizeFromTSPEC (Some q) (Some w) M = Inr (True, Some (tsp_BurstSize t))"
    "GetDelayBoundFromTSPEC (Some q) (Some w) M = Inr (True, Some (tsp_DelayBound t))"
    "GetMinimumPHYRateFromTSPEC (Some q) (Some w) M = Inr (True, Some (tsp_MinimumPHYRate t))"
    "GetMediumTimeFromTSPEC (Some q) (Some h) M = Inr (True, Some (tsp_MediumTime t))"
    by (simp_all add: GetMaximumMSDUSizeFromTSPEC_def GetMinimumServiceIntervalFromTSPEC_def GetMaximumServiceIntervalFromTSPEC_def GetInactivityIntervalFromTSPEC_def GetSyspensionIntervalFromTSPEC_def GetServiceStartTimeFromTSPEC_def GetMinimumDataRateFromTSPEC_def GetMeanDataRateFromTSPEC_def GetPeakDataRateFromTSPEC_def GetBurstSizeFromTSPEC_def GetDelayBoundFromTSPEC_def GetMinimumPHYRateFromTSPEC_def GetMediumTimeFromTSPEC_def get16_def get32_def g given_def)
qed


text \<open>
  C12: The traffic specification of an ADDTS request that was set on zeroed memory is read back by its getters:
  every number and every flag, of the stream identifier the low 4 bits, of the user priority the low 3, of the
  nominal size of a packet the low 15, and of the two parts of the surplus bandwidth the low 3 and 13 bits,
  which are what their fields hold.
\<close>

theorem tspec_round_trip:
  assumes "length pre = n + 3"
  shows "\<exists>M. set_tspec (Some n) t (pre @ replicate 57 0 @ post) = Inr M
    \<and> GetTSPECFrom80211eADDTSRequestFrameBody (Some n) M = Inr (Some (n + 3))
    \<and> GetTSInfoFromTSPEC (Some (n + 3)) M = Inr (Some (n + 5))
    \<and> GetTrafficTypeFromTSInfo (Some (n + 5)) M = Inr (tsp_TrafficType t)
    \<and> GetTSIDFromTSInfo (Some (n + 5)) (Some x) M = Inr (True, Some (tsp_TSID t AND 0x0f))
    \<and> GetDirectionBit1FromTSInfo (Some (n + 5)) M = Inr (tsp_Direction_Bit_1 t)
    \<and> GetDirectionBit2FromTSInfo (Some (n + 5)) M = Inr (tsp_Direction_Bit_2 t)
    \<and> GetAccessPolicyBit1FromTSInfo (Some (n + 5)) M = Inr (tsp_AccessPolicy_Bit_1 t)
    \<and> GetAccessPolicyBit2FromTSInfo (Some (n + 5)) M = Inr (tsp_AccessPolicy_Bit_2 t)
    \<and> GetAggregationFromTSInfo (Some (n + 5)) M = Inr (tsp_Aggregation t)
    \<and> GetAPSDFromTSInfo (Some (n + 5)) M = Inr (tsp_APSD t)
    \<and> GetUserPriorityFromTSInfo (Some (n + 5)) (Some x) M = Inr (True, Some (tsp_UserPriority t AND 0x07))
    \<and> GetTSInfoAckPolicyBit1FromTSInfo (Some (n + 5)) M = Inr (tsp_AckPolicy_Bit_1 t)
    \<and> GetTSInfoAckPolicyBit2FromTSInfo (Some (n + 5)) M = Inr (tsp_AckPolicy_Bit_2 t)
    \<and> GetScheduleFromTSInfo (Some (n + 5)) M = Inr (tsp_Schedule t)
    \<and> GetNominalMSDUSizeFromTSPEC (Some (n + 3)) (Some h) M = Inr (True, Some (tsp_NominalMSDUSize t AND 0x7fff))
    \<and> GetNominalMSDUSizeFixedFromTSPEC (Some (n + 3)) M = Inr (tsp_NominalMSDUSize_Fixed t)
    \<and> GetMaximumMSDUSizeFromTSPEC (Some (n + 3)) (Some h) M = Inr (True, Some (tsp_MaximumMSDUSize t))
    \<and> GetMinimumServiceIntervalFromTSPEC (Some (n + 3)) (Some w) M = Inr (True, Some (tsp_MinimumServiceInterval t))
    \<and> GetMaximumServiceIntervalFromTSPEC (Some (n + 3)) (Some w) M = Inr (True, Some (tsp_MaximumServiceInterval t))
    \<and> GetInactivityIntervalFromTSPEC (Some (n + 3)) (Some w) M = Inr (True, Some (tsp_InactivityInterval t))
    \<and> GetSyspensionIntervalFromTSPEC (Some (n + 3)) (Some w) M = Inr (True, Some (tsp_SuspensionInterval t))
    \<and> GetServiceStartTimeFromTSPEC (Some (n + 3)) (Some w) M = Inr (True, Some (tsp_ServiceStartTime t))
    \<and> GetMinimumDataRateFromTSPEC (Some (n + 3)) (Some w) M = Inr (True, Some (tsp_MinimumDataRate t))
    \<and> GetMeanDataRateFromTSPEC (Some (n + 3)) (Some w) M = Inr (True, Some (tsp_MeanDataRate t))
    \<and> GetPeakDataRateFromTSPEC (Some (n + 3)) (Some w) M = Inr (True, Some (tsp_PeakDataRate t))
    \<and> GetBurstSizeFromTSPEC (Some (n + 3)) (Some w) M = Inr (True, Some (tsp_BurstSize t))
    \<and> GetDelayBoundFromTSPEC (Some (n + 3)) (Some w) M = Inr (True, Some (tsp_DelayBound t))
    \<and> GetMinimumPHYRateFromTSPEC (Some (n + 3)) (Some w) M = Inr (True, Some (tsp_MinimumPHYRate t))
    \<and> GetSurplusBandwidthAllowanceIntegerPartFromTSPEC (Some (n + 3)) (Some h) M = Inr (True, Some (tsp_SurplusInteger t AND 0x07))
    \<and> GetSurplusBandwidthAllowanceDecimalPartFromTSPEC (Some (n + 3)) (Some h) M = Inr (True, Some (tsp_SurplusDecimal t AND 0x1fff))
    \<and> GetMediumTimeFromTSPEC (Some (n + 3)) (Some h) M = Inr (True, Some (tsp_MediumTime t))"
proof (intro exI conjI)
  let ?M = "blk pre (tspec_bytes t) post"
  show "set_tspec (Some n) t (pre @ replicate 57 0 @ post) = Inr ?M" by (rule tspec_block [OF assms])
  have i: "ts_info_bytes t = take 3 (drop 2 (tspec_bytes t))" "2 + 3 \<le> length (tspec_bytes t)" "n + 5 = length pre + 2"
    using assms by (simp_all add: tspec_bytes_def length_tspec_parts)
  show "GetTrafficTypeFromTSInfo (Some (n + 5)) ?M = Inr (tsp_TrafficType t)"
    "GetTSIDFromTSInfo (Some (n + 5)) (Some x) ?M = Inr (True, Some (tsp_TSID t AND 0x0f))"
    "GetDirectionBit1FromTSInfo (Some (n + 5)) ?M = Inr (tsp_Direction_Bit_1 t)"
    "GetDirectionBit2FromTSInfo (Some (n + 5)) ?M = Inr (tsp_Direction_Bit_2 t)"
    "GetAccessPolicyBit1FromTSInfo (Some (n + 5)) ?M = Inr (tsp_AccessPolicy_Bit_1 t)"
    "GetAccessPolicyBit2FromTSInfo (Some (n + 5)) ?M = Inr (tsp_AccessPolicy_Bit_2 t)"
    "GetAggregationFromTSInfo (Some (n + 5)) ?M = Inr (tsp_Aggregation t)"
    "GetAPSDFromTSInfo (Some (n + 5)) ?M = Inr (tsp_APSD t)"
    "GetUserPriorityFromTSInfo (Some (n + 5)) (Some x) ?M = Inr (True, Some (tsp_UserPriority t AND 0x07))"
    "GetTSInfoAckPolicyBit1FromTSInfo (Some (n + 5)) ?M = Inr (tsp_AckPolicy_Bit_1 t)"
    "GetTSInfoAckPolicyBit2FromTSInfo (Some (n + 5)) ?M = Inr (tsp_AckPolicy_Bit_2 t)"
    "GetScheduleFromTSInfo (Some (n + 5)) ?M = Inr (tsp_Schedule t)"
    by (rule ts_info_read [OF i])+
  show "GetTSPECFrom80211eADDTSRequestFrameBody (Some n) ?M = Inr (Some (n + 3))"
    "GetTSInfoFromTSPEC (Some (n + 3)) ?M = Inr (Some (n + 5))"
    "GetNominalMSDUSizeFromTSPEC (Some (n + 3)) (Some h) ?M = Inr (True, Some (tsp_NominalMSDUSize t AND 0x7fff))"
    "GetNominalMSDUSizeFixedFromTSPEC (Some (n + 3)) ?M = Inr (tsp_NominalMSDUSize_Fixed t)"
    "GetMaximumMSDUSizeFromTSPEC (Some (n + 3)) (Some h) ?M = Inr (True, Some (tsp_MaximumMSDUSize t))"
    "GetMinimumServiceIntervalFromTSPEC (Some (n + 3)) (Some w) ?M = Inr (True, Some (tsp_MinimumServiceInterval t))"
    "GetMaximumServiceIntervalFromTSPEC (Some (n + 3)) (Some w) ?M = Inr (True, Some (tsp_MaximumServiceInterval t))"
    "GetInactivityIntervalFromTSPEC (Some (n + 3)) (Some w) ?M = Inr (True, Some (tsp_InactivityInterval t))"
    "GetSyspensionIntervalFromTSPEC (Some (n + 3)) (Some w) ?M = Inr (True, Some (tsp_SuspensionInterval t))"
    "GetServiceStartTimeFromTSPEC (Some (n + 3)) (Some w) ?M = Inr (True, Some (tsp_ServiceStartTime t))"
    "GetMinimumDataRateFromTSPEC (Some (n + 3)) (Some w) ?M = Inr (True, Some (tsp_MinimumDataRate t))"
    "GetMeanDataRateFromTSPEC (Some (n + 3)) (Some w) ?M = Inr (True, Some (tsp_MeanDataRate t))"
    "GetPeakDataRateFromTSPEC (Some (n + 3)) (Some w) ?M = Inr (True, Some (tsp_PeakDataRate t))"
    "GetBurstSizeFromTSPEC (Some (n + 3)) (Some w) ?M = Inr (True, Some (tsp_BurstSize t))"
    "GetDelayBoundFromTSPEC (Some (n + 3)) (Some w) ?M = Inr (True, Some (tsp_DelayBound t))"
    "GetMinimumPHYRateFromTSPEC (Some (n + 3)) (Some w) ?M = Inr (True, Some (tsp_MinimumPHYRate t))"
    "GetSurplusBandwidthAllowanceIntegerPartFromTSPEC (Some (n + 3)) (Some h) ?M = Inr (True, Some (tsp_SurplusInteger t AND 0x07))"
    "GetSurplusBandwidthAllowanceDecimalPartFromTSPEC (Some (n + 3)) (Some h) ?M = Inr (True, Some (tsp_SurplusDecimal t AND 0x1fff))"
    "GetMediumTimeFromTSPEC (Some (n + 3)) (Some h) ?M = Inr (True, Some (tsp_MediumTime t))"
    by (rule tspec_read [OF assms [symmetric] refl refl] tspec_read(2) [OF assms [symmetric] refl refl, unfolded add.assoc, simplified])+
qed

definition sample_tspec :: tspec where
  "sample_tspec = \<lparr>tsp_TrafficType = True, tsp_TSID = 9, tsp_Direction_Bit_1 = True, tsp_Direction_Bit_2 = False,
     tsp_AccessPolicy_Bit_1 = False, tsp_AccessPolicy_Bit_2 = True, tsp_Aggregation = False, tsp_APSD = True,
     tsp_UserPriority = 6, tsp_AckPolicy_Bit_1 = False, tsp_AckPolicy_Bit_2 = True, tsp_Schedule = True,
     tsp_NominalMSDUSize = 1500, tsp_NominalMSDUSize_Fixed = True, tsp_MaximumMSDUSize = 2304,
     tsp_MinimumServiceInterval = 10000, tsp_MaximumServiceInterval = 20000, tsp_InactivityInterval = 0,
     tsp_SuspensionInterval = 0, tsp_ServiceStartTime = 123456, tsp_MinimumDataRate = 64000, tsp_MeanDataRate = 128000,
     tsp_PeakDataRate = 256000, tsp_BurstSize = 3000, tsp_DelayBound = 50000, tsp_MinimumPHYRate = 6000000,
     tsp_SurplusInteger = 1, tsp_SurplusDecimal = 819, tsp_MediumTime = 77\<rparr>"

theorem tspec_round_trip_witness:
  "\<exists>M. set_tspec (Some 0) sample_tspec ([1, 0, 5] @ replicate 57 0) = Inr M
    \<and> GetTSIDFromTSInfo (Some 5) (Some 0) M = Inr (True, Some 9)
    \<and> GetNominalMSDUSizeFromTSPEC (Some 3) (Some 0) M = Inr (True, Some 1500)
    \<and> GetSurplusBandwidthAllowanceDecimalPartFromTSPEC (Some 3) (Some 0) M = Inr (True, Some 819)"
proof -
  have l: "length [1, 0, 5 :: u8] = 0 + 3" by simp
  show ?thesis using tspec_round_trip [OF l, of sample_tspec "[]" 0 0 0] by (auto simp: sample_tspec_def)
qed

subsection \<open>The challenge text\<close>

text \<open>
  C37: The setter of the challenge text writes an element of its text and two bytes more, but the length that
  \<open>Calculate80211eAuthenticationFrameBodyLength\<close> gives leaves the two out: with a body of that length, at the end of
  the memory, the setter writes behind it.  Two bytes more are enough for texts of up to 127 bytes, which the
  getters then give back.
\<close>

theorem challenge_text_overflows:
  assumes small: "length bs < 128" and pre: "length pre = n"
    and F: "F = SpecifyWithOrWithoutSomeOptionalInfoFlagFor80211eAuthenticationFrameBody True"
    and L: "L = of_nat (length bs)" and B: "B = unat (Calculate80211eAuthenticationFrameBodyLength F L)"
  shows "SetChallengeTextInto80211eAuthenticationFrameBody (Some n) F L (Some bs) (pre @ replicate B 0) = Inl OutOfBounds
    \<and> (\<exists>M. SetChallengeTextInto80211eAuthenticationFrameBody (Some n) F L (Some bs) (pre @ replicate (B + 2) 0) = Inr M
      \<and> GetChallengeTextFrom80211eAuthenticationFrameBody (Some n) M = Inr (Some (n + 6))
      \<and> GetChallengeTextFrom80211eChallengeText (Some (n + 6)) (Some l) M = Inr (Some (n + 8), Some L)
      \<and> get_bytes (length bs) (n + 8) M = Inr bs)"
proof
  have flag: "(F AND WITH_CHALLENGE_TEXT_FLAG = 0) = False"
    by (simp add: F SpecifyWithOrWithoutSomeOptionalInfoFlagFor80211eAuthenticationFrameBody_def given_flag_def frame_constants)
  have B: "B = 6 + length bs"
  proof -
    have "Calculate80211eAuthenticationFrameBodyLength F L = of_nat (6 + length bs)"
      by (simp add: Calculate80211eAuthenticationFrameBodyLength_def opt_def flag L)
    then show ?thesis using small by (simp add: B unat_of_nat del: of_nat_add)
  qed
  have at: "body_at (Some n) (2 + 2 + 2) = n + 6" by (simp add: body_at_def)
  have u: "ucast L = (of_nat (length bs) :: u8)" by (simp add: L ucast_len)
  have set: "SetChallengeTextInto80211eAuthenticationFrameBody (Some n) F L (Some bs) M
    = run [put8 (n + 6) ELEMENT_ID_CHALLENGE_TEXT, put8 (n + 6 + 1) (of_nat (length bs)), bcopy_len (n + 6 + 2) (n + 6 + 1) bs] M" for M
    unfolding SetChallengeTextInto80211eAuthenticationFrameBody_def Some_eq_None simp_thms if_False flag Let_def at u option.sel by (rule TrueI)
  show "SetChallengeTextInto80211eAuthenticationFrameBody (Some n) F L (Some bs) (pre @ replicate B 0) = Inl OutOfBounds"
    using small by (auto simp: set B pre run_simps put8_def get8_def bcopy_len_def bcopy_def char_uint_small unat_of_nat)
  have zeros8: "replicate (8 + length bs) 0 = replicate 6 0 @ 0 # 0 # replicate (length bs) (0 :: u8)"
    using replicate_add [of 6 "2 + length bs" "0 :: u8"] by (simp add: numeral_eq_Suc)
  let ?e = "[ELEMENT_ID_CHALLENGE_TEXT, of_nat (length bs)] @ bs"
  let ?M = "blk (pre @ replicate 6 0) ?e []"
  have "SetChallengeTextInto80211eAuthenticationFrameBody (Some n) F L (Some bs) (pre @ replicate (B + 2) 0) = Inr ?M"
    using fillsD [OF counted_fills [OF small], of "pre @ replicate 6 0" "n + 6" ELEMENT_ID_CHALLENGE_TEXT "[]"] pre
    by (simp add: set B blk_def zeros8 add.commute [of "length bs"])
  moreover have "GetChallengeTextFrom80211eAuthenticationFrameBody (Some n) ?M = Inr (Some (n + 6))"
    using pre by (simp add: GetChallengeTextFrom80211eAuthenticationFrameBody_def body_at_def find_element_def get8_block0)
  moreover have "GetChallengeTextFrom80211eChallengeText (Some (n + 6)) (Some l) ?M = Inr (Some (n + 8), Some L)"
    using pre get8_block [of 1 ?e "n + 6" "pre @ replicate 6 0" "[]"]
    by (simp add: GetChallengeTextFrom80211eChallengeText_def char_uint_small small L)
  moreover have "get_bytes (length bs) (n + 8) ?M = Inr bs"
    using pre get_bytes_block [of 2 "length bs" ?e "n + 6" "pre @ replicate 6 0" "[]"] by (simp add: add.commute)
  ultimately show "\<exists>M. SetChallengeTextInto80211eAuthenticationFrameBody (Some n) F L (Some bs) (pre @ replicate (B + 2) 0) = Inr M
      \<and> GetChallengeTextFrom80211eAuthenticationFrameBody (Some n) M = Inr (Some (n + 6))
      \<and> GetChallengeTextFrom80211eChallengeText (Some (n + 6)) (Some l) M = Inr (Some (n + 8), Some L)
      \<and> get_bytes (length bs) (n + 8) M = Inr bs"
    by blast
qed


theorem challenge_text_overflows_witness:
  "SetChallengeTextInto80211eAuthenticationFrameBody (Some 0) 1 3 (Some [7, 8, 9]) (replicate 9 0) = Inl OutOfBounds
   \<and> (\<exists>M. SetChallengeTextInto80211eAuthenticationFrameBody (Some 0) 1 3 (Some [7, 8, 9]) (replicate 11 0) = Inr M
      \<and> get_bytes 3 8 M = Inr [7, 8, 9])"
proof -
  have F: "1 = SpecifyWithOrWithoutSomeOptionalInfoFlagFor80211eAuthenticationFrameBody True"
    by (simp add: SpecifyWithOrWithoutSomeOptionalInfoFlagFor80211eAuthenticationFrameBody_def given_flag_def frame_constants)
  have L: "3 = of_nat (length [7, 8, 9 :: u8])" by simp
  have B: "9 = unat (Calculate80211eAuthenticationFrameBodyLength 1 3)"
    by (simp add: Calculate80211eAuthenticationFrameBodyLength_def opt_def frame_constants)
  show ?thesis using challenge_text_overflows [OF _ _ F L B, of "[]" 0 0] by (auto simp: numeral_3_eq_3)
qed

subsection \<open>The load of the cell\<close>



end
