(* ===== verification/Association80211e.thy ===== *)
theory Association80211e
  imports FrameBody
begin

text \<open>
  The frame bodies of disassociation, association and reassociation requests and responses.
\<close>

definition Calculate80211eDisassociationFrameBodyLength :: "u32" where
  "Calculate80211eDisassociationFrameBodyLength =
     2"

definition SetReasonCodeInto80211eDisassociationFrameBody :: "ptr \<Rightarrow> u16 option \<Rightarrow> buf \<Rightarrow> abort + buf" where
  "SetReasonCodeInto80211eDisassociationFrameBody Body ReasonCode M =
     (if Body = None \<or> ReasonCode = None then Inr M
      else let p = body_at Body (0) in bcopy p 2 (le16 (the ReasonCode)) M)"

definition GetReasonCodeFrom80211eDisassociationFrameBody :: "ptr \<Rightarrow> u16 option \<Rightarrow> buf \<Rightarrow> abort + u16 option" where
  "GetReasonCodeFrom80211eDisassociationFrameBody Body ReasonCode M =
     (if Body = None \<or> ReasonCode = None then Inr ReasonCode
      else map_sum id Some (get16 (body_at Body (0)) M))"

definition Calculate80211eAssociationRequestFrameBodyLength :: "u32 \<Rightarrow> u32 \<Rightarrow> u32" where
  "Calculate80211eAssociationRequestFrameBodyLength SSID_Len SupportedRates_Len =
     2 + 2 + (2 + SSID_Len) + (2 + SupportedRates_Len) + 3"

definition SetCapabilityInfoInto80211eAssociationRequestFrameBody :: "ptr \<Rightarrow> bool \<Rightarrow> bool \<Rightarrow> bool \<Rightarrow> bool \<Rightarrow>
    bool \<Rightarrow> bool \<Rightarrow> bool \<Rightarrow> bool \<Rightarrow> bool \<Rightarrow> bool \<Rightarrow> bool \<Rightarrow> bool \<Rightarrow> bool \<Rightarrow> bool \<Rightarrow> bool \<Rightarrow> buf \<Rightarrow> abort + buf" where
  "SetCapabilityInfoInto80211eAssociationRequestFrameBody Body ESS IBSS CF_Pollable CF_Poll_Request Privacy
      ShortPreamble PBCC ChannelAgility SpectrumManagement QoS ShortSlotTime APSD DSSS_OFDM
      DelayedBloackAck ImmediateBlockAck M =
     (if Body = None then Inr M
      else let p = body_at Body (0) in run (capability_writes p ESS IBSS CF_Pollable CF_Poll_Request
          Privacy ShortPreamble PBCC ChannelAgility SpectrumManagement QoS ShortSlotTime APSD DSSS_OFDM
          DelayedBloackAck ImmediateBlockAck) M)"

definition SetListenIntervalInto80211eAssociationRequestFrameBody :: "ptr \<Rightarrow> u16 option \<Rightarrow> buf \<Rightarrow> abort + buf"
    where
  "SetListenIntervalInto80211eAssociationRequestFrameBody Body Interval M =
     (if Body = None \<or> Interval = None then Inr M
      else let p = body_at Body (2) in bcopy p 2 (le16 (the Interval)) M)"

definition SetSSIDInto80211eAssociationRequestFrameBody :: "ptr \<Rightarrow> u32 \<Rightarrow> u8 list option \<Rightarrow> buf \<Rightarrow> abort + buf"
    where
  "SetSSIDInto80211eAssociationRequestFrameBody Body SSID_Len SSID M =
     (if Body = None \<or> SSID = None then Inr M
      else let p = body_at Body (2 + 2) in
        run [put8 p ELEMENT_ID_SSID, put8 (p + 1) (ucast SSID_Len), bcopy_len (p + 2) (p + 1) (the SSID)] M)"

definition SetSupportedRatesInto80211eAssociationRequestFrameBody :: "ptr \<Rightarrow> u32 \<Rightarrow> u32 \<Rightarrow> u8 list option \<Rightarrow>
    buf \<Rightarrow> abort + buf" where
  "SetSupportedRatesInto80211eAssociationRequestFrameBody Body SSID_Len SupportedRates_Len SupportedRates M =
     (if Body = None \<or> SupportedRates = None then Inr M
      else let p = body_at Body (2 + 2 + (2 + SSID_Len)) in
        run [put8 p ELEMENT_ID_SUPPORTED_RATES, put8 (p + 1) (ucast SupportedRates_Len),
             bcopy_len (p + 2) (p + 1) (the SupportedRates)] M)"

definition SetQoSCapabilityInto80211eAssociationRequestFrameBody :: "ptr \<Rightarrow> u32 \<Rightarrow> u32 \<Rightarrow> u8 \<Rightarrow> bool \<Rightarrow> bool \<Rightarrow>
    bool \<Rightarrow> buf \<Rightarrow> abort + buf" where
  "SetQoSCapabilityInto80211eAssociationRequestFrameBody Body SSID_Len SupportedRates_Len
      QoSInfo_EDCAParameterSetUpdateCount QoSInfo_QAck QoSInfo_QueueRequest QoSInfo_TXOPRequest M =
     (if Body = None then Inr M
      else let p = body_at Body (2 + 2 + (2 + SSID_Len) + (2 + SupportedRates_Len)) in
        run ([put8 p ELEMENT_ID_QOS_CAPABILITY, put8 (p + 1) 0x01]
             @ qos_info (p + 2) QoSInfo_EDCAParameterSetUpdateCount QoSInfo_QAck QoSInfo_QueueRequest
                 QoSInfo_TXOPRequest) M)"

definition GetCapabilityInfoFrom80211eAssociationRequestFrameBody :: "ptr \<Rightarrow> buf \<Rightarrow> abort + ptr" where
  "GetCapabilityInfoFrom80211eAssociationRequestFrameBody Body M =
     (if Body = None then Inr None
      else Inr (Some (body_at Body (0))))"

definition GetListenIntervalFrom80211eAssociationRequestFrameBody :: "ptr \<Rightarrow> u16 option \<Rightarrow> buf \<Rightarrow> abort + u16
    option" where
  "GetListenIntervalFrom80211eAssociationRequestFrameBody Body Interval M =
     (if Body = None \<or> Interval = None then Inr Interval
      else map_sum id Some (get16 (body_at Body (2)) M))"

definition GetSSIDFrom80211eAssociationRequestFrameBody :: "ptr \<Rightarrow> u32 option \<Rightarrow> buf \<Rightarrow> abort + (ptr \<times> u32
    option)" where
  "GetSSIDFrom80211eAssociationRequestFrameBody Body SSID_Len M =
     (if Body = None \<or> SSID_Len = None then Inr (None, SSID_Len)
      else let p = body_at Body (2 + 2) in
        map_sum id (\<lambda>b. (Some (p + 2), Some (char_uint b))) (get8 (p + 1) M))"

definition GetSupportedRatesFrom80211eAssociationRequestFrameBody :: "ptr \<Rightarrow> u32 \<Rightarrow> u32 option \<Rightarrow> buf \<Rightarrow> abort
    + (ptr \<times> u32 option)" where
  "GetSupportedRatesFrom80211eAssociationRequestFrameBody Body SSID_Len SupportedRates_Len M =
     (if Body = None \<or> SupportedRates_Len = None then Inr (None, SupportedRates_Len)
      else let p = body_at Body (2 + 2 + (2 + SSID_Len)) in
        map_sum id (\<lambda>b. (Some (p + 2), Some (char_uint b))) (get8 (p + 1) M))"

definition GetQoSCapabilityFrom80211eAssociationRequestFrameBody :: "ptr \<Rightarrow> u32 \<Rightarrow> u32 \<Rightarrow> buf \<Rightarrow> abort + ptr" where
  "GetQoSCapabilityFrom80211eAssociationRequestFrameBody Body SSID_Len SupportedRates_Len M =
     (if Body = None then Inr None
      else Inr (Some (body_at Body (2 + 2 + (2 + SSID_Len) + (2 + SupportedRates_Len)))))"

definition Calculate80211eAssociationResponseFrameBodyLength :: "u32 \<Rightarrow> u32" where
  "Calculate80211eAssociationResponseFrameBodyLength SupportedRates_Len =
     2 + 2 + 2 + (2 + SupportedRates_Len) + 20"

definition SetCapabilityInfoInto80211eAssociationResponseFrameBody :: "ptr \<Rightarrow> bool \<Rightarrow> bool \<Rightarrow> bool \<Rightarrow> bool \<Rightarrow>
    bool \<Rightarrow> bool \<Rightarrow> bool \<Rightarrow> bool \<Rightarrow> bool \<Rightarrow> bool \<Rightarrow> bool \<Rightarrow> bool \<Rightarrow> bool \<Rightarrow> bool \<Rightarrow> bool \<Rightarrow> buf \<Rightarrow> abort + buf" where
  "SetCapabilityInfoInto80211eAssociationResponseFrameBody Body ESS IBSS CF_Pollable CF_Poll_Request
      Privacy ShortPreamble PBCC ChannelAgility SpectrumManagement QoS ShortSlotTime APSD DSSS_OFDM
      DelayedBloackAck ImmediateBlockAck M =
     (if Body = None then Inr M
      else let p = body_at Body (0) in run (capability_writes p ESS IBSS CF_Pollable CF_Poll_Request
          Privacy ShortPreamble PBCC ChannelAgility SpectrumManagement QoS ShortSlotTime APSD DSSS_OFDM
          DelayedBloackAck ImmediateBlockAck) M)"

definition SetStatusCodeInto80211eAssociationResponseFrameBody :: "ptr \<Rightarrow> u16 option \<Rightarrow> buf \<Rightarrow> abort + buf" where
  "SetStatusCodeInto80211eAssociationResponseFrameBody Body StatusCode M =
     (if Body = None \<or> StatusCode = None then Inr M
      else let p = body_at Body (2) in bcopy p 2 (le16 (the StatusCode)) M)"

definition SetAIDInto80211eAssociationResponseFrameBody :: "ptr \<Rightarrow> u16 option \<Rightarrow> buf \<Rightarrow> abort + buf" where
  "SetAIDInto80211eAssociationResponseFrameBody Body AID M =
     (if Body = None \<or> AID = None then Inr M
      else let p = body_at Body (2 + 2) in bcopy p 2 (le16 (the AID)) M)"

definition SetSupportedRatesInto80211eAssociationResponseFrameBody :: "ptr \<Rightarrow> u32 \<Rightarrow> u8 list option \<Rightarrow> buf \<Rightarrow>
    abort + buf" where
  "SetSupportedRatesInto80211eAssociationResponseFrameBody Body SupportedRates_Len SupportedRates M =
     (if Body = None \<or> SupportedRates = None then Inr M
      else let p = body_at Body (2 + 2 + 2) in
        run [put8 p ELEMENT_ID_SUPPORTED_RATES, put8 (p + 1) (ucast SupportedRates_Len),
             bcopy_len (p + 2) (p + 1) (the SupportedRates)] M)"

definition SetEDCAParameterSetInto80211eAssociationResponseFrameBody :: "ptr \<Rightarrow> u32 \<Rightarrow> u8 \<Rightarrow> bool \<Rightarrow> bool \<Rightarrow>
    bool \<Rightarrow> u8 \<Rightarrow> bool \<Rightarrow> u8 \<Rightarrow> u16 option \<Rightarrow> u8 \<Rightarrow> bool \<Rightarrow> u8 \<Rightarrow> u16 option \<Rightarrow> u8 \<Rightarrow> bool \<Rightarrow> u8 \<Rightarrow> u16 option \<Rightarrow> u8 \<Rightarrow>
    bool \<Rightarrow> u8 \<Rightarrow> u16 option \<Rightarrow> buf \<Rightarrow> abort + buf" where
  "SetEDCAParameterSetInto80211eAssociationResponseFrameBody Body SupportedRates_Len
      QoSInfo_EDCAParameterSetUpdateCount QoSInfo_QAck QoSInfo_QueueRequest QoSInfo_TXOPRequest AC_BE_AIFSN
      AC_BE_ACM AC_BE_ECW AC_BE_TXOP_Limit AC_BK_AIFSN AC_BK_ACM AC_BK_ECW AC_BK_TXOP_Limit AC_VI_AIFSN
      AC_VI_ACM AC_VI_ECW AC_VI_TXOP_Limit AC_VO_AIFSN AC_VO_ACM AC_VO_ECW AC_VO_TXOP_Limit M =
     (if Body = None \<or> AC_BE_TXOP_Limit = None \<or> AC_BK_TXOP_Limit = None \<or> AC_VI_TXOP_Limit = None \<or>
         AC_VO_TXOP_Limit = None then Inr M
      else let p = body_at Body (2 + 2 + 2 + (2 + SupportedRates_Len)) in
        run ([put8 p ELEMENT_ID_EDCA_PARAMETER_SET, put8 (p + 1) 0x12]
             @ qos_info (p + 2) QoSInfo_EDCAParameterSetUpdateCount QoSInfo_QAck QoSInfo_QueueRequest
                 QoSInfo_TXOPRequest
             @ ac_record (p + 4) (\<lambda>b. b AND 0xfb) (\<lambda>b. b AND 0xfd) AC_BE_AIFSN AC_BE_ACM AC_BE_ECW (the
                 AC_BE_TXOP_Limit)
             @ ac_record (p + 8) (\<lambda>b. b AND 0xfb) (\<lambda>b. b OR 0x02) AC_BK_AIFSN AC_BK_ACM AC_BK_ECW (the
                 AC_BK_TXOP_Limit)
             @ ac_record (p + 12) (\<lambda>b. b OR 0x04) (\<lambda>b. b AND 0xfd) AC_VI_AIFSN AC_VI_ACM AC_VI_ECW (the
                 AC_VI_TXOP_Limit)
             @ ac_record (p + 16) (\<lambda>b. b OR 0x04) (\<lambda>b. b OR 0x02) AC_VO_AIFSN AC_VO_ACM AC_VO_ECW (the
                 AC_VO_TXOP_Limit)) M)"

definition GetCapabilityInfoFrom80211eAssociationResponseFrameBody :: "ptr \<Rightarrow> buf \<Rightarrow> abort + ptr" where
  "GetCapabilityInfoFrom80211eAssociationResponseFrameBody Body M =
     (if Body = None then Inr None
      else Inr (Some (body_at Body (0))))"

definition GetStatusCodeFrom80211eAssociationResponseFrameBody :: "ptr \<Rightarrow> u16 option \<Rightarrow> buf \<Rightarrow> abort + u16
    option" where
  "GetStatusCodeFrom80211eAssociationResponseFrameBody Body StatusCode M =
     (if Body = None \<or> StatusCode = None then Inr StatusCode
      else map_sum id Some (get16 (body_at Body (2)) M))"

definition GetAIDFrom80211eAssociationResponseFrameBody :: "ptr \<Rightarrow> u16 option \<Rightarrow> buf \<Rightarrow> abort + u16 option" where
  "GetAIDFrom80211eAssociationResponseFrameBody Body AID M =
     (if Body = None \<or> AID = None then Inr AID
      else map_sum id Some (get16 (body_at Body (2 + 2)) M))"

definition GetSupportedRatesFrom80211eAssociationResponseFrameBody :: "ptr \<Rightarrow> u32 option \<Rightarrow> buf \<Rightarrow> abort +
    (ptr \<times> u32 option)" where
  "GetSupportedRatesFrom80211eAssociationResponseFrameBody Body SupportedRates_Len M =
     (if Body = None \<or> SupportedRates_Len = None then Inr (None, SupportedRates_Len)
      else let p = body_at Body (2 + 2 + 2) in
        map_sum id (\<lambda>b. (Some (p + 2), Some (char_uint b))) (get8 (p + 1) M))"

definition GetEDCAParameterSetFrom80211eAssociationResponseFrameBody :: "ptr \<Rightarrow> u32 \<Rightarrow> buf \<Rightarrow> abort + ptr" where
  "GetEDCAParameterSetFrom80211eAssociationResponseFrameBody Body SupportedRates_Len M =
     (if Body = None then Inr None
      else Inr (Some (body_at Body (2 + 2 + 2 + (2 + SupportedRates_Len)))))"

definition Calculate80211eReassociationRequestFrameBodyLength :: "u32 \<Rightarrow> u32 \<Rightarrow> u32" where
  "Calculate80211eReassociationRequestFrameBodyLength SSID_Len SupportedRates_Len =
     2 + 2 + 6 + (2 + SSID_Len) + (2 + SupportedRates_Len) + 3"

definition SetCapabilityInfoInto80211eReassociationRequestFrameBody :: "ptr \<Rightarrow> bool \<Rightarrow> bool \<Rightarrow> bool \<Rightarrow> bool \<Rightarrow>
    bool \<Rightarrow> bool \<Rightarrow> bool \<Rightarrow> bool \<Rightarrow> bool \<Rightarrow> bool \<Rightarrow> bool \<Rightarrow> bool \<Rightarrow> bool \<Rightarrow> bool \<Rightarrow> bool \<Rightarrow> buf \<Rightarrow> abort + buf" where
  "SetCapabilityInfoInto80211eReassociationRequestFrameBody Body ESS IBSS CF_Pollable CF_Poll_Request
      Privacy ShortPreamble PBCC ChannelAgility SpectrumManagement QoS ShortSlotTime APSD DSSS_OFDM
      DelayedBloackAck ImmediateBlockAck M =
     (if Body = None then Inr M
      else let p = body_at Body (0) in run (capability_writes p ESS IBSS CF_Pollable CF_Poll_Request
          Privacy ShortPreamble PBCC ChannelAgility SpectrumManagement QoS ShortSlotTime APSD DSSS_OFDM
          DelayedBloackAck ImmediateBlockAck) M)"

definition SetListenIntervalInto80211eReassociationRequestFrameBody :: "ptr \<Rightarrow> u16 option \<Rightarrow> buf \<Rightarrow> abort +
    buf" where
  "SetListenIntervalInto80211eReassociationRequestFrameBody Body ListenInterval M =
     (if Body = None \<or> ListenInterval = None then Inr M
      else let p = body_at Body (2) in bcopy p 2 (le16 (the ListenInterval)) M)"

definition SetCurrentAPAddressInto80211eReassociationRequestFrameBody :: "ptr \<Rightarrow> u8 list option \<Rightarrow> buf \<Rightarrow>
    abort + buf" where
  "SetCurrentAPAddressInto80211eReassociationRequestFrameBody Body CurrentAPAddress M =
     (if Body = None \<or> CurrentAPAddress = None then Inr M
      else let p = body_at Body (2 + 2) in bcopy p 6 (the CurrentAPAddress) M)"

definition SetSSIDInto80211eReassociationRequestFrameBody :: "ptr \<Rightarrow> u32 \<Rightarrow> u8 list option \<Rightarrow> buf \<Rightarrow> abort +
    buf" where
  "SetSSIDInto80211eReassociationRequestFrameBody Body SSID_Len SSID M =
     (if Body = None \<or> SSID = None then Inr M
      else let p = body_at Body (2 + 2 + 6) in
        run [put8 p ELEMENT_ID_SSID, put8 (p + 1) (ucast SSID_Len), bcopy_len (p + 2) (p + 1) (the SSID)] M)"

definition SetSupportedRatesInto80211eReassociationRequestFrameBody :: "ptr \<Rightarrow> u32 \<Rightarrow> u32 \<Rightarrow> u8 list option \<Rightarrow>
    buf \<Rightarrow> abort + buf" where
  "SetSupportedRatesInto80211eReassociationRequestFrameBody Body SSID_Len SupportedRates_Len SupportedRates M =
     (if Body = None \<or> SupportedRates = None then Inr M
      else let p = body_at Body (2 + 2 + 6 + (2 + SSID_Len)) in
        run [put8 p ELEMENT_ID_SUPPORTED_RATES, put8 (p + 1) (ucast SupportedRates_Len),
             bcopy_len (p + 2) (p + 1) (the SupportedRates)] M)"

definition SetQoSCapabilityInto80211eReassociationRequestFrameBody :: "ptr \<Rightarrow> u32 \<Rightarrow> u32 \<Rightarrow> u8 \<Rightarrow> bool \<Rightarrow> bool \<Rightarrow>
    bool \<Rightarrow> buf \<Rightarrow> abort + buf" where
  "SetQoSCapabilityInto80211eReassociationRequestFrameBody Body SSID_Len SupportedRates_Len
      QoSInfo_EDCAParameterSetUpdateCount QoSInfo_QAck QoSInfo_QueueRequest QoSInfo_TXOPRequest M =
     (if Body = None then Inr M
      else let p = body_at Body (2 + 2 + 6 + (2 + SSID_Len) + (2 + SupportedRates_Len)) in
        run ([put8 p ELEMENT_ID_QOS_CAPABILITY, put8 (p + 1) 0x01]
             @ qos_info (p + 2) QoSInfo_EDCAParameterSetUpdateCount QoSInfo_QAck QoSInfo_QueueRequest
                 QoSInfo_TXOPRequest) M)"

definition GetCapabilityInfoFrom80211eReassociationRequestFrameBody :: "ptr \<Rightarrow> buf \<Rightarrow> abort + ptr" where
  "GetCapabilityInfoFrom80211eReassociationRequestFrameBody Body M =
     (if Body = None then Inr None
      else Inr (Some (body_at Body (0))))"

definition GetListenIntervalFrom80211eReassociationRequestFrameBody :: "ptr \<Rightarrow> u16 option \<Rightarrow> buf \<Rightarrow> abort +
    u16 option" where
  "GetListenIntervalFrom80211eReassociationRequestFrameBody Body ListenInterval M =
     (if Body = None \<or> ListenInterval = None then Inr ListenInterval
      else map_sum id Some (get16 (body_at Body (2)) M))"

definition GetCurrentAPAddressFrom80211eReassociationRequestFrameBody :: "ptr \<Rightarrow> u8 list option \<Rightarrow> buf \<Rightarrow>
    abort + u8 list option" where
  "GetCurrentAPAddressFrom80211eReassociationRequestFrameBody Body CurrentAPAddress M =
     (if Body = None \<or> CurrentAPAddress = None then Inr CurrentAPAddress
      else map_sum id Some (get_bytes 6 (body_at Body (2 + 2)) M))"

definition GetSSIDFrom80211eReassociationRequestFrameBody :: "ptr \<Rightarrow> u32 option \<Rightarrow> buf \<Rightarrow> abort + (ptr \<times> u32
    option)" where
  "GetSSIDFrom80211eReassociationRequestFrameBody Body SSID_Len M =
     (if Body = None \<or> SSID_Len = None then Inr (None, SSID_Len)
      else let p = body_at Body (2 + 2 + 6) in
        map_sum id (\<lambda>b. (Some (p + 2), Some (char_uint b))) (get8 (p + 1) M))"

definition GetSupportedRatesFrom80211eReassociationRequestFrameBody :: "ptr \<Rightarrow> u32 \<Rightarrow> u32 option \<Rightarrow> buf \<Rightarrow>
    abort + (ptr \<times> u32 option)" where
  "GetSupportedRatesFrom80211eReassociationRequestFrameBody Body SSID_Len SupportedRates_Len M =
     (if Body = None \<or> SupportedRates_Len = None then Inr (None, SupportedRates_Len)
      else let p = body_at Body (2 + 2 + 6 + (2 + SSID_Len)) in
        map_sum id (\<lambda>b. (Some (p + 2), Some (char_uint b))) (get8 (p + 1) M))"

definition GetQoSCapabilityFrom80211eReassociationRequestFrameBody :: "ptr \<Rightarrow> u32 \<Rightarrow> u32 \<Rightarrow> buf \<Rightarrow> abort + ptr"
    where
  "GetQoSCapabilityFrom80211eReassociationRequestFrameBody Body SSID_Len SupportedRates_Len M =
     (if Body = None then Inr None
      else Inr (Some (body_at Body (2 + 2 + 6 + (2 + SSID_Len) + (2 + SupportedRates_Len)))))"

definition Calculate80211eReassociationResponseFrameBodyLength :: "u32 \<Rightarrow> u32" where
  "Calculate80211eReassociationResponseFrameBodyLength SupportedRates_Len =
     2 + 2 + 2 + (2 + SupportedRates_Len) + 20"

definition SetCapabilityInfoInto80211eReassociationResponseFrameBody :: "ptr \<Rightarrow> bool \<Rightarrow> bool \<Rightarrow> bool \<Rightarrow> bool \<Rightarrow>
    bool \<Rightarrow> bool \<Rightarrow> bool \<Rightarrow> bool \<Rightarrow> bool \<Rightarrow> bool \<Rightarrow> bool \<Rightarrow> bool \<Rightarrow> bool \<Rightarrow> bool \<Rightarrow> bool \<Rightarrow> buf \<Rightarrow> abort + buf" where
  "SetCapabilityInfoInto80211eReassociationResponseFrameBody Body ESS IBSS CF_Pollable CF_Poll_Request
      Privacy ShortPreamble PBCC ChannelAgility SpectrumManagement QoS ShortSlotTime APSD DSSS_OFDM
      DelayedBloackAck ImmediateBlockAck M =
     (if Body = None then Inr M
      else let p = body_at Body (0) in run (capability_writes p ESS IBSS CF_Pollable CF_Poll_Request
          Privacy ShortPreamble PBCC ChannelAgility SpectrumManagement QoS ShortSlotTime APSD DSSS_OFDM
          DelayedBloackAck ImmediateBlockAck) M)"

definition SetStatusCodeInto80211eReassociationResponseFrameBody :: "ptr \<Rightarrow> u16 option \<Rightarrow> buf \<Rightarrow> abort + buf" where
  "SetStatusCodeInto80211eReassociationResponseFrameBody Body StatusCode M =
     (if Body = None \<or> StatusCode = None then Inr M
      else let p = body_at Body (2) in bcopy p 2 (le16 (the StatusCode)) M)"

definition SetAIDInto80211eReassociationResponseFrameBody :: "ptr \<Rightarrow> u16 option \<Rightarrow> buf \<Rightarrow> abort + buf" where
  "SetAIDInto80211eReassociationResponseFrameBody Body AID M =
     (if Body = None \<or> AID = None then Inr M
      else let p = body_at Body (2 + 2) in bcopy p 2 (le16 (the AID)) M)"

definition SetSupportedRatesInto80211eReassociationResponseFrameBody :: "ptr \<Rightarrow> u32 \<Rightarrow> u8 list option \<Rightarrow> buf \<Rightarrow>
    abort + buf" where
  "SetSupportedRatesInto80211eReassociationResponseFrameBody Body SupportedRates_Len SupportedRates M =
     (if Body = None \<or> SupportedRates = None then Inr M
      else let p = body_at Body (2 + 2 + 2) in
        run [put8 p ELEMENT_ID_SUPPORTED_RATES, put8 (p + 1) (ucast SupportedRates_Len),
             bcopy_len (p + 2) (p + 1) (the SupportedRates)] M)"

definition SetEDCAParameterSetInto80211eReassociationResponseFrameBody :: "ptr \<Rightarrow> u32 \<Rightarrow> u8 \<Rightarrow> bool \<Rightarrow> bool \<Rightarrow>
    bool \<Rightarrow> u8 \<Rightarrow> bool \<Rightarrow> u8 \<Rightarrow> u16 option \<Rightarrow> u8 \<Rightarrow> bool \<Rightarrow> u8 \<Rightarrow> u16 option \<Rightarrow> u8 \<Rightarrow> bool \<Rightarrow> u8 \<Rightarrow> u16 option \<Rightarrow> u8 \<Rightarrow>
    bool \<Rightarrow> u8 \<Rightarrow> u16 option \<Rightarrow> buf \<Rightarrow> abort + buf" where
  "SetEDCAParameterSetInto80211eReassociationResponseFrameBody Body SupportedRates_Len
      QoSInfo_EDCAParameterSetUpdateCount QoSInfo_QAck QoSInfo_QueueRequest QoSInfo_TXOPRequest AC_BE_AIFSN
      AC_BE_ACM AC_BE_ECW AC_BE_TXOP_Limit AC_BK_AIFSN AC_BK_ACM AC_BK_ECW AC_BK_TXOP_Limit AC_VI_AIFSN
      AC_VI_ACM AC_VI_ECW AC_VI_TXOP_Limit AC_VO_AIFSN AC_VO_ACM AC_VO_ECW AC_VO_TXOP_Limit M =
     (if Body = None \<or> AC_BE_TXOP_Limit = None \<or> AC_BK_TXOP_Limit = None \<or> AC_VI_TXOP_Limit = None \<or>
         AC_VO_TXOP_Limit = None then Inr M
      else let p = body_at Body (2 + 2 + 2 + (2 + SupportedRates_Len)) in
        run ([put8 p ELEMENT_ID_EDCA_PARAMETER_SET, put8 (p + 1) 0x12]
             @ qos_info (p + 2) QoSInfo_EDCAParameterSetUpdateCount QoSInfo_QAck QoSInfo_QueueRequest
                 QoSInfo_TXOPRequest
             @ ac_record (p + 4) (\<lambda>b. b AND 0xfb) (\<lambda>b. b AND 0xfd) AC_BE_AIFSN AC_BE_ACM AC_BE_ECW (the
                 AC_BE_TXOP_Limit)
             @ ac_record (p + 8) (\<lambda>b. b AND 0xfb) (\<lambda>b. b OR 0x02) AC_BK_AIFSN AC_BK_ACM AC_BK_ECW (the
                 AC_BK_TXOP_Limit)
             @ ac_record (p + 12) (\<lambda>b. b OR 0x04) (\<lambda>b. b AND 0xfd) AC_VI_AIFSN AC_VI_ACM AC_VI_ECW (the
                 AC_VI_TXOP_Limit)
             @ ac_record (p + 16) (\<lambda>b. b OR 0x04) (\<lambda>b. b OR 0x02) AC_VO_AIFSN AC_VO_ACM AC_VO_ECW (the
                 AC_VO_TXOP_Limit)) M)"

definition GetCapabilityInfoFrom80211eReassociationResponseFrameBody :: "ptr \<Rightarrow> buf \<Rightarrow> abort + ptr" where
  "GetCapabilityInfoFrom80211eReassociationResponseFrameBody Body M =
     (if Body = None then Inr None
      else Inr (Some (body_at Body (0))))"

definition GetStatusCodeFrom80211eReassociationResponseFrameBody :: "ptr \<Rightarrow> u16 option \<Rightarrow> buf \<Rightarrow> abort + u16
    option" where
  "GetStatusCodeFrom80211eReassociationResponseFrameBody Body StatusCode M =
     (if Body = None \<or> StatusCode = None then Inr StatusCode
      else map_sum id Some (get16 (body_at Body (2)) M))"

definition GetAIDFrom80211eReassociationResponseFrameBody :: "ptr \<Rightarrow> u16 option \<Rightarrow> buf \<Rightarrow> abort + u16 option" where
  "GetAIDFrom80211eReassociationResponseFrameBody Body AID M =
     (if Body = None \<or> AID = None then Inr AID
      else map_sum id Some (get16 (body_at Body (2 + 2)) M))"

definition GetSupportedRatesFrom80211eReassociationResponseFrameBody :: "ptr \<Rightarrow> u32 option \<Rightarrow> buf \<Rightarrow> abort +
    (ptr \<times> u32 option)" where
  "GetSupportedRatesFrom80211eReassociationResponseFrameBody Body SupportedRates_Len M =
     (if Body = None \<or> SupportedRates_Len = None then Inr (None, SupportedRates_Len)
      else let p = body_at Body (2 + 2 + 2) in
        map_sum id (\<lambda>b. (Some (p + 2), Some (char_uint b))) (get8 (p + 1) M))"

definition GetEDCAParameterSetFrom80211eReassociationResponseFrameBody :: "ptr \<Rightarrow> u32 \<Rightarrow> buf \<Rightarrow> abort + ptr" where
  "GetEDCAParameterSetFrom80211eReassociationResponseFrameBody Body SupportedRates_Len M =
     (if Body = None then Inr None
      else Inr (Some (body_at Body (2 + 2 + 2 + (2 + SupportedRates_Len)))))"

end
