(* ===== verification/DirectLink80211e.thy ===== *)
theory DirectLink80211e
  imports FrameBody
begin

text \<open>
  The frame bodies of the actions on direct links and block acknowledgements.
\<close>

definition Calculate80211eDLSRequestFrameBodyLength :: "u32 \<Rightarrow> u32 \<Rightarrow> u32" where
  "Calculate80211eDLSRequestFrameBodyLength SupportedRates_Len ExtendedSupportedRates_Len =
     1 + 1 + 6 + 6 + 2 + 2 + (2 + SupportedRates_Len) + (2 + ExtendedSupportedRates_Len)"

definition SetDestinationMACAddressInto80211eDLSRequestFrameBody :: "ptr \<Rightarrow> u8 list option \<Rightarrow> buf \<Rightarrow> abort +
    buf" where
  "SetDestinationMACAddressInto80211eDLSRequestFrameBody Body DestinationMACAddress M =
     (if Body = None \<or> DestinationMACAddress = None then Inr M
      else let p = body_at Body (1 + 1) in bcopy p 6 (the DestinationMACAddress) M)"

definition SetSourceMACAddressInto80211eDLSRequestFrameBody :: "ptr \<Rightarrow> u8 list option \<Rightarrow> buf \<Rightarrow> abort + buf" where
  "SetSourceMACAddressInto80211eDLSRequestFrameBody Body SourceMACAddress M =
     (if Body = None \<or> SourceMACAddress = None then Inr M
      else let p = body_at Body (1 + 1 + 6) in bcopy p 6 (the SourceMACAddress) M)"

definition SetCapabilityInfoInto80211eDLSRequestFrameBody :: "ptr \<Rightarrow> bool \<Rightarrow> bool \<Rightarrow> bool \<Rightarrow> bool \<Rightarrow> bool \<Rightarrow> bool
    \<Rightarrow> bool \<Rightarrow> bool \<Rightarrow> bool \<Rightarrow> bool \<Rightarrow> bool \<Rightarrow> bool \<Rightarrow> bool \<Rightarrow> bool \<Rightarrow> bool \<Rightarrow> buf \<Rightarrow> abort + buf" where
  "SetCapabilityInfoInto80211eDLSRequestFrameBody Body ESS IBSS CF_Pollable CF_Poll_Request Privacy
      ShortPreamble PBCC ChannelAgility SpectrumManagement QoS ShortSlotTime APSD DSSS_OFDM
      DelayedBloackAck ImmediateBlockAck M =
     (if Body = None then Inr M
      else let p = body_at Body (1 + 1 + 6 + 6) in run (capability_writes p ESS IBSS CF_Pollable
          CF_Poll_Request Privacy ShortPreamble PBCC ChannelAgility SpectrumManagement QoS ShortSlotTime
          APSD DSSS_OFDM DelayedBloackAck ImmediateBlockAck) M)"

definition SetDLSTimeoutValueInto80211eDLSRequestFrameBody :: "ptr \<Rightarrow> u16 option \<Rightarrow> buf \<Rightarrow> abort + buf" where
  "SetDLSTimeoutValueInto80211eDLSRequestFrameBody Body DLSTimeoutValue M =
     (if Body = None \<or> DLSTimeoutValue = None then Inr M
      else let p = body_at Body (1 + 1 + 6 + 6 + 2) in bcopy p 2 (le16 (the DLSTimeoutValue)) M)"

definition SetSupportedRatesInto80211eDLSRequestFrameBody :: "ptr \<Rightarrow> u32 \<Rightarrow> u8 list option \<Rightarrow> buf \<Rightarrow> abort +
    buf" where
  "SetSupportedRatesInto80211eDLSRequestFrameBody Body SupportedRates_Len SupportedRates M =
     (if Body = None \<or> SupportedRates = None then Inr M
      else let p = body_at Body (1 + 1 + 6 + 6 + 2 + 2) in
        run [put8 p ELEMENT_ID_SUPPORTED_RATES, put8 (p + 1) (ucast SupportedRates_Len),
             bcopy_len (p + 2) (p + 1) (the SupportedRates)] M)"

definition SetExtendedSupportedRatesInto80211eDLSRequestFrameBody :: "ptr \<Rightarrow> u32 \<Rightarrow> u32 \<Rightarrow> u8 list option \<Rightarrow>
    buf \<Rightarrow> abort + buf" where
  "SetExtendedSupportedRatesInto80211eDLSRequestFrameBody Body SupportedRates_Len
      ExtendedSupportedRates_Len ExtendedSupportedRates M =
     (if Body = None \<or> ExtendedSupportedRates = None then Inr M
      else let p = body_at Body (1 + 1 + 6 + 6 + 2 + 2 + (2 + SupportedRates_Len)) in
        run [put8 p ELEMENT_ID_EXTENDED_SUPPORTED_RATES, put8 (p + 1) (ucast ExtendedSupportedRates_Len),
             bcopy_len (p + 2) (p + 1) (the ExtendedSupportedRates)] M)"

definition GetDestinationMACAddressFrom80211eDLSRequestFrameBody :: "ptr \<Rightarrow> u8 list option \<Rightarrow> buf \<Rightarrow> abort +
    u8 list option" where
  "GetDestinationMACAddressFrom80211eDLSRequestFrameBody Body DestinationMACAddress M =
     (if Body = None \<or> DestinationMACAddress = None then Inr DestinationMACAddress
      else map_sum id Some (get_bytes 6 (body_at Body (1 + 1)) M))"

definition GetSourceMACAddressFrom80211eDLSRequestFrameBody :: "ptr \<Rightarrow> u8 list option \<Rightarrow> buf \<Rightarrow> abort + u8
    list option" where
  "GetSourceMACAddressFrom80211eDLSRequestFrameBody Body SourceMACAddress M =
     (if Body = None \<or> SourceMACAddress = None then Inr SourceMACAddress
      else map_sum id Some (get_bytes 6 (body_at Body (1 + 1 + 6)) M))"

definition GetCapabilityInfoFrom80211eDLSRequestFrameBody :: "ptr \<Rightarrow> buf \<Rightarrow> abort + ptr" where
  "GetCapabilityInfoFrom80211eDLSRequestFrameBody Body M =
     (if Body = None then Inr None
      else Inr (Some (body_at Body (1 + 1 + 6 + 6))))"

definition GetDLSTimeoutValueFrom80211eDLSRequestFrameBody :: "ptr \<Rightarrow> u16 option \<Rightarrow> buf \<Rightarrow> abort + u16 option"
    where
  "GetDLSTimeoutValueFrom80211eDLSRequestFrameBody Body DLSTimeoutValue M =
     (if Body = None \<or> DLSTimeoutValue = None then Inr DLSTimeoutValue
      else map_sum id Some (get16 (body_at Body (1 + 1 + 6 + 6 + 2)) M))"

definition GetSupportedRatesFrom80211eDLSRequestFrameBody :: "ptr \<Rightarrow> u32 option \<Rightarrow> buf \<Rightarrow> abort + (ptr \<times> u32
    option)" where
  "GetSupportedRatesFrom80211eDLSRequestFrameBody Body SupportedRates_Len M =
     (if Body = None \<or> SupportedRates_Len = None then Inr (None, SupportedRates_Len)
      else let p = body_at Body (1 + 1 + 6 + 6 + 2 + 2) in
        map_sum id (\<lambda>b. (Some (p + 2), Some (char_uint b))) (get8 (p + 1) M))"

definition GetExtendedSupportedRatesFrom80211eDLSRequestFrameBody :: "ptr \<Rightarrow> u32 \<Rightarrow> u32 option \<Rightarrow> buf \<Rightarrow> abort
    + (ptr \<times> u32 option)" where
  "GetExtendedSupportedRatesFrom80211eDLSRequestFrameBody Body SupportedRates_Len ExtendedSupportedRates_Len M =
     (if Body = None \<or> ExtendedSupportedRates_Len = None then Inr (None, ExtendedSupportedRates_Len)
      else let p = body_at Body (1 + 1 + 6 + 6 + 2 + 2 + (2 + SupportedRates_Len)) in
        map_sum id (\<lambda>b. (Some (p + 2), Some (char_uint b))) (get8 (p + 1) M))"

definition Calculate80211eDLSResponseFrameBodyLength :: "u32 \<Rightarrow> u32 \<Rightarrow> u32" where
  "Calculate80211eDLSResponseFrameBodyLength SupportedRates_Len ExtendedSupportedRates_Len =
     1 + 1 + 2 + 6 + 6 + 2 + (2 + SupportedRates_Len) + (2 + ExtendedSupportedRates_Len)"

definition SetStatusCodeInto80211eDLSResponseFrameBody :: "ptr \<Rightarrow> u16 option \<Rightarrow> buf \<Rightarrow> abort + buf" where
  "SetStatusCodeInto80211eDLSResponseFrameBody Body StatusCode M =
     (if Body = None \<or> StatusCode = None then Inr M
      else let p = body_at Body (1 + 1) in bcopy p 2 (le16 (the StatusCode)) M)"

definition SetDestinationMACAddressInto80211eDLSResponseFrameBody :: "ptr \<Rightarrow> u8 list option \<Rightarrow> buf \<Rightarrow> abort +
    buf" where
  "SetDestinationMACAddressInto80211eDLSResponseFrameBody Body DestinationMACAddress M =
     (if Body = None \<or> DestinationMACAddress = None then Inr M
      else let p = body_at Body (1 + 1 + 2) in bcopy p 6 (the DestinationMACAddress) M)"

definition SetSourceMACAddressInto80211eDLSResponseFrameBody :: "ptr \<Rightarrow> u8 list option \<Rightarrow> buf \<Rightarrow> abort + buf" where
  "SetSourceMACAddressInto80211eDLSResponseFrameBody Body SourceMACAddress M =
     (if Body = None \<or> SourceMACAddress = None then Inr M
      else let p = body_at Body (1 + 1 + 2 + 6) in bcopy p 6 (the SourceMACAddress) M)"

definition SetCapabilityInfoInto80211eDLSResponseFrameBody :: "ptr \<Rightarrow> bool \<Rightarrow> bool \<Rightarrow> bool \<Rightarrow> bool \<Rightarrow> bool \<Rightarrow>
    bool \<Rightarrow> bool \<Rightarrow> bool \<Rightarrow> bool \<Rightarrow> bool \<Rightarrow> bool \<Rightarrow> bool \<Rightarrow> bool \<Rightarrow> bool \<Rightarrow> bool \<Rightarrow> buf \<Rightarrow> abort + buf" where
  "SetCapabilityInfoInto80211eDLSResponseFrameBody Body ESS IBSS CF_Pollable CF_Poll_Request Privacy
      ShortPreamble PBCC ChannelAgility SpectrumManagement QoS ShortSlotTime APSD DSSS_OFDM
      DelayedBloackAck ImmediateBlockAck M =
     (if Body = None then Inr M
      else let p = body_at Body (1 + 1 + 2 + 6 + 6) in run (capability_writes p ESS IBSS CF_Pollable
          CF_Poll_Request Privacy ShortPreamble PBCC ChannelAgility SpectrumManagement QoS ShortSlotTime
          APSD DSSS_OFDM DelayedBloackAck ImmediateBlockAck) M)"

definition SetSupportedRatesInto80211eDLSResponseFrameBody :: "ptr \<Rightarrow> u32 \<Rightarrow> u8 list option \<Rightarrow> buf \<Rightarrow> abort +
    buf" where
  "SetSupportedRatesInto80211eDLSResponseFrameBody Body SupportedRates_Len SupportedRates M =
     (if Body = None \<or> SupportedRates = None then Inr M
      else let p = body_at Body (1 + 1 + 2 + 6 + 6 + 2) in
        run [put8 p ELEMENT_ID_SUPPORTED_RATES, put8 (p + 1) (ucast SupportedRates_Len),
             bcopy_len (p + 2) (p + 1) (the SupportedRates)] M)"

definition SetExtendedSupportedRatesInto80211eDLSResponseFrameBody :: "ptr \<Rightarrow> u32 \<Rightarrow> u32 \<Rightarrow> u8 list option \<Rightarrow>
    buf \<Rightarrow> abort + buf" where
  "SetExtendedSupportedRatesInto80211eDLSResponseFrameBody Body SupportedRates_Len
      ExtendedSupportedRates_Len ExtendedSupportedRates M =
     (if Body = None \<or> ExtendedSupportedRates = None then Inr M
      else let p = body_at Body (1 + 1 + 2 + 6 + 6 + 2 + (2 + SupportedRates_Len)) in
        run [put8 p ELEMENT_ID_EXTENDED_SUPPORTED_RATES, put8 (p + 1) (ucast ExtendedSupportedRates_Len),
             bcopy_len (p + 2) (p + 1) (the ExtendedSupportedRates)] M)"

definition GetStatusCodeFrom80211eDLSResponseFrameBody :: "ptr \<Rightarrow> u16 option \<Rightarrow> buf \<Rightarrow> abort + u16 option" where
  "GetStatusCodeFrom80211eDLSResponseFrameBody Body StatusCode M =
     (if Body = None \<or> StatusCode = None then Inr StatusCode
      else map_sum id Some (get16 (body_at Body (1 + 1)) M))"

definition GetDestinationMACAddressFrom80211eDLSResponseFrameBody :: "ptr \<Rightarrow> u8 list option \<Rightarrow> buf \<Rightarrow> abort +
    u8 list option" where
  "GetDestinationMACAddressFrom80211eDLSResponseFrameBody Body DestinationMACAddress M =
     (if Body = None \<or> DestinationMACAddress = None then Inr DestinationMACAddress
      else map_sum id Some (get_bytes 6 (body_at Body (1 + 1 + 2)) M))"

definition GetSourceMACAddressFrom80211eDLSResponseFrameBody :: "ptr \<Rightarrow> u8 list option \<Rightarrow> buf \<Rightarrow> abort + u8
    list option" where
  "GetSourceMACAddressFrom80211eDLSResponseFrameBody Body SourceMACAddress M =
     (if Body = None \<or> SourceMACAddress = None then Inr SourceMACAddress
      else map_sum id Some (get_bytes 6 (body_at Body (1 + 1 + 2 + 6)) M))"

definition GetCapabilityInfoFrom80211eDLSResponseFrameBody :: "ptr \<Rightarrow> buf \<Rightarrow> abort + ptr" where
  "GetCapabilityInfoFrom80211eDLSResponseFrameBody Body M =
     (if Body = None then Inr None
      else Inr (Some (body_at Body (1 + 1 + 2 + 6 + 6))))"

definition GetSupportedRatesFrom80211eDLSResponseFrameBody :: "ptr \<Rightarrow> u32 option \<Rightarrow> buf \<Rightarrow> abort + (ptr \<times> u32
    option)" where
  "GetSupportedRatesFrom80211eDLSResponseFrameBody Body SupportedRates_Len M =
     (if Body = None \<or> SupportedRates_Len = None then Inr (None, SupportedRates_Len)
      else let p = body_at Body (1 + 1 + 2 + 6 + 6 + 2) in
        map_sum id (\<lambda>b. (Some (p + 2), Some (char_uint b))) (get8 (p + 1) M))"

definition GetExtendedSupportedRatesFrom80211eDLSResponseFrameBody :: "ptr \<Rightarrow> u32 \<Rightarrow> u32 option \<Rightarrow> buf \<Rightarrow> abort
    + (ptr \<times> u32 option)" where
  "GetExtendedSupportedRatesFrom80211eDLSResponseFrameBody Body SupportedRates_Len
      ExtendedSupportedRates_Len M =
     (if Body = None \<or> ExtendedSupportedRates_Len = None then Inr (None, ExtendedSupportedRates_Len)
      else let p = body_at Body (1 + 1 + 2 + 6 + 6 + 2 + (2 + SupportedRates_Len)) in
        map_sum id (\<lambda>b. (Some (p + 2), Some (char_uint b))) (get8 (p + 1) M))"

definition Calculate80211eDLSTeardownFrameBodyLength :: "u32" where
  "Calculate80211eDLSTeardownFrameBodyLength =
     1 + 1 + 6 + 6 + 2"

definition SetDestinationMACAddressInto80211eDLSTeardownFrameBody :: "ptr \<Rightarrow> u8 list option \<Rightarrow> buf \<Rightarrow> abort +
    buf" where
  "SetDestinationMACAddressInto80211eDLSTeardownFrameBody Body DestinationMACAddress M =
     (if Body = None \<or> DestinationMACAddress = None then Inr M
      else let p = body_at Body (1 + 1) in bcopy p 6 (the DestinationMACAddress) M)"

definition SetSourceMACAddressInto80211eDLSTeardownFrameBody :: "ptr \<Rightarrow> u8 list option \<Rightarrow> buf \<Rightarrow> abort + buf" where
  "SetSourceMACAddressInto80211eDLSTeardownFrameBody Body SourceMACAddress M =
     (if Body = None \<or> SourceMACAddress = None then Inr M
      else let p = body_at Body (1 + 1 + 6) in bcopy p 6 (the SourceMACAddress) M)"

definition SetReasonCodeInto80211eDLSTeardownFrameBody :: "ptr \<Rightarrow> u16 option \<Rightarrow> buf \<Rightarrow> abort + buf" where
  "SetReasonCodeInto80211eDLSTeardownFrameBody Body ReasonCode M =
     (if Body = None \<or> ReasonCode = None then Inr M
      else let p = body_at Body (1 + 1 + 6 + 6) in bcopy p 2 (le16 (the ReasonCode)) M)"

definition GetDestinationMACAddressFrom80211eDLSTeardownFrameBody :: "ptr \<Rightarrow> u8 list option \<Rightarrow> buf \<Rightarrow> abort +
    u8 list option" where
  "GetDestinationMACAddressFrom80211eDLSTeardownFrameBody Body DestinationMACAddress M =
     (if Body = None \<or> DestinationMACAddress = None then Inr DestinationMACAddress
      else map_sum id Some (get_bytes 6 (body_at Body (1 + 1)) M))"

definition GetSourceMACAddressFrom80211eDLSTeardownFrameBody :: "ptr \<Rightarrow> u8 list option \<Rightarrow> buf \<Rightarrow> abort + u8
    list option" where
  "GetSourceMACAddressFrom80211eDLSTeardownFrameBody Body SourceMACAddress M =
     (if Body = None \<or> SourceMACAddress = None then Inr SourceMACAddress
      else map_sum id Some (get_bytes 6 (body_at Body (1 + 1 + 6)) M))"

definition GetReasonCodeFrom80211eDLSTeardownFrameBody :: "ptr \<Rightarrow> u16 option \<Rightarrow> buf \<Rightarrow> abort + u16 option" where
  "GetReasonCodeFrom80211eDLSTeardownFrameBody Body ReasonCode M =
     (if Body = None \<or> ReasonCode = None then Inr ReasonCode
      else map_sum id Some (get16 (body_at Body (1 + 1 + 6 + 6)) M))"

definition Calculate80211eADDBARequestFrameBodyLength :: "u32" where
  "Calculate80211eADDBARequestFrameBodyLength =
     1 + 1 + 1 + 2 + 2 + 2"

definition SetDialogTokenInto80211eADDBARequestFrameBody :: "ptr \<Rightarrow> u8 \<Rightarrow> buf \<Rightarrow> abort + buf" where
  "SetDialogTokenInto80211eADDBARequestFrameBody Body DialogToken M =
     (if Body = None then Inr M
      else let p = body_at Body (1 + 1) in put8 p DialogToken M)"

definition SetBlockAckParameterSetInto80211eADDBARequestFrameBody :: "ptr \<Rightarrow> bool \<Rightarrow> u8 \<Rightarrow> u16 option \<Rightarrow> buf \<Rightarrow>
    abort + buf" where
  "SetBlockAckParameterSetInto80211eADDBARequestFrameBody Body BlockAckPolicy TID BufferSize M =
     (if Body = None \<or> BufferSize = None then Inr M
      else let p = body_at Body (1 + 1 + 1) in run (block_ack_params p BlockAckPolicy TID (the BufferSize)) M)"

definition SetBlockAckTimeoutValueInto80211eADDBARequestFrameBody :: "ptr \<Rightarrow> u16 option \<Rightarrow> buf \<Rightarrow> abort + buf"
    where
  "SetBlockAckTimeoutValueInto80211eADDBARequestFrameBody Body BlockAckTimeoutValue M =
     (if Body = None \<or> BlockAckTimeoutValue = None then Inr M
      else let p = body_at Body (1 + 1 + 1 + 2) in bcopy p 2 (le16 (the BlockAckTimeoutValue)) M)"

definition SetBlockAckStartingSequenceControlInto80211eADDBARequestFrameBody :: "ptr \<Rightarrow> u16 option \<Rightarrow> u16
    option \<Rightarrow> buf \<Rightarrow> abort + buf" where
  "SetBlockAckStartingSequenceControlInto80211eADDBARequestFrameBody Body FragmentNumber
      StartingSequenceNumber M =
     (if Body = None \<or> FragmentNumber = None \<or> StartingSequenceNumber = None then Inr M
      else let p = body_at Body (1 + 1 + 1 + 2 + 2);
               f = le16 (the FragmentNumber); s = le16 (the StartingSequenceNumber) in
        run [put8 p ((push_bit 4 (f ! 0) AND 0xf0) OR (s ! 1 AND 0x0f)), put8 (p + 1) (s ! 0)] M)"

definition GetDialogTokenFrom80211eADDBARequestFrameBody :: "ptr \<Rightarrow> u8 option \<Rightarrow> buf \<Rightarrow> abort + u8 option" where
  "GetDialogTokenFrom80211eADDBARequestFrameBody Body DialogToken M =
     (if Body = None \<or> DialogToken = None then Inr DialogToken
      else map_sum id Some (get8 (body_at Body (1 + 1)) M))"

definition GetBlockAckParameterSetFrom80211eADDBARequestFrameBody :: "ptr \<Rightarrow> buf \<Rightarrow> abort + ptr" where
  "GetBlockAckParameterSetFrom80211eADDBARequestFrameBody Body M =
     (if Body = None then Inr None
      else Inr (Some (body_at Body (1 + 1 + 1))))"

definition GetBlockAckTimeoutValueFrom80211eADDBARequestFrameBody :: "ptr \<Rightarrow> u16 option \<Rightarrow> buf \<Rightarrow> abort + u16
    option" where
  "GetBlockAckTimeoutValueFrom80211eADDBARequestFrameBody Body BlockAckTimeoutValue M =
     (if Body = None \<or> BlockAckTimeoutValue = None then Inr BlockAckTimeoutValue
      else map_sum id Some (get16 (body_at Body (1 + 1 + 1 + 2)) M))"

definition GetBlockAckStartingSequenceControlFrom80211eADDBARequestFrameBody :: "ptr \<Rightarrow> buf \<Rightarrow> abort + ptr" where
  "GetBlockAckStartingSequenceControlFrom80211eADDBARequestFrameBody Body M =
     (if Body = None then Inr None
      else Inr (Some (body_at Body (1 + 1 + 1 + 2 + 2))))"

definition Calculate80211eADDBAResponseFrameBodyLength :: "u32" where
  "Calculate80211eADDBAResponseFrameBodyLength =
     1 + 1 + 1 + 2 + 2 + 2"

definition SetDialogTokenInto80211eADDBAResponseFrameBody :: "ptr \<Rightarrow> u8 \<Rightarrow> buf \<Rightarrow> abort + buf" where
  "SetDialogTokenInto80211eADDBAResponseFrameBody Body DialogToken M =
     (if Body = None then Inr M
      else let p = body_at Body (1 + 1) in put8 p DialogToken M)"

definition SetStatusCodeInto80211eADDBAResponseFrameBody :: "ptr \<Rightarrow> u16 option \<Rightarrow> buf \<Rightarrow> abort + buf" where
  "SetStatusCodeInto80211eADDBAResponseFrameBody Body StatusCode M =
     (if Body = None \<or> StatusCode = None then Inr M
      else let p = body_at Body (1 + 1 + 1) in bcopy p 2 (le16 (the StatusCode)) M)"

definition SetBlockAckParameterSetInto80211eADDBAResponseFrameBody :: "ptr \<Rightarrow> bool \<Rightarrow> u8 \<Rightarrow> u16 option \<Rightarrow> buf \<Rightarrow>
    abort + buf" where
  "SetBlockAckParameterSetInto80211eADDBAResponseFrameBody Body BlockAckPolicy TID BufferSize M =
     (if Body = None \<or> BufferSize = None then Inr M
      else let p = body_at Body (1 + 1 + 1 + 2) in run (block_ack_params p BlockAckPolicy TID (the
          BufferSize)) M)"

definition SetBlockAckTimeoutValueInto80211eADDBAResponseFrameBody :: "ptr \<Rightarrow> u16 option \<Rightarrow> buf \<Rightarrow> abort +
    buf" where
  "SetBlockAckTimeoutValueInto80211eADDBAResponseFrameBody Body BlockAckTimeoutValue M =
     (if Body = None \<or> BlockAckTimeoutValue = None then Inr M
      else let p = body_at Body (1 + 1 + 1 + 2 + 2) in bcopy p 2 (le16 (the BlockAckTimeoutValue)) M)"

definition GetDialogTokenFrom80211eADDBAResponseFrameBody :: "ptr \<Rightarrow> u8 option \<Rightarrow> buf \<Rightarrow> abort + u8 option" where
  "GetDialogTokenFrom80211eADDBAResponseFrameBody Body DialogToken M =
     (if Body = None \<or> DialogToken = None then Inr DialogToken
      else map_sum id Some (get8 (body_at Body (1 + 1)) M))"

definition GetStatusCodeFrom80211eADDBAResponseFrameBody :: "ptr \<Rightarrow> u16 option \<Rightarrow> buf \<Rightarrow> abort + u16 option" where
  "GetStatusCodeFrom80211eADDBAResponseFrameBody Body StatusCode M =
     (if Body = None \<or> StatusCode = None then Inr StatusCode
      else map_sum id Some (get16 (body_at Body (1 + 1 + 1)) M))"

definition GetBlockAckParameterSetFrom80211eADDBAResponseFrameBody :: "ptr \<Rightarrow> buf \<Rightarrow> abort + ptr" where
  "GetBlockAckParameterSetFrom80211eADDBAResponseFrameBody Body M =
     (if Body = None then Inr None
      else Inr (Some (body_at Body (1 + 1 + 1 + 2))))"

definition GetBlockAckTimeoutValueFrom80211eADDBAResponseFrameBody :: "ptr \<Rightarrow> u16 option \<Rightarrow> buf \<Rightarrow> abort + u16
    option" where
  "GetBlockAckTimeoutValueFrom80211eADDBAResponseFrameBody Body BlockAckTimeoutValue M =
     (if Body = None \<or> BlockAckTimeoutValue = None then Inr BlockAckTimeoutValue
      else map_sum id Some (get16 (body_at Body (1 + 1 + 1 + 2 + 2)) M))"

definition Calculate80211eDELBAFrameBodyLength :: "u32" where
  "Calculate80211eDELBAFrameBodyLength =
     1 + 1 + 2 + 2"

definition SetDELBAParameterSetInto80211eDELBAFrameBody :: "ptr \<Rightarrow> bool \<Rightarrow> u8 \<Rightarrow> buf \<Rightarrow> abort + buf" where
  "SetDELBAParameterSetInto80211eDELBAFrameBody Body Initiator TID M =
     (if Body = None then Inr M
      else let p = body_at Body (1 + 1) in
        run [put8 p 0x00, put8 (p + 1) (TID AND 0x0f), set_flag (p + 1) Initiator 0x10 0xef] M)"

definition SetReasonCodeInto80211eDELBAFrameBody :: "ptr \<Rightarrow> u16 option \<Rightarrow> buf \<Rightarrow> abort + buf" where
  "SetReasonCodeInto80211eDELBAFrameBody Body ReasonCode M =
     (if Body = None \<or> ReasonCode = None then Inr M
      else let p = body_at Body (1 + 1 + 2) in bcopy p 2 (le16 (the ReasonCode)) M)"

definition GetDELBAParameterSetFrom80211eDELBAFrameBody :: "ptr \<Rightarrow> buf \<Rightarrow> abort + ptr" where
  "GetDELBAParameterSetFrom80211eDELBAFrameBody Body M =
     (if Body = None then Inr None
      else Inr (Some (body_at Body (1 + 1))))"

definition GetReasonCodeFrom80211eDELBAFrameBody :: "ptr \<Rightarrow> u16 option \<Rightarrow> buf \<Rightarrow> abort + u16 option" where
  "GetReasonCodeFrom80211eDELBAFrameBody Body ReasonCode M =
     (if Body = None \<or> ReasonCode = None then Inr ReasonCode
      else map_sum id Some (get16 (body_at Body (1 + 1 + 2)) M))"

end
