(* ===== verification/Spec2Isabelle.thy ===== *)
theory Spec2Isabelle
  imports EventFuncs PacketInfo DrrModule SpanningTree ChannelCoding
    BeaconLayout FrameFields Association80211e DirectLink80211e
begin

text \<open>
  The core of the NCTUns 6.0 network simulator (\<open>src/NCTUns-6.0/src/nctuns\<close>).

  The simulator is a discrete event simulator.  Everything that happens is an event with a timestamp,
  kept in a heap or, for timers, in a sorted list; the event loop takes the earliest event, sets the
  clock to its time and calls the function in it.  What is simulated are modules (the protocol layers
  of a node), linked by binders: a packet goes from module to module with \<open>put\<close> and \<open>get\<close>, and waits
  in a binder when the next module is busy.

  Theories and the code they model:
  \<^item> \<open>Prelude\<close>: addresses, machine integers, the ways a call ends, generic lemmas.
  \<^item> \<open>QueueSpecs\<close>: the locales \<open>event_queue\<close> and \<open>fifo_queue\<close>, the contracts of the queues below.
  \<^item> \<open>EventStore\<close>: \<open>event.h\<close> and the event functions of \<open>nctuns_api.cc\<close>.
  \<^item> \<open>EventHeap\<close>: \<open>heap.cc\<close>; \<open>TimerQueue\<close>, \<open>Scheduler\<close>: \<open>scheduler.cc\<close>; \<open>Timers\<close>: \<open>timer.cc\<close>;
    \<open>EventFuncs\<close>: \<open>event.cc\<close>.
  \<^item> \<open>ModuleBinder\<close>: \<open>mbinder.cc\<close> and \<open>RegToMBPoller\<close>; \<open>ModuleObject\<close>: \<open>object.cc\<close>.
  \<^item> \<open>PacketBuffer\<close>, \<open>PacketSharing\<close>, \<open>PacketInfo\<close>: \<open>packet.cc\<close> and the packet functions of
    \<open>nctuns_api.cc\<close>.
  \<^item> \<open>Fifo\<close>: \<open>module/ps/fifo\<close>; \<open>Drr\<close> (flows, queues, upcall and timer), \<open>DrrService\<close> (rounds of service) and
    \<open>DrrModule\<close> (the module in its node): \<open>module/ps/drr\<close>; \<open>SwitchTable\<close>, \<open>Switch\<close>, \<open>SpanningTree\<close>: \<open>module/sw\<close>.
  \<^item> \<open>GaloisField\<close>, \<open>ReedSolomon\<close>: \<open>module/wimax/phy/fec/rs\<close>; \<open>ConvCode\<close>, \<open>Viterbi\<close>:
    \<open>module/wimax/phy/fec/cc\<close>; \<open>ChannelCoding\<close>: \<open>module/wimax/phy/channel_coding.cc\<close>.
  \<^item> \<open>FrameBody\<close> (memory, constants, parts of several frames), \<open>Elements80211e\<close> (fields of elements), \<open>Beacon80211e\<close>,
    \<open>Association80211e\<close>, \<open>Probe80211e\<close>, \<open>TrafficStream80211e\<close>, \<open>DirectLink80211e\<close>: the functions of
    \<open>protocol_HEADER/mac-802_11e_management_framebody.cc\<close>, under their names in the code; \<open>FrameLayout\<close>,
    \<open>BeaconLayout\<close>, \<open>FrameFields\<close>: what they write and read.

  How the model corresponds to the code.  A C++ object or structure is a record, a pointer is an
  address and \<open>NULL\<close> is 0; objects reached by pointers are in stores, functions from addresses.
  Events and packets that wait are chains through \<open>next_ep\<close>, so freeing or queueing one twice shows.
  64-bit times and 32-bit flags are words and wrap around.  A call that may end the process
  (\<open>exit\<close>, a failed \<open>assert\<close>, a null pointer) gives \<open>Inl\<close> of how, otherwise \<open>Inr\<close> of result and new
  state.  A loop over a pointer chain is a partial function and gives \<open>None\<close> where the code never
  returns; that the calls return is proved, so no fuel is used.

  What the lemmas show: the heap and the timer list implement an event queue (\<open>eh\<close>, \<open>tq\<close>
  interpret \<open>event_queue\<close>), so events come out in the order of time and the clock never goes back;
  what the event loop does with callouts that keep the contract of the locale \<open>handlers\<close>; a timer is
  queued at most once and pausing keeps the time left; a binder loses no packet and serves by level;
  shared buffers are given back with their last user; information and data of packets are read as they
  were written; the interface queue is first in, first out (\<open>ifq\<close> interprets \<open>fifo_queue\<close>); the
  switch forwards as a learning bridge and its record of the spanning tree is the best it heard;
  the tables of the Reed-Solomon code are a field, words of the encoder have no syndrome, and the
  decoder corrects a wrong byte; the Viterbi decoder of the convolutional code returns what was
  encoded; in the modes with all Reed-Solomon parity or none a burst comes through the channel coding;
  the round robin of \<open>drr\<close> serves every flow (\<open>dq\<close> interprets \<open>event_queue\<close>) with a share that depends on the
  quantum only, as long as no packet is longer than the quantum; the setters of a beacon write the
  concatenation of its parts into the length calculated for it, the getters find every part whichever are left
  out, and a traffic specification is read back as far as its fields can hold it.

  Not modelled: the Tcl interpreter and the sockets of the GUI, the coordinator and the dispatcher
  (I/O), the kernel patch, the protocol modules other than those above, and vendored code.  Code of
  modules that is called through virtual functions is a parameter of the definitions that call it.
\<close>

end
